(* ===== verification/Mango_Prelude.thy ===== *)
theory Mango_Prelude
  imports Main "HOL-Library.Word" "HOL-Library.AList" "HOL-Library.Multiset"
begin

text \<open>
  Shared vocabulary of the development: the machine types of Go that the sources use, the
  outcome type of a Go call (a value, an error, a panic), Go's builtins on byte slices, and
  the interfaces (locales) that several components implement:
  \<^item> \<open>first_wins_registry\<close>: tables that refuse a second registration of a key;
  \<^item> \<open>last_wins_registry\<close>: tables in which a later registration replaces an earlier one;
  \<^item> \<open>invariant_system\<close>: a state with operations that always return and keep an invariant.
  A Go map whose iteration order or size matters is an association list with distinct keys.
  Where it is iterated over several times, each \<open>range\<close> has an order of its own (\<open>ranged\<close>); where
  it is iterated over once, the order of the list stands for the (unspecified) order of the run.
  Other maps are partial functions.
\<close>

named_theorems go_simps \<open>unfolding rules of the Go builtins and outcome type\<close>
named_theorems inv_rules \<open>preservation of the components' invariants by their operations\<close>

section \<open>Machine types and outcomes\<close>

type_synonym byte = "8 word"
type_synonym u32 = "32 word"
type_synonym u64 = "64 word"

text \<open>
  What a call may do: return a value, return an error, or panic.  A call that blocks or loops
  for ever is the value \<open>None\<close> around this type.
\<close>

datatype ('e, 'a) res = Ok 'a | Fail 'e | Panic

primrec res_bind :: "('e, 'a) res \<Rightarrow> ('a \<Rightarrow> ('e, 'b) res) \<Rightarrow> ('e, 'b) res" where
  "res_bind (Ok x) f = f x"
| "res_bind (Fail e) f = Fail e"
| "res_bind Panic f = Panic"

lemma res_bind_Ok_iff [go_simps]:
  "res_bind r f = Ok y \<longleftrightarrow> (\<exists>x. r = Ok x \<and> f x = Ok y)"
  by (cases r) auto

lemma res_bind_Panic_iff [go_simps]:
  "res_bind r f = Panic \<longleftrightarrow> r = Panic \<or> (\<exists>x. r = Ok x \<and> f x = Panic)"
  by (cases r) auto

text \<open>Signed 64-bit arithmetic of Go's \<open>int\<close> and \<open>int64\<close>, on HOL integers.\<close>

definition int64 :: "int \<Rightarrow> int" where
  "int64 x = signed_take_bit 63 x"

lemma int64_id [simp]: "- (2 ^ 63) \<le> x \<Longrightarrow> x < 2 ^ 63 \<Longrightarrow> int64 x = x"
  by (simp add: int64_def signed_take_bit_int_eq_self)

text \<open>Go's integer division truncates towards zero.\<close>

definition go_div :: "int \<Rightarrow> int \<Rightarrow> int" where
  "go_div a b = sgn a * sgn b * (\<bar>a\<bar> div \<bar>b\<bar>)"

lemma go_div_nonneg [simp]: "0 \<le> a \<Longrightarrow> 0 < b \<Longrightarrow> go_div a b = a div b"
  by (cases "a = 0") (auto simp: go_div_def)

section \<open>Builtins on slices\<close>

text \<open>\<open>make([]byte, n)\<close>: a zeroed slice; a negative length panics.\<close>

definition go_make :: "int \<Rightarrow> ('e, byte list) res" where
  "go_make n = (if n < 0 then Panic else Ok (replicate (nat n) 0))"

text \<open>
  \<open>copy(dst[off:], src)\<close>: overwrites from \<open>off\<close> on as much as fits, and returns the number of
  bytes copied.  The slice expression \<open>dst[off:]\<close> panics when \<open>off\<close> is past the end.
\<close>

definition go_copy :: "byte list \<Rightarrow> nat \<Rightarrow> byte list \<Rightarrow> ('e, nat \<times> byte list) res" where
  "go_copy dst off src =
     (if length dst < off then Panic
      else let n = min (length dst - off) (length src)
           in Ok (n, take off dst @ take n src @ drop (off + n) dst))"

text \<open>\<open>data[lo:hi]\<close> on a slice whose capacity is its length.\<close>

definition go_slice :: "'a list \<Rightarrow> nat \<Rightarrow> nat \<Rightarrow> ('e, 'a list) res" where
  "go_slice xs lo hi =
     (if lo \<le> hi \<and> hi \<le> length xs then Ok (take (hi - lo) (drop lo xs)) else Panic)"

lemma go_make_length: "go_make n = Ok bs \<Longrightarrow> length bs = nat n"
  by (auto simp: go_make_def split: if_splits)

lemma go_copy_length: "go_copy dst off src = Ok (n, dst') \<Longrightarrow> length dst' = length dst"
  by (auto simp: go_copy_def Let_def split: if_splits)

lemma go_copy_append:
  assumes "off = length pre"
  shows "go_copy (pre @ rest) off src =
    Ok (min (length rest) (length src), pre @ take (length rest) src @ drop (length src) rest)"
  using assms by (auto simp: go_copy_def Let_def min_def)

lemma go_slice_Ok [go_simps]:
  "lo \<le> hi \<Longrightarrow> hi \<le> length xs \<Longrightarrow> go_slice xs lo hi = Ok (take (hi - lo) (drop lo xs))"
  by (simp add: go_slice_def)

section \<open>Lists and association lists\<close>

lemma distinct_same_set_length:
  "distinct xs \<Longrightarrow> distinct ys \<Longrightarrow> set xs = set ys \<Longrightarrow> length xs = length ys"
  by (metis distinct_card)

text \<open>The number of elements with a property after one of them has changed.\<close>

lemma count_update:
  assumes "i < length xs"
  shows "length (filter P (xs[i := y])) + (if P (xs ! i) then 1 else 0)
    = length (filter P xs) + (if P y then 1 else 0)"
  using assms by (subst (2) id_take_nth_drop [OF assms]) (simp add: upd_conv_take_nth_drop)

lemma length_filter_mono:
  "(\<And>x. P x \<Longrightarrow> Q x) \<Longrightarrow> length (filter P xs) \<le> length (filter Q xs)"
  by (induction xs) (auto intro: le_SucI)

lemma int64_int64_add [simp]: "int64 (int64 a + b) = int64 (a + b)"
  and int64_int64_diff [simp]: "int64 (int64 a - b) = int64 (a - b)"
  by (simp_all add: int64_def signed_take_bit_int_eq_self_iff)
    (metis signed_take_bit_add signed_take_bit_diff signed_take_bit_signed_take_bit min.idem)+

lemma map_of_AList_update [simp]: "map_of (AList.update k v al) = (map_of al)(k \<mapsto> v)"
  by (simp add: update_conv')

lemma map_of_AList_delete [simp]: "map_of (AList.delete k al) = (map_of al)(k := None)"
  by (simp add: delete_conv')

lemma AList_delete_split:
  assumes "distinct (map fst al)" and "map_of al k = Some v"
  obtains al1 al2 where "al = al1 @ (k, v) # al2" and "AList.delete k al = al1 @ al2"
proof -
  from assms(2) have "(k, v) \<in> set al" by (rule map_of_SomeD)
  then obtain al1 al2 where al: "al = al1 @ (k, v) # al2" by (auto dest: split_list)
  with assms(1) have "k \<notin> fst ` set al1" and "k \<notin> fst ` set al2" by force+
  then have "AList.delete k al1 = al1" and "AList.delete k al2 = al2"
    by simp_all
  then have "AList.delete k al = al1 @ al2"
    by (simp add: al AList.delete_eq)
  with al show ?thesis by (rule that)
qed

lemma length_AList_delete:
  assumes "distinct (map fst al)" and "map_of al k = Some v"
  shows "length al = Suc (length (AList.delete k al))"
proof -
  from assms obtain al1 al2
    where "al = al1 @ (k, v) # al2" and del: "AList.delete k al = al1 @ al2"
    by (rule AList_delete_split)
  then show ?thesis by (simp only: del) simp
qed

lemma sum_list_AList_delete:
  fixes f :: "'k \<times> 'v \<Rightarrow> int"
  assumes "distinct (map fst al)" and "map_of al k = Some v"
  shows "sum_list (map f (AList.delete k al)) = sum_list (map f al) - f (k, v)"
proof -
  from assms obtain al1 al2
    where "al = al1 @ (k, v) # al2" and del: "AList.delete k al = al1 @ al2"
    by (rule AList_delete_split)
  then show ?thesis by (simp only: del) simp
qed

lemma sum_list_AList_update:
  fixes f :: "'k \<times> 'v \<Rightarrow> int"
  shows "map_of al k = Some v \<Longrightarrow>
    sum_list (map f (AList.update k w al)) = sum_list (map f al) - f (k, v) + f (k, w)"
  by (induction al) (auto split: if_splits)

lemma length_AList_update: "k \<in> fst ` set al \<Longrightarrow> length (AList.update k v al) = length al"
  by (induction al) auto

lemma AList_update_fresh: "k \<notin> fst ` set al \<Longrightarrow> AList.update k v al = al @ [(k, v)]"
  by (induction al) auto

section \<open>Iteration over a Go map\<close>

text \<open>
  Go does not fix the order in which \<open>range\<close> visits a map, and two loops over the same map may
  differ.  \<open>rank\<close> says in which place the loop at hand visits a key; every order arises from one.
\<close>

type_synonym rank = "string \<Rightarrow> nat"

definition ranged :: "rank \<Rightarrow> (string \<times> 'a) list \<Rightarrow> (string \<times> 'a) list" where
  "ranged rank kvs = sort_key (rank \<circ> fst) kvs"

lemma mset_ranged [simp]: "mset (ranged r kvs) = mset kvs"
  by (simp add: ranged_def)

lemma set_ranged [simp]: "set (ranged r kvs) = set kvs"
  by (simp add: ranged_def)

lemma ranged_Nil [simp]: "ranged r [] = []" and ranged_single [simp]: "ranged r [kv] = [kv]"
  by (simp_all add: ranged_def)

lemma distinct_ranged [simp]: "distinct (map fst (ranged r kvs)) = distinct (map fst kvs)"
proof -
  have "mset (map fst (ranged r kvs)) = mset (map fst kvs)" by simp
  then show ?thesis by (rule mset_eq_imp_distinct_iff)
qed

lemma ranged_all_orders:
  assumes "mset kvs' = mset kvs" and "distinct (map fst kvs)"
  shows "\<exists>r. ranged r kvs = kvs'"
proof -
  let ?r = "\<lambda>k. length (takeWhile (\<lambda>k'. k' \<noteq> k) (map fst kvs'))"
  have "mset (map fst kvs') = mset (map fst kvs)" using assms(1) by simp
  from mset_eq_imp_distinct_iff [OF this] assms(2) have dist: "distinct (map fst kvs')" by simp
  have place: "?r (fst (kvs' ! i)) = i" if "i < length kvs'" for i
  proof -
    have "takeWhile (\<lambda>k'. k' \<noteq> fst (kvs' ! i)) (map fst kvs') = take i (map fst kvs')"
      using that nth_eq_iff_index_eq [OF dist] by (intro takeWhile_eq_take_P_nth) fastforce+
    with that show ?thesis by simp
  qed
  have "map (?r \<circ> fst) kvs' = [0..<length kvs']" by (rule nth_equalityI) (simp_all add: place)
  then have "sorted (map (?r \<circ> fst) kvs')" by simp
  moreover have "inj_on (?r \<circ> fst) (set kvs)"
  proof (rule inj_onI)
    fix x y assume "x \<in> set kvs" and "y \<in> set kvs" and eq: "(?r \<circ> fst) x = (?r \<circ> fst) y"
    then have "x \<in> set kvs'" and "y \<in> set kvs'" using mset_eq_setD [OF assms(1)] by simp_all
    then obtain i j where "i < length kvs'" "x = kvs' ! i" "j < length kvs'" "y = kvs' ! j"
      by (metis in_set_conv_nth)
    with eq place [of i] place [of j] show "x = y" by simp
  qed
  ultimately have "ranged ?r kvs = kvs'"
    unfolding ranged_def using assms(1) by (intro sort_key_inj_key_eq) simp_all
  then show ?thesis by blast
qed

section \<open>Interfaces\<close>

subsection \<open>Registries\<close>

text \<open>
  A table that refuses a key it already holds, and values that are not admissible.  The client
  side: after registering a list of pairs in turn, whatever errors were returned, a key is
  bound to what it was bound to before, or else to the first admissible value given for it.
\<close>

fun register_all :: "('k \<Rightarrow> 'v \<Rightarrow> 's \<Rightarrow> 'e option \<times> 's) \<Rightarrow> ('k \<times> 'v) list \<Rightarrow> 's \<Rightarrow> 's" where
  "register_all reg [] s = s"
| "register_all reg ((k, v) # kvs) s = register_all reg kvs (snd (reg k v s))"

locale first_wins_registry =
  fixes reg :: "'k \<Rightarrow> 'v \<Rightarrow> 's \<Rightarrow> 'e option \<times> 's"
    and find :: "'s \<Rightarrow> 'k \<Rightarrow> 'v option"
    and admissible :: "'v \<Rightarrow> bool"
  assumes reg_fresh: "find s k = None \<Longrightarrow> admissible v \<Longrightarrow>
      fst (reg k v s) = None \<and> find (snd (reg k v s)) = (find s)(k \<mapsto> v)"
    and reg_dup: "find s k = Some w \<Longrightarrow> fst (reg k v s) \<noteq> None \<and> snd (reg k v s) = s"
    and reg_bad: "\<not> admissible v \<Longrightarrow> fst (reg k v s) \<noteq> None \<and> snd (reg k v s) = s"
begin

lemma find_reg:
  "find (snd (reg k v s)) =
     (if find s k = None \<and> admissible v then (find s)(k \<mapsto> v) else find s)"
proof (cases "find s k")
  case None
  then show ?thesis using reg_fresh reg_bad by (cases "admissible v") (auto simp del: fun_upd_apply)
next
  case (Some w)
  then show ?thesis using reg_dup by auto
qed

lemma reg_ok_iff: "fst (reg k v s) = None \<longleftrightarrow> find s k = None \<and> admissible v"
  using reg_fresh reg_dup reg_bad by (metis not_None_eq)

lemma find_register_all:
  "find (register_all reg kvs s) k =
     (case find s k of
        Some v \<Rightarrow> Some v
      | None \<Rightarrow> map_of (filter (\<lambda>p. admissible (snd p)) kvs) k)"
proof (induction kvs arbitrary: s)
  case (Cons p kvs)
  obtain k' v' where p: "p = (k', v')" by (cases p)
  show ?case
    by (simp add: p Cons.IH find_reg split: option.split)
qed (simp split: option.split)

end

text \<open>A table in which the last registration of a key counts.\<close>

locale last_wins_registry =
  fixes put :: "'k \<Rightarrow> 'v \<Rightarrow> 's \<Rightarrow> 's"
    and find :: "'s \<Rightarrow> 'k \<Rightarrow> 'v option"
  assumes find_put: "find (put k v s) = (find s)(k \<mapsto> v)"
begin

lemma find_fold_put:
  "find (fold (\<lambda>(k, v). put k v) kvs s) k =
     (case map_of (rev kvs) k of Some v \<Rightarrow> Some v | None \<Rightarrow> find s k)"
proof (induction kvs arbitrary: s)
  case (Cons p kvs)
  obtain k' v' where p: "p = (k', v')" by (cases p)
  show ?case
    by (simp add: p Cons.IH find_put map_add_def split: option.split)
qed simp

end

subsection \<open>Operations that return and keep an invariant\<close>

fun run_ops :: "('op \<Rightarrow> 's \<Rightarrow> 's option) \<Rightarrow> 'op list \<Rightarrow> 's \<Rightarrow> 's option" where
  "run_ops step [] s = Some s"
| "run_ops step (e # es) s = (case step e s of None \<Rightarrow> None | Some s' \<Rightarrow> run_ops step es s')"

lemma run_ops_append:
  "run_ops step (es @ es') s =
     (case run_ops step es s of None \<Rightarrow> None | Some s' \<Rightarrow> run_ops step es' s')"
  by (induction es arbitrary: s) (auto split: option.split)

locale invariant_system =
  fixes step :: "'op \<Rightarrow> 's \<Rightarrow> 's option"
    and inv :: "'s \<Rightarrow> bool"
    and enabled :: "'op \<Rightarrow> bool"
  assumes step_returns: "inv s \<Longrightarrow> enabled e \<Longrightarrow> \<exists>s'. step e s = Some s' \<and> inv s'"
begin

lemma run_returns:
  "inv s \<Longrightarrow> list_all enabled es \<Longrightarrow> \<exists>s'. run_ops step es s = Some s' \<and> inv s'"
proof (induction es arbitrary: s)
  case (Cons e es)
  from Cons.prems obtain s1 where "step e s = Some s1" and "inv s1"
    using step_returns by force
  with Cons show ?case by simp
qed simp

end

end
