(* ===== verification/Go_Strconv.thy ===== *)
theory Go_Strconv
  imports Mango_Prelude
begin

text \<open>
  The parts of Go's \<open>strconv\<close> and \<open>fmt\<close> that the components use: decimal printing and parsing,
  zero padding, and joining strings.
\<close>

section \<open>Decimal numbers\<close>

text \<open>\<open>strconv.Itoa\<close> on a process id and \<open>strconv.Atoi\<close>.\<close>

definition digit_char :: "nat \<Rightarrow> char" where
  "digit_char d = char_of (48 + d)"

fun Itoa :: "nat \<Rightarrow> string" where
  "Itoa n = (if n < 10 then [digit_char n] else Itoa (n div 10) @ [digit_char (n mod 10)])"

declare Itoa.simps [simp del]

definition digit_value :: "char \<Rightarrow> nat option" where
  "digit_value c = (let n = of_char c :: nat in if 48 \<le> n \<and> n \<le> 57 then Some (n - 48) else None)"

fun digits_value :: "nat \<Rightarrow> string \<Rightarrow> nat option" where
  "digits_value acc [] = Some acc"
| "digits_value acc (c # cs) =
     (case digit_value c of None \<Rightarrow> None | Some d \<Rightarrow> digits_value (acc * 10 + d) cs)"

text \<open>
  \<open>strconv.ParseInt(s, 10, 64)\<close>: the value with a flag for success; a syntax error gives 0, a
  value out of range the nearest bound.
\<close>

definition ParseInt64 :: "string \<Rightarrow> int \<times> bool" where
  "ParseInt64 s =
     (let (neg, ds) = (case s of
            c # cs \<Rightarrow> if c = CHR ''-'' then (True, cs) else if c = CHR ''+'' then (False, cs) else (False, s)
          | [] \<Rightarrow> (False, []))
      in if ds = [] then (0, False)
         else case digits_value 0 ds of
                None \<Rightarrow> (0, False)
              | Some n \<Rightarrow>
                  let v = (if neg then - int n else int n)
                  in if v < - (2 ^ 63) then (- (2 ^ 63), False)
                     else if 2 ^ 63 \<le> v then (2 ^ 63 - 1, False)
                     else (v, True))"

definition Atoi :: "string \<Rightarrow> int option" where
  "Atoi s = (case ParseInt64 s of (v, True) \<Rightarrow> Some v | (v, False) \<Rightarrow> None)"

lemma digit_value_char: "d < 10 \<Longrightarrow> digit_value (digit_char d) = Some d"
  by (simp add: digit_value_def digit_char_def of_char_of)

lemma digits_value_append:
  "digits_value acc (xs @ ys) = (case digits_value acc xs of None \<Rightarrow> None | Some a \<Rightarrow> digits_value a ys)"
  by (induction xs arbitrary: acc) (auto split: option.split)

lemma digits_value_Itoa: "digits_value 0 (Itoa n) = Some n"
proof (induction n rule: Itoa.induct)
  case (1 n)
  show ?case
  proof (cases "n < 10")
    case True
    then show ?thesis by (simp add: Itoa.simps [of n] digit_value_char)
  next
    case False
    with 1 show ?thesis
      by (simp add: Itoa.simps [of n] digits_value_append digit_value_char)
  qed
qed

lemma Itoa_nonempty [simp]: "Itoa n \<noteq> []"
  by (simp add: Itoa.simps [of n])

lemma Itoa_digits: "c \<in> set (Itoa n) \<Longrightarrow> digit_value c \<noteq> None"
proof (induction n rule: Itoa.induct)
  case (1 n)
  then show ?case
    by (subst (asm) (2) Itoa.simps) (auto simp: digit_value_char split: if_splits)
qed

lemma ParseInt64_Itoa_clamped:
  "ParseInt64 (Itoa n) = (if n < 2 ^ 63 then (int n, True) else (2 ^ 63 - 1, False))"
proof -
  obtain c cs where cs: "Itoa n = c # cs" using Itoa_nonempty [of n] by (cases "Itoa n") auto
  have "digit_value c \<noteq> None" using Itoa_digits [of c n] cs by simp
  then have "c \<noteq> CHR ''-''" "c \<noteq> CHR ''+''" by (auto simp: digit_value_def)
  with cs digits_value_Itoa [of n] show ?thesis by (simp add: ParseInt64_def)
qed

lemma ParseInt64_Itoa: "n < 2 ^ 63 \<Longrightarrow> ParseInt64 (Itoa n) = (int n, True)"
  by (simp add: ParseInt64_Itoa_clamped)

lemma Atoi_Itoa: "n < 2 ^ 63 \<Longrightarrow> Atoi (Itoa n) = Some (int n)"
  by (simp add: Atoi_def ParseInt64_Itoa)

text \<open>Different numbers print differently.\<close>

lemma Itoa_inject [simp]: "Itoa m = Itoa n \<longleftrightarrow> m = n"
  by (metis digits_value_Itoa option.inject)

section \<open>Integers of a given width\<close>

text \<open>\<open>strconv.FormatInt(i, 10)\<close>, and parsing with a bit size; \<open>None\<close> is an error.\<close>

definition FormatInt :: "int \<Rightarrow> string" where
  "FormatInt i = (if i < 0 then ''-'' @ Itoa (nat (- i)) else Itoa (nat i))"

definition ParseInt :: "nat \<Rightarrow> string \<Rightarrow> int option" where
  "ParseInt bits s =
     (case ParseInt64 s of
        (v, ok) \<Rightarrow> if ok \<and> - (2 ^ (bits - 1)) \<le> v \<and> v < 2 ^ (bits - 1) then Some v else None)"

definition ParseUint :: "nat \<Rightarrow> string \<Rightarrow> nat option" where
  "ParseUint bits s =
     (if s = [] then None
      else case digits_value 0 s of
             None \<Rightarrow> None
           | Some n \<Rightarrow> if n < 2 ^ bits then Some n else None)"

lemma ParseInt64_FormatInt:
  assumes "- (2 ^ 63) \<le> i" and "i < 2 ^ 63"
  shows "ParseInt64 (FormatInt i) = (i, True)"
proof (cases "i < 0")
  case True
  with assms show ?thesis by (simp add: FormatInt_def ParseInt64_def digits_value_Itoa)
next
  case False
  with assms ParseInt64_Itoa [of "nat i"] show ?thesis by (simp add: FormatInt_def nat_less_iff)
qed

lemma ParseInt64_FormatInt_range:
  "ParseInt64 (FormatInt i) = (v, True) \<Longrightarrow> v = i"
proof (cases "i < 0")
  case True
  then show "ParseInt64 (FormatInt i) = (v, True) \<Longrightarrow> v = i"
    by (auto simp: FormatInt_def ParseInt64_def digits_value_Itoa Let_def split: if_splits)
next
  case False
  then show "ParseInt64 (FormatInt i) = (v, True) \<Longrightarrow> v = i"
    by (auto simp: FormatInt_def ParseInt64_Itoa_clamped split: if_splits)
qed

lemma ParseInt_FormatInt:
  assumes "0 < bits" and "bits \<le> 64" and "- (2 ^ (bits - 1)) \<le> i" and "i < 2 ^ (bits - 1)"
  shows "ParseInt bits (FormatInt i) = Some i"
proof -
  have "(2 :: int) ^ (bits - 1) \<le> 2 ^ 63" using assms(2) by (intro power_increasing) auto
  with assms show ?thesis by (simp add: ParseInt_def ParseInt64_FormatInt)
qed

lemma ParseUint_Itoa: "n < 2 ^ bits \<Longrightarrow> ParseUint bits (Itoa n) = Some n"
  by (simp add: ParseUint_def digits_value_Itoa)

section \<open>Formatting\<close>

text \<open>The verb \<open>%0wd\<close> on a number that is not negative.\<close>

definition pad :: "nat \<Rightarrow> nat \<Rightarrow> string" where
  "pad w n = replicate (w - length (Itoa n)) (CHR ''0'') @ Itoa n"

text \<open>\<open>strings.Join\<close>.\<close>

fun join :: "string \<Rightarrow> string list \<Rightarrow> string" where
  "join sep [] = []"
| "join sep [s] = s"
| "join sep (s # ss) = s @ sep @ join sep ss"

end
