(* ===== verification/Uid.thy ===== *)
theory Uid
  imports Mango_Prelude
begin

text \<open>
  The identifier generator of \<^verbatim>\<open>src/common/uid/uid.go\<close>: a 64-bit identifier made of a function
  id (8 bits), an instance id (11 bits), the seconds since a base time (29 bits) and a sequence
  number within the second (16 bits).  \<open>time.Now().Unix()\<close> is the argument \<open>nowTime\<close>; the mutex
  makes every \<open>GenerateUID\<close> one atomic step, so a run of the program is the list of its clock
  readings.
\<close>

section \<open>Model\<close>

definition baseTimeStamp :: int where "baseTimeStamp = 1629941248"
definition funcIDUIDOffset :: nat where "funcIDUIDOffset = 56"
definition insIDUIDOffset :: nat where "insIDUIDOffset = 45"
definition timeBitNum :: nat where "timeBitNum = 29"
definition seqBitNum :: nat where "seqBitNum = 16"

lemmas uid_consts [simp] =
  baseTimeStamp_def funcIDUIDOffset_def insIDUIDOffset_def timeBitNum_def seqBitNum_def

record uidGeneratorParam =
  lastStamp :: int
  prefixUID :: u64
  seqno :: int
  seqBits :: nat
  timeBits :: nat

definition InitUIDGenerator :: "8 word \<Rightarrow> u32 \<Rightarrow> uidGeneratorParam" where
  "InitUIDGenerator funcID insID =
     \<lparr>lastStamp = 0,
      prefixUID = push_bit funcIDUIDOffset (ucast funcID) + push_bit insIDUIDOffset (ucast insID),
      seqno = 0, seqBits = seqBitNum, timeBits = timeBitNum\<rparr>"

definition doGenerate :: "int \<Rightarrow> uidGeneratorParam \<Rightarrow> u64 \<times> uidGeneratorParam" where
  "doGenerate nowTime genParam =
     (if nowTime < baseTimeStamp then (0, genParam)
      else
        let genParam = (if lastStamp genParam \<noteq> nowTime
                        then genParam\<lparr>lastStamp := nowTime, seqno := 0\<rparr> else genParam);
            temp = nowTime - baseTimeStamp;
            result = prefixUID genParam + push_bit (seqBits genParam) (word_of_int temp)
        in if seqno genParam > push_bit (seqBits genParam) 1 - 1 then (0, genParam)
           else (result + word_of_int (seqno genParam),
                 genParam\<lparr>seqno := seqno genParam + 1\<rparr>))"

text \<open>\<open>uidGeneratorIns\<close> is \<open>None\<close> (Go's \<open>nil\<close>) until \<open>InitUIDGenerator\<close> has run.\<close>

definition GenerateUID :: "int \<Rightarrow> uidGeneratorParam option \<Rightarrow> u64 \<times> uidGeneratorParam option" where
  "GenerateUID nowTime uidGeneratorIns =
     (case uidGeneratorIns of
        None \<Rightarrow> (0, None)
      | Some g \<Rightarrow> (let (uid, g') = doGenerate nowTime g in (uid, Some g')))"

text \<open>The identifiers handed out by successive calls, at the given clock readings.\<close>

fun generate_all :: "int list \<Rightarrow> uidGeneratorParam option \<Rightarrow> u64 list" where
  "generate_all [] ins = []"
| "generate_all (t # ts) ins =
     (let (uid, ins') = GenerateUID t ins in uid # generate_all ts ins')"

section \<open>Layout of an identifier\<close>

definition uid_inv :: "uidGeneratorParam \<Rightarrow> bool" where
  "uid_inv g \<longleftrightarrow> seqBits g = 16 \<and> 0 \<le> seqno g \<and> seqno g \<le> 65536
     \<and> uint (prefixUID g) + 2 ^ 45 \<le> 2 ^ 64"

text \<open>The position of the next identifier of a generator, in the order of time and sequence.\<close>

definition uid_rank :: "uidGeneratorParam \<Rightarrow> int" where
  "uid_rank g = uint (prefixUID g) + (lastStamp g - baseTimeStamp) * 65536 + seqno g"

lemma uint_push_bit_ucast:
  fixes x :: "'a::len word"
  assumes "LENGTH('a) + n \<le> 64 \<or> uint x * 2 ^ n < 2 ^ 64"
  shows "uint (push_bit n (ucast x :: u64)) = uint x * 2 ^ n"
proof -
  have lt: "uint x < 2 ^ LENGTH('a)" by simp
  have "uint x * 2 ^ n < 2 ^ 64"
    using assms
  proof
    assume le: "LENGTH('a) + n \<le> 64"
    from lt have "uint x * 2 ^ n < 2 ^ LENGTH('a) * 2 ^ n" by simp
    also have "\<dots> = 2 ^ (LENGTH('a) + n)" by (simp add: power_add)
    also have "\<dots> \<le> 2 ^ 64" using le by (intro power_increasing) auto
    finally show ?thesis .
  qed
  moreover have "uint x \<le> uint x * 2 ^ n" by (simp add: mult_le_cancel_left1)
  moreover have "uint (push_bit n (ucast x :: u64)) = take_bit 64 (uint (ucast x :: u64) * 2 ^ n)"
    by (simp add: unsigned_push_bit_eq push_bit_eq_mult [of n "uint _"])
  ultimately show ?thesis
    by (simp add: unsigned_ucast_eq take_bit_int_eq_self)
qed

lemma uint_prefix:
  assumes "insID < 2048"
  shows "uint (prefixUID (InitUIDGenerator funcID insID)) = uint funcID * 2 ^ 56 + uint insID * 2 ^ 45"
proof -
  from assms have i: "uint insID < 2048" by (simp add: word_less_def)
  have f: "uint funcID < 256" using uint_lt2p [of funcID] by simp
  have "uint (push_bit 56 (ucast funcID :: u64)) = uint funcID * 2 ^ 56"
    and "uint (push_bit 45 (ucast insID :: u64)) = uint insID * 2 ^ 45"
    using i by (simp_all add: uint_push_bit_ucast)
  then show ?thesis
    using i f by (simp add: InitUIDGenerator_def uint_plus_if')
qed

lemma uid_inv_init:
  assumes "insID < 2048"
  shows "uid_inv (InitUIDGenerator funcID insID)"
proof -
  have "uint funcID < 256" using uint_lt2p [of funcID] by simp
  moreover from assms have "uint insID < 2048" by (simp add: word_less_def)
  ultimately show ?thesis
    using uint_prefix [OF assms, of funcID] by (simp add: uid_inv_def) (simp add: InitUIDGenerator_def)
qed

text \<open>The value of an identifier: prefix, seconds and sequence number do not overlap.\<close>

lemma uint_result:
  assumes "uint (p :: u64) + 2 ^ 45 \<le> 2 ^ 64" and "0 \<le> t" "t < 2 ^ 29" and "0 \<le> s" "s < 65536"
  shows "uint (p + push_bit 16 (word_of_int t) + word_of_int s) = uint p + t * 65536 + s"
proof -
  have t: "uint (push_bit 16 (word_of_int t :: u64)) = t * 65536"
    using assms(2,3)
    by (simp add: unsigned_push_bit_eq uint_word_of_int_eq take_bit_int_eq_self)
      (simp add: push_bit_eq_mult take_bit_int_eq_self)
  have s: "uint (word_of_int s :: u64) = s"
    using assms(4,5) by (simp add: uint_word_of_int_eq take_bit_int_eq_self)
  from assms(1-3) t have 1: "uint (p + push_bit 16 (word_of_int t)) = uint p + t * 65536"
    by (simp add: uint_plus_if')
  with assms s show ?thesis
    by (simp add: uint_plus_if' [of "p + push_bit 16 (word_of_int t)"])
qed

section \<open>Steps of the generator\<close>

lemma doGenerate_cases:
  assumes "uid_inv g" and "lastStamp g \<le> t" and "t < baseTimeStamp + 2 ^ 29"
  obtains (early) "t < baseTimeStamp" "doGenerate t g = (0, g)"
  | (exhausted) g' where "doGenerate t g = (0, g')" "uid_inv g'" "uid_rank g \<le> uid_rank g'"
      "lastStamp g' = t" "prefixUID g' = prefixUID g"
  | (issued) uid g' where "doGenerate t g = (uid, g')" "uid_inv g'" "uid_rank g \<le> uint uid"
      "uid_rank g' = uint uid + 1" "lastStamp g' = t" "prefixUID g' = prefixUID g"
      "uint (prefixUID g) \<le> uint uid" "uint uid < uint (prefixUID g) + 2 ^ 45"
proof (cases "t < baseTimeStamp")
  case True
  then show ?thesis by (intro early) (auto simp: doGenerate_def)
next
  case False
  define g1 where "g1 = (if lastStamp g \<noteq> t then g\<lparr>lastStamp := t, seqno := 0\<rparr> else g)"
  have g1: "uid_inv g1" "uid_rank g \<le> uid_rank g1" "lastStamp g1 = t" "prefixUID g1 = prefixUID g"
    using assms by (auto simp: g1_def uid_inv_def uid_rank_def)
  from False have gen: "doGenerate t g =
      (if seqno g1 > 65535 then (0, g1)
       else (prefixUID g1 + push_bit 16 (word_of_int (t - baseTimeStamp)) + word_of_int (seqno g1),
             g1\<lparr>seqno := seqno g1 + 1\<rparr>))"
    using g1(1) by (simp add: doGenerate_def Let_def g1_def [symmetric] uid_inv_def push_bit_eq_mult)
  show ?thesis
  proof (cases "seqno g1 > 65535")
    case True
    with gen g1 show ?thesis by (intro exhausted [of g1]) auto
  next
    case seq: False
    define uid where
      "uid = prefixUID g1 + push_bit 16 (word_of_int (t - baseTimeStamp)) + word_of_int (seqno g1)"
    have val: "uint uid = uint (prefixUID g1) + (t - baseTimeStamp) * 65536 + seqno g1"
      unfolding uid_def using g1(1) seq False assms(3) by (intro uint_result) (auto simp: uid_inv_def)
    from gen seq have "doGenerate t g = (uid, g1\<lparr>seqno := seqno g1 + 1\<rparr>)" by (simp add: uid_def)
    then show ?thesis
      using g1 val seq assms(3) False
      by (intro issued [of uid "g1\<lparr>seqno := seqno g1 + 1\<rparr>"]) (auto simp: uid_inv_def uid_rank_def)
  qed
qed

lemma generate_all_increasing:
  assumes "uid_inv g" and "sorted (lastStamp g # ts)" and "\<forall>t\<in>set ts. t < baseTimeStamp + 2 ^ 29"
  shows "sorted_wrt (<) (filter (\<lambda>u. u \<noteq> 0) (generate_all ts (Some g)))
    \<and> (\<forall>u\<in>set (generate_all ts (Some g)). u \<noteq> 0 \<longrightarrow>
         uid_rank g \<le> uint u \<and> uint (prefixUID g) \<le> uint u
         \<and> uint u < uint (prefixUID g) + 2 ^ 45)"
  using assms
proof (induction ts arbitrary: g)
  case (Cons t ts)
  from Cons.prems have t: "lastStamp g \<le> t" "t < baseTimeStamp + 2 ^ 29"
    and ts: "sorted (t # ts)" "sorted (lastStamp g # ts)" "\<forall>t\<in>set ts. t < baseTimeStamp + 2 ^ 29"
    by auto
  from Cons.prems(1) t show ?case
  proof (cases rule: doGenerate_cases)
    case early
    with Cons.IH [OF Cons.prems(1) ts(2,3)] show ?thesis by (simp add: GenerateUID_def)
  next
    case (exhausted g')
    with Cons.IH [of g'] ts show ?thesis by (auto simp: GenerateUID_def)
  next
    case (issued uid g')
    let ?us = "generate_all ts (Some g')"
    have ih: "sorted_wrt (<) (filter (\<lambda>u. u \<noteq> 0) ?us)"
      "\<forall>u\<in>set ?us. u \<noteq> 0 \<longrightarrow> uint uid + 1 \<le> uint u \<and> uint (prefixUID g) \<le> uint u
         \<and> uint u < uint (prefixUID g) + 2 ^ 45"
      using Cons.IH [of g'] ts issued by auto
    then have "\<forall>u\<in>set ?us. u \<noteq> 0 \<longrightarrow> uid < u" by (auto simp: word_less_def)
    moreover have "\<forall>u\<in>set ?us. u \<noteq> 0 \<longrightarrow> uid_rank g \<le> uint u"
      using ih(2) issued(3) by force
    ultimately show ?thesis
      using ih issued by (simp add: GenerateUID_def)
  qed
qed simp

text \<open>Whatever the clock does, identifiers stay in the block of the generator's prefix.\<close>

lemma doGenerate_range:
  assumes "uid_inv g" and "t < baseTimeStamp + 2 ^ 29" and "doGenerate t g = (uid, g')"
  shows "uid_inv g'" and "prefixUID g' = prefixUID g"
    and "uid \<noteq> 0 \<Longrightarrow> uint (prefixUID g) \<le> uint uid \<and> uint uid < uint (prefixUID g) + 2 ^ 45"
proof -
  define g0 where "g0 = (if lastStamp g \<noteq> t then g\<lparr>lastStamp := t, seqno := 0\<rparr> else g)"
  have g0: "uid_inv g0" "lastStamp g0 = t" "prefixUID g0 = prefixUID g"
    using assms(1) by (auto simp: g0_def uid_inv_def)
  have eq: "doGenerate t g = (if t < baseTimeStamp then (0, g) else doGenerate t g0)"
    by (simp add: doGenerate_def g0_def Let_def)
  from g0(2) have "lastStamp g0 \<le> t" by simp
  with g0(1) have "uid_inv g' \<and> prefixUID g' = prefixUID g \<and>
    (uid \<noteq> 0 \<longrightarrow> uint (prefixUID g) \<le> uint uid \<and> uint uid < uint (prefixUID g) + 2 ^ 45)"
    using assms(2)
  proof (cases rule: doGenerate_cases)
    case early
    with assms(1,3) show ?thesis by (simp add: eq)
  next
    case (exhausted h)
    with assms(1,3) g0 show ?thesis by (auto simp: eq split: if_splits)
  next
    case (issued u h)
    with assms(1,3) g0 show ?thesis by (auto simp: eq split: if_splits)
  qed
  then show "uid_inv g'" and "prefixUID g' = prefixUID g"
    and "uid \<noteq> 0 \<Longrightarrow> uint (prefixUID g) \<le> uint uid \<and> uint uid < uint (prefixUID g) + 2 ^ 45"
    by auto
qed

lemma generate_all_range:
  assumes "uid_inv g" and "\<forall>t\<in>set ts. t < baseTimeStamp + 2 ^ 29"
    and "u \<in> set (generate_all ts (Some g))" and "u \<noteq> 0"
  shows "uint (prefixUID g) \<le> uint u \<and> uint u < uint (prefixUID g) + 2 ^ 45"
  using assms
proof (induction ts arbitrary: g)
  case (Cons t ts)
  obtain uid g' where gen: "doGenerate t g = (uid, g')" by fastforce
  from Cons.prems(2) have "t < baseTimeStamp + 2 ^ 29" by simp
  note r = doGenerate_range [OF Cons.prems(1) this gen]
  from Cons.prems(3) have "u = uid \<or> u \<in> set (generate_all ts (Some g'))"
    by (auto simp: GenerateUID_def gen)
  then show ?case
  proof
    assume "u = uid"
    with r(3) Cons.prems(4) show ?thesis by simp
  next
    assume "u \<in> set (generate_all ts (Some g'))"
    with Cons.IH [OF r(1)] Cons.prems(2,4) r(2) show ?thesis by simp
  qed
qed simp

lemma prefix_blocks_disjoint:
  assumes "insID < 2048" "insID' < 2048" and "(funcID, insID) \<noteq> (funcID', insID')"
  shows "uint (prefixUID (InitUIDGenerator funcID insID)) + 2 ^ 45
           \<le> uint (prefixUID (InitUIDGenerator funcID' insID'))
       \<or> uint (prefixUID (InitUIDGenerator funcID' insID')) + 2 ^ 45
           \<le> uint (prefixUID (InitUIDGenerator funcID insID))"
proof -
  define n m where "n = uint funcID * 2048 + uint insID" and "m = uint funcID' * 2048 + uint insID'"
  from assms(1,2) have lt: "uint insID < 2048" "uint insID' < 2048" by (auto simp: word_less_def)
  have "n \<noteq> m"
  proof
    assume "n = m"
    moreover from lt have "n div 2048 = uint funcID" "n mod 2048 = uint insID"
      "m div 2048 = uint funcID'" "m mod 2048 = uint insID'"
      by (simp_all add: n_def m_def)
    ultimately show False using assms(3) by (simp add: word_uint_eq_iff)
  qed
  then consider "n + 1 \<le> m" | "m + 1 \<le> n" by linarith
  then show ?thesis
    unfolding uint_prefix [OF assms(1)] uint_prefix [OF assms(2)]
    by cases (simp_all add: n_def m_def)
qed

section \<open>Properties\<close>

text \<open>
  C16.  While the clock does not go back and is within the 29 bits of seconds, the identifiers a
  process obtains are strictly increasing, so no two calls get the same one (0 is the error
  value: clock before the base time, or sequence numbers of the second used up).
\<close>

theorem uid_strictly_increasing:
  assumes "insID < 2048" and "sorted (0 # ts)" and "\<forall>t\<in>set ts. t < baseTimeStamp + 2 ^ 29"
  shows "sorted_wrt (<)
    (filter (\<lambda>u. u \<noteq> 0) (generate_all ts (Some (InitUIDGenerator funcID insID))))"
proof -
  have "lastStamp (InitUIDGenerator funcID insID) = 0" by (simp add: InitUIDGenerator_def)
  with assms generate_all_increasing [OF uid_inv_init [OF assms(1)], of funcID ts] show ?thesis
    by simp
qed

theorem uid_strictly_increasing_witness:
  "sorted_wrt (<) (filter (\<lambda>u. u \<noteq> 0)
     (generate_all [1629941250, 1629941250, 1629941251] (Some (InitUIDGenerator 3 7))))"
  by (rule uid_strictly_increasing) simp_all

text \<open>
  C17.  Two processes with different (function id, instance id) pairs, instance ids below 2048,
  never obtain the same identifier, whatever their clocks do within the 29 bits of seconds.
\<close>

theorem uid_distinct_processes:
  assumes "insID < 2048" and "insID' < 2048" and "(funcID, insID) \<noteq> (funcID', insID')"
    and "\<forall>t\<in>set ts. t < baseTimeStamp + 2 ^ 29" and "\<forall>t\<in>set ts'. t < baseTimeStamp + 2 ^ 29"
    and "u \<in> set (generate_all ts (Some (InitUIDGenerator funcID insID)))" and "u \<noteq> 0"
  shows "u \<notin> set (generate_all ts' (Some (InitUIDGenerator funcID' insID')))"
proof
  assume "u \<in> set (generate_all ts' (Some (InitUIDGenerator funcID' insID')))"
  from generate_all_range [OF uid_inv_init [OF assms(2)] assms(5) this assms(7)]
    generate_all_range [OF uid_inv_init [OF assms(1)] assms(4,6,7)]
    prefix_blocks_disjoint [OF assms(1-3)]
  show False by linarith
qed

theorem uid_distinct_processes_witness:
  "fst (doGenerate 1629941250 (InitUIDGenerator 1 2))
     \<notin> set (generate_all [1629941250, 1629941260] (Some (InitUIDGenerator 1 3)))"
  by (rule uid_distinct_processes [where funcID = 1 and insID = 2 and ts = "[1629941250]"])
    (simp_all add: GenerateUID_def doGenerate_def InitUIDGenerator_def Let_def)

text \<open>
  Nothing protects the generator from a clock that goes back: when the clock returns to an
  earlier second after showing another one, the sequence restarts and the first identifier of
  that second is handed out again.
\<close>

theorem uid_repeats_when_clock_returns:
  assumes "baseTimeStamp \<le> t" and "baseTimeStamp \<le> t'" and "t \<noteq> t'"
  shows "\<exists>u v. generate_all [t, t', t] (Some (InitUIDGenerator funcID insID)) = [u, v, u]"
  using assms by (simp add: GenerateUID_def doGenerate_def InitUIDGenerator_def push_bit_eq_mult)

theorem uid_repeats_when_clock_returns_witness:
  "\<exists>u v. generate_all [1629941250, 1629941251, 1629941250] (Some (InitUIDGenerator 1 2)) = [u, v, u]"
  by (rule uid_repeats_when_clock_returns) simp_all

end
