(* ===== verification/Cache.thy ===== *)
theory Cache
  imports Mango_Prelude
begin

text \<open>
  The in-memory cache of \<^verbatim>\<open>src/common/cache/cache.go\<close>: a map of entries threaded on two
  \<open>container/list\<close> lists, one in order of access and one in order of insertion.  A list is the
  HOL list of its elements, front first; a \<open>*list.Element\<close> is an identity (fresh from a
  counter, as an allocation is) with its value.  \<open>Get\<close>, \<open>Update\<close>, \<open>AddWithSize\<close>, \<open>Remove\<close> and \<open>Len\<close> hold the mutex, so
  each is one atomic step; \<open>SetCapacity\<close>, \<open>SetTTL\<close> and the other accessors do not take it in the code and
  are taken here as not running beside another call.  Keys are values with HOL's equality: keys that
  Go cannot hash, or that differ from themselves (NaN), are outside the model.  Each clock reading of the code is an argument.  The two loops are
  partial functions, \<open>None\<close> standing for a loop that never ends; \<open>Get\<close> and \<open>Update\<close> of a missing
  key return Go's \<open>nil\<close>, here \<open>None\<close>.
\<close>

section \<open>container/list\<close>

record 'k element =
  elem_id :: nat
  elem_Value :: 'k

definition list_PushFront :: "nat \<Rightarrow> 'k \<Rightarrow> 'k element list \<Rightarrow> 'k element \<times> 'k element list" where
  "list_PushFront fresh v l = (let e = \<lparr>elem_id = fresh, elem_Value = v\<rparr> in (e, e # l))"

definition list_Remove :: "'k element \<Rightarrow> 'k element list \<Rightarrow> 'k \<times> 'k element list" where
  "list_Remove e l = (elem_Value e, filter (\<lambda>x. elem_id x \<noteq> elem_id e) l)"

definition list_Back :: "'k element list \<Rightarrow> 'k element option" where
  "list_Back l = (if l = [] then None else Some (last l))"

section \<open>Model\<close>

definition DefaultCapacity :: int where "DefaultCapacity = 1024"

text \<open>Times and durations are nanoseconds: \<open>time.Minute\<close>.\<close>

definition DefaultAge :: int where "DefaultAge = 60000000000"

record ('k, 'v) entry =
  ent_value :: 'v
  lruNode :: "'k element"
  ageNode :: "'k element"
  loadTime :: int
  ent_size :: int

text \<open>\<open>nextElem\<close> is the allocator of list elements; the other fields are those of the struct.\<close>

record ('k, 'v) Cache =
  m :: "('k \<times> ('k, 'v) entry) list"
  lruList :: "'k element list"
  ageList :: "'k element list"
  hits :: int
  misses :: int
  capacity :: int
  ttl :: int
  csize :: int
  nextElem :: nat

definition New :: "('k, 'v) Cache" where
  "New = \<lparr>m = [], lruList = [], ageList = [], hits = 0, misses = 0,
          capacity = DefaultCapacity, ttl = DefaultAge, csize = 0, nextElem = 0\<rparr>"

definition GetCapacity :: "('k, 'v) Cache \<Rightarrow> int" where
  "GetCapacity c = capacity c"

definition SetCapacity :: "int \<Rightarrow> ('k, 'v) Cache \<Rightarrow> ('k, 'v) Cache" where
  "SetCapacity cap c = (if cap > 1 then c\<lparr>capacity := cap\<rparr> else c)"

definition SetTTL :: "int \<Rightarrow> ('k, 'v) Cache \<Rightarrow> ('k, 'v) Cache" where
  "SetTTL d c = c\<lparr>ttl := d\<rparr>"

definition Hits :: "('k, 'v) Cache \<Rightarrow> int" where "Hits c = hits c"
definition Misses :: "('k, 'v) Cache \<Rightarrow> int" where "Misses c = misses c"
definition Size :: "('k, 'v) Cache \<Rightarrow> int" where "Size c = csize c"
definition Len :: "('k, 'v) Cache \<Rightarrow> int" where "Len c = int (length (m c))"

definition unsafeRemove :: "'k \<Rightarrow> ('k, 'v) Cache \<Rightarrow> 'v option \<times> ('k, 'v) Cache" where
  "unsafeRemove k c =
     (case map_of (m c) k of
        Some v \<Rightarrow>
          (Some (ent_value v),
           c\<lparr>m := AList.delete k (m c), csize := int64 (csize c - ent_size v),
             lruList := snd (list_Remove (lruNode v) (lruList c)),
             ageList := snd (list_Remove (ageNode v) (ageList c))\<rparr>)
      | None \<Rightarrow> (None, c))"

definition Remove :: "'k \<Rightarrow> ('k, 'v) Cache \<Rightarrow> 'v option \<times> ('k, 'v) Cache" where
  "Remove k c = unsafeRemove k c"

text \<open>The loop of \<open>removeExpired\<close>: an element whose key is not in the map would make it spin.\<close>

partial_function (option) removeExpired_loop ::
  "int \<Rightarrow> ('k, 'v) Cache \<Rightarrow> ('k, 'v) Cache option" where
  "removeExpired_loop timeLine c =
     (case list_Back (ageList c) of
        None \<Rightarrow> Some c
      | Some elm \<Rightarrow>
          (case map_of (m c) (elem_Value elm) of
             Some v \<Rightarrow>
               if loadTime v > timeLine then Some c
               else removeExpired_loop timeLine (snd (unsafeRemove (elem_Value elm) c))
           | None \<Rightarrow> removeExpired_loop timeLine c))"

definition removeExpired :: "int \<Rightarrow> ('k, 'v) Cache \<Rightarrow> ('k, 'v) Cache option" where
  "removeExpired now c = removeExpired_loop (now - ttl c) c"

text \<open>The loop of \<open>cull\<close>: over the water line with an empty list it would spin.\<close>

partial_function (option) cull_loop ::
  "int \<Rightarrow> ('k, 'v) Cache \<Rightarrow> ('k, 'v) Cache option" where
  "cull_loop waterLine c =
     (if int (length (m c)) > waterLine
      then (case list_Back (lruList c) of
              Some elm \<Rightarrow> cull_loop waterLine (snd (unsafeRemove (elem_Value elm) c))
            | None \<Rightarrow> cull_loop waterLine c)
      else Some c)"

definition cull :: "int \<Rightarrow> ('k, 'v) Cache \<Rightarrow> ('k, 'v) Cache option" where
  "cull now c =
     (if int (length (m c)) < go_div (int64 (capacity c * 97)) 100 then Some c
      else (case removeExpired now c of
              None \<Rightarrow> None
            | Some c' \<Rightarrow> cull_loop (go_div (int64 (capacity c' * 90)) 100) c'))"

definition touch :: "'k \<Rightarrow> ('k, 'v) entry \<Rightarrow> ('k, 'v) Cache \<Rightarrow> ('k, 'v) Cache" where
  "touch k v c =
     (let (val, l) = list_Remove (lruNode v) (lruList c);
          (node, l') = list_PushFront (nextElem c) val l
      in c\<lparr>m := AList.update k (v\<lparr>lruNode := node\<rparr>) (m c), lruList := l',
           nextElem := Suc (nextElem c), hits := int64 (hits c + 1)\<rparr>)"

definition Get :: "int \<Rightarrow> 'k \<Rightarrow> ('k, 'v) Cache \<Rightarrow> ('v option \<times> ('k, 'v) Cache) option" where
  "Get now k c =
     (case removeExpired now c of
        None \<Rightarrow> None
      | Some c \<Rightarrow>
          (case map_of (m c) k of
             Some v \<Rightarrow> Some (Some (ent_value v), touch k v c)
           | None \<Rightarrow> Some (None, c\<lparr>misses := int64 (misses c + 1)\<rparr>)))"

definition Update ::
  "int \<Rightarrow> 'k \<Rightarrow> 'v \<Rightarrow> ('k, 'v) Cache \<Rightarrow> ('v option \<times> ('k, 'v) Cache) option" where
  "Update now k v c =
     (case removeExpired now c of
        None \<Rightarrow> None
      | Some c \<Rightarrow>
          (case map_of (m c) k of
             Some e \<Rightarrow> Some (Some v, touch k (e\<lparr>ent_value := v\<rparr>) c)
           | None \<Rightarrow> Some (None, c\<lparr>misses := int64 (misses c + 1)\<rparr>)))"

text \<open>\<open>now\<close> is the reading of \<open>removeExpired\<close> within \<open>cull\<close>, \<open>now'\<close> the entry's load time.\<close>

definition AddWithSize ::
  "int \<Rightarrow> int \<Rightarrow> 'k \<Rightarrow> 'v \<Rightarrow> int \<Rightarrow> ('k, 'v) Cache \<Rightarrow> (bool \<times> ('k, 'v) Cache) option" where
  "AddWithSize now now' k v s c =
     (if map_of (m c) k \<noteq> None then Some (False, c)
      else
        (case cull now c of
           None \<Rightarrow> None
         | Some c \<Rightarrow>
             (let (ln, ll) = list_PushFront (nextElem c) k (lruList c);
                  (an, al) = list_PushFront (Suc (nextElem c)) k (ageList c);
                  e = \<lparr>ent_value = v, lruNode = ln, ageNode = an, loadTime = now', ent_size = s\<rparr>
              in Some (True, c\<lparr>m := AList.update k e (m c), lruList := ll, ageList := al,
                               nextElem := Suc (Suc (nextElem c)),
                               csize := int64 (csize c + s)\<rparr>))))"

definition Add :: "int \<Rightarrow> int \<Rightarrow> 'k \<Rightarrow> 'v \<Rightarrow> ('k, 'v) Cache \<Rightarrow> (bool \<times> ('k, 'v) Cache) option" where
  "Add now now' k v c = AddWithSize now now' k v 0 c"

section \<open>Abstraction and invariant\<close>

text \<open>The keys in order of access and of insertion, most recent first.\<close>

definition lru_keys :: "('k, 'v) Cache \<Rightarrow> 'k list" where
  "lru_keys c = map elem_Value (lruList c)"

definition age_keys :: "('k, 'v) Cache \<Rightarrow> 'k list" where
  "age_keys c = map elem_Value (ageList c)"

definition loaded :: "('k, 'v) Cache \<Rightarrow> 'k \<Rightarrow> int" where
  "loaded c k = (case map_of (m c) k of Some e \<Rightarrow> loadTime e | None \<Rightarrow> 0)"

definition nodes_ok :: "nat \<Rightarrow> 'k element list \<Rightarrow> bool" where
  "nodes_ok n l \<longleftrightarrow> distinct (map elem_id l) \<and> distinct (map elem_Value l)
     \<and> (\<forall>e\<in>set l. elem_id e < n)"

definition linked :: "('k, 'v) Cache \<Rightarrow> bool" where
  "linked c \<longleftrightarrow> (\<forall>(k, e)\<in>set (m c).
      lruNode e \<in> set (lruList c) \<and> elem_Value (lruNode e) = k
    \<and> ageNode e \<in> set (ageList c) \<and> elem_Value (ageNode e) = k)"

definition cache_inv :: "('k, 'v) Cache \<Rightarrow> bool" where
  "cache_inv c \<longleftrightarrow>
     distinct (map fst (m c))
   \<and> nodes_ok (nextElem c) (lruList c) \<and> nodes_ok (nextElem c) (ageList c)
   \<and> set (lru_keys c) = fst ` set (m c) \<and> set (age_keys c) = fst ` set (m c)
   \<and> linked c
   \<and> csize c = int64 (\<Sum>p\<leftarrow>m c. ent_size (snd p))
   \<and> 1 < capacity c \<and> capacity c < 2 ^ 56"

text \<open>The insertion list is in order of load time, and no entry is younger than the clock.\<close>

definition aged :: "int \<Rightarrow> ('k, 'v) Cache \<Rightarrow> bool" where
  "aged now c \<longleftrightarrow> sorted_wrt (\<lambda>x y. loaded c y \<le> loaded c x) (age_keys c)
     \<and> (\<forall>k\<in>set (age_keys c). loaded c k \<le> now)"

lemma length_lru_keys:
  assumes "cache_inv c"
  shows "length (lru_keys c) = length (m c)" and "length (age_keys c) = length (m c)"
  using assms distinct_same_set_length [of "lru_keys c" "map fst (m c)"]
    distinct_same_set_length [of "age_keys c" "map fst (m c)"]
  by (auto simp: cache_inv_def nodes_ok_def lru_keys_def age_keys_def)

lemma New_inv: "cache_inv New" and New_aged: "aged now New"
  by (auto simp: cache_inv_def New_def nodes_ok_def lru_keys_def age_keys_def linked_def aged_def
      DefaultCapacity_def int64_def)

lemma New_fields [simp]:
  "m New = []" "lru_keys New = []" "ttl New = DefaultAge" "capacity New = DefaultCapacity"
  "loaded New k = 0" "Len New = 0"
  by (simp_all add: New_def lru_keys_def loaded_def Len_def)

section \<open>Removal\<close>

text \<open>
  \<open>survives P c c'\<close>: the cache \<open>c'\<close> is \<open>c\<close> with exactly the keys that satisfy \<open>P\<close>, in the same
  orders, everything else unchanged.  Every loop of the cache is described by such a step.
\<close>

definition survives :: "('k \<Rightarrow> bool) \<Rightarrow> ('k, 'v) Cache \<Rightarrow> ('k, 'v) Cache \<Rightarrow> bool" where
  "survives P c c' \<longleftrightarrow>
     m c' = filter (\<lambda>p. P (fst p)) (m c)
   \<and> lruList c' = filter (\<lambda>e. P (elem_Value e)) (lruList c)
   \<and> ageList c' = filter (\<lambda>e. P (elem_Value e)) (ageList c)
   \<and> hits c' = hits c \<and> misses c' = misses c \<and> capacity c' = capacity c \<and> ttl c' = ttl c
   \<and> nextElem c' = nextElem c"

lemma inv_keys:
  assumes "cache_inv c"
  shows "x \<in> set (lruList c) \<Longrightarrow> elem_Value x \<in> set (lru_keys c)"
    and "x \<in> set (ageList c) \<Longrightarrow> elem_Value x \<in> set (lru_keys c)"
    and "p \<in> set (m c) \<Longrightarrow> fst p \<in> set (lru_keys c)"
    and "k \<in> set (lru_keys c) \<longleftrightarrow> map_of (m c) k \<noteq> None"
    and "set (age_keys c) = set (lru_keys c)"
proof -
  have s: "set (lru_keys c) = fst ` set (m c)" "set (age_keys c) = fst ` set (m c)"
    using assms by (auto simp: cache_inv_def)
  then show "set (age_keys c) = set (lru_keys c)" by simp
  then show "x \<in> set (lruList c) \<Longrightarrow> elem_Value x \<in> set (lru_keys c)"
    and "x \<in> set (ageList c) \<Longrightarrow> elem_Value x \<in> set (lru_keys c)"
    by (auto simp: lru_keys_def age_keys_def)
  show "p \<in> set (m c) \<Longrightarrow> fst p \<in> set (lru_keys c)"
    and "k \<in> set (lru_keys c) \<longleftrightarrow> map_of (m c) k \<noteq> None"
    by (auto simp: s(1) map_of_eq_None_iff)
qed

lemma survives_trans:
  "survives P c c' \<Longrightarrow> survives Q c' c'' \<Longrightarrow> survives (\<lambda>k. P k \<and> Q k) c c''"
  by (simp add: survives_def conj_commute)

lemma survives_cong:
  assumes "survives P c c'" and "cache_inv c" and "\<And>k. k \<in> set (lru_keys c) \<Longrightarrow> P k \<longleftrightarrow> Q k"
  shows "survives Q c c'"
  using assms(1) inv_keys [OF assms(2)] assms(3) unfolding survives_def
  by (auto intro!: filter_cong)

lemma survives_refl:
  assumes "cache_inv c" and "\<And>k. k \<in> set (lru_keys c) \<Longrightarrow> P k"
  shows "survives P c c"
  by (rule survives_cong [OF _ assms(1), of "\<lambda>_. True"]) (auto simp: survives_def assms(2))

lemma survives_lru_keys: "survives P c c' \<Longrightarrow> lru_keys c' = filter P (lru_keys c)"
  and survives_age_keys: "survives P c c' \<Longrightarrow> age_keys c' = filter P (age_keys c)"
  by (simp_all add: survives_def lru_keys_def age_keys_def filter_map comp_def)

lemma map_of_filter_fst: "map_of (filter (\<lambda>p. P (fst p)) al) k = (if P k then map_of al k else None)"
  by (induction al) auto

lemma survives_map_of: "survives P c c' \<Longrightarrow> map_of (m c') k = (if P k then map_of (m c) k else None)"
  by (simp add: survives_def map_of_filter_fst)

lemma nodes_ok_filter: "nodes_ok n l \<Longrightarrow> nodes_ok n (filter P l)"
  by (auto simp: nodes_ok_def distinct_map_filter)

lemma survives_inv:
  assumes s: "survives P c c'" and inv: "cache_inv c"
    and sz: "csize c' = int64 (\<Sum>p\<leftarrow>m c'. ent_size (snd p))"
  shows "cache_inv c'"
proof -
  have k: "fst ` {p \<in> set (m c). P (fst p)} = {k \<in> fst ` set (m c). P k}" by auto
  then have "set (lru_keys c') = fst ` set (m c')" "set (age_keys c') = fst ` set (m c')"
    using s inv by (simp_all add: survives_lru_keys [OF s] survives_age_keys [OF s])
      (simp_all add: survives_def cache_inv_def)
  moreover have "linked c'"
    using s inv by (auto simp: survives_def cache_inv_def linked_def)
  moreover have "distinct (map fst (m c'))"
    using s inv by (simp add: survives_def cache_inv_def distinct_map_filter)
  moreover have "nodes_ok (nextElem c') (lruList c')" "nodes_ok (nextElem c') (ageList c')"
    using s inv by (auto simp: survives_def cache_inv_def intro: nodes_ok_filter)
  ultimately show ?thesis
    using s inv sz by (simp add: cache_inv_def survives_def)
qed

lemma survives_aged:
  assumes s: "survives P c c'" and "aged now c"
  shows "aged now c'"
proof -
  have eq: "loaded c' k = loaded c k" if "P k" for k
    using that by (simp add: loaded_def survives_map_of [OF s])
  have "sorted_wrt (\<lambda>x y. loaded c y \<le> loaded c x) (filter P (age_keys c))"
    using assms(2) by (simp add: aged_def sorted_wrt_filter)
  then have "sorted_wrt (\<lambda>x y. loaded c' y \<le> loaded c' x) (filter P (age_keys c))"
    by (rule sorted_wrt_mono_rel [rotated]) (simp add: eq)
  then show ?thesis using assms(2) by (simp add: aged_def survives_age_keys [OF s] eq)
qed

lemma list_Remove_by_value:
  assumes "nodes_ok n l" and "e \<in> set l"
  shows "snd (list_Remove e l) = filter (\<lambda>x. elem_Value x \<noteq> elem_Value e) l"
proof -
  have "elem_id x \<noteq> elem_id e \<longleftrightarrow> elem_Value x \<noteq> elem_Value e" if "x \<in> set l" for x
    using assms that unfolding nodes_ok_def distinct_map by (metis inj_onD)
  then show ?thesis by (auto simp: list_Remove_def intro!: filter_cong)
qed

lemma unsafeRemove_survives:
  assumes inv: "cache_inv c" and k: "map_of (m c) k = Some e"
  shows "fst (unsafeRemove k c) = Some (ent_value e)"
    and "survives (\<lambda>x. x \<noteq> k) c (snd (unsafeRemove k c))"
    and "cache_inv (snd (unsafeRemove k c))"
proof -
  from k have mem: "(k, e) \<in> set (m c)" by (rule map_of_SomeD)
  with inv have node: "lruNode e \<in> set (lruList c)" "elem_Value (lruNode e) = k"
    "ageNode e \<in> set (ageList c)" "elem_Value (ageNode e) = k"
    by (auto simp: cache_inv_def linked_def)
  show "fst (unsafeRemove k c) = Some (ent_value e)" by (simp add: unsafeRemove_def k)
  have "AList.delete k (m c) = filter (\<lambda>p. fst p \<noteq> k) (m c)"
    by (auto simp: AList.delete_eq split_beta intro!: filter_cong)
  moreover have "snd (list_Remove (lruNode e) (lruList c)) = filter (\<lambda>x. elem_Value x \<noteq> k) (lruList c)"
    "snd (list_Remove (ageNode e) (ageList c)) = filter (\<lambda>x. elem_Value x \<noteq> k) (ageList c)"
    using inv list_Remove_by_value [OF _ node(1)] list_Remove_by_value [OF _ node(3)]
    unfolding node(2,4) cache_inv_def by blast+
  ultimately show s: "survives (\<lambda>x. x \<noteq> k) c (snd (unsafeRemove k c))"
    by (simp add: survives_def unsafeRemove_def k)
  show "cache_inv (snd (unsafeRemove k c))"
  proof (rule survives_inv [OF s inv])
    show "csize (snd (unsafeRemove k c)) = int64 (\<Sum>p\<leftarrow>m (snd (unsafeRemove k c)). ent_size (snd p))"
      using inv sum_list_AList_delete [of "m c" k e "\<lambda>p. ent_size (snd p)"] k
      by (simp add: unsafeRemove_def cache_inv_def)
  qed
qed

lemma filter_neq_last: "distinct xs \<Longrightarrow> xs \<noteq> [] \<Longrightarrow> filter (\<lambda>x. x \<noteq> last xs) xs = butlast xs"
  by (cases xs rule: rev_cases) (auto simp: filter_id_conv)

lemma last_notin_butlast: "distinct xs \<Longrightarrow> xs \<noteq> [] \<Longrightarrow> last xs \<notin> set (butlast xs)"
  by (cases xs rule: rev_cases) auto

lemma in_butlast_or_last: "x \<in> set xs \<Longrightarrow> x = last xs \<or> x \<in> set (butlast xs)"
  by (cases xs rule: rev_cases) auto

lemma filter_in_take: "distinct xs \<Longrightarrow> filter (\<lambda>x. x \<in> set (take n xs)) xs = take n xs"
proof -
  assume d: "distinct xs"
  have "x \<notin> set (take n xs)" if "x \<in> set (drop n xs)" for x
    using d that set_take_disj_set_drop_if_distinct [of xs n n] by auto
  then have "filter (\<lambda>x. x \<in> set (take n xs)) (take n xs @ drop n xs) = take n xs"
    unfolding filter_append by (simp add: filter_id_conv filter_empty_conv)
  then show ?thesis by simp
qed

lemma list_Back_keys:
  assumes "cache_inv c"
  shows "list_Back (lruList c) = Some elm \<Longrightarrow>
      elem_Value elm = last (lru_keys c) \<and> lru_keys c \<noteq> [] \<and> map_of (m c) (elem_Value elm) \<noteq> None"
    and "list_Back (ageList c) = Some elm \<Longrightarrow>
      elem_Value elm = last (age_keys c) \<and> age_keys c \<noteq> [] \<and> map_of (m c) (elem_Value elm) \<noteq> None"
  using inv_keys(1,2,4) [OF assms] unfolding list_Back_def
  by (simp_all add: lru_keys_def age_keys_def last_map split: if_splits) (metis imageI last_in_set)+

lemma removeExpired_loop_spec:
  assumes "cache_inv c"
  shows "\<exists>c'. removeExpired_loop tline c = Some c' \<and> cache_inv c' \<and> (\<exists>P. survives P c c')
    \<and> (aged now c \<longrightarrow> survives (\<lambda>k. tline < loaded c k) c c')"
  using assms
proof (induction "length (m c)" arbitrary: c rule: less_induct)
  case less
  show ?case
  proof (cases "list_Back (ageList c)")
    case None
    then have "ageList c = []" by (simp add: list_Back_def split: if_splits)
    then have "lru_keys c = []" using inv_keys(5) [OF less.prems] by (simp add: age_keys_def)
    then have "survives P c c" for P using less.prems by (intro survives_refl) auto
    with None less.prems show ?thesis by (simp add: removeExpired_loop.simps [of tline c])
  next
    case (Some elm)
    define k where "k = elem_Value elm"
    from list_Back_keys(2) [OF less.prems Some] obtain e
      where k: "k = last (age_keys c)" "age_keys c \<noteq> []" and e: "map_of (m c) k = Some e"
      by (auto simp: k_def)
    show ?thesis
    proof (cases "loadTime e > tline")
      case True
      have "survives (\<lambda>k. tline < loaded c k) c c" if "aged now c"
      proof (rule survives_refl [OF less.prems])
        fix x assume "x \<in> set (lru_keys c)"
        then have x: "x \<in> set (age_keys c)" by (simp add: inv_keys(5) [OF less.prems])
        have "age_keys c = butlast (age_keys c) @ [k]" using k by simp
        with that have "\<forall>y\<in>set (butlast (age_keys c)). loaded c k \<le> loaded c y"
          by (metis (no_types, lifting) aged_def list.set_intros(1) sorted_wrt_append)
        moreover have "loaded c k = loadTime e" by (simp add: loaded_def e)
        moreover from x k have "x = k \<or> x \<in> set (butlast (age_keys c))"
          by (simp add: in_butlast_or_last)
        ultimately show "tline < loaded c x" using True by fastforce
      qed
      moreover have "survives (\<lambda>_. True) c c" by (simp add: survives_refl less.prems)
      ultimately show ?thesis
        using Some True e less.prems by (auto simp: removeExpired_loop.simps [of tline c] k_def)
    next
      case False
      define c1 where "c1 = snd (unsafeRemove k c)"
      have c1: "survives (\<lambda>x. x \<noteq> k) c c1" "cache_inv c1"
        unfolding c1_def using unsafeRemove_survives [OF less.prems e] by auto
      have "length (m c1) < length (m c)"
        using length_AList_delete [OF _ e] less.prems
        by (simp add: c1_def unsafeRemove_def e cache_inv_def)
      from less.hyps [OF this c1(2)] obtain c'
        where c': "removeExpired_loop tline c1 = Some c'" "cache_inv c'" "\<exists>P. survives P c1 c'"
          "aged now c1 \<longrightarrow> survives (\<lambda>k. tline < loaded c1 k) c1 c'"
        by blast
      have "survives (\<lambda>k. tline < loaded c k) c c'" if "aged now c"
      proof (rule survives_cong [OF survives_trans [OF c1(1)] less.prems])
        show "survives (\<lambda>k. tline < loaded c1 k) c1 c'"
          using c'(4) survives_aged [OF c1(1) that] by blast
        show "(x \<noteq> k \<and> tline < loaded c1 x) = (tline < loaded c x)" for x
          using False e by (auto simp: loaded_def survives_map_of [OF c1(1)])
      qed
      moreover have "removeExpired_loop tline c = Some c'"
        using Some False e c'(1)
        by (simp add: removeExpired_loop.simps [of tline c] k_def [symmetric] c1_def)
      moreover have "\<exists>P. survives P c c'" using c'(3) survives_trans [OF c1(1)] by blast
      ultimately show ?thesis using c'(2) by blast
    qed
  qed
qed

lemma cull_loop_spec:
  assumes "cache_inv c" and "0 \<le> w"
  shows "\<exists>c'. cull_loop w c = Some c' \<and> cache_inv c'
    \<and> survives (\<lambda>k. k \<in> set (take (nat w) (lru_keys c))) c c'"
  using assms(1)
proof (induction "length (m c)" arbitrary: c rule: less_induct)
  case less
  note len = length_lru_keys(1) [OF less.prems]
  show ?case
  proof (cases "int (length (m c)) > w")
    case False
    then have "survives (\<lambda>k. k \<in> set (take (nat w) (lru_keys c))) c c"
      using len by (intro survives_refl [OF less.prems]) auto
    with False less.prems show ?thesis by (simp add: cull_loop.simps [of w c])
  next
    case True
    with len assms(2) have "lruList c \<noteq> []" by (auto simp: lru_keys_def)
    then obtain elm where elm: "list_Back (lruList c) = Some elm" by (simp add: list_Back_def)
    define k where "k = elem_Value elm"
    from list_Back_keys(1) [OF less.prems elm] obtain e
      where k: "k = last (lru_keys c)" "lru_keys c \<noteq> []" and e: "map_of (m c) k = Some e"
      by (auto simp: k_def)
    define c1 where "c1 = snd (unsafeRemove k c)"
    have c1: "survives (\<lambda>x. x \<noteq> k) c c1" "cache_inv c1"
      unfolding c1_def using unsafeRemove_survives [OF less.prems e] by auto
    have dist: "distinct (lru_keys c)" using less.prems by (simp add: cache_inv_def nodes_ok_def lru_keys_def)
    have keys: "lru_keys c1 = butlast (lru_keys c)"
      using filter_neq_last [OF dist k(2)] by (simp add: survives_lru_keys [OF c1(1)] k(1))
    have "length (m c1) < length (m c)"
      using length_AList_delete [OF _ e] less.prems
      by (simp add: c1_def unsafeRemove_def e cache_inv_def)
    from less.hyps [OF this c1(2)] obtain c'
      where c': "cull_loop w c1 = Some c'" "cache_inv c'"
        "survives (\<lambda>k. k \<in> set (take (nat w) (lru_keys c1))) c1 c'"
      by blast
    have "take (nat w) (lru_keys c1) = take (nat w) (lru_keys c)"
      using True len assms(2) by (simp add: keys take_butlast)
    moreover have "k \<notin> set (take (nat w) (lru_keys c1))"
      using last_notin_butlast [OF dist k(2)] by (auto simp: keys k(1) dest: in_set_takeD)
    ultimately have eq: "(x \<noteq> k \<and> x \<in> set (take (nat w) (lru_keys c1))) =
        (x \<in> set (take (nat w) (lru_keys c)))" for x
      by metis
    have "survives (\<lambda>k. k \<in> set (take (nat w) (lru_keys c))) c c'"
      by (rule survives_cong [OF survives_trans [OF c1(1) c'(3)] less.prems]) (rule eq)
    moreover have "cull_loop w c = Some c'"
      using True elm c'(1) by (simp add: cull_loop.simps [of w c] k_def [symmetric] c1_def)
    ultimately show ?thesis using c'(2) by blast
  qed
qed

section \<open>The operations under the invariant\<close>

definition waterLine97 :: "('k, 'v) Cache \<Rightarrow> int" where "waterLine97 c = capacity c * 97 div 100"
definition waterLine90 :: "('k, 'v) Cache \<Rightarrow> int" where "waterLine90 c = capacity c * 90 div 100"

lemma water_lines:
  assumes "cache_inv c"
  shows "go_div (int64 (capacity c * 97)) 100 = waterLine97 c"
    and "go_div (int64 (capacity c * 90)) 100 = waterLine90 c"
    and "0 < waterLine90 c" and "waterLine90 c < capacity c" and "waterLine97 c < capacity c"
  using assms by (auto simp: cache_inv_def waterLine97_def waterLine90_def)

definition fresh :: "int \<Rightarrow> ('k, 'v) Cache \<Rightarrow> 'k \<Rightarrow> bool" where
  "fresh now c k \<longleftrightarrow> now - ttl c < loaded c k"

lemma removeExpired_spec:
  assumes "cache_inv c" and "aged now0 c"
  obtains c' where "removeExpired now c = Some c'" and "cache_inv c'"
    and "survives (fresh now c) c c'"
proof -
  from removeExpired_loop_spec [OF assms(1), of "now - ttl c" now0] assms(2) that show ?thesis
    by (auto simp: removeExpired_def fresh_def [abs_def])
qed

text \<open>
  What \<open>cull\<close> leaves: everything below the 97 percent line; otherwise the fresh keys, and of
  these the most recently used, up to the 90 percent line.
\<close>

definition cull_keeps :: "int \<Rightarrow> ('k, 'v) Cache \<Rightarrow> 'k list" where
  "cull_keeps now c =
     (if int (length (m c)) < waterLine97 c then lru_keys c
      else take (nat (waterLine90 c)) (filter (fresh now c) (lru_keys c)))"

lemma cull_spec:
  assumes inv: "cache_inv c" and "aged now0 c"
  obtains c' where "cull now c = Some c'" and "cache_inv c'"
    and "survives (\<lambda>k. k \<in> set (cull_keeps now c)) c c'"
    and "int (length (m c')) < capacity c" and "lru_keys c' = cull_keeps now c"
proof (cases "int (length (m c)) < waterLine97 c")
  case True
  have "survives (\<lambda>k. k \<in> set (cull_keeps now c)) c c"
    using True by (intro survives_refl [OF inv]) (simp add: cull_keeps_def)
  with True inv water_lines [OF inv] show ?thesis
    by (intro that [of c]) (auto simp: cull_def cull_keeps_def)
next
  case False
  obtain c1 where c1: "removeExpired now c = Some c1" "cache_inv c1" "survives (fresh now c) c c1"
    by (rule removeExpired_spec [OF assms])
  then have w: "waterLine90 c1 = waterLine90 c" by (simp add: waterLine90_def survives_def)
  have pos: "0 \<le> waterLine90 c" using water_lines(3) [OF inv] by simp
  from cull_loop_spec [OF c1(2) pos] obtain c'
    where c': "cull_loop (waterLine90 c) c1 = Some c'" "cache_inv c'"
      "survives (\<lambda>k. k \<in> set (take (nat (waterLine90 c)) (lru_keys c1))) c1 c'"
    by blast
  have keeps: "cull_keeps now c = take (nat (waterLine90 c)) (lru_keys c1)"
    using False by (simp add: cull_keeps_def survives_lru_keys [OF c1(3)])
  have s: "survives (\<lambda>k. k \<in> set (cull_keeps now c)) c c'"
    by (rule survives_cong [OF survives_trans [OF c1(3) c'(3)] inv])
      (auto simp: keeps survives_lru_keys [OF c1(3)] dest: in_set_takeD)
  have dist: "distinct (lru_keys c1)"
    using c1(2) by (simp add: cache_inv_def nodes_ok_def lru_keys_def)
  have keys: "lru_keys c' = cull_keeps now c"
    using survives_lru_keys [OF c'(3)] filter_in_take [OF dist] by (simp add: keeps)
  then have "length (m c') \<le> nat (waterLine90 c)"
    using length_lru_keys(1) [OF c'(2)] by (simp add: keeps)
  with water_lines [OF inv] have "int (length (m c')) < capacity c" by linarith
  moreover have "cull now c = Some c'"
    using False c1(1) c'(1) water_lines [OF inv] water_lines [OF c1(2)] w by (simp add: cull_def)
  ultimately show ?thesis using c'(2) s keys by (intro that)
qed

text \<open>A hit moves the key to the front of the access list and changes no other key.\<close>

lemma touch_spec:
  assumes inv: "cache_inv c" and k: "map_of (m c) k = Some e"
    and same: "lruNode e' = lruNode e" "ageNode e' = ageNode e" "loadTime e' = loadTime e"
      "ent_size e' = ent_size e"
  shows "cache_inv (touch k e' c)"
    and "lru_keys (touch k e' c) = k # filter (\<lambda>x. x \<noteq> k) (lru_keys c)"
    and "age_keys (touch k e' c) = age_keys c"
    and "\<exists>nd. map_of (m (touch k e' c)) = (map_of (m c))(k \<mapsto> e'\<lparr>lruNode := nd\<rparr>)"
    and "loaded (touch k e' c) = loaded c"
    and "length (m (touch k e' c)) = length (m c)"
proof -
  from k have "(k, e) \<in> set (m c)" by (rule map_of_SomeD)
  with inv have node: "lruNode e \<in> set (lruList c)" "elem_Value (lruNode e) = k"
    "ageNode e \<in> set (ageList c)" "elem_Value (ageNode e) = k"
    by (auto simp: cache_inv_def linked_def)
  define nd where "nd = \<lparr>elem_id = nextElem c, elem_Value = k\<rparr>"
  have rm: "list_Remove (lruNode e') (lruList c) = (k, filter (\<lambda>x. elem_Value x \<noteq> k) (lruList c))"
    using inv list_Remove_by_value [OF _ node(1)] node(2)
    by (auto simp: cache_inv_def same list_Remove_def)
  have t: "touch k e' c = c\<lparr>m := AList.update k (e'\<lparr>lruNode := nd\<rparr>) (m c),
      lruList := nd # filter (\<lambda>x. elem_Value x \<noteq> k) (lruList c),
      nextElem := Suc (nextElem c), hits := int64 (hits c + 1)\<rparr>"
    by (simp add: touch_def rm list_PushFront_def nd_def Let_def)
  show keys: "lru_keys (touch k e' c) = k # filter (\<lambda>x. x \<noteq> k) (lru_keys c)"
    by (simp add: t lru_keys_def nd_def filter_map comp_def)
  show ages: "age_keys (touch k e' c) = age_keys c" by (simp add: t age_keys_def)
  have mo: "map_of (m (touch k e' c)) = (map_of (m c))(k \<mapsto> e'\<lparr>lruNode := nd\<rparr>)" by (simp add: t)
  then show "\<exists>nd. map_of (m (touch k e' c)) = (map_of (m c))(k \<mapsto> e'\<lparr>lruNode := nd\<rparr>)" by blast
  show "loaded (touch k e' c) = loaded c" using k by (auto simp: loaded_def mo same)
  have kin: "k \<in> fst ` set (m c)" using k by (metis domI dom_map_of_conv_image_fst)
  then show "length (m (touch k e' c)) = length (m c)"
    by (simp add: t length_AList_update)
  show "cache_inv (touch k e' c)"
  proof -
    have dom: "fst ` set (m (touch k e' c)) = fst ` set (m c)"
      using kin by (auto simp: t image_iff simp flip: dom_map_of_conv_image_fst)
    have "linked (touch k e' c)"
    proof -
      have "lruNode f \<in> set (lruList (touch k e' c)) \<and> elem_Value (lruNode f) = x
          \<and> ageNode f \<in> set (ageList (touch k e' c)) \<and> elem_Value (ageNode f) = x"
        if "map_of (m (touch k e' c)) x = Some f" for x f
      proof (cases "x = k")
        case True
        with that have f: "f = e'\<lparr>lruNode := nd\<rparr>" by (simp add: mo)
        have "elem_Value nd = k" by (simp add: nd_def)
        with True node same show ?thesis by (simp add: f t)
      next
        case False
        with that have "(x, f) \<in> set (m c)" by (auto simp: mo dest: map_of_SomeD)
        with inv False show ?thesis by (auto simp: cache_inv_def linked_def t)
      qed
      moreover have "distinct (map fst (m (touch k e' c)))"
        using inv by (simp add: t cache_inv_def distinct_update)
      ultimately show ?thesis by (auto simp: linked_def)
    qed
    moreover have "nodes_ok (Suc (nextElem c)) (nd # filter (\<lambda>x. elem_Value x \<noteq> k) (lruList c))"
      "nodes_ok (Suc (nextElem c)) (ageList c)"
      using inv by (auto simp: cache_inv_def nodes_ok_def nd_def distinct_map_filter less_SucI)
    moreover have "set (lru_keys (touch k e' c)) = fst ` set (m c)"
      using kin inv by (auto simp: keys cache_inv_def)
    ultimately show ?thesis
      using inv dom ages sum_list_AList_update [OF k, of "\<lambda>p. ent_size (snd p)"] same
      by (simp add: cache_inv_def distinct_update) (simp add: t distinct_update)
  qed
qed

lemma aged_mono: "aged now c \<Longrightarrow> now \<le> now' \<Longrightarrow> aged now' c"
  by (force simp: aged_def)

lemma aged_cong:
  "age_keys c' = age_keys c \<Longrightarrow> loaded c' = loaded c \<Longrightarrow> aged now c' = aged now c"
  by (simp add: aged_def)

lemma inv_misses: "cache_inv (c\<lparr>misses := n\<rparr>) = cache_inv c" "aged now (c\<lparr>misses := n\<rparr>) = aged now c"
  "lru_keys (c\<lparr>misses := n\<rparr>) = lru_keys c"
  by (simp_all add: cache_inv_def aged_def linked_def lru_keys_def age_keys_def loaded_def [abs_def])

text \<open>Functional behaviour of a lookup, on both branches.\<close>

lemma Get_spec:
  assumes inv: "cache_inv c" and ag: "aged now0 c"
  obtains c' where "Get now k c = Some
      (if fresh now c k then map_option ent_value (map_of (m c) k) else None, c')"
    and "cache_inv c'" and "aged now0 c'"
    and "lru_keys c' = (if fresh now c k \<and> map_of (m c) k \<noteq> None
       then k # filter (\<lambda>x. fresh now c x \<and> x \<noteq> k) (lru_keys c)
       else filter (fresh now c) (lru_keys c))"
    and "length (m c') \<le> length (m c)" and "capacity c' = capacity c"
proof -
  obtain c1 where c1: "removeExpired now c = Some c1" "cache_inv c1" "survives (fresh now c) c c1"
    by (rule removeExpired_spec [OF inv ag])
  note keys = survives_lru_keys [OF c1(3)] and mo = survives_map_of [OF c1(3)]
  have ag1: "aged now0 c1" by (rule survives_aged [OF c1(3) ag])
  have len: "length (m c1) \<le> length (m c)" and cap: "capacity c1 = capacity c"
    using c1(3) by (simp_all add: survives_def)
  show ?thesis
  proof (cases "map_of (m c1) k")
    case None
    show ?thesis
    proof (rule that [of "c1\<lparr>misses := int64 (misses c1 + 1)\<rparr>"])
      show "Get now k c = Some (if fresh now c k then map_option ent_value (map_of (m c) k) else None,
          c1\<lparr>misses := int64 (misses c1 + 1)\<rparr>)"
        using None c1(1) mo [of k] by (auto simp: Get_def split: if_splits)
    qed (use None c1(2) ag1 keys len cap mo [of k] in \<open>auto simp: inv_misses split: if_splits\<close>)
  next
    case (Some e)
    then have e: "fresh now c k" "map_of (m c) k = Some e" using mo [of k] by (auto split: if_splits)
    note t = touch_spec [OF c1(2) Some refl refl refl refl]
    show ?thesis
    proof (rule that [of "touch k e c1"])
      show "aged now0 (touch k e c1)" using aged_cong [OF t(3) t(5)] ag1 by simp
      show "lru_keys (touch k e c1) = (if fresh now c k \<and> map_of (m c) k \<noteq> None
       then k # filter (\<lambda>x. fresh now c x \<and> x \<noteq> k) (lru_keys c)
       else filter (fresh now c) (lru_keys c))"
        using e by (simp add: t(2) keys conj_commute)
      show "capacity (touch k e c1) = capacity c"
        using cap by (simp add: touch_def list_Remove_def list_PushFront_def Let_def)
    qed (use Some c1(1) e t(1,6) len in \<open>simp_all add: Get_def\<close>)
  qed
qed

lemma Update_spec:
  assumes inv: "cache_inv c" and ag: "aged now0 c"
  obtains c' where "Update now k v c = Some
      (if fresh now c k \<and> map_of (m c) k \<noteq> None then Some v else None, c')"
    and "cache_inv c'" and "aged now0 c'"
    and "length (m c') \<le> length (m c)" and "capacity c' = capacity c"
    and "map_option ent_value (map_of (m c') k)
         = (if fresh now c k \<and> map_of (m c) k \<noteq> None then Some v else None)"
proof -
  obtain c1 where c1: "removeExpired now c = Some c1" "cache_inv c1" "survives (fresh now c) c c1"
    by (rule removeExpired_spec [OF inv ag])
  note mo = survives_map_of [OF c1(3)]
  have ag1: "aged now0 c1" by (rule survives_aged [OF c1(3) ag])
  have len: "length (m c1) \<le> length (m c)" and cap: "capacity c1 = capacity c"
    using c1(3) by (simp_all add: survives_def)
  show ?thesis
  proof (cases "map_of (m c1) k")
    case None
    with c1 mo [of k] ag1 len cap show ?thesis
      by (intro that [of "c1\<lparr>misses := int64 (misses c1 + 1)\<rparr>"])
        (auto simp: Update_def inv_misses split: if_splits)
  next
    case (Some e)
    then have e: "fresh now c k" "map_of (m c) k = Some e" using mo [of k] by (auto split: if_splits)
    let ?e = "e\<lparr>ent_value := v\<rparr>"
    note t = touch_spec [OF c1(2) Some, of ?e, simplified]
    from t(4) obtain nd where nd: "map_of (m (touch k ?e c1)) = (map_of (m c1))(k \<mapsto> ?e\<lparr>lruNode := nd\<rparr>)"
      by auto
    have "aged now0 (touch k ?e c1)" using aged_cong [OF t(3) t(5)] ag1 by simp
    moreover have "capacity (touch k ?e c1) = capacity c"
      using cap by (simp add: touch_def list_Remove_def list_PushFront_def Let_def)
    ultimately show ?thesis
      using Some c1(1) e t(1,6) len nd by (intro that [of "touch k ?e c1"]) (simp_all add: Update_def)
  qed
qed

lemma AddWithSize_spec:
  assumes inv: "cache_inv c" and ag: "aged now0 c" and "now0 \<le> now'" and k: "map_of (m c) k = None"
  obtains c' where "AddWithSize now now' k v s c = Some (True, c')"
    and "cache_inv c'" and "aged now' c'"
    and "lru_keys c' = k # cull_keeps now c"
    and "int (length (m c')) \<le> capacity c" and "capacity c' = capacity c" and "ttl c' = ttl c"
    and "\<exists>e. map_of (m c') k = Some e \<and> ent_value e = v \<and> loadTime e = now'"
proof -
  obtain c1 where c1: "cull now c = Some c1" "cache_inv c1"
    "survives (\<lambda>k. k \<in> set (cull_keeps now c)) c c1" "int (length (m c1)) < capacity c"
    "lru_keys c1 = cull_keeps now c"
    by (rule cull_spec [OF inv ag])
  define ln where "ln = \<lparr>elem_id = nextElem c1, elem_Value = k\<rparr>"
  define an where "an = \<lparr>elem_id = Suc (nextElem c1), elem_Value = k\<rparr>"
  define e where "e = \<lparr>ent_value = v, lruNode = ln, ageNode = an, loadTime = now', ent_size = s\<rparr>"
  define c' where "c' = c1\<lparr>m := AList.update k e (m c1), lruList := ln # lruList c1,
    ageList := an # ageList c1, nextElem := Suc (Suc (nextElem c1)), csize := int64 (csize c1 + s)\<rparr>"
  have add: "AddWithSize now now' k v s c = Some (True, c')"
    using c1(1) k by (simp add: AddWithSize_def list_PushFront_def Let_def c'_def e_def ln_def an_def)
  have k1: "map_of (m c1) k = None" using survives_map_of [OF c1(3), of k] k by (simp split: if_splits)
  then have knew: "k \<notin> fst ` set (m c1)" by (simp add: map_of_eq_None_iff)
  then have mc': "m c' = m c1 @ [(k, e)]" by (simp add: c'_def AList_update_fresh)
  have keys: "lru_keys c' = k # lru_keys c1" "age_keys c' = k # age_keys c1"
    by (simp_all add: c'_def lru_keys_def age_keys_def ln_def an_def)
  have sets: "set (lru_keys c1) = fst ` set (m c1)" "set (age_keys c1) = fst ` set (m c1)"
    using c1(2) by (auto simp: cache_inv_def)
  have "cache_inv c'"
  proof -
    have "nodes_ok (nextElem c') (lruList c')" "nodes_ok (nextElem c') (ageList c')"
      using c1(2) knew sets
      by (auto simp: c'_def cache_inv_def nodes_ok_def ln_def an_def lru_keys_def age_keys_def less_SucI
          dest: less_SucI)
    moreover have "linked c'"
      using c1(2) by (auto simp: linked_def mc' cache_inv_def) (auto simp: c'_def e_def ln_def an_def)
    moreover have "csize c' = int64 (\<Sum>p\<leftarrow>m c'. ent_size (snd p))"
      unfolding mc' using c1(2) by (simp add: c'_def e_def cache_inv_def)
    moreover have "capacity c' = capacity c1" by (simp add: c'_def)
    ultimately show ?thesis
      using c1(2) sets knew by (simp add: cache_inv_def mc' keys)
  qed
  moreover have "aged now' c'"
  proof -
    have "aged now' c1" using aged_mono [OF survives_aged [OF c1(3) ag] assms(3)] .
    moreover have "loaded c' k = now'" by (simp add: loaded_def c'_def e_def)
    moreover have eq: "loaded c' x = loaded c1 x" if "x \<in> set (age_keys c1)" for x
      using that sets knew by (auto simp: loaded_def c'_def)
    moreover have "sorted_wrt (\<lambda>x y. loaded c' y \<le> loaded c' x) (age_keys c1)"
      if "sorted_wrt (\<lambda>x y. loaded c1 y \<le> loaded c1 x) (age_keys c1)"
      using that by (rule sorted_wrt_mono_rel [rotated]) (simp add: eq)
    ultimately show ?thesis by (simp add: aged_def keys)
  qed
  moreover have "int (length (m c')) \<le> capacity c" using c1(4) by (simp add: mc')
  moreover have "capacity c' = capacity c" "ttl c' = ttl c"
    using c1(3) by (simp_all add: c'_def survives_def)
  moreover have "\<exists>e. map_of (m c') k = Some e \<and> ent_value e = v \<and> loadTime e = now'"
    by (simp add: c'_def e_def)
  ultimately show ?thesis using add keys c1(5) by (intro that) auto
qed

lemma Remove_spec:
  assumes "cache_inv c" and "aged now c"
  shows "cache_inv (snd (Remove k c))" and "aged now (snd (Remove k c))"
    and "fst (Remove k c) = map_option ent_value (map_of (m c) k)"
    and "lru_keys (snd (Remove k c)) = filter (\<lambda>x. x \<noteq> k) (lru_keys c)"
proof -
  have "cache_inv (snd (Remove k c)) \<and> aged now (snd (Remove k c))
    \<and> fst (Remove k c) = map_option ent_value (map_of (m c) k)
    \<and> lru_keys (snd (Remove k c)) = filter (\<lambda>x. x \<noteq> k) (lru_keys c)"
  proof (cases "map_of (m c) k")
    case None
    then have "k \<notin> set (lru_keys c)" by (simp add: inv_keys(4) [OF assms(1)])
    then have "filter (\<lambda>x. x \<noteq> k) (lru_keys c) = lru_keys c" by (auto simp: filter_id_conv)
    with None assms show ?thesis by (simp add: Remove_def unsafeRemove_def)
  next
    case (Some e)
    note u = unsafeRemove_survives [OF assms(1) Some]
    from u survives_aged [OF u(2) assms(2)] survives_lru_keys [OF u(2)] Some show ?thesis
      by (simp add: Remove_def)
  qed
  then show "cache_inv (snd (Remove k c))" and "aged now (snd (Remove k c))"
    and "fst (Remove k c) = map_option ent_value (map_of (m c) k)"
    and "lru_keys (snd (Remove k c)) = filter (\<lambda>x. x \<noteq> k) (lru_keys c)"
    by auto
qed

section \<open>The cache as a system of operations\<close>

text \<open>
  A run of the program on one cache: operations with the time that passes before each clock
  reading (Go compares \<open>time.Now()\<close> values on the monotonic clock, so it never goes back).
\<close>

datatype ('k, 'v) cache_op =
    OGet nat 'k | OUpdate nat 'k 'v | OAdd nat nat 'k 'v int
  | ORemove 'k | OSetCapacity int | OSetTTL int

fun cache_step :: "('k, 'v) cache_op \<Rightarrow> int \<times> ('k, 'v) Cache \<Rightarrow> (int \<times> ('k, 'v) Cache) option" where
  "cache_step (OGet d k) (T, c) = map_option (\<lambda>r. (T + int d, snd r)) (Get (T + int d) k c)"
| "cache_step (OUpdate d k v) (T, c) = map_option (\<lambda>r. (T + int d, snd r)) (Update (T + int d) k v c)"
| "cache_step (OAdd d d' k v s) (T, c) =
     map_option (\<lambda>r. (T + int d + int d', snd r)) (AddWithSize (T + int d) (T + int d + int d') k v s c)"
| "cache_step (ORemove k) (T, c) = Some (T, snd (Remove k c))"
| "cache_step (OSetCapacity cap) (T, c) = Some (T, SetCapacity cap c)"
| "cache_step (OSetTTL d) (T, c) = Some (T, SetTTL d c)"

definition clocked_inv :: "int \<times> ('k, 'v) Cache \<Rightarrow> bool" where
  "clocked_inv s \<longleftrightarrow> cache_inv (snd s) \<and> aged (fst s) (snd s)"

definition bounded_inv :: "int \<times> ('k, 'v) Cache \<Rightarrow> bool" where
  "bounded_inv s \<longleftrightarrow> clocked_inv s \<and> Len (snd s) \<le> capacity (snd s)"

fun sane_op :: "('k, 'v) cache_op \<Rightarrow> bool" where
  "sane_op (OSetCapacity cap) = (cap < 2 ^ 56)"
| "sane_op _ = True"

fun fixed_capacity_op :: "('k, 'v) cache_op \<Rightarrow> bool" where
  "fixed_capacity_op (OSetCapacity cap) = False"
| "fixed_capacity_op _ = True"

lemma AddWithSize_step:
  assumes "cache_inv c" and "aged T c"
  shows "\<exists>b c'. AddWithSize (T + int d) (T + int d + int d') k v s c = Some (b, c')
    \<and> cache_inv c' \<and> aged (T + int d + int d') c' \<and> capacity c' = capacity c
    \<and> (Len c \<le> capacity c \<longrightarrow> Len c' \<le> capacity c)"
proof (cases "map_of (m c) k")
  case None
  show ?thesis
    by (rule AddWithSize_spec [OF assms _ None, of "T + int d + int d'" "T + int d" v s])
      (auto simp: Len_def)
next
  case (Some e)
  with assms show ?thesis by (auto simp: AddWithSize_def intro: aged_mono)
qed

lemma SetTTL_inv [simp]: "cache_inv (SetTTL d c) = cache_inv c" "aged T (SetTTL d c) = aged T c"
  "Len (SetTTL d c) = Len c" "capacity (SetTTL d c) = capacity c"
  by (simp_all add: SetTTL_def cache_inv_def aged_def linked_def lru_keys_def age_keys_def Len_def
      loaded_def [abs_def])

lemma SetCapacity_inv:
  "cache_inv c \<Longrightarrow> cap < 2 ^ 56 \<Longrightarrow> cache_inv (SetCapacity cap c)" "aged T (SetCapacity cap c) = aged T c"
  by (auto simp: SetCapacity_def cache_inv_def aged_def linked_def lru_keys_def age_keys_def
      loaded_def [abs_def])

lemma cache_step_inv [inv_rules]:
  assumes "clocked_inv s" and "sane_op op"
  shows "\<exists>s'. cache_step op s = Some s' \<and> clocked_inv s'
    \<and> (fixed_capacity_op op \<and> bounded_inv s \<longrightarrow> bounded_inv s')"
proof -
  obtain T c where s: "s = (T, c)" by (cases s)
  with assms have inv: "cache_inv c" and ag: "aged T c" by (auto simp: clocked_inv_def)
  show ?thesis
  proof (cases op)
    case (OGet d k)
    show ?thesis
      by (rule Get_spec [OF inv ag, of "T + int d" k])
        (auto simp: OGet s clocked_inv_def bounded_inv_def Len_def intro: aged_mono)
  next
    case (OUpdate d k v)
    show ?thesis
      by (rule Update_spec [OF inv ag, of "T + int d" k v])
        (auto simp: OUpdate s clocked_inv_def bounded_inv_def Len_def intro: aged_mono)
  next
    case (OAdd d d' k v n)
    with AddWithSize_step [OF inv ag, of d d' k v n] show ?thesis
      by (auto simp: s clocked_inv_def bounded_inv_def)
  next
    case (ORemove k)
    have "length (m (snd (Remove k c))) \<le> length (m c)" "capacity (snd (Remove k c)) = capacity c"
      by (auto simp: Remove_def unsafeRemove_def AList.delete_eq split: option.split)
    with Remove_spec(1,2) [OF inv ag] show ?thesis
      by (auto simp: ORemove s clocked_inv_def bounded_inv_def Len_def)
  next
    case (OSetCapacity cap)
    with assms(2) inv ag show ?thesis by (auto simp: s clocked_inv_def SetCapacity_inv)
  next
    case (OSetTTL d)
    with inv ag show ?thesis by (auto simp: s clocked_inv_def bounded_inv_def)
  qed
qed

interpretation cache_sys: invariant_system cache_step clocked_inv sane_op
  by unfold_locales (use cache_step_inv in blast)

interpretation bounded_sys: invariant_system cache_step bounded_inv fixed_capacity_op
proof
  fix s :: "int \<times> ('k, 'v) Cache" and op :: "('k, 'v) cache_op"
  assume "bounded_inv s" and f: "fixed_capacity_op op"
  moreover from f have "sane_op op" by (cases op) auto
  ultimately show "\<exists>s'. cache_step op s = Some s' \<and> bounded_inv s'"
    using cache_step_inv by (metis bounded_inv_def)
qed

lemma New_bounded: "bounded_inv (T, New)"
  using New_inv New_aged
  by (auto simp: bounded_inv_def clocked_inv_def Len_def) (simp_all add: New_def DefaultCapacity_def)

section \<open>Properties\<close>

text \<open>
  C11.  Every operation returns: from a new cache, no sequence of operations (capacities below
  \<open>2 ^ 56\<close>) makes one of the two internal loops spin, and the map, the two lists and the size
  counter stay consistent.
\<close>

theorem cache_runs_return:
  assumes "list_all sane_op ops"
  shows "\<exists>T' c'. run_ops cache_step ops (T, New) = Some (T', c') \<and> cache_inv c' \<and> aged T' c'"
proof -
  have "clocked_inv (T, New)" using New_bounded bounded_inv_def by blast
  from cache_sys.run_returns [OF this assms] show ?thesis by (auto simp: clocked_inv_def)
qed

theorem cache_runs_return_witness:
  "\<exists>T' c'. run_ops cache_step [OSetCapacity 2, OAdd 0 1 ''a'' (1::nat) 10, OGet 5 ''a''] (0, New)
     = Some (T', c') \<and> cache_inv c' \<and> aged T' c'"
  by (rule cache_runs_return) simp

text \<open>
  C12.  The cache never holds more entries than its capacity, as long as the capacity is not
  changed during the run.
\<close>

theorem cache_never_over_capacity:
  assumes "list_all fixed_capacity_op ops" and "run_ops cache_step ops (T, New) = Some (T', c')"
  shows "Len c' \<le> GetCapacity c'"
  using bounded_sys.run_returns [OF New_bounded assms(1), of T] assms(2)
  by (simp add: bounded_inv_def GetCapacity_def)

theorem cache_never_over_capacity_witness:
  "Len (snd (the (run_ops cache_step [OAdd 0 1 ''a'' (1::nat) 10] (0, New)))) \<le>
   GetCapacity (snd (the (run_ops cache_step [OAdd 0 1 ''a'' (1::nat) 10] (0, New))))"
proof -
  have "\<exists>T' c'. run_ops cache_step [OAdd 0 1 ''a'' (1::nat) 10] (0, New) = Some (T', c')"
    using cache_sys.run_returns [of "(0, New)" "[OAdd 0 1 ''a'' (1::nat) 10]"] New_bounded
    by (auto simp: bounded_inv_def)
  then show ?thesis
    using cache_never_over_capacity [of "[OAdd 0 1 ''a'' (1::nat) 10]" 0] by fastforce
qed

text \<open>
  C13.  A lookup answers with the stored value exactly when the key is present and its age is
  less than the time to live, and with \<open>nil\<close> otherwise; it discards every expired key, and a
  hit moves the key to the front of the access order.
\<close>

theorem cache_get_exact:
  assumes "cache_inv c" and "aged T c" and "T \<le> now"
  shows "\<exists>c'. Get now k c = Some
      (if now - loaded c k < ttl c then map_option ent_value (map_of (m c) k) else None, c')
    \<and> lru_keys c' = (if now - loaded c k < ttl c \<and> map_of (m c) k \<noteq> None
       then k # filter (\<lambda>x. now - loaded c x < ttl c \<and> x \<noteq> k) (lru_keys c)
       else filter (\<lambda>x. now - loaded c x < ttl c) (lru_keys c))"
proof -
  have f: "fresh now c = (\<lambda>x. now - loaded c x < ttl c)" by (auto simp: fresh_def fun_eq_iff)
  show ?thesis by (rule Get_spec [OF assms(1,2), of now k]) (auto simp: f)
qed

theorem cache_get_exact_witness:
  "\<exists>c'. Get 5 ''a'' (New :: (string, nat) Cache) = Some (None, c') \<and> lru_keys c' = []"
  using cache_get_exact [OF New_inv New_aged, of 0 5 "''a''"]
  by (auto simp: DefaultAge_def)

text \<open>
  C14.  Adding a key that is not present succeeds and evicts by recency: below the 97 percent
  line nothing is dropped; otherwise exactly the fresh keys most recently used survive, up to
  90 percent of the capacity, and the new key is in front.
\<close>

theorem cache_add_evicts_least_recent:
  assumes "cache_inv c" and "aged T c" and "T \<le> now'" and "map_of (m c) k = None"
  shows "\<exists>c'. AddWithSize now now' k v s c = Some (True, c') \<and>
    lru_keys c' = k #
      (if Len c < capacity c * 97 div 100 then lru_keys c
       else take (nat (capacity c * 90 div 100))
              (filter (\<lambda>x. now - loaded c x < ttl c) (lru_keys c)))"
proof -
  have f: "fresh now c = (\<lambda>x. now - loaded c x < ttl c)" by (auto simp: fresh_def fun_eq_iff)
  show ?thesis
    by (rule AddWithSize_spec [OF assms, of now v s])
      (simp add: cull_keeps_def f Len_def waterLine97_def waterLine90_def)
qed

theorem cache_add_evicts_least_recent_witness:
  "\<exists>c'. AddWithSize 5 6 ''a'' (7::nat) 10 New = Some (True, c') \<and> lru_keys c' = [''a'']"
proof -
  have "map_of (m (New :: (string, nat) Cache)) ''a'' = None" by simp
  from cache_add_evicts_least_recent [OF New_inv New_aged _ this, of 0 6 5 7 10] show ?thesis
    by (auto simp: DefaultCapacity_def)
qed

text \<open>
  C15.  Round trip: a value just added is what a lookup of its key returns at any later time
  before its time to live is over.
\<close>

theorem cache_add_get:
  assumes "cache_inv c" and "aged T c" and "T \<le> now'" and "map_of (m c) k = None"
    and "AddWithSize now now' k v s c = Some (b, c')" and "now' \<le> t" and "t < now' + ttl c"
  shows "\<exists>c''. Get t k c' = Some (Some v, c'')"
proof -
  obtain e where c': "cache_inv c'" "aged now' c'" "ttl c' = ttl c"
    and e: "map_of (m c') k = Some e" "ent_value e = v" "loadTime e = now'"
    using AddWithSize_spec [OF assms(1-4), of now v s] assms(5) by fastforce
  with cache_get_exact [OF c'(1,2) assms(6), of k] assms(7) show ?thesis
    by (auto simp: loaded_def)
qed

theorem cache_add_get_witness:
  "\<exists>c''. Get 100 ''a'' (snd (the (AddWithSize 5 6 ''a'' (7::nat) 10 New))) = Some (Some 7, c'')"
proof -
  have none: "map_of (m (New :: (string, nat) Cache)) ''a'' = None" by simp
  obtain c' where add: "AddWithSize 5 6 ''a'' (7::nat) 10 New = Some (True, c')"
    by (rule AddWithSize_spec [OF New_inv New_aged _ none, of 0 6 5 7 10]) auto
  show ?thesis
    using cache_add_get [OF New_inv New_aged _ none add, of 0 100]
    by (simp add: add DefaultAge_def)
qed

text \<open>
  A key that is present but expired still blocks an insertion: unless a lookup or a cull has
  discarded it, \<open>Add\<close> refuses the new value and changes nothing, although a lookup at that very
  moment answers \<open>nil\<close>.
\<close>

theorem cache_add_refused_by_expired:
  assumes "cache_inv c" and "aged T c" and "T \<le> now"
    and "map_of (m c) k = Some e" and "loadTime e + ttl c \<le> now"
  shows "Add now now' k v c = Some (False, c) \<and> (\<exists>c'. Get now k c = Some (None, c'))"
  using cache_get_exact [OF assms(1-3), of k] assms(4,5)
  by (auto simp: Add_def AddWithSize_def loaded_def)

theorem cache_add_refused_by_expired_witness:
  "Add 70000000000 70000000001 ''a'' 9 (snd (the (AddWithSize 5 6 ''a'' (7::nat) 10 New)))
     = Some (False, snd (the (AddWithSize 5 6 ''a'' (7::nat) 10 New)))"
proof -
  have none: "map_of (m (New :: (string, nat) Cache)) ''a'' = None" by simp
  obtain c' where c': "AddWithSize 5 6 ''a'' (7::nat) 10 New = Some (True, c')" "cache_inv c'" "aged 6 c'"
    "ttl c' = ttl (New :: (string, nat) Cache)"
    "\<exists>e. map_of (m c') ''a'' = Some e \<and> ent_value e = 7 \<and> loadTime e = 6"
    by (rule AddWithSize_spec [OF New_inv New_aged _ none, of 0 6 5 7 10]) auto
  then show ?thesis
    using cache_add_refused_by_expired [OF c'(2,3), of 70000000000 "''a''" _ 70000000001 9]
    by (auto simp: DefaultAge_def)
qed

end
