(* ===== verification/Transport_Codec.thy ===== *)
theory Transport_Codec
  imports Mango_Prelude
begin

text \<open>
  The frame codec of \<^verbatim>\<open>src/plugin/transport/codec.go\<close> and the read loop of
  \<^verbatim>\<open>src/plugin/transport/tcp/tcp.go\<close> it runs on.  What a peer sends is a list of network
  segments; the \<open>bufio.Reader\<close> hands out at most one segment per call and keeps what does not
  fit.  A list that is used up stands for a silent peer: the call blocks, and the model returns
  \<open>None\<close>.
\<close>

section \<open>Little-endian words\<close>

definition LE_Uint32 :: "byte list \<Rightarrow> ('e, u32) res" where
  "LE_Uint32 b =
     (case b of
        b0 # b1 # b2 # b3 # _ \<Rightarrow>
          Ok (or (ucast b0) (or (push_bit 8 (ucast b1))
             (or (push_bit 16 (ucast b2)) (push_bit 24 (ucast b3)))))
      | _ \<Rightarrow> Panic)"

definition LE_bytes :: "u32 \<Rightarrow> byte list" where
  "LE_bytes v = [ucast v, ucast (drop_bit 8 v), ucast (drop_bit 16 v), ucast (drop_bit 24 v)]"

text \<open>\<open>binary.LittleEndian.PutUint32(b[lo:lo+4], v)\<close>.\<close>

definition LE_PutUint32 :: "byte list \<Rightarrow> nat \<Rightarrow> u32 \<Rightarrow> ('e, byte list) res" where
  "LE_PutUint32 b lo v =
     (if lo + 4 \<le> length b then Ok (take lo b @ LE_bytes v @ drop (lo + 4) b) else Panic)"

lemma length_LE_bytes [simp]: "length (LE_bytes v) = 4"
  by (simp add: LE_bytes_def)

lemma LE_bytes_inverse:
  fixes v :: u32
  shows "or (ucast (ucast v :: byte)) (or (push_bit 8 (ucast (ucast (drop_bit 8 v) :: byte)))
    (or (push_bit 16 (ucast (ucast (drop_bit 16 v) :: byte)))
      (push_bit 24 (ucast (ucast (drop_bit 24 v) :: byte))))) = v" (is "?w = v")
proof (rule bit_word_eqI)
  fix n assume "n < LENGTH(32)"
  then consider "n < 8" | "8 \<le> n" "n < 16" | "16 \<le> n" "n < 24" | "24 \<le> n" "n < 32" by fastforce
  then show "bit ?w n = bit v n" by cases (auto simp: bit_simps)
qed

lemma LE_Uint32_bytes [simp]: "LE_Uint32 (LE_bytes v @ rest) = Ok v"
  using LE_bytes_inverse [of v] by (simp add: LE_Uint32_def LE_bytes_def)

lemma LE_Uint32_bytes_only [simp]: "LE_Uint32 (LE_bytes v) = Ok v"
  using LE_Uint32_bytes [of v "[]"] by simp

lemma byte_bit_high [simp]: "8 \<le> n \<Longrightarrow> \<not> bit (b :: byte) n"
  using bit_imp_le_length [of b n] by auto

lemma LE_Uint32_split:
  assumes "4 \<le> length b"
  obtains v where "LE_Uint32 b = Ok v" and "b = LE_bytes v @ drop 4 b"
proof -
  from assms obtain b0 b1 b2 b3 rest where b: "b = b0 # b1 # b2 # b3 # rest"
    by (auto simp: numeral_eq_Suc Suc_le_length_iff)
  define v :: u32 where "v = or (ucast b0) (or (push_bit 8 (ucast b1))
    (or (push_bit 16 (ucast b2)) (push_bit 24 (ucast b3))))"
  have "LE_bytes v = [b0, b1, b2, b3]"
    unfolding LE_bytes_def v_def
    by (auto intro!: bit_word_eqI simp: bit_simps)
  with b show ?thesis by (intro that [of v]) (auto simp: LE_Uint32_def v_def)
qed

lemma unat_u32_bound: "unat (w :: u32) < 4294967296"
  using unsigned_less [of w] by simp

lemma unat_word_of_nat_u32: "n < 4294967296 \<Longrightarrow> unat (word_of_nat n :: u32) = n"
  by (simp add: unsigned_of_nat take_bit_nat_eq_self)

section \<open>Reading from a connection\<close>

datatype neterr = NetTimeout | NetOther

datatype segment = Seg "byte list" | RErr neterr

fun bufio_Read :: "nat \<Rightarrow> segment list \<Rightarrow> ((neterr + byte list) \<times> segment list) option" where
  "bufio_Read n [] = None"
| "bufio_Read n (RErr e # segs) = Some (Inl e, segs)"
| "bufio_Read n (Seg bs # segs) =
     Some (Inr (take n bs), if length bs \<le> n then segs else Seg (drop n bs) # segs)"

fun seg_size :: "segment \<Rightarrow> nat" where
  "seg_size (Seg bs) = Suc (length bs)"
| "seg_size (RErr e) = 1"

lemma bufio_Read_size:
  "bufio_Read n segs = Some (r, segs') \<Longrightarrow> 0 < n \<Longrightarrow>
     sum_list (map seg_size segs') < sum_list (map seg_size segs)"
  by (cases "(n, segs)" rule: bufio_Read.cases) (auto split: if_splits)

text \<open>\<open>(*tcpConn).Read\<close>: fills the whole target buffer, or fails with the reader's error.\<close>

function tcpConn_Read_loop ::
  "nat \<Rightarrow> byte list \<Rightarrow> segment list \<Rightarrow> ((neterr + byte list) \<times> segment list) option" where
  "tcpConn_Read_loop targetLen got segs =
     (if length got < targetLen
      then (case bufio_Read (targetLen - length got) segs of
              None \<Rightarrow> None
            | Some (Inl e, segs') \<Rightarrow> Some (Inl e, segs')
            | Some (Inr bs, segs') \<Rightarrow> tcpConn_Read_loop targetLen (got @ bs) segs')
      else Some (Inr got, segs))"
  by pat_completeness auto
termination
  by (relation "measure (\<lambda>(t, got, segs). sum_list (map seg_size segs))")
    (auto dest: bufio_Read_size)

declare tcpConn_Read_loop.simps [simp del]

definition tcpConn_Read :: "nat \<Rightarrow> segment list \<Rightarrow> ((neterr + byte list) \<times> segment list) option" where
  "tcpConn_Read targetLen segs =
     (if targetLen = 0 then Some (Inr [], segs) else tcpConn_Read_loop targetLen [] segs)"

text \<open>The bytes that arrive before the first error, and that error.\<close>

fun avail :: "segment list \<Rightarrow> byte list" where
  "avail [] = []"
| "avail (Seg bs # segs) = bs @ avail segs"
| "avail (RErr e # segs) = []"

fun first_err :: "segment list \<Rightarrow> neterr option" where
  "first_err [] = None"
| "first_err (Seg bs # segs) = first_err segs"
| "first_err (RErr e # segs) = Some e"

lemma tcpConn_Read_loop_spec:
  assumes "length got \<le> t"
  shows "if t - length got \<le> length (avail segs)
    then \<exists>segs'. tcpConn_Read_loop t got segs
             = Some (Inr (got @ take (t - length got) (avail segs)), segs')
           \<and> avail segs' = drop (t - length got) (avail segs) \<and> first_err segs' = first_err segs
    else case first_err segs of
           None \<Rightarrow> tcpConn_Read_loop t got segs = None
         | Some e \<Rightarrow> \<exists>segs'. tcpConn_Read_loop t got segs = Some (Inl e, segs')"
  using assms
proof (induction segs arbitrary: got)
  case Nil
  then show ?case by (auto simp: tcpConn_Read_loop.simps [of _ got "[]"])
next
  case (Cons seg segs)
  show ?case
  proof (cases "length got < t")
    case False
    with Cons.prems show ?thesis by (simp add: tcpConn_Read_loop.simps [of t got])
  next
    case lt: True
    show ?thesis
    proof (cases seg)
      case (RErr e)
      with lt show ?thesis by (simp add: tcpConn_Read_loop.simps [of t got])
    next
      case (Seg bs)
      show ?thesis
      proof (cases "length bs \<le> t - length got")
        case True
        with Seg lt have "tcpConn_Read_loop t got (seg # segs) = tcpConn_Read_loop t (got @ bs) segs"
          by (simp add: tcpConn_Read_loop.simps [of t got])
        moreover have "t - length (got @ bs) = t - length got - length bs" by simp
        ultimately show ?thesis using Cons.IH [of "got @ bs"] True Seg lt
          by (auto simp: le_diff_conv2 split: option.splits if_splits)
      next
        case False
        with Seg lt show ?thesis
          by (simp add: tcpConn_Read_loop.simps [of t got]
              tcpConn_Read_loop.simps [of t "got @ take (t - length got) bs"])
      qed
    qed
  qed
qed

lemma tcpConn_Read_ok:
  assumes "n \<le> length (avail segs)"
  obtains segs' where "tcpConn_Read n segs = Some (Inr (take n (avail segs)), segs')"
    and "avail segs' = drop n (avail segs)" and "first_err segs' = first_err segs"
  using tcpConn_Read_loop_spec [of "[]" n segs] assms that
  by (cases "n = 0") (auto simp: tcpConn_Read_def)

lemma tcpConn_Read_short:
  assumes "length (avail segs) < n"
  shows "case first_err segs of
      None \<Rightarrow> tcpConn_Read n segs = None
    | Some e \<Rightarrow> \<exists>segs'. tcpConn_Read n segs = Some (Inl e, segs')"
  using tcpConn_Read_loop_spec [of "[]" n segs] assms
  by (auto simp: tcpConn_Read_def split: option.splits)

section \<open>The default codec\<close>

definition headSize :: nat where "headSize = 8"

record PreHead =
  HeaderSize :: u32
  BodySize :: u32

datatype decode_err = DecodeNet neterr | HeadNotMatch | BodyNotMatch

definition Decode :: "segment list \<Rightarrow> ((decode_err, byte list) res \<times> segment list) option" where
  "Decode segs =
     (case tcpConn_Read headSize segs of
        None \<Rightarrow> None
      | Some (Inl err, segs) \<Rightarrow> Some (Fail (DecodeNet err), segs)
      | Some (Inr headBuff, segs) \<Rightarrow>
          if length headBuff \<noteq> headSize then Some (Fail HeadNotMatch, segs)
          else
            (case res_bind (LE_Uint32 headBuff) (\<lambda>h.
                  res_bind (LE_Uint32 (take 4 (drop 4 headBuff))) (\<lambda>b.
                    Ok \<lparr>HeaderSize = h, BodySize = b\<rparr>)) of
               Panic \<Rightarrow> Some (Panic, segs)
             | Fail e \<Rightarrow> Some (Fail e, segs)
             | Ok header \<Rightarrow>
                 (case LE_PutUint32 (replicate (unat (4 + HeaderSize header + BodySize header)) 0) 0
                         (HeaderSize header) of
                    Panic \<Rightarrow> Some (Panic, segs)
                  | Fail e \<Rightarrow> Some (Fail e, segs)
                  | Ok dataBuff \<Rightarrow>
                      (case tcpConn_Read (length dataBuff - 4) segs of
                         None \<Rightarrow> None
                       | Some (Inl err, segs) \<Rightarrow> Some (Fail (DecodeNet err), segs)
                       | Some (Inr bs, segs) \<Rightarrow>
                           if word_of_nat (length bs) \<noteq> HeaderSize header + BodySize header
                           then Some (Fail BodyNotMatch, segs)
                           else Some (Ok (take 4 dataBuff @ bs), segs)))))"

definition Encode :: "byte list \<Rightarrow> (decode_err, byte list) res" where
  "Encode buff =
     res_bind (LE_Uint32 buff) (\<lambda>headerSize.
       let bodySize = int (length buff) - 4 - uint headerSize in
       res_bind (go_make (int headSize + uint headerSize + bodySize)) (\<lambda>result.
       res_bind (LE_PutUint32 result 0 headerSize) (\<lambda>result.
       res_bind (LE_PutUint32 result 4 (word_of_int bodySize)) (\<lambda>result.
       res_bind (go_copy result 8 (drop 4 buff)) (\<lambda>(n, result).
         Ok result)))))"

text \<open>The codec in use is a variable of the package, the default codec at the start.\<close>

record Codec =
  codec_Encode :: "byte list \<Rightarrow> (decode_err, byte list) res"
  codec_Decode :: "segment list \<Rightarrow> ((decode_err, byte list) res \<times> segment list) option"

definition DefaultCodec :: Codec where
  "DefaultCodec = \<lparr>codec_Encode = Encode, codec_Decode = Decode\<rparr>"

record transport_vars =
  the_codec :: Codec

definition transport_init :: transport_vars where
  "transport_init = \<lparr>the_codec = DefaultCodec\<rparr>"

definition GetCodec :: "transport_vars \<Rightarrow> Codec" where
  "GetCodec v = the_codec v"

definition SetCodec :: "Codec \<Rightarrow> transport_vars \<Rightarrow> transport_vars" where
  "SetCodec codec v = v\<lparr>the_codec := codec\<rparr>"

section \<open>Frames\<close>

text \<open>An application packet: a header size, the header, the data.\<close>

definition packet :: "byte list \<Rightarrow> byte list \<Rightarrow> byte list" where
  "packet hdr body = LE_bytes (word_of_nat (length hdr)) @ hdr @ body"

definition frame :: "u32 \<Rightarrow> u32 \<Rightarrow> byte list \<Rightarrow> byte list" where
  "frame hs bs payload = LE_bytes hs @ LE_bytes bs @ payload"

lemma frame_length [simp]: "length (frame hs bs payload) = 8 + length payload"
  by (simp add: frame_def)

lemma Encode_frame:
  assumes "LE_Uint32 buff = (Ok hs :: (decode_err, u32) res)" and "4 \<le> length buff"
  shows "Encode buff = Ok (frame hs (word_of_int (int (length buff) - 4 - uint hs)) (drop 4 buff))"
proof -
  have "nat (int headSize + uint hs + (int (length buff) - 4 - uint hs)) = length buff + 4"
    by (simp add: headSize_def)
  with assms show ?thesis
    by (simp add: Encode_def go_make_def LE_PutUint32_def go_copy_def frame_def headSize_def)
qed

lemma Encode_short: "length buff < 4 \<Longrightarrow> Encode buff = Panic"
  by (auto simp: Encode_def LE_Uint32_def split: list.split)

text \<open>
  Decoding reads exactly one frame, however it was cut into segments; the size of the packet is
  the 32-bit sum of the two size fields, with wrap-around.
\<close>

lemma Decode_frame:
  assumes "avail segs = frame hs bs rest"
  shows "unat (4 + hs + bs) < 4 \<Longrightarrow> \<exists>segs'. Decode segs = Some (Panic, segs')"
    and "4 \<le> unat (4 + hs + bs) \<Longrightarrow> unat (hs + bs) \<le> length rest \<Longrightarrow>
      \<exists>segs'. Decode segs = Some (Ok (LE_bytes hs @ take (unat (hs + bs)) rest), segs')
        \<and> avail segs' = drop (unat (hs + bs)) rest \<and> first_err segs' = first_err segs"
    and "4 \<le> unat (4 + hs + bs) \<Longrightarrow> length rest < unat (hs + bs) \<Longrightarrow>
      (case first_err segs of
         None \<Rightarrow> Decode segs = None
       | Some e \<Rightarrow> \<exists>segs'. Decode segs = Some (Fail (DecodeNet e), segs'))"
proof -
  have "8 \<le> length (avail segs)" by (simp add: assms)
  then obtain s1 where s1: "tcpConn_Read 8 segs = Some (Inr (LE_bytes hs @ LE_bytes bs), s1)"
    "avail s1 = rest" "first_err s1 = first_err segs"
    by (rule tcpConn_Read_ok) (auto simp: assms frame_def)
  show "\<exists>segs'. Decode segs = Some (Panic, segs')" if "unat (4 + hs + bs) < 4"
    using that by (simp add: Decode_def headSize_def s1(1) LE_PutUint32_def)
  assume big: "4 \<le> unat (4 + hs + bs)"
  then have sz: "unat (4 + hs + bs) - 4 = unat (hs + bs)"
    using unat_u32_bound [of "hs + bs"]
    by (simp add: add.assoc unat_plus_if' [of 4 "hs + bs"] split: if_splits)
  have dec: "Decode segs =
    (case tcpConn_Read (unat (hs + bs)) s1 of
       None \<Rightarrow> None
     | Some (Inl err, segs) \<Rightarrow> Some (Fail (DecodeNet err), segs)
     | Some (Inr body, segs) \<Rightarrow>
         if word_of_nat (length body) \<noteq> hs + bs then Some (Fail BodyNotMatch, segs)
         else Some (Ok (LE_bytes hs @ body), segs))"
    using big sz
    by (simp add: Decode_def headSize_def s1(1) LE_PutUint32_def
        split: option.split sum.split)
  { assume "unat (hs + bs) \<le> length rest"
    with s1(2) have "unat (hs + bs) \<le> length (avail s1)" by simp
    then obtain s2 where "tcpConn_Read (unat (hs + bs)) s1 = Some (Inr (take (unat (hs + bs)) rest), s2)"
      "avail s2 = drop (unat (hs + bs)) rest" "first_err s2 = first_err s1"
      by (rule tcpConn_Read_ok) (auto simp: s1(2))
    with \<open>unat (hs + bs) \<le> length rest\<close> s1(3)
    show "\<exists>segs'. Decode segs = Some (Ok (LE_bytes hs @ take (unat (hs + bs)) rest), segs')
        \<and> avail segs' = drop (unat (hs + bs)) rest \<and> first_err segs' = first_err segs"
      by (simp add: dec) }
  { assume "length rest < unat (hs + bs)"
    with s1(2) have "length (avail s1) < unat (hs + bs)" by simp
    from tcpConn_Read_short [OF this] show "case first_err segs of
         None \<Rightarrow> Decode segs = None
       | Some e \<Rightarrow> \<exists>segs'. Decode segs = Some (Fail (DecodeNet e), segs')"
      by (auto simp: dec s1(3) split: option.splits) }
qed

text \<open>The packets the codec carries: the size of the whole fits 32 bits, the header fits the packet.\<close>

definition packet_ok :: "byte list \<Rightarrow> bool" where
  "packet_ok b \<longleftrightarrow> 4 \<le> length b \<and> length b < 2 ^ 32
     \<and> (case LE_Uint32 b :: (decode_err, u32) res of
          Ok hs \<Rightarrow> unat hs \<le> length b - 4
        | _ \<Rightarrow> False)"

lemma packet_okD:
  assumes "packet_ok b"
  obtains hs where "LE_Uint32 b = (Ok hs :: (decode_err, u32) res)" and "b = LE_bytes hs @ drop 4 b"
    and "4 \<le> length b" and "length b < 2 ^ 32" and "unat hs \<le> length b - 4"
proof -
  from assms have len: "4 \<le> length b" by (simp add: packet_ok_def)
  then obtain hs where "LE_Uint32 b = (Ok hs :: (decode_err, u32) res)" "b = LE_bytes hs @ drop 4 b"
    by (rule LE_Uint32_split)
  with assms show ?thesis by (intro that) (auto simp: packet_ok_def)
qed

lemma packet_packet_ok:
  assumes "length hdr + length body < 2 ^ 32 - 4"
  shows "packet_ok (packet hdr body)"
  using assms by (simp add: packet_ok_def packet_def unat_word_of_nat_u32)

lemma Encode_Decode:
  assumes "packet_ok b" and "avail segs = f @ rest" and "Encode b = Ok f"
  shows "\<exists>segs'. Decode segs = Some (Ok b, segs') \<and> avail segs' = rest
    \<and> first_err segs' = first_err segs"
proof -
  obtain hs where hs: "LE_Uint32 b = (Ok hs :: (decode_err, u32) res)" "b = LE_bytes hs @ drop 4 b"
    "4 \<le> length b" "length b < 2 ^ 32" "unat hs \<le> length b - 4"
    by (rule packet_okD [OF assms(1)])
  define bs :: u32 where "bs = word_of_int (int (length b) - 4 - uint hs)"
  have f: "f = frame hs bs (drop 4 b)"
    using Encode_frame [OF hs(1,3)] assms(3) by (simp add: bs_def)
  have "hs + bs = word_of_nat (length b - 4)"
    using hs(3) by (simp add: bs_def of_nat_diff)
  then have sum: "unat (hs + bs) = length b - 4" using hs(4) by (simp add: unat_word_of_nat_u32)
  moreover have "4 \<le> unat (4 + hs + bs)"
    using hs(3,4) sum by (simp add: add.assoc unat_plus_if' [of 4 "hs + bs"])
  moreover have "avail segs = frame hs bs (drop 4 b @ rest)"
    using assms(2) f by (simp add: frame_def)
  ultimately show ?thesis
    using Decode_frame(2) [of segs hs bs "drop 4 b @ rest"] hs(2) by simp
qed

lemma Decode_end:
  assumes "avail segs = []"
  shows "case first_err segs of
      None \<Rightarrow> Decode segs = None
    | Some e \<Rightarrow> \<exists>segs'. Decode segs = Some (Fail (DecodeNet e), segs')"
  using tcpConn_Read_short [of segs headSize] assms
  by (auto simp: Decode_def headSize_def split: option.splits)

section \<open>The interface of a codec\<close>

text \<open>
  What a connection relies on: a well-formed packet comes out of the stream as it went in,
  wherever the network cut it, and a stream that has ended yields an error, not a packet.
\<close>

locale frame_codec =
  fixes encode :: "byte list \<Rightarrow> (decode_err, byte list) res"
    and decode :: "segment list \<Rightarrow> ((decode_err, byte list) res \<times> segment list) option"
    and well_formed :: "byte list \<Rightarrow> bool"
  assumes encode_ok: "well_formed p \<Longrightarrow> \<exists>f. encode p = Ok f"
    and decode_encode: "well_formed p \<Longrightarrow> encode p = Ok f \<Longrightarrow> avail segs = f @ rest \<Longrightarrow>
      \<exists>segs'. decode segs = Some (Ok p, segs') \<and> avail segs' = rest
        \<and> first_err segs' = first_err segs"
    and decode_end: "avail segs = [] \<Longrightarrow>
      (case first_err segs of
         None \<Rightarrow> decode segs = None
       | Some e \<Rightarrow> \<exists>e' segs'. decode segs = Some (Fail e', segs'))"

interpretation default_codec: frame_codec Encode Decode packet_ok
proof
  fix p assume "packet_ok p"
  then show "\<exists>f. Encode p = Ok f" by (elim packet_okD) (simp add: Encode_frame)
next
  fix p f segs rest
  assume "packet_ok p" and "Encode p = Ok f" and "avail segs = f @ rest"
  then show "\<exists>segs'. Decode segs = Some (Ok p, segs') \<and> avail segs' = rest
      \<and> first_err segs' = first_err segs"
    by (intro Encode_Decode)
next
  fix segs assume "avail segs = []"
  from Decode_end [OF this]
  show "case first_err segs of
         None \<Rightarrow> Decode segs = None
       | Some e \<Rightarrow> \<exists>e' segs'. Decode segs = Some (Fail e', segs')"
    by (auto split: option.splits)
qed

section \<open>Properties\<close>

text \<open>
  C1.  Round trip of the frame codec: a packet whose header fits it and whose size fits 32 bits
  is encoded without error, and decoding any segmentation of a stream that starts with its
  frame returns the packet and leaves exactly the rest of the stream.
\<close>

theorem codec_round_trip:
  assumes "packet_ok b"
  shows "\<exists>f. Encode b = Ok f \<and> (\<forall>segs rest. avail segs = f @ rest \<longrightarrow>
    (\<exists>segs'. Decode segs = Some (Ok b, segs') \<and> avail segs' = rest))"
proof -
  obtain f where f: "Encode b = Ok f" using default_codec.encode_ok [OF assms] by blast
  with default_codec.decode_encode [OF assms f] show ?thesis by blast
qed

theorem codec_round_trip_witness:
  "Encode [1, 0, 0, 0, 7, 8, 9] = Ok [1, 0, 0, 0, 2, 0, 0, 0, 7, 8, 9]
   \<and> (\<exists>segs'. Decode [Seg [1, 0], Seg [0, 0, 2, 0, 0, 0, 7], Seg [8], Seg [9, 5]]
         = Some (Ok [1, 0, 0, 0, 7, 8, 9], segs') \<and> avail segs' = [5])"
proof -
  have "packet_ok [1, 0, 0, 0, 7, 8, 9]"
    using packet_packet_ok [of "[7]" "[8, 9]"] by (simp add: packet_def LE_bytes_def)
  note trip = codec_round_trip [OF this]
  have enc: "Encode [1, 0, 0, 0, 7, 8, 9] = Ok [1, 0, 0, 0, 2, 0, 0, 0, 7, 8, 9]"
    using Encode_frame [of "[1, 0, 0, 0, 7, 8, 9]" 1]
    by (simp add: LE_Uint32_def frame_def LE_bytes_def)
  with trip have "\<exists>segs'. Decode segs = Some (Ok [1, 0, 0, 0, 7, 8, 9], segs') \<and> avail segs' = rest"
    if "avail segs = [1, 0, 0, 0, 2, 0, 0, 0, 7, 8, 9] @ rest" for segs rest
    using that by auto
  from this [of "[Seg [1, 0], Seg [0, 0, 2, 0, 0, 0, 7], Seg [8], Seg [9, 5]]" "[5]"] enc
  show ?thesis by simp
qed

text \<open>
  C40.  The decoder computes the packet size as a 32-bit sum: a frame whose two size fields add
  up to one of the last four values below a multiple of \<open>2 ^ 32\<close> makes it panic (the buffer is
  shorter than the four bytes written to it), and only such a frame does.
\<close>

theorem decode_panics_iff:
  assumes "avail segs = frame hs bs rest"
  shows "(\<exists>segs'. Decode segs = Some (Panic, segs'))
    \<longleftrightarrow> 2 ^ 32 - 4 \<le> (unat hs + unat bs) mod 2 ^ 32"
proof -
  have sum: "unat (hs + bs) = (unat hs + unat bs) mod 2 ^ 32" by (simp add: unat_word_ariths)
  have "unat (4 + hs + bs) < 4 \<longleftrightarrow> 2 ^ 32 - 4 \<le> unat (hs + bs)"
    using unat_u32_bound [of "hs + bs"] by (simp add: add.assoc unat_plus_if' [of 4 "hs + bs"]) linarith
  moreover have "\<not> (\<exists>segs'. Decode segs = Some (Panic, segs'))" if "4 \<le> unat (4 + hs + bs)"
    using Decode_frame(2,3) [OF assms that] by (cases "unat (hs + bs) \<le> length rest")
      (auto split: option.splits)
  ultimately show ?thesis
    using Decode_frame(1) [OF assms] sum by (metis not_less)
qed

theorem decode_panics_iff_witness:
  "\<exists>segs'. Decode [Seg (frame 0xFFFFFFFC 0 [])] = Some (Panic, segs')"
  using decode_panics_iff [where segs = "[Seg (frame 0xFFFFFFFC 0 [])]" and hs = "0xFFFFFFFC"
      and bs = "0" and rest = "[]"] by simp

end
