(* ===== verification/Tcp.thy ===== *)
theory Tcp
  imports Uid Transport_Codec
begin

text \<open>
  The TCP transport of \<^verbatim>\<open>src/plugin/transport/tcp/tcp.go\<close>: a connection with its buffered
  writer and its deadlines, the receive loop that feeds the event handler, closing, and the
  accept loop of the transport.  The codec and the event handler are arguments, as they are in
  the code (\<open>transport.SetCodec\<close>, \<open>Options.EventHandler\<close>).  Times are nanoseconds since the Unix
  epoch.  What the peer does is part of the connection: \<open>reader\<close> holds what it sends, \<open>peer_room\<close>
  how many more bytes it takes before a write fails (\<open>None\<close>: any number), \<open>peer_got\<close> what reached
  it.  The other goroutines act on a receive loop only through the two contexts and the clock,
  which is what a \<open>tick\<close> holds: one per iteration.
\<close>

section \<open>The connection\<close>

definition maxBufSize :: nat where "maxBufSize = 512 * 1024"

definition second :: int where "second = 1000000000"

text \<open>The zero value of \<open>time.Time\<close> (1 January of year 1).\<close>

definition zeroTime :: int where "zeroTime = - 62135596800 * second"

text \<open>\<open>Time.Sub\<close> saturates at the bounds of an \<open>int64\<close>.\<close>

definition time_Sub :: "int \<Rightarrow> int \<Rightarrow> int" where
  "time_Sub a b = max (- (2 ^ 63)) (min (2 ^ 63 - 1) (a - b))"

record tcpConn =
  connID :: u64
  lastReadTime :: int
  lastWriteTime :: int
  reader :: "segment list"
  writer_buf :: "byte list"
  writer_err :: bool
  readDeadline :: "int option"
  writeDeadline :: "int option"
  cancelled :: bool
  conn_closed :: bool
  peer_room :: "nat option"
  peer_got :: "byte list"

definition NewTcpConn ::
  "int \<Rightarrow> segment list \<Rightarrow> nat option \<Rightarrow> uidGeneratorParam option \<Rightarrow> tcpConn \<times> uidGeneratorParam option" where
  "NewTcpConn now segs room gen =
     (let (uid, gen) = GenerateUID (now div second) gen in
      (\<lparr>connID = uid, lastReadTime = now, lastWriteTime = zeroTime, reader = segs,
        writer_buf = [], writer_err = False, readDeadline = None, writeDeadline = None,
        cancelled = False, conn_closed = False, peer_room = room, peer_got = []\<rparr>, gen))"

text \<open>\<open>conn.Write\<close> of the socket: the number of bytes taken and whether it failed.\<close>

definition net_Write :: "byte list \<Rightarrow> tcpConn \<Rightarrow> nat \<times> bool \<times> tcpConn" where
  "net_Write p c =
     (if conn_closed c then (0, True, c)
      else case peer_room c of
             None \<Rightarrow> (length p, False, c\<lparr>peer_got := peer_got c @ p\<rparr>)
           | Some room \<Rightarrow>
               let n = min room (length p)
               in (n, n < length p,
                   c\<lparr>peer_got := peer_got c @ take n p, peer_room := Some (room - n)\<rparr>))"

text \<open>\<open>bufio.Writer\<close>: an error is kept and fails every later call.\<close>

definition bufio_Flush :: "tcpConn \<Rightarrow> tcpConn" where
  "bufio_Flush c =
     (if writer_err c \<or> writer_buf c = [] then c
      else let (n, err, c') = net_Write (writer_buf c) c
           in c'\<lparr>writer_buf := drop n (writer_buf c), writer_err := err\<rparr>)"

text \<open>
  Each turn of the loop uses up bytes, or empties the buffer, or sets the error.
\<close>

definition write_measure :: "byte list \<times> tcpConn \<Rightarrow> nat" where
  "write_measure pc = 2 * length (fst pc) + (if writer_buf (snd pc) = [] then 0 else 1)
     + (if writer_err (snd pc) then 0 else 2)"

lemma net_Write_result:
  assumes "net_Write p c = (n, err, c')"
  shows "n \<le> length p" and "err \<longleftrightarrow> n < length p \<or> conn_closed c"
    and "writer_buf c' = writer_buf c" and "writer_err c' = writer_err c"
  using assms by (auto simp: net_Write_def Let_def split: if_splits option.splits)

lemma bufio_Flush_flags:
  assumes "\<not> writer_err c"
  shows "writer_err (bufio_Flush c) \<or> writer_buf (bufio_Flush c) = []"
proof (cases "net_Write (writer_buf c) c")
  case (fields n err c')
  with net_Write_result(1,2) [OF this] assms show ?thesis by (auto simp: bufio_Flush_def)
qed

lemma write_measure_Flush:
  assumes "\<not> writer_err c" and "writer_buf c \<noteq> []"
  shows "write_measure (drop n p, bufio_Flush (c\<lparr>writer_buf := b\<rparr>)) < write_measure (p, c)"
  using assms bufio_Flush_flags [of "c\<lparr>writer_buf := b\<rparr>"]
  by (auto simp: write_measure_def diff_mult_distrib2)

function bufio_Write :: "byte list \<Rightarrow> tcpConn \<Rightarrow> bool \<times> tcpConn" where
  "bufio_Write p c =
     (if maxBufSize - length (writer_buf c) < length p \<and> \<not> writer_err c
      then if writer_buf c = []
           then let (n, err, c') = net_Write p c in bufio_Write (drop n p) (c'\<lparr>writer_err := err\<rparr>)
           else let n = maxBufSize - length (writer_buf c)
                in bufio_Write (drop n p) (bufio_Flush (c\<lparr>writer_buf := writer_buf c @ take n p\<rparr>))
      else if writer_err c then (True, c)
      else (False, c\<lparr>writer_buf := writer_buf c @ p\<rparr>))"
  by pat_completeness auto

termination
proof (relation "measure write_measure", goal_cases)
  case (2 p c r n r' err c')
  then show ?case
    using net_Write_result [of p c n err c'] by (auto simp: write_measure_def)
next
  case (3 p c n)
  then show ?case by (simp add: write_measure_Flush)
qed simp

declare bufio_Write.simps [simp del]

definition setReadTimeout :: "u32 \<Rightarrow> int \<Rightarrow> tcpConn \<Rightarrow> tcpConn" where
  "setReadTimeout IdleTimeout now c =
     (if IdleTimeout > 0
      then if time_Sub now (lastReadTime c) > 2 * second
           then c\<lparr>lastReadTime := now, readDeadline := Some (now + uint IdleTimeout * second)\<rparr>
           else c
      else c)"

definition setWriteTimeout :: "u32 \<Rightarrow> int \<Rightarrow> tcpConn \<Rightarrow> tcpConn" where
  "setWriteTimeout IdleTimeout now c =
     (if IdleTimeout > 0
      then if time_Sub now (lastWriteTime c) > 2 * second
           then c\<lparr>lastWriteTime := now, writeDeadline := Some (now + uint IdleTimeout * second)\<rparr>
           else c
      else c)"

datatype send_err = SendEncode decode_err | SendWrite

definition Send ::
  "(byte list \<Rightarrow> (decode_err, byte list) res) \<Rightarrow> u32 \<Rightarrow> int \<Rightarrow> byte list \<Rightarrow> tcpConn
    \<Rightarrow> (send_err, unit) res \<times> tcpConn" where
  "Send encode IdleTimeout now data c =
     (case encode data of
        Fail err \<Rightarrow> (Fail (SendEncode err), c)
      | Panic \<Rightarrow> (Panic, c)
      | Ok result \<Rightarrow>
          let c = setWriteTimeout IdleTimeout now c;
              (err, c) = bufio_Write result c
          in if err then (Fail SendWrite, c) else (Ok (), bufio_Flush c))"

section \<open>Event handler, closing and the receive loop\<close>

record 's EventHandler =
  OnConnOpened :: "tcpConn \<Rightarrow> 's \<Rightarrow> (unit, tcpConn \<times> 's) res"
  OnConnClosed :: "tcpConn \<Rightarrow> bool \<Rightarrow> 's \<Rightarrow> (unit, tcpConn \<times> 's) res"
  OnData :: "tcpConn \<Rightarrow> byte list \<Rightarrow> 's \<Rightarrow> (unit, tcpConn \<times> 's) res"

text \<open>
  The \<open>sync.Once\<close> of \<open>Close\<close> is a local variable, so its function runs on every call.
\<close>

definition Close :: "'s EventHandler \<Rightarrow> bool \<Rightarrow> tcpConn \<Rightarrow> 's \<Rightarrow> (unit, tcpConn \<times> 's) res" where
  "Close h active c s =
     res_bind (OnConnClosed h (bufio_Flush c) active s)
       (\<lambda>(c, s). Ok (c\<lparr>cancelled := True, conn_closed := True\<rparr>, s))"

record tick =
  ctxDone :: bool
  cancledElsewhere :: bool
  clock :: int

fun Recv_loop ::
  "(segment list \<Rightarrow> ((decode_err, byte list) res \<times> segment list) option) \<Rightarrow> 's EventHandler \<Rightarrow> u32
    \<Rightarrow> tick list \<Rightarrow> tcpConn \<Rightarrow> 's \<Rightarrow> (unit, tcpConn \<times> 's) res option" where
  "Recv_loop decode h IdleTimeout [] c s = None"
| "Recv_loop decode h IdleTimeout (t # ts) c s =
     (if ctxDone t \<or> cancelled c \<or> cancledElsewhere t then Some (Ok (c, s))
      else
        let c = setReadTimeout IdleTimeout (clock t) c
        in case decode (reader c) of
             None \<Rightarrow> None
           | Some (Fail err, segs) \<Rightarrow> Some (Ok (c\<lparr>reader := segs\<rparr>, s))
           | Some (Panic, segs) \<Rightarrow> Some Panic
           | Some (Ok pkg, segs) \<Rightarrow>
               (case OnData h (c\<lparr>reader := segs\<rparr>) pkg s of
                  Ok (c, s) \<Rightarrow> Recv_loop decode h IdleTimeout ts c s
                | _ \<Rightarrow> Some Panic))"

definition Recv ::
  "(segment list \<Rightarrow> ((decode_err, byte list) res \<times> segment list) option) \<Rightarrow> 's EventHandler \<Rightarrow> u32
    \<Rightarrow> tick list \<Rightarrow> tcpConn \<Rightarrow> 's \<Rightarrow> (unit, tcpConn \<times> 's) res option" where
  "Recv decode h IdleTimeout ts c s =
     (case OnConnOpened h c s of
        Ok (c, s) \<Rightarrow>
          (case Recv_loop decode h IdleTimeout ts c s of
             None \<Rightarrow> None
           | Some (Ok (c, s)) \<Rightarrow> Some (Close h False c s)
           | Some _ \<Rightarrow> Some Panic)
      | _ \<Rightarrow> Some Panic)"

section \<open>The transport\<close>

record TcpTransportCfg =
  Addr :: string
  IdleTimeout :: u32

record 's TcpTransport =
  eventHandler :: "'s EventHandler option"
  cancel :: "bool option"
  cfg :: TcpTransportCfg

definition NewTcpTransport :: "TcpTransportCfg \<Rightarrow> 's TcpTransport" where
  "NewTcpTransport c = \<lparr>eventHandler = None, cancel = None, cfg = c\<rparr>"

definition SetConfig :: "TcpTransportCfg \<Rightarrow> 's TcpTransport \<Rightarrow> 's TcpTransport" where
  "SetConfig c t = t\<lparr>cfg := c\<rparr>"

datatype init_err = ResolveErr | ListenErr

text \<open>
  \<open>net.ResolveTCPAddr\<close> and \<open>net.ListenTCP\<close> succeed or not depending on the host; \<open>cancel\<close> holds
  whether the context of the accept loop is cancelled, once there is one.
\<close>

definition TcpTransport_Init ::
  "(string \<Rightarrow> 'addr option) \<Rightarrow> ('addr \<Rightarrow> bool) \<Rightarrow> 's EventHandler \<Rightarrow> 's TcpTransport
    \<Rightarrow> (init_err, unit) res \<times> 's TcpTransport" where
  "TcpTransport_Init resolve listen h t =
     (let t = t\<lparr>eventHandler := Some h\<rparr>
      in case resolve (Addr (cfg t)) of
           None \<Rightarrow> (Fail ResolveErr, t)
         | Some addr \<Rightarrow>
             if listen addr then (Ok (), t\<lparr>cancel := Some False\<rparr>) else (Fail ListenErr, t))"

definition Uninit :: "'s TcpTransport \<Rightarrow> (init_err, 's TcpTransport) res" where
  "Uninit t = (case cancel t of None \<Rightarrow> Panic | Some _ \<Rightarrow> Ok (t\<lparr>cancel := Some True\<rparr>))"

text \<open>What \<open>AcceptTCP\<close> returns, and when.\<close>

datatype accept =
    Accepted int "segment list" "nat option"
  | AcceptTemporary
  | AcceptError

text \<open>
  The accept loop over the results of \<open>AcceptTCP\<close>, each with the state of the context when it is
  asked for: the connections started, and whether the listener has been closed.
\<close>

fun serve :: "(bool \<times> accept) list \<Rightarrow> uidGeneratorParam option
    \<Rightarrow> tcpConn list \<times> uidGeneratorParam option \<times> bool" where
  "serve [] gen = ([], gen, False)"
| "serve ((done, a) # as) gen =
     (if done then ([], gen, True)
      else case a of
             AcceptError \<Rightarrow> ([], gen, True)
           | AcceptTemporary \<Rightarrow> serve as gen
           | Accepted now segs room \<Rightarrow>
               let (c, gen) = NewTcpConn now segs room gen;
                   (cs, gen, closed) = serve as gen
               in (c # cs, gen, closed))"

section \<open>Sending\<close>

lemma bufio_Write_open:
  assumes "\<not> writer_err c" and "writer_buf c = []" and "\<not> conn_closed c" and "peer_room c = None"
  obtains c' where "bufio_Write p c = (False, c')" and "bufio_Flush c' = c\<lparr>peer_got := peer_got c @ p\<rparr>"
proof (cases "maxBufSize < length p")
  case True
  have "c\<lparr>peer_got := peer_got c @ p, writer_err := False, writer_buf := []\<rparr>
    = c\<lparr>peer_got := peer_got c @ p\<rparr>"
    using assms(1,2) by simp
  then have "bufio_Write p c = (False, c\<lparr>peer_got := peer_got c @ p\<rparr>)"
    using assms True by (simp add: bufio_Write.simps [of p] bufio_Write.simps [of "[]"] net_Write_def)
  moreover have "bufio_Flush (c\<lparr>peer_got := peer_got c @ p\<rparr>) = c\<lparr>peer_got := peer_got c @ p\<rparr>"
    using assms by (cases c) (simp add: bufio_Flush_def)
  ultimately show ?thesis by (rule that)
next
  case False
  then have "bufio_Write p c = (False, c\<lparr>writer_buf := p\<rparr>)"
    using assms by (simp add: bufio_Write.simps [of p])
  moreover have "bufio_Flush (c\<lparr>writer_buf := p\<rparr>) = c\<lparr>peer_got := peer_got c @ p\<rparr>"
    using assms by (cases c) (auto simp: bufio_Flush_def net_Write_def)
  ultimately show ?thesis by (rule that)
qed

text \<open>A connection whose peer takes everything, with nothing left over in the writer.\<close>

definition writable :: "tcpConn \<Rightarrow> bool" where
  "writable c \<longleftrightarrow> \<not> writer_err c \<and> writer_buf c = [] \<and> \<not> conn_closed c \<and> peer_room c = None"

lemma setWriteTimeout_fields [simp]:
  "writer_err (setWriteTimeout idle now c) = writer_err c"
  "writer_buf (setWriteTimeout idle now c) = writer_buf c"
  "conn_closed (setWriteTimeout idle now c) = conn_closed c"
  "peer_room (setWriteTimeout idle now c) = peer_room c"
  "peer_got (setWriteTimeout idle now c) = peer_got c"
  by (simp_all add: setWriteTimeout_def)

lemma Send_writable:
  assumes "writable c" and "encode data = Ok f"
  obtains c' where "Send encode idle now data c = (Ok (), c')" and "writable c'"
    and "peer_got c' = peer_got c @ f"
proof -
  let ?c = "setWriteTimeout idle now c"
  from assms(1) obtain c' where w: "bufio_Write f ?c = (False, c')"
    and fl: "bufio_Flush c' = ?c\<lparr>peer_got := peer_got ?c @ f\<rparr>"
    by (auto simp: writable_def intro: bufio_Write_open [of ?c f])
  show ?thesis
  proof (rule that)
    show "Send encode idle now data c = (Ok (), ?c\<lparr>peer_got := peer_got ?c @ f\<rparr>)"
      using assms(2) w fl by (simp add: Send_def)
  qed (use assms(1) in \<open>simp_all add: writable_def\<close>)
qed

fun Send_all ::
  "(byte list \<Rightarrow> (decode_err, byte list) res) \<Rightarrow> u32 \<Rightarrow> (int \<times> byte list) list \<Rightarrow> tcpConn \<Rightarrow> tcpConn" where
  "Send_all encode idle [] c = c"
| "Send_all encode idle ((now, data) # ds) c =
     Send_all encode idle ds (snd (Send encode idle now data c))"

lemma Send_all_writable:
  assumes "writable c" and "map (encode \<circ> snd) ds = map Ok fs"
  shows "writable (Send_all encode idle ds c)
    \<and> peer_got (Send_all encode idle ds c) = peer_got c @ concat fs"
  using assms
proof (induction ds arbitrary: c fs)
  case (Cons d ds)
  obtain now data where d: "d = (now, data)" by (cases d)
  with Cons.prems obtain f fs' where fs: "fs = f # fs'" "encode data = Ok f"
    "map (encode \<circ> snd) ds = map Ok fs'"
    by (cases fs) (auto simp: comp_def)
  obtain c' where c': "Send encode idle now data c = (Ok (), c')" "writable c'"
    "peer_got c' = peer_got c @ f"
    using Send_writable [of c encode, OF Cons.prems(1) fs(2)] .
  from Cons.IH [OF c'(2) fs(3)] c' d fs(1) show ?case by simp
qed simp

section \<open>Receiving\<close>

text \<open>
  The calls the event handler gets.  A handler obeys a function of these events when each of
  its methods returns (\<open>OnData\<close> on the packets of interest), with the state changed by that
  function, and leaves the incoming stream
  and the contexts of the connection alone; it may send.
\<close>

datatype conn_event = Opened u64 | Data u64 "byte list" | Closed u64 bool

definition same_stream :: "tcpConn \<Rightarrow> tcpConn \<Rightarrow> bool" where
  "same_stream c c' \<longleftrightarrow> connID c' = connID c \<and> reader c' = reader c \<and> cancelled c' = cancelled c"

definition handler_obeys :: "(byte list \<Rightarrow> bool) \<Rightarrow> 's EventHandler \<Rightarrow> (conn_event \<Rightarrow> 's \<Rightarrow> 's) \<Rightarrow> bool" where
  "handler_obeys P h upd \<longleftrightarrow>
     (\<forall>c s. \<exists>c'. OnConnOpened h c s = Ok (c', upd (Opened (connID c)) s) \<and> same_stream c c')
   \<and> (\<forall>c s active. \<exists>c'. OnConnClosed h c active s = Ok (c', upd (Closed (connID c) active) s)
        \<and> same_stream c c')
   \<and> (\<forall>c s pkg. P pkg \<longrightarrow> (\<exists>c'. OnData h c pkg s = Ok (c', upd (Data (connID c) pkg) s) \<and> same_stream c c'))"

definition quiet :: "tick \<Rightarrow> bool" where
  "quiet t \<longleftrightarrow> \<not> ctxDone t \<and> \<not> cancledElsewhere t"

lemma bufio_Flush_connID [simp]: "connID (bufio_Flush c) = connID c"
  and bufio_Flush_reader [simp]: "reader (bufio_Flush c) = reader c"
  by (simp_all add: bufio_Flush_def net_Write_def Let_def split: prod.split option.split)

lemma setReadTimeout_fields [simp]:
  "connID (setReadTimeout idle now c) = connID c"
  "reader (setReadTimeout idle now c) = reader c"
  "cancelled (setReadTimeout idle now c) = cancelled c"
  by (simp_all add: setReadTimeout_def)

lemma Close_obeys:
  assumes "handler_obeys P h upd"
  obtains c' where "Close h active c s = Ok (c', upd (Closed (connID c) active) s)"
    and "connID c' = connID c" and "cancelled c'" and "conn_closed c'"
proof -
  obtain c1 where "OnConnClosed h (bufio_Flush c) active s
      = Ok (c1, upd (Closed (connID c) active) s)" and "same_stream (bufio_Flush c) c1"
    using assms unfolding handler_obeys_def by (metis bufio_Flush_connID)
  then show ?thesis
    by (intro that [of "c1\<lparr>cancelled := True, conn_closed := True\<rparr>"])
      (simp_all add: Close_def same_stream_def)
qed

context frame_codec
begin

lemma Recv_loop_delivers:
  assumes "handler_obeys well_formed h upd" and "list_all well_formed ps" and "map encode ps = map Ok fs"
    and "avail (reader c) = concat fs" and "first_err (reader c) = Some e"
    and "\<not> cancelled c" and "list_all quiet ts" and "length ps < length ts"
  shows "\<exists>c'. Recv_loop decode h idle ts c s
      = Some (Ok (c', fold upd (map (Data (connID c)) ps) s)) \<and> connID c' = connID c"
  using assms
proof (induction ts arbitrary: ps fs c s)
  case (Cons t ts)
  let ?c = "setReadTimeout idle (clock t) c"
  from Cons.prems have q: "\<not> ctxDone t" "\<not> cancledElsewhere t" by (auto simp: quiet_def)
  show ?case
  proof (cases ps)
    case Nil
    with Cons.prems have "avail (reader c) = []" by simp
    from decode_end [OF this] Cons.prems(5) obtain e' segs where
      "decode (reader c) = Some (Fail e', segs)" by auto
    with Nil q Cons.prems(6) show ?thesis by simp
  next
    case (Cons p ps')
    note ps = this
    with Cons.prems(3) obtain f fs' where fs: "fs = f # fs'" "encode p = Ok f"
      "map encode ps' = map Ok fs'" by (cases fs) auto
    from Cons.prems(2) ps have wf: "well_formed p" "list_all well_formed ps'" by simp_all
    from Cons.prems(4) fs(1) have "avail (reader c) = f @ concat fs'" by simp
    with decode_encode [OF wf(1) fs(2)] obtain segs where
      segs: "decode (reader c) = Some (Ok p, segs)" "avail segs = concat fs'"
        "first_err segs = first_err (reader c)" by blast
    obtain c1 where c1: "OnData h (?c\<lparr>reader := segs\<rparr>) p s = Ok (c1, upd (Data (connID c) p) s)"
      "same_stream (?c\<lparr>reader := segs\<rparr>) c1"
    proof -
      have "\<exists>c1. OnData h (?c\<lparr>reader := segs\<rparr>) p s
          = Ok (c1, upd (Data (connID (?c\<lparr>reader := segs\<rparr>)) p) s)
        \<and> same_stream (?c\<lparr>reader := segs\<rparr>) c1"
        using Cons.prems(1) wf(1) unfolding handler_obeys_def by blast
      then show ?thesis using that by auto
    qed
    from c1(2) segs Cons.prems(5,6) have "avail (reader c1) = concat fs'"
      "first_err (reader c1) = Some e" "\<not> cancelled c1" "connID c1 = connID c"
      by (simp_all add: same_stream_def)
    moreover from Cons.prems(7,8) ps have "list_all quiet ts" "length ps' < length ts" by simp_all
    ultimately show ?thesis
      using Cons.IH [OF Cons.prems(1) wf(2) fs(3), of c1 "upd (Data (connID c) p) s"]
        q Cons.prems(6) segs(1) c1(1) ps by simp
  qed
qed simp

lemma Recv_delivers:
  assumes "handler_obeys well_formed h upd" and "list_all well_formed ps" and "map encode ps = map Ok fs"
    and "avail (reader c) = concat fs" and "first_err (reader c) = Some e"
    and "\<not> cancelled c" and "list_all quiet ts" and "length ps < length ts"
  shows "\<exists>c'. Recv decode h idle ts c s =
    Some (Ok (c', fold upd (Opened (connID c) # map (Data (connID c)) ps
      @ [Closed (connID c) False]) s))"
proof -
  obtain c1 where c1: "OnConnOpened h c s = Ok (c1, upd (Opened (connID c)) s)" "same_stream c c1"
    using assms(1) unfolding handler_obeys_def by blast
  from c1(2) assms(4-6) have "avail (reader c1) = concat fs" "first_err (reader c1) = Some e"
    "\<not> cancelled c1" "connID c1 = connID c"
    by (simp_all add: same_stream_def)
  with Recv_loop_delivers [OF assms(1-3), of c1 e ts idle "upd (Opened (connID c)) s"] assms(7,8)
  obtain c2 where c2: "Recv_loop decode h idle ts c1 (upd (Opened (connID c)) s)
    = Some (Ok (c2, fold upd (map (Data (connID c)) ps) (upd (Opened (connID c)) s)))"
    "connID c2 = connID c"
    by auto
  obtain c3 where "Close h False c2 (fold upd (map (Data (connID c)) ps) (upd (Opened (connID c)) s))
    = Ok (c3, upd (Closed (connID c2) False) (fold upd (map (Data (connID c)) ps) (upd (Opened (connID c)) s)))"
    using Close_obeys [OF assms(1)] .
  with c1(1) c2 show ?thesis by (simp add: Recv_def)
qed

end

section \<open>Deadlines and connection identifiers\<close>

text \<open>The receive loop asks for the deadline at these times.\<close>

definition ask_all :: "u32 \<Rightarrow> int list \<Rightarrow> tcpConn \<Rightarrow> tcpConn" where
  "ask_all idle = fold (setReadTimeout idle)"

text \<open>
  The invariant of the read deadline: it was set at \<open>lastReadTime\<close>, at most two seconds before
  the last time asked.
\<close>

definition deadline_inv :: "u32 \<Rightarrow> int \<Rightarrow> tcpConn \<Rightarrow> bool" where
  "deadline_inv idle now c \<longleftrightarrow> lastReadTime c \<le> now \<and> now \<le> lastReadTime c + 2 * second
     \<and> readDeadline c \<in> {None, Some (lastReadTime c + uint idle * second)}"

lemma setReadTimeout_inv:
  assumes "0 < idle" and "deadline_inv idle t c" and "t \<le> now"
  shows "deadline_inv idle now (setReadTimeout idle now c)"
  using assms
  by (auto simp: deadline_inv_def setReadTimeout_def time_Sub_def second_def min_def max_def
      split: if_splits)

lemma setReadTimeout_None:
  "readDeadline (setReadTimeout idle now c) = None \<Longrightarrow>
     readDeadline c = None \<and> lastReadTime (setReadTimeout idle now c) = lastReadTime c"
  by (auto simp: setReadTimeout_def split: if_splits)

lemma ask_all_inv:
  assumes "0 < idle" and "deadline_inv idle t c" and "sorted (t # nows)"
  shows "deadline_inv idle (last (t # nows)) (ask_all idle nows c)"
  using assms
proof (induction nows arbitrary: t c)
  case (Cons now nows)
  then have "t \<le> now" and "sorted (now # nows)" by auto
  with Cons.IH [OF Cons.prems(1) setReadTimeout_inv [OF Cons.prems(1,2)]]
  show ?case by (simp add: ask_all_def)
qed (simp add: ask_all_def)

lemma ask_all_None:
  "readDeadline (ask_all idle nows c) = None \<Longrightarrow>
     readDeadline c = None \<and> lastReadTime (ask_all idle nows c) = lastReadTime c"
proof (induction nows arbitrary: c)
  case (Cons now nows)
  then show ?case using setReadTimeout_None [of idle now c] by (auto simp: ask_all_def)
qed (simp add: ask_all_def)

text \<open>The times at which the accept loop starts a connection.\<close>

fun accept_times :: "(bool \<times> accept) list \<Rightarrow> int list" where
  "accept_times [] = []"
| "accept_times ((done, a) # as) =
     (if done then []
      else case a of
             AcceptError \<Rightarrow> []
           | AcceptTemporary \<Rightarrow> accept_times as
           | Accepted now segs room \<Rightarrow> (now div second) # accept_times as)"

lemma serve_ids: "map connID (fst (serve as gen)) = generate_all (accept_times as) gen"
proof (induction as arbitrary: gen)
  case (Cons p as)
  obtain d a where p: "p = (d, a)" by (cases p)
  show ?case
  proof (cases a)
    case (Accepted now segs room)
    obtain uid gen' where "GenerateUID (now div second) gen = (uid, gen')" by fastforce
    then show ?thesis using Cons.IH [of gen']
      by (auto simp: p Accepted NewTcpConn_def split: prod.split)
  qed (simp_all add: p Cons.IH)
qed simp

lemma generate_all_None: "generate_all ts None = replicate (length ts) 0"
  by (induction ts) (simp_all add: GenerateUID_def)

section \<open>Properties\<close>

text \<open>
  C2.  End to end: packets sent one after the other over a connection whose peer takes them
  reach the event handler of the other side as the same packets in the same order, each exactly
  once, after the opening event and before the closing event, however the network cut the
  stream, once the sender's side ends the stream.
\<close>

theorem tcp_end_to_end:
  assumes "writable a" and "peer_got a = []" and "list_all packet_ok (map snd ds)"
    and "avail (reader b) = peer_got (Send_all Encode idle ds a)"
    and "first_err (reader b) = Some e" and "\<not> cancelled b"
    and "handler_obeys packet_ok h upd" and "list_all quiet ts" and "length ds < length ts"
  shows "\<exists>b'. Recv Decode h idle' ts b s =
    Some (Ok (b', fold upd (Opened (connID b) # map (Data (connID b)) (map snd ds)
      @ [Closed (connID b) False]) s))"
proof -
  have "\<exists>fs. map Encode (map snd ds) = map Ok fs"
    using assms(3) default_codec.encode_ok by (induction ds) (auto, metis list.map(2))
  then obtain fs where fs: "map Encode (map snd ds) = map Ok fs" by blast
  with Send_all_writable [OF assms(1), of Encode ds fs idle] assms(2,4)
  have "avail (reader b) = concat fs" by simp
  from default_codec.Recv_delivers [OF assms(7,3) fs this assms(5,6,8)] assms(9)
  show ?thesis by simp
qed

definition log_handler :: "conn_event list EventHandler" where
  "log_handler = \<lparr>OnConnOpened = (\<lambda>c s. Ok (c, s @ [Opened (connID c)])),
     OnConnClosed = (\<lambda>c active s. Ok (c, s @ [Closed (connID c) active])),
     OnData = (\<lambda>c pkg s. Ok (c, s @ [Data (connID c) pkg]))\<rparr>"

lemma log_handler_obeys: "handler_obeys P log_handler (\<lambda>e s. s @ [e])"
  by (simp add: handler_obeys_def log_handler_def same_stream_def)

theorem tcp_end_to_end_witness:
  "\<exists>b'. Recv Decode log_handler 30 (replicate 2 \<lparr>ctxDone = False, cancledElsewhere = False, clock = 9\<rparr>)
     (fst (NewTcpConn 5 [Seg [1, 0, 0, 0, 2, 0], Seg [0, 0, 7, 8, 9], RErr NetOther] None None)) []
   = Some (Ok (b', [Opened 0, Data 0 [1, 0, 0, 0, 7, 8, 9], Closed 0 False]))"
proof -
  let ?a = "fst (NewTcpConn 5 [] None None)"
  have enc: "Encode [1, 0, 0, 0, 7, 8, 9] = Ok [1, 0, 0, 0, 2, 0, 0, 0, 7, 8, 9]"
    using Encode_frame [of "[1, 0, 0, 0, 7, 8, 9]" 1]
    by (simp add: LE_Uint32_def frame_def LE_bytes_def)
  have w: "writable ?a" and got: "peer_got ?a = []"
    by (simp_all add: NewTcpConn_def GenerateUID_def writable_def)
  have "peer_got (Send_all Encode 30 [(6, [1, 0, 0, 0, 7, 8, 9])] ?a)
      = [1, 0, 0, 0, 2, 0, 0, 0, 7, 8, 9]"
    using Send_all_writable [OF w, of Encode "[(6, [1, 0, 0, 0, 7, 8, 9])]"
        "[[1, 0, 0, 0, 2, 0, 0, 0, 7, 8, 9]]"] enc got by simp
  moreover have "packet_ok [1, 0, 0, 0, 7, 8, 9]"
    using packet_packet_ok [of "[7]" "[8, 9]"] by (simp add: packet_def LE_bytes_def)
  ultimately show ?thesis
    using tcp_end_to_end [OF w got, of "[(6, [1, 0, 0, 0, 7, 8, 9])]"
        "fst (NewTcpConn 5 [Seg [1, 0, 0, 0, 2, 0], Seg [0, 0, 7, 8, 9], RErr NetOther] None None)"
        30 NetOther log_handler "\<lambda>e s. s @ [e]"
        "replicate 2 \<lparr>ctxDone = False, cancledElsewhere = False, clock = 9\<rparr>" 30 "[]"]
    by (simp add: NewTcpConn_def GenerateUID_def log_handler_obeys quiet_def numeral_2_eq_2)
qed

text \<open>
  The idle timeout: at every reading of a connection the read deadline, when there is one,
  is between \<open>IdleTimeout - 2\<close> and \<open>IdleTimeout\<close> seconds ahead, so traffic at least that often
  keeps the connection; but there is none as long as no reading starts more than two seconds
  after the connection was made, so a peer that stays silent from the start is never timed out.
\<close>

theorem read_deadline_window:
  assumes "0 < idle" and "sorted (now # nows)" and "NewTcpConn now segs room gen = (c, gen')"
  shows "case readDeadline (ask_all idle nows c) of
      None \<Rightarrow> last (now # nows) \<le> now + 2 * second
    | Some d \<Rightarrow> last (now # nows) + (uint idle - 2) * second \<le> d
        \<and> d \<le> last (now # nows) + uint idle * second"
proof -
  from assms(3) have c: "lastReadTime c = now" "readDeadline c = None"
    by (auto simp: NewTcpConn_def split: prod.splits)
  then have "deadline_inv idle now c" by (simp add: deadline_inv_def second_def)
  from ask_all_inv [OF assms(1) this assms(2)] ask_all_None [of idle nows c] c(1)
  show ?thesis
    by (auto simp: deadline_inv_def algebra_simps split: option.split)
qed

theorem read_deadline_window_witness:
  "case readDeadline (ask_all 30 [2 * second, 3 * second]
      (fst (NewTcpConn 0 [] None None))) of
      None \<Rightarrow> False | Some d \<Rightarrow> 31 * second \<le> d \<and> d \<le> 33 * second"
  using read_deadline_window [of 30 0 "[2 * second, 3 * second]" "[]" None None
      "fst (NewTcpConn 0 [] None None)" None]
  by (simp add: NewTcpConn_def GenerateUID_def second_def split: option.splits)

text \<open>
  A silent peer within the first two seconds: the receive loop blocks, and the deadline it
  blocks with is the one of the connection as it was made, that is none.
\<close>

theorem silent_peer_never_timed_out:
  assumes "NewTcpConn now [] room gen = (c, gen')" and "now \<le> clock t"
    and "clock t \<le> now + 2 * second" and "quiet t"
  shows "Recv_loop Decode h idle (t # ts) c s = None
    \<and> readDeadline (setReadTimeout idle (clock t) c) = None"
proof -
  from assms(1) have c: "reader c = []" "\<not> cancelled c" "readDeadline c = None" "lastReadTime c = now"
    by (auto simp: NewTcpConn_def split: prod.splits)
  with assms(2-4) have "setReadTimeout idle (clock t) c = c"
    by (simp add: setReadTimeout_def time_Sub_def second_def)
  with c assms(4) Decode_end [of "[]"] show ?thesis by (simp add: quiet_def)
qed

theorem silent_peer_never_timed_out_witness:
  "Recv_loop Decode log_handler 30 [\<lparr>ctxDone = False, cancledElsewhere = False, clock = 9\<rparr>]
     (fst (NewTcpConn 5 [] None None)) [] = None"
  using silent_peer_never_timed_out [of 5 None None "fst (NewTcpConn 5 [] None None)" None
      "\<lparr>ctxDone = False, cancledElsewhere = False, clock = 9\<rparr>" log_handler 30 "[]" "[]"]
  by (simp add: NewTcpConn_def GenerateUID_def second_def quiet_def del: Recv_loop.simps)

text \<open>
  Connection identifiers: on a clock that does not go back, the identifiers of the
  connections the accept loop starts increase strictly, apart from the zeros of an exhausted
  second.
\<close>

theorem conn_ids_increasing:
  assumes "insID < 2048" and "sorted (0 # accept_times as)"
    and "\<forall>t\<in>set (accept_times as). t < baseTimeStamp + 2 ^ 29"
  shows "sorted_wrt (<) (filter (\<lambda>u. u \<noteq> 0)
    (map connID (fst (serve as (Some (InitUIDGenerator funcID insID))))))"
proof -
  have "lastStamp (InitUIDGenerator funcID insID) = 0" by (simp add: InitUIDGenerator_def)
  with generate_all_increasing [OF uid_inv_init [OF assms(1)], of funcID "accept_times as"] assms
  show ?thesis by (simp add: serve_ids)
qed

theorem conn_ids_increasing_witness:
  "sorted_wrt (<) (filter (\<lambda>u. u \<noteq> 0) (map connID (fst
     (serve [(False, Accepted (1629941250 * second) [] None), (False, AcceptTemporary),
             (False, Accepted (1629941250 * second) [] None), (False, AcceptError)]
       (Some (InitUIDGenerator 1 2))))))"
  by (rule conn_ids_increasing) (simp_all add: second_def)

text \<open>
  Without a call of \<open>InitUIDGenerator\<close> (no code of the repository makes one) every
  connection gets the identifier zero.
\<close>

theorem conn_ids_zero_without_init:
  "map connID (fst (serve as None)) = replicate (length (fst (serve as None))) 0"
  using serve_ids [of as None] generate_all_None
  by (metis length_map length_replicate)

text \<open>
  \<open>Close\<close> is not idempotent: after an active \<open>Close\<close> the receive loop of the connection
  ends at its next turn and closes it again, so that the handler gets two closing events.
\<close>

theorem close_reports_twice:
  assumes "handler_obeys P h upd" and "Close h True c s = Ok (c1, s1)"
    and "Recv_loop decode h idle (t # ts) c1 s1 = Some (Ok (c2, s2))"
  shows "\<exists>c3. Close h False c2 s2
    = Ok (c3, upd (Closed (connID c) False) (upd (Closed (connID c) True) s))"
proof -
  from Close_obeys [OF assms(1), of True c s] assms(2)
  have "cancelled c1" "connID c1 = connID c" "s1 = upd (Closed (connID c) True) s" by auto
  with assms(3) have "connID c2 = connID c" "s2 = upd (Closed (connID c) True) s" by auto
  with Close_obeys [OF assms(1), of False c2 s2] show ?thesis by metis
qed

theorem close_reports_twice_witness:
  "\<exists>c3. Close log_handler False (fst (NewTcpConn 5 [] None None)\<lparr>cancelled := True, conn_closed := True\<rparr>)
       [Closed 0 True] = Ok (c3, [Closed 0 True, Closed 0 False])"
proof -
  let ?c = "fst (NewTcpConn 5 [] None None)"
  have "Close log_handler True ?c [] = Ok (?c\<lparr>cancelled := True, conn_closed := True\<rparr>, [Closed 0 True])"
    by (simp add: Close_def log_handler_def bufio_Flush_def NewTcpConn_def GenerateUID_def)
  from close_reports_twice [OF log_handler_obeys this,
      of Decode 30 "\<lparr>ctxDone = False, cancledElsewhere = False, clock = 9\<rparr>" "[]"]
  show ?thesis by (simp add: NewTcpConn_def GenerateUID_def)
qed

text \<open>
  \<open>Send\<close> drops the result of \<open>Flush\<close>: on a connection that has been closed a packet whose
  frame fits the buffer is reported as sent although nothing is written; the error is kept by
  the writer and fails the next \<open>Send\<close>.
\<close>

theorem send_reports_lost_packet_as_sent:
  assumes "conn_closed c" and "\<not> writer_err c" and "writer_buf c = []"
    and "encode data = Ok f" and "f \<noteq> []" and "length f \<le> maxBufSize"
    and "encode data' = Ok f'"
  shows "\<exists>c'. Send encode idle now data c = (Ok (), c') \<and> peer_got c' = peer_got c
    \<and> fst (Send encode idle now' data' c') = Fail SendWrite"
proof -
  let ?c = "setWriteTimeout idle now c"
  from assms have "bufio_Write f ?c = (False, ?c\<lparr>writer_buf := f\<rparr>)"
    by (simp add: bufio_Write.simps [of f])
  moreover have "bufio_Flush (?c\<lparr>writer_buf := f\<rparr>) = ?c\<lparr>writer_buf := f, writer_err := True\<rparr>"
    using assms(1,2,5) by (simp add: bufio_Flush_def net_Write_def)
  ultimately have "Send encode idle now data c = (Ok (), ?c\<lparr>writer_buf := f, writer_err := True\<rparr>)"
    using assms(4) by (simp add: Send_def)
  moreover have "bufio_Write f' (setWriteTimeout idle now' (?c\<lparr>writer_buf := f, writer_err := True\<rparr>))
    = (True, setWriteTimeout idle now' (?c\<lparr>writer_buf := f, writer_err := True\<rparr>))"
    by (simp add: bufio_Write.simps [of f'])
  ultimately show ?thesis using assms(7) by (simp add: Send_def)
qed

theorem send_reports_lost_packet_as_sent_witness:
  "\<exists>c'. Send Ok 30 6 [1, 2] (fst (NewTcpConn 5 [] None None)\<lparr>conn_closed := True\<rparr>) = (Ok (), c')
     \<and> peer_got c' = [] \<and> fst (Send Ok 30 7 [3] c') = Fail SendWrite"
  using send_reports_lost_packet_as_sent [of "fst (NewTcpConn 5 [] None None)\<lparr>conn_closed := True\<rparr>"
      Ok "[1, 2]" "[1, 2]" "[3]" "[3]" 30 6 7]
  by (simp add: NewTcpConn_def GenerateUID_def maxBufSize_def)

end
