(* ===== verification/Conn_Life.thy ===== *)
theory Conn_Life
  imports Tcp "HOL-Library.Sublist"
begin

text \<open>
  The life of one connection of \<^verbatim>\<open>src/plugin/transport/tcp/tcp.go\<close> under concurrency: the goroutine
  of \<open>Recv\<close> interleaved with everything else that acts on the connection.  That is the network
  (bytes and errors arrive), \<open>Uninit\<close> of the transport, and the calls of \<open>Send\<close> and
  \<open>Close(true)\<close> that event handlers and other goroutines make once \<open>OnConnOpened\<close> has given them
  the connection.  \<open>Recv\<close>, \<open>Send\<close> and \<open>Close\<close> are cut at every point where another goroutine can be
  observed, so that any number of calls of \<open>Send\<close> and \<open>Close\<close> interleave statement by statement.  The
  handler is represented by the events it gets, in order; what it does to the connection are the
  calls of \<open>Send\<close> and \<open>Close\<close>, which the model allows at any time.

  The code has no lock around the buffered writer of a connection, and \<open>bufio.Writer\<close> has none of
  its own.  When two goroutines are in a call of its \<open>Write\<close> or \<open>Flush\<close> at the same time, the model
  lets the writer and the bytes that go out become anything (\<open>env_race\<close>), and remembers it in the
  history \<open>raced\<close>.  What is shown of the receiving side holds with such races; what is shown of the
  outgoing stream has \<open>\<not> raced\<close> as a hypothesis.  That frames do get lost otherwise is shown in
  theory \<open>Send_Race\<close>, which has the statements inside \<open>Write\<close> and \<open>Flush\<close>.
\<close>

section \<open>Model\<close>

text \<open>The statements of the function that \<open>Close\<close> passes to its \<open>sync.Once\<close>: which one is next.\<close>

datatype close_pc = CFlush | CNotify | CCancel | CShut | CDone

text \<open>
  Where the goroutine of \<open>Recv\<close> is: before \<open>OnConnOpened\<close>, before the \<open>select\<close>, in the decoder,
  before \<open>OnData\<close>, or in the deferred \<open>Close(false)\<close>, which also runs when the decoder panics.
\<close>

datatype recv_pc = ROpen | RSelect | RDecode | RData "byte list" | RClose close_pc (panicking: bool)

text \<open>
  Where a call of \<open>Send\<close> is: before \<open>Write\<close> of the frame of its packet, before \<open>Flush\<close>, or done.
\<close>

datatype sender_pc = SWrite (packet_of: "byte list") (frame_of: "byte list") | SFlush | SDone

text \<open>
  The last four fields are histories: the calls of the event handler, the bytes that
  arrived, the packets that were given to the writer, and whether two goroutines were in the
  writer at the same time.
\<close>

record conn_sys =
  conn :: tcpConn
  ctx_done :: bool
  stream_ended :: bool
  recv_at :: recv_pc
  closers :: "close_pc list"
  senders :: "sender_pc list"
  events :: "conn_event list"
  arrived :: "byte list"
  sent :: "byte list list"
  raced :: bool

definition start :: "tcpConn \<Rightarrow> conn_sys" where
  "start c = \<lparr>conn = c, ctx_done = False, stream_ended = (first_err (reader c) \<noteq> None),
     recv_at = ROpen, closers = [], senders = [], events = [], arrived = avail (reader c), sent = [],
     raced = False\<rparr>"

text \<open>
  One statement of \<open>Close\<close>.  Closing the socket makes its reads fail; of what arrived, the part
  that the buffered reader has already read (some number \<open>k\<close> of segments) can still be read.
\<close>

fun close_stmt :: "bool \<Rightarrow> nat \<Rightarrow> close_pc \<Rightarrow> conn_sys \<Rightarrow> close_pc \<times> conn_sys" where
  "close_stmt active k CFlush s = (CNotify, s\<lparr>conn := bufio_Flush (conn s)\<rparr>)"
| "close_stmt active k CNotify s =
     (CCancel, s\<lparr>events := events s @ [Closed (connID (conn s)) active]\<rparr>)"
| "close_stmt active k CCancel s = (CShut, s\<lparr>conn := (conn s)\<lparr>cancelled := True\<rparr>\<rparr>)"
| "close_stmt active k CShut s =
     (CDone, s\<lparr>conn := (conn s)\<lparr>conn_closed := True,
                                reader := take k (reader (conn s)) @ [RErr NetOther]\<rparr>,
               stream_ended := True\<rparr>)"
| "close_stmt active k CDone s = (CDone, s)"

text \<open>The goroutine of \<open>Recv\<close>.\<close>

inductive recv_step :: "u32 \<Rightarrow> conn_sys \<Rightarrow> conn_sys \<Rightarrow> bool" for idle where
  recv_opened: "recv_at s = ROpen \<Longrightarrow>
    recv_step idle s (s\<lparr>recv_at := RSelect, events := events s @ [Opened (connID (conn s))]\<rparr>)"
| recv_stop: "recv_at s = RSelect \<Longrightarrow> ctx_done s \<or> cancelled (conn s) \<Longrightarrow>
    recv_step idle s (s\<lparr>recv_at := RClose CFlush False\<rparr>)"
| recv_default: "recv_at s = RSelect \<Longrightarrow> \<not> ctx_done s \<Longrightarrow> \<not> cancelled (conn s) \<Longrightarrow>
    recv_step idle s (s\<lparr>recv_at := RDecode, conn := setReadTimeout idle now (conn s)\<rparr>)"
| recv_packet: "recv_at s = RDecode \<Longrightarrow> Decode (reader (conn s)) = Some (Ok pkg, segs) \<Longrightarrow>
    recv_step idle s (s\<lparr>recv_at := RData pkg, conn := (conn s)\<lparr>reader := segs\<rparr>\<rparr>)"
| recv_failed: "recv_at s = RDecode \<Longrightarrow> Decode (reader (conn s)) = Some (Fail err, segs) \<Longrightarrow>
    recv_step idle s (s\<lparr>recv_at := RClose CFlush False, conn := (conn s)\<lparr>reader := segs\<rparr>\<rparr>)"
| recv_panicked: "recv_at s = RDecode \<Longrightarrow> Decode (reader (conn s)) = Some (Panic, segs) \<Longrightarrow>
    recv_step idle s (s\<lparr>recv_at := RClose CFlush True, conn := (conn s)\<lparr>reader := segs\<rparr>\<rparr>)"
| recv_data: "recv_at s = RData pkg \<Longrightarrow>
    recv_step idle s (s\<lparr>recv_at := RSelect, events := events s @ [Data (connID (conn s)) pkg]\<rparr>)"
| recv_close: "recv_at s = RClose pc p \<Longrightarrow> pc \<noteq> CDone \<Longrightarrow> close_stmt False k pc s = (pc', s') \<Longrightarrow>
    recv_step idle s (s'\<lparr>recv_at := RClose pc' p\<rparr>)"

text \<open>
  The goroutines whose next statement is a call on the buffered writer: \<open>Write\<close> or \<open>Flush\<close> of a
  \<open>Send\<close>, or \<open>Flush\<close> of a \<open>Close\<close>, the deferred one of \<open>Recv\<close> included.
\<close>

definition writer_users :: "conn_sys \<Rightarrow> nat" where
  "writer_users s = length (filter (\<lambda>pc. pc \<noteq> SDone) (senders s))
     + length (filter (\<lambda>pc. pc = CFlush) (closers s))
     + (case recv_at s of RClose pc p \<Rightarrow> if pc = CFlush then 1 else 0 | _ \<Rightarrow> 0)"

text \<open>
  Everything else.  A read timeout needs a read deadline; a \<open>Send\<close> or \<open>Close\<close> needs the connection,
  which \<open>OnConnOpened\<close> hands out.  A \<open>Send\<close> whose packet is not encoded returns at once.
\<close>

inductive env_step :: "u32 \<Rightarrow> conn_sys \<Rightarrow> conn_sys \<Rightarrow> bool" for idle where
  env_arrive: "\<not> stream_ended s \<Longrightarrow>
    env_step idle s (s\<lparr>conn := (conn s)\<lparr>reader := reader (conn s) @ [Seg bs]\<rparr>, arrived := arrived s @ bs\<rparr>)"
| env_error: "\<not> stream_ended s \<Longrightarrow> e = NetTimeout \<longrightarrow> readDeadline (conn s) \<noteq> None \<Longrightarrow>
    env_step idle s (s\<lparr>conn := (conn s)\<lparr>reader := reader (conn s) @ [RErr e]\<rparr>, stream_ended := True\<rparr>)"
| env_uninit: "env_step idle s (s\<lparr>ctx_done := True\<rparr>)"
| env_send_call: "recv_at s \<noteq> ROpen \<Longrightarrow> Encode data = Ok f \<Longrightarrow>
    env_step idle s (s\<lparr>conn := setWriteTimeout idle now (conn s), senders := senders s @ [SWrite data f]\<rparr>)"
| env_send_write: "i < length (senders s) \<Longrightarrow> senders s ! i = SWrite data f \<Longrightarrow>
    bufio_Write f (conn s) = (err, c') \<Longrightarrow>
    env_step idle s (s\<lparr>conn := c', sent := sent s @ [data],
      senders := (senders s)[i := if err then SDone else SFlush]\<rparr>)"
| env_send_flush: "i < length (senders s) \<Longrightarrow> senders s ! i = SFlush \<Longrightarrow>
    env_step idle s (s\<lparr>conn := bufio_Flush (conn s), senders := (senders s)[i := SDone]\<rparr>)"
| env_race: "2 \<le> writer_users s \<Longrightarrow>
    env_step idle s (s\<lparr>conn := (conn s)\<lparr>writer_buf := buf, writer_err := err, peer_got := peer_got (conn s) @ out\<rparr>,
      raced := True\<rparr>)"
| env_close_call: "recv_at s \<noteq> ROpen \<Longrightarrow> env_step idle s (s\<lparr>closers := closers s @ [CFlush]\<rparr>)"
| env_close: "i < length (closers s) \<Longrightarrow> closers s ! i \<noteq> CDone \<Longrightarrow>
    close_stmt True k (closers s ! i) s = (pc', s') \<Longrightarrow>
    env_step idle s (s'\<lparr>closers := (closers s)[i := pc']\<rparr>)"

text \<open>After the deferred \<open>Close\<close> a panic ends the process.\<close>

definition crashed :: "conn_sys \<Rightarrow> bool" where
  "crashed s \<longleftrightarrow> recv_at s = RClose CDone True"

inductive reachable :: "u32 \<Rightarrow> tcpConn \<Rightarrow> conn_sys \<Rightarrow> bool" for idle c where
  reach_start: "reachable idle c (start c)"
| reach_recv: "reachable idle c s \<Longrightarrow> \<not> crashed s \<Longrightarrow> recv_step idle s s' \<Longrightarrow> reachable idle c s'"
| reach_env: "reachable idle c s \<Longrightarrow> \<not> crashed s \<Longrightarrow> env_step idle s s' \<Longrightarrow> reachable idle c s'"

inductive_cases recv_stepE: "recv_step idle s s'"
inductive_cases env_stepE: "env_step idle s s'"

section \<open>Reference: the packets of a byte stream\<close>

text \<open>
  What a stream of bytes means, without segments and errors: its complete frames, up to one
  whose size cannot be decoded.
\<close>

function packets_of :: "byte list \<Rightarrow> byte list list" where
  "packets_of bs =
     (case (LE_Uint32 bs :: (unit, u32) res, LE_Uint32 (drop 4 bs) :: (unit, u32) res) of
        (Ok h, Ok b) \<Rightarrow>
          if unat (4 + h + b) < 4 \<or> length bs < 8 + unat (h + b) then []
          else (take 4 bs @ take (unat (h + b)) (drop 8 bs)) # packets_of (drop (8 + unat (h + b)) bs)
      | _ \<Rightarrow> [])"
  by pat_completeness auto
termination by (relation "measure length") auto

declare packets_of.simps [simp del]

lemma packets_of_short: "length bs < 8 \<Longrightarrow> packets_of bs = []"
  by (auto simp: packets_of.simps [of bs] LE_Uint32_def split: res.splits list.splits)

lemma packets_of_frame:
  "packets_of (frame h b rest) =
     (if unat (4 + h + b) < 4 \<or> length rest < unat (h + b) then []
      else (LE_bytes h @ take (unat (h + b)) rest) # packets_of (drop (unat (h + b)) rest))"
  by (simp add: packets_of.simps [of "frame h b rest"]) (simp add: frame_def)

lemma stream_cases:
  obtains (short) "length bs < 8" | (frame) h b rest where "bs = frame h b rest"
proof (cases "length bs < 8")
  case False
  then have "4 \<le> length bs" "4 \<le> length (drop 4 bs)" by auto
  then obtain h b where "bs = LE_bytes h @ drop 4 bs" and "drop 4 bs = LE_bytes b @ drop 4 (drop 4 bs)"
    by (metis LE_Uint32_split)
  then have "bs = frame h b (drop 4 (drop 4 bs))" unfolding frame_def by metis
  then show ?thesis by (rule frame)
qed (rule short)

lemma packets_of_append: "prefix (packets_of xs) (packets_of (xs @ ys))"
proof (induction xs rule: measure_induct_rule [where f = length])
  case (less xs)
  show ?case
  proof (cases xs rule: stream_cases)
    case (frame h b rest)
    have app: "frame h b rest @ ys = frame h b (rest @ ys)" by (simp add: frame_def)
    have "length (drop (unat (h + b)) rest) < length xs" by (simp add: frame)
    from less [OF this] show ?thesis by (auto simp: frame app packets_of_frame)
  qed (simp add: packets_of_short)
qed

lemma packets_of_prefix: "prefix xs ys \<Longrightarrow> prefix (packets_of xs) (packets_of ys)"
  by (auto simp: packets_of_append elim!: prefixE)

text \<open>The decoder against this reference: it panics, or takes the first packet, or there is none.\<close>

lemma Decode_spec:
  "(\<exists>segs'. Decode segs = Some (Panic, segs'))
   \<or> (\<exists>p segs' f. Decode segs = Some (Ok p, segs') \<and> first_err segs' = first_err segs
        \<and> avail segs = f @ avail segs' \<and> (\<forall>ext. packets_of (f @ ext) = p # packets_of ext))
   \<or> packets_of (avail segs) = [] \<and>
     (case first_err segs of
        None \<Rightarrow> Decode segs = None
      | Some e \<Rightarrow> \<exists>segs'. Decode segs = Some (Fail (DecodeNet e), segs'))"
proof (cases "avail segs" rule: stream_cases)
  case short
  then show ?thesis using tcpConn_Read_short [of segs headSize]
    by (auto simp: packets_of_short Decode_def headSize_def split: option.splits)
next
  case (frame h b rest)
  let ?n = "unat (h + b)"
  consider (panic) "unat (4 + h + b) < 4"
    | (ok) "4 \<le> unat (4 + h + b)" "?n \<le> length rest"
    | (part) "4 \<le> unat (4 + h + b)" "length rest < ?n" by linarith
  then show ?thesis
  proof cases
    case panic
    then show ?thesis using Decode_frame(1) [OF frame] by blast
  next
    case ok
    then obtain segs' where "Decode segs = Some (Ok (LE_bytes h @ take ?n rest), segs')"
      "avail segs' = drop ?n rest" "first_err segs' = first_err segs"
      using Decode_frame(2) [OF frame] by blast
    moreover have "packets_of (frame h b (take ?n rest) @ ext)
        = (LE_bytes h @ take ?n rest) # packets_of ext" for ext
      using packets_of_frame [of h b "take ?n rest @ ext"] ok by (simp add: frame_def)
    moreover have "avail segs = frame h b (take ?n rest) @ drop ?n rest"
      by (simp add: frame) (simp add: frame_def)
    ultimately show ?thesis by metis
  next
    case part
    then show ?thesis using Decode_frame(3) [OF frame] by (simp add: frame packets_of_frame)
  qed
qed

lemma Decode_Ok:
  assumes "Decode segs = Some (Ok p, segs')"
  obtains f where "avail segs = f @ avail segs'" and "first_err segs' = first_err segs"
    and "\<forall>ext. packets_of (f @ ext) = p # packets_of ext"
  using Decode_spec [of segs] assms by (auto split: option.splits)

lemma Decode_Fail:
  "Decode segs = Some (Fail e, segs') \<Longrightarrow> packets_of (avail segs) = [] \<and> first_err segs \<noteq> None"
  using Decode_spec [of segs] by (auto split: option.splits)

lemma Decode_blocked: "Decode segs = None \<Longrightarrow> first_err segs = None"
  using Decode_spec [of segs] by (auto split: option.splits)

lemma packets_of_Encode:
  assumes "packet_ok p" and "Encode p = Ok f"
  shows "packets_of (f @ ext) = p # packets_of ext"
proof -
  obtain segs' where "Decode [Seg (f @ ext)] = Some (Ok p, segs')" and ext: "avail segs' = ext"
    using Encode_Decode [OF assms(1) _ assms(2), of "[Seg (f @ ext)]" ext] by auto
  then obtain g where "f @ ext = g @ ext" and "packets_of (g @ ext) = p # packets_of ext"
    using Decode_Ok [of "[Seg (f @ ext)]" p segs'] by (metis append_Nil2 avail.simps(1,2))
  then show ?thesis by simp
qed

lemma packets_of_concat:
  assumes "list_all packet_ok ps" and "map Encode ps = map Ok fs"
  shows "packets_of (concat fs) = ps"
  using assms
proof (induction ps arbitrary: fs)
  case (Cons p ps)
  then obtain f fs' where "fs = f # fs'" "Encode p = Ok f" "map Encode ps = map Ok fs'"
    by (cases fs) auto
  with Cons.IH [of fs'] Cons.prems(1) show ?case by (simp add: packets_of_Encode [of p f])
qed (simp add: packets_of_short)

section \<open>What the operations leave alone\<close>

lemma net_Write_fields:
  "net_Write p c = (n, err, c') \<Longrightarrow> connID c' = connID c \<and> reader c' = reader c
     \<and> cancelled c' = cancelled c \<and> conn_closed c' = conn_closed c
     \<and> peer_got c' = peer_got c @ take n p"
  by (auto simp: net_Write_def Let_def split: if_splits option.splits)

lemma bufio_Flush_fields [simp]:
  "cancelled (bufio_Flush c) = cancelled c" "conn_closed (bufio_Flush c) = conn_closed c"
  by (auto simp: bufio_Flush_def dest: net_Write_fields split: prod.split)

lemma bufio_Write_fields:
  "connID (snd (bufio_Write p c)) = connID c \<and> reader (snd (bufio_Write p c)) = reader c
     \<and> cancelled (snd (bufio_Write p c)) = cancelled c
     \<and> conn_closed (snd (bufio_Write p c)) = conn_closed c"
proof (induction p c rule: bufio_Write.induct)
  case (1 p c)
  show ?case
  proof (cases "maxBufSize - length (writer_buf c) < length p \<and> \<not> writer_err c")
    case full: True
    show ?thesis
    proof (cases "writer_buf c = []")
      case True
      obtain n err c' where w: "net_Write p c = (n, err, c')" by (cases "net_Write p c")
      show ?thesis using 1(1) [OF full True w [symmetric] refl refl] net_Write_fields [OF w] full True w
        by (simp add: bufio_Write.simps [of p c])
    next
      case False
      show ?thesis using 1(2) [OF full False refl] full False
        by (simp add: bufio_Write.simps [of p c] Let_def)
    qed
  qed (auto simp: bufio_Write.simps [of p c])
qed

lemma setWriteTimeout_same [simp]:
  "connID (setWriteTimeout idle now c) = connID c" "reader (setWriteTimeout idle now c) = reader c"
  "cancelled (setWriteTimeout idle now c) = cancelled c"
  by (simp_all add: setWriteTimeout_def)

lemma setReadTimeout_same [simp]:
  "conn_closed (setReadTimeout idle now c) = conn_closed c"
  "writer_err (setReadTimeout idle now c) = writer_err c"
  "writer_buf (setReadTimeout idle now c) = writer_buf c"
  "peer_got (setReadTimeout idle now c) = peer_got c"
  by (simp_all add: setReadTimeout_def)

lemma setWriteTimeout_out [simp]:
  "conn_closed (setWriteTimeout idle now c) = conn_closed c"
  "writer_err (setWriteTimeout idle now c) = writer_err c"
  "writer_buf (setWriteTimeout idle now c) = writer_buf c"
  "peer_got (setWriteTimeout idle now c) = peer_got c"
  by (simp_all add: setWriteTimeout_def)

lemma bufio_Write_same:
  "bufio_Write p c = (err, c') \<Longrightarrow> connID c' = connID c \<and> reader c' = reader c
     \<and> cancelled c' = cancelled c \<and> conn_closed c' = conn_closed c"
  using bufio_Write_fields [of p c] by simp

section \<open>The outgoing stream\<close>

text \<open>
  What reached the peer is a prefix of the bytes given to the writer; as long as the writer has
  no error, the rest is in its buffer.
\<close>

definition out_ok :: "tcpConn \<Rightarrow> byte list \<Rightarrow> bool" where
  "out_ok c bytes \<longleftrightarrow>
     (if writer_err c then prefix (peer_got c) bytes else peer_got c @ writer_buf c = bytes)"

lemma out_ok_prefix: "out_ok c bytes \<Longrightarrow> prefix (peer_got c) bytes"
  by (auto simp: out_ok_def split: if_splits)

lemma out_ok_Flush: "out_ok c bytes \<Longrightarrow> out_ok (bufio_Flush c) bytes"
proof (cases "net_Write (writer_buf c) c")
  case (fields n err c')
  assume ok: "out_ok c bytes"
  have "prefix (peer_got c @ take n (writer_buf c)) (peer_got c @ writer_buf c)"
    by (simp add: take_is_prefix)
  with ok net_Write_fields [OF fields] fields show ?thesis
    by (auto simp: bufio_Flush_def out_ok_def)
qed

lemma out_ok_Write: "out_ok c bytes \<Longrightarrow> out_ok (snd (bufio_Write p c)) (bytes @ p)"
proof (induction p c arbitrary: bytes rule: bufio_Write.induct)
  case (1 p c)
  show ?case
  proof (cases "maxBufSize - length (writer_buf c) < length p \<and> \<not> writer_err c")
    case full: True
    show ?thesis
    proof (cases "writer_buf c = []")
      case True
      obtain n err c' where w: "net_Write p c = (n, err, c')" by (cases "net_Write p c")
      have "out_ok (c'\<lparr>writer_err := err\<rparr>) (bytes @ take n p)"
        using 1(3) full True net_Write_fields [OF w] net_Write_result(3) [OF w] by (simp add: out_ok_def)
      from 1(1) [OF full True w [symmetric] refl refl this] full True w show ?thesis
        by (simp add: bufio_Write.simps [of p c])
    next
      case False
      let ?n = "maxBufSize - length (writer_buf c)"
      have "out_ok (c\<lparr>writer_buf := writer_buf c @ take ?n p\<rparr>) (bytes @ take ?n p)"
        using 1(3) full by (simp add: out_ok_def)
      from 1(2) [OF full False refl out_ok_Flush [OF this]] full False show ?thesis
        by (simp add: bufio_Write.simps [of p c] Let_def)
    qed
  qed (use 1(3) in \<open>auto simp: bufio_Write.simps [of p c] out_ok_def split: if_splits\<close>)
qed

section \<open>Invariants\<close>

text \<open>A connection as \<open>NewTcpConn\<close> makes it.\<close>

definition fresh :: "tcpConn \<Rightarrow> bool" where
  "fresh c \<longleftrightarrow> \<not> cancelled c \<and> \<not> conn_closed c \<and> \<not> writer_err c \<and> writer_buf c = [] \<and> peer_got c = []"

lemma NewTcpConn_fresh: "NewTcpConn now segs room gen = (c, gen') \<Longrightarrow> fresh c"
  by (auto simp: NewTcpConn_def fresh_def split: prod.splits)

subsection \<open>The events of the handler\<close>

text \<open>The events are those of the receiving goroutine and one per active \<open>Close\<close>.\<close>

fun is_active :: "conn_event \<Rightarrow> bool" where
  "is_active (Closed i active) = active"
| "is_active _ = False"

fun data_of :: "conn_event list \<Rightarrow> byte list list" where
  "data_of [] = []"
| "data_of (Data i p # es) = p # data_of es"
| "data_of (e # es) = data_of es"

lemma data_of_append [simp]: "data_of (es @ es') = data_of es @ data_of es'"
  by (induction es rule: data_of.induct) auto

abbreviation delivered :: "conn_sys \<Rightarrow> byte list list" where
  "delivered s \<equiv> data_of (events s)"

definition own_events :: "conn_sys \<Rightarrow> conn_event list" where
  "own_events s = filter (\<lambda>e. \<not> is_active e) (events s)"

definition notified :: "close_pc \<Rightarrow> bool" where
  "notified pc \<longleftrightarrow> pc \<in> {CCancel, CShut, CDone}"

fun own_shape :: "u64 \<Rightarrow> byte list list \<Rightarrow> recv_pc \<Rightarrow> conn_event list" where
  "own_shape i ps ROpen = []"
| "own_shape i ps (RClose pc p) =
     Opened i # map (Data i) ps @ (if notified pc then [Closed i False] else [])"
| "own_shape i ps _ = Opened i # map (Data i) ps"

definition events_inv :: "u64 \<Rightarrow> conn_sys \<Rightarrow> bool" where
  "events_inv i s \<longleftrightarrow> connID (conn s) = i
     \<and> own_events s = own_shape i (delivered s) (recv_at s)
     \<and> length (filter is_active (events s)) = length (filter notified (closers s))
     \<and> (recv_at s = ROpen \<longrightarrow> closers s = [] \<and> events s = [])"

lemma events_inv_start [inv_rules]: "events_inv (connID c) (start c)"
  by (simp add: events_inv_def start_def own_events_def)

lemma events_inv_recv [inv_rules]:
  assumes "recv_step idle s s'" and "events_inv i s"
  shows "events_inv i s'"
  using assms
proof (cases rule: recv_step.cases)
  case (recv_close pc p k pc' s1)
  then show ?thesis using assms(2)
    by (cases pc) (auto simp: events_inv_def own_events_def notified_def)
qed (auto simp: events_inv_def own_events_def notified_def)

lemma events_inv_env [inv_rules]:
  assumes "env_step idle s s'" and "events_inv i s"
  shows "events_inv i s'"
  using assms
proof (cases rule: env_step.cases)
  case (env_close j k pc' s1)
  then show ?thesis using assms(2) count_update [of j "closers s" notified pc']
    by (cases "closers s ! j") (auto simp: events_inv_def own_events_def notified_def)
qed (auto simp: events_inv_def own_events_def notified_def dest: bufio_Write_same)

subsection \<open>The incoming stream\<close>

lemma avail_append: "avail (xs @ ys) = (if first_err xs = None then avail xs @ avail ys else avail xs)"
  by (induction xs rule: avail.induct) auto

lemma first_err_append: "first_err (xs @ ys) = (if first_err xs = None then first_err ys else first_err xs)"
  by (induction xs rule: first_err.induct) auto

lemma avail_cut: "prefix (avail (take k segs @ [RErr e])) (avail segs)"
proof (induction segs arbitrary: k)
  case (Cons seg segs)
  then show ?case by (cases k; cases seg) auto
qed simp

text \<open>Whether the goroutine is still in its loop, and the packet decoded but not yet delivered.\<close>

fun in_loop :: "recv_pc \<Rightarrow> bool" where
  "in_loop (RClose pc p) = False"
| "in_loop _ = True"

fun pending :: "recv_pc \<Rightarrow> byte list list" where
  "pending (RData p) = [p]"
| "pending _ = []"

text \<open>
  In the loop, the packets decoded so far are those of a part \<open>f\<close> of the arrived bytes, and
  what can still be read follows it; only an active \<open>Close\<close> discards arrived bytes.  After the
  loop, the packets delivered are the first ones of the stream, and all of it when the loop
  ended by itself.
\<close>

definition loop_inv :: "conn_sys \<Rightarrow> bool" where
  "loop_inv s \<longleftrightarrow>
     (\<not> stream_ended s \<longrightarrow> first_err (reader (conn s)) = None)
   \<and> (conn_closed (conn s) \<longrightarrow> first_err (reader (conn s)) \<noteq> None)
   \<and> (cancelled (conn s) \<or> conn_closed (conn s) \<longrightarrow> closers s \<noteq> [])
   \<and> (\<exists>f. (\<forall>ext. packets_of (f @ ext) = delivered s @ pending (recv_at s) @ packets_of ext)
        \<and> prefix (f @ avail (reader (conn s))) (arrived s)
        \<and> (\<not> stream_ended s \<or> closers s = [] \<longrightarrow> f @ avail (reader (conn s)) = arrived s))"

definition left_inv :: "conn_sys \<Rightarrow> bool" where
  "left_inv s \<longleftrightarrow> prefix (delivered s) (packets_of (arrived s))
     \<and> (panicking (recv_at s) \<or> ctx_done s \<or> closers s \<noteq> []
        \<or> stream_ended s \<and> delivered s = packets_of (arrived s))"

definition stream_inv :: "conn_sys \<Rightarrow> bool" where
  "stream_inv s \<longleftrightarrow> (if in_loop (recv_at s) then loop_inv s else left_inv s)"

lemma loop_invE:
  assumes "loop_inv s"
  obtains f where "\<forall>ext. packets_of (f @ ext) = delivered s @ pending (recv_at s) @ packets_of ext"
    and "prefix (f @ avail (reader (conn s))) (arrived s)"
    and "\<not> stream_ended s \<or> closers s = [] \<Longrightarrow> f @ avail (reader (conn s)) = arrived s"
  using assms unfolding loop_inv_def by blast

lemma loop_inv_prefix: "loop_inv s \<Longrightarrow> prefix (delivered s) (packets_of (arrived s))"
proof (elim loop_invE)
  fix f
  assume f: "\<forall>ext. packets_of (f @ ext) = delivered s @ pending (recv_at s) @ packets_of ext"
    and "prefix (f @ avail (reader (conn s))) (arrived s)"
  from packets_of_prefix [OF this(2)] f show ?thesis by (auto simp: prefix_def)
qed

lemma loop_inv_all:
  assumes "loop_inv s" and "closers s = []" and "packets_of (avail (reader (conn s))) = []"
  shows "packets_of (arrived s) = delivered s @ pending (recv_at s)"
  using loop_invE [OF assms(1)] assms(2,3) by (metis append_Nil2)

lemma stream_inv_start [inv_rules]: "fresh c \<Longrightarrow> stream_inv (start c)"
  by (auto simp: fresh_def stream_inv_def loop_inv_def start_def intro: exI [of _ "[]"])

lemma loop_inv_packet:
  assumes "loop_inv s" and "recv_at s = RDecode" and "Decode (reader (conn s)) = Some (Ok pkg, segs)"
  shows "loop_inv (s\<lparr>recv_at := RData pkg, conn := (conn s)\<lparr>reader := segs\<rparr>\<rparr>)"
proof -
  obtain g where g: "avail (reader (conn s)) = g @ avail segs"
    "first_err segs = first_err (reader (conn s))" "\<forall>ext. packets_of (g @ ext) = pkg # packets_of ext"
    using Decode_Ok [OF assms(3)] by blast
  obtain f where "\<forall>ext. packets_of (f @ ext) = delivered s @ pending (recv_at s) @ packets_of ext"
    and "prefix (f @ avail (reader (conn s))) (arrived s)"
    and "\<not> stream_ended s \<or> closers s = [] \<Longrightarrow> f @ avail (reader (conn s)) = arrived s"
    using loop_invE [OF assms(1)] by blast
  with g assms(1,2) show ?thesis
    by (auto simp: loop_inv_def intro!: exI [of _ "f @ g"])
qed

lemma stream_inv_recv [inv_rules]:
  assumes "recv_step idle s s'" and "stream_inv s"
  shows "stream_inv s'"
  using assms(1)
proof (cases rule: recv_step.cases)
  case recv_stop
  then have "loop_inv s" using assms(2) by (simp add: stream_inv_def)
  with recv_stop loop_inv_prefix [OF this] show ?thesis
    by (auto simp: stream_inv_def left_inv_def loop_inv_def)
next
  case (recv_packet pkg segs)
  then have "loop_inv s" using assms(2) by (simp add: stream_inv_def)
  with recv_packet loop_inv_packet show ?thesis by (simp add: stream_inv_def)
next
  case (recv_failed err segs)
  then have inv: "loop_inv s" using assms(2) by (simp add: stream_inv_def)
  from Decode_Fail [OF recv_failed(3)] inv have "stream_ended s" by (auto simp: loop_inv_def)
  with recv_failed(1,2) loop_inv_prefix [OF inv] loop_inv_all [OF inv] Decode_Fail [OF recv_failed(3)]
  show ?thesis by (auto simp: stream_inv_def left_inv_def)
next
  case (recv_panicked segs)
  then have "loop_inv s" using assms(2) by (simp add: stream_inv_def)
  with recv_panicked loop_inv_prefix [OF this] show ?thesis by (simp add: stream_inv_def left_inv_def)
next
  case (recv_close pc p k pc' s1)
  then show ?thesis using assms(2) by (cases pc) (auto simp: stream_inv_def left_inv_def)
qed (use assms(2) in \<open>auto simp: stream_inv_def loop_inv_def\<close>)

lemma left_inv_env:
  assumes "env_step idle s s'" and "left_inv s"
  shows "left_inv s'"
  using assms(1)
proof (cases rule: env_step.cases)
  case (env_arrive bs)
  then show ?thesis using assms(2) packets_of_append [of "arrived s" bs]
    by (auto simp: left_inv_def intro: prefix_order.trans)
next
  case (env_close i k pc' s1)
  then show ?thesis using assms(2) by (cases "closers s ! i") (auto simp: left_inv_def)
qed (use assms(2) in \<open>auto simp: left_inv_def\<close>)

lemma loop_inv_cut:
  assumes "loop_inv s" and "closers s \<noteq> []"
  shows "loop_inv (s\<lparr>conn := (conn s)\<lparr>conn_closed := True,
    reader := take k (reader (conn s)) @ [RErr NetOther]\<rparr>, stream_ended := True\<rparr>)"
proof -
  obtain f where "\<forall>ext. packets_of (f @ ext) = delivered s @ pending (recv_at s) @ packets_of ext"
    and pre: "prefix (f @ avail (reader (conn s))) (arrived s)"
    using loop_invE [OF assms(1)] by blast
  moreover have "prefix (f @ avail (take k (reader (conn s)) @ [RErr NetOther])) (arrived s)"
    using avail_cut [of k "reader (conn s)" NetOther] pre
    by (meson prefix_order.trans same_prefix_prefix)
  ultimately show ?thesis using assms
    by (auto simp: loop_inv_def first_err_append intro!: exI [of _ f])
qed

lemma loop_inv_arrive:
  assumes "loop_inv s" and "\<not> stream_ended s"
  shows "loop_inv (s\<lparr>conn := (conn s)\<lparr>reader := reader (conn s) @ [Seg bs]\<rparr>, arrived := arrived s @ bs\<rparr>)"
    and "loop_inv (s\<lparr>conn := (conn s)\<lparr>reader := reader (conn s) @ [RErr e]\<rparr>, stream_ended := True\<rparr>)"
proof -
  obtain f where f: "\<forall>ext. packets_of (f @ ext) = delivered s @ pending (recv_at s) @ packets_of ext"
    and eq: "arrived s = f @ avail (reader (conn s))"
    using loop_invE [OF assms(1)] assms(2) by metis
  from assms have "first_err (reader (conn s)) = None" by (simp add: loop_inv_def)
  with f eq assms show
    "loop_inv (s\<lparr>conn := (conn s)\<lparr>reader := reader (conn s) @ [Seg bs]\<rparr>, arrived := arrived s @ bs\<rparr>)"
    "loop_inv (s\<lparr>conn := (conn s)\<lparr>reader := reader (conn s) @ [RErr e]\<rparr>, stream_ended := True\<rparr>)"
    unfolding loop_inv_def by (auto simp: avail_append first_err_append intro!: exI [of _ f])
qed

text \<open>Steps that touch neither the stream nor what was delivered.\<close>

lemma loop_inv_cong:
  assumes "loop_inv s" and "recv_at s' = recv_at s" and "delivered s' = delivered s"
    and "arrived s' = arrived s" and "stream_ended s' = stream_ended s"
    and "reader (conn s') = reader (conn s)" and "conn_closed (conn s') = conn_closed (conn s)"
    and "closers s' \<noteq> [] \<or> closers s = [] \<and> cancelled (conn s') = cancelled (conn s)"
  shows "loop_inv s'"
  using assms(1) unfolding loop_inv_def assms(2-7) using assms(8) by auto

lemma close_stmt_loop_inv:
  assumes "close_stmt active k pc s = (pc', s')" and "loop_inv s" and "closers s \<noteq> []"
  shows "loop_inv s'"
proof (cases pc)
  case CShut
  then show ?thesis using assms(1) loop_inv_cut [OF assms(2,3), of k] by auto
qed (use assms in \<open>auto elim!: loop_inv_cong\<close>)

lemma close_stmt_recv_at [simp]:
  "close_stmt active k pc s = (pc', s') \<Longrightarrow> recv_at s' = recv_at s \<and> closers s' = closers s"
  by (cases pc) auto

lemma env_step_recv_at: "env_step idle s s' \<Longrightarrow> recv_at s' = recv_at s"
  by (erule env_step.cases) auto

lemma loop_inv_env:
  assumes "env_step idle s s'" and "loop_inv s"
  shows "loop_inv s'"
  using assms(1)
proof (cases rule: env_step.cases)
  case (env_close i k pc' s1)
  then have "closers s \<noteq> []" by auto
  with close_stmt_loop_inv [OF env_close(4) assms(2)] env_close(1) show ?thesis
    using close_stmt_recv_at [OF env_close(4)] by (auto elim!: loop_inv_cong)
qed (use assms(2) loop_inv_arrive [OF assms(2)] in \<open>auto elim!: loop_inv_cong dest: bufio_Write_same\<close>)

lemma stream_inv_env [inv_rules]:
  "env_step idle s s' \<Longrightarrow> stream_inv s \<Longrightarrow> stream_inv s'"
  using loop_inv_env left_inv_env env_step_recv_at by (simp add: stream_inv_def split: if_splits)

subsection \<open>Closing and the writer\<close>

text \<open>A \<open>Close\<close> that has passed a statement has had its effect.\<close>

definition close_inv :: "close_pc \<Rightarrow> tcpConn \<Rightarrow> bool" where
  "close_inv pc c \<longleftrightarrow> (pc = CShut \<longrightarrow> cancelled c) \<and> (pc = CDone \<longrightarrow> cancelled c \<and> conn_closed c)"

fun own_close :: "recv_pc \<Rightarrow> close_pc" where
  "own_close (RClose pc p) = pc"
| "own_close _ = CFlush"

definition closing_inv :: "conn_sys \<Rightarrow> bool" where
  "closing_inv s \<longleftrightarrow> (conn_closed (conn s) \<longrightarrow> cancelled (conn s))
     \<and> (\<forall>pc\<in>set (own_close (recv_at s) # closers s). close_inv pc (conn s))"

text \<open>The bytes of the packets given to the writer.\<close>

definition sent_bytes :: "byte list list \<Rightarrow> byte list" where
  "sent_bytes ps = concat (map (\<lambda>p. case Encode p of Ok f \<Rightarrow> f | _ \<Rightarrow> []) ps)"

definition out_inv :: "conn_sys \<Rightarrow> bool" where
  "out_inv s \<longleftrightarrow> (\<forall>p f. SWrite p f \<in> set (senders s) \<longrightarrow> Encode p = Ok f)
     \<and> (raced s \<or> out_ok (conn s) (sent_bytes (sent s)))"

lemma out_ok_cong:
  "writer_err c' = writer_err c \<Longrightarrow> peer_got c' = peer_got c \<Longrightarrow> writer_buf c' = writer_buf c \<Longrightarrow>
     bytes' = bytes \<Longrightarrow> out_ok c' bytes' = out_ok c bytes"
  by (simp add: out_ok_def)

lemma close_stmt_mono:
  assumes "close_stmt active k pc s = (pc', s')"
  shows "cancelled (conn s) \<longrightarrow> cancelled (conn s')" and "conn_closed (conn s) \<longrightarrow> conn_closed (conn s')"
proof -
  have "(cancelled (conn s) \<longrightarrow> cancelled (conn s')) \<and> (conn_closed (conn s) \<longrightarrow> conn_closed (conn s'))"
    using assms by (cases pc) auto
  then show "cancelled (conn s) \<longrightarrow> cancelled (conn s')" "conn_closed (conn s) \<longrightarrow> conn_closed (conn s')"
    by simp_all
qed

lemma close_stmt_close_inv:
  assumes "close_stmt active k pc s = (pc', s')" and "close_inv pc (conn s)"
    and "conn_closed (conn s) \<longrightarrow> cancelled (conn s)"
  shows "close_inv pc' (conn s') \<and> (conn_closed (conn s') \<longrightarrow> cancelled (conn s'))"
  using assms by (cases pc) (auto simp: close_inv_def)

lemma close_stmt_out_inv: "close_stmt active k pc s = (pc', s') \<Longrightarrow> out_inv s \<Longrightarrow> out_inv s'"
  by (cases pc) (auto simp: out_inv_def out_ok_Flush cong: out_ok_cong)

lemma close_inv_mono:
  "close_inv pc c \<Longrightarrow> cancelled c \<longrightarrow> cancelled c' \<Longrightarrow> conn_closed c \<longrightarrow> conn_closed c' \<Longrightarrow> close_inv pc c'"
  by (auto simp: close_inv_def)

lemma close_stmt_closing_inv:
  assumes "close_stmt active k pc s = (pc', s')" and "closing_inv s" and "close_inv pc (conn s)"
    and "set cs \<subseteq> insert pc' (set (own_close (recv_at s) # closers s))"
  shows "(conn_closed (conn s') \<longrightarrow> cancelled (conn s')) \<and> (\<forall>pc\<in>set cs. close_inv pc (conn s'))"
proof (intro conjI ballI)
  have "conn_closed (conn s) \<longrightarrow> cancelled (conn s)" using assms(2) by (simp add: closing_inv_def)
  note m = close_stmt_mono [OF assms(1)] close_stmt_close_inv [OF assms(1,3) this]
  then show "conn_closed (conn s') \<longrightarrow> cancelled (conn s')" by simp
  fix x assume "x \<in> set cs"
  with assms(4) consider "x = pc'" | "x \<in> set (own_close (recv_at s) # closers s)" by auto
  then show "close_inv x (conn s')"
    using m assms(2) close_inv_mono [of x "conn s" "conn s'"] by cases (auto simp: closing_inv_def)
qed

lemma closing_inv_start [inv_rules]: "fresh c \<Longrightarrow> closing_inv (start c)"
  by (simp add: closing_inv_def close_inv_def start_def fresh_def)

lemma closing_inv_recv [inv_rules]:
  assumes "recv_step idle s s'" and "closing_inv s"
  shows "closing_inv s'"
  using assms(1)
proof (cases rule: recv_step.cases)
  case (recv_close pc p k pc' s1)
  then have "close_inv pc (conn s)" using assms(2) by (simp add: closing_inv_def)
  from close_stmt_closing_inv [OF recv_close(4) assms(2) this, of "pc' # closers s"]
    close_stmt_recv_at [OF recv_close(4)] recv_close(1)
  show ?thesis by (auto simp: closing_inv_def)
qed (use assms(2) in \<open>auto simp: closing_inv_def close_inv_def\<close>)

lemma closing_inv_env [inv_rules]:
  assumes "env_step idle s s'" and "closing_inv s"
  shows "closing_inv s'"
  using assms(1)
proof (cases rule: env_step.cases)
  case (env_close i k pc' s1)
  then have "close_inv (closers s ! i) (conn s)" using assms(2) by (simp add: closing_inv_def)
  from close_stmt_closing_inv [OF env_close(4) assms(2) this,
      of "own_close (recv_at s) # (closers s)[i := pc']"] set_update_subset_insert [of "closers s" i pc']
    close_stmt_recv_at [OF env_close(4)] env_close(1)
  show ?thesis by (auto simp: closing_inv_def)
next
  case (env_send_write i data f err c')
  then show ?thesis using assms(2) bufio_Write_same [OF env_send_write(4)]
    by (simp add: closing_inv_def close_inv_def)
qed (use assms(2) in \<open>simp_all add: closing_inv_def close_inv_def\<close>)

lemma out_inv_start [inv_rules]: "fresh c \<Longrightarrow> out_inv (start c)"
  by (simp add: out_inv_def out_ok_def start_def fresh_def sent_bytes_def)

lemma out_inv_recv [inv_rules]:
  assumes "recv_step idle s s'" and "out_inv s"
  shows "out_inv s'"
  using assms(1)
proof (cases rule: recv_step.cases)
  case (recv_close pc p k pc' s1)
  then show ?thesis using close_stmt_out_inv [OF recv_close(4) assms(2)] by (simp add: out_inv_def)
qed (use assms(2) in \<open>auto simp: out_inv_def cong: out_ok_cong\<close>)

lemma out_inv_env [inv_rules]:
  assumes "env_step idle s s'" and "out_inv s"
  shows "out_inv s'"
  using assms(1)
proof (cases rule: env_step.cases)
  case (env_close i k pc' s1)
  then show ?thesis using close_stmt_out_inv [OF env_close(4) assms(2)] by (simp add: out_inv_def)
next
  case (env_send_write i data f err c')
  have "SWrite data f \<in> set (senders s)" using env_send_write(2,3) nth_mem by metis
  then have "Encode data = Ok f" using assms(2) by (simp add: out_inv_def)
  with env_send_write assms(2) out_ok_Write [of "conn s" "sent_bytes (sent s)" f] show ?thesis
    by (auto simp: out_inv_def sent_bytes_def dest!: set_update_subset_insert [THEN subsetD] split: if_splits)
next
  case (env_send_flush i)
  with assms(2) show ?thesis
    by (auto simp: out_inv_def out_ok_Flush dest!: set_update_subset_insert [THEN subsetD])
qed (use assms(2) in \<open>auto simp: out_inv_def cong: out_ok_cong\<close>)

subsection \<open>Reachable states\<close>

text \<open>
  The contract of an invariant of the connection: it holds at the start and both the goroutine
  and the rest keep it.
\<close>

locale conn_invariant =
  fixes idle :: u32 and I :: "tcpConn \<Rightarrow> conn_sys \<Rightarrow> bool"
  assumes at_start: "fresh c \<Longrightarrow> I c (start c)"
    and by_recv: "I c s \<Longrightarrow> recv_step idle s s' \<Longrightarrow> I c s'"
    and by_env: "I c s \<Longrightarrow> env_step idle s s' \<Longrightarrow> I c s'"
begin

lemma always:
  assumes "reachable idle c s" and "fresh c"
  shows "I c s"
  using assms by (induction rule: reachable.induct) (auto intro: at_start by_recv by_env)

end

interpretation conn_events: conn_invariant idle "\<lambda>c. events_inv (connID c)" for idle
  by unfold_locales (auto intro: inv_rules)

interpretation conn_stream: conn_invariant idle "\<lambda>c. stream_inv" for idle
  by unfold_locales (auto intro: inv_rules)

interpretation conn_closing: conn_invariant idle "\<lambda>c. closing_inv" for idle
  by unfold_locales (auto intro: inv_rules)

interpretation conn_out: conn_invariant idle "\<lambda>c. out_inv" for idle
  by unfold_locales (auto intro: inv_rules)

section \<open>Progress after closing\<close>

text \<open>
  Runs with the number of steps that the receiving goroutine takes in them, and how many it can
  still take once the connection is cancelled.
\<close>

inductive runs :: "u32 \<Rightarrow> nat \<Rightarrow> conn_sys \<Rightarrow> conn_sys \<Rightarrow> bool" for idle where
  runs_none: "runs idle 0 s s"
| runs_recv: "runs idle n s s' \<Longrightarrow> \<not> crashed s' \<Longrightarrow> recv_step idle s' s'' \<Longrightarrow> runs idle (Suc n) s s''"
| runs_env: "runs idle n s s' \<Longrightarrow> \<not> crashed s' \<Longrightarrow> env_step idle s' s'' \<Longrightarrow> runs idle n s s''"

fun close_rank :: "close_pc \<Rightarrow> nat" where
  "close_rank CFlush = 4"
| "close_rank CNotify = 3"
| "close_rank CCancel = 2"
| "close_rank CShut = 1"
| "close_rank CDone = 0"

fun rank :: "recv_pc \<Rightarrow> nat" where
  "rank ROpen = 6"
| "rank RSelect = 5"
| "rank RDecode = 7"
| "rank (RData p) = 6"
| "rank (RClose pc p) = close_rank pc"

text \<open>The packets that may still be delivered.\<close>

fun in_flight :: "recv_pc \<Rightarrow> nat" where
  "in_flight RDecode = 1"
| "in_flight (RData p) = 1"
| "in_flight _ = 0"

lemma rank_bounds: "rank pc \<le> 7" "in_flight pc \<le> 1"
proof -
  have "close_rank q \<le> 4" for q by (cases q) auto
  from le_trans [OF this, of 7] show "rank pc \<le> 7" by (cases pc) auto
  show "in_flight pc \<le> 1" by (cases pc) auto
qed

lemma close_stmt_effect:
  assumes "close_stmt active k pc s = (pc', s')" and "pc \<noteq> CDone"
  shows "close_rank pc' < close_rank pc" and "delivered s' = delivered s"
  using assms by (cases pc; auto)+

lemma recv_step_cancelled:
  assumes "recv_step idle s s'" and "cancelled (conn s)"
  shows "cancelled (conn s')" and "rank (recv_at s') < rank (recv_at s)"
    and "length (delivered s') + in_flight (recv_at s') \<le> length (delivered s) + in_flight (recv_at s)"
proof -
  have "cancelled (conn s') \<and> rank (recv_at s') < rank (recv_at s)
    \<and> length (delivered s') + in_flight (recv_at s') \<le> length (delivered s) + in_flight (recv_at s)"
    using assms(1)
  proof (cases rule: recv_step.cases)
    case (recv_close pc p k pc' s1)
    with close_stmt_effect [OF recv_close(4,3)] close_stmt_mono(1) [OF recv_close(4)] assms(2)
    show ?thesis by simp
  qed (use assms(2) in auto)
  then show "cancelled (conn s')" and "rank (recv_at s') < rank (recv_at s)"
    and "length (delivered s') + in_flight (recv_at s') \<le> length (delivered s) + in_flight (recv_at s)"
    by simp_all
qed

lemma env_step_keeps:
  assumes "env_step idle s s'"
  shows "cancelled (conn s) \<longrightarrow> cancelled (conn s')" and "conn_closed (conn s) \<longrightarrow> conn_closed (conn s')"
    and "delivered s' = delivered s"
proof -
  have "(cancelled (conn s) \<longrightarrow> cancelled (conn s')) \<and> (conn_closed (conn s) \<longrightarrow> conn_closed (conn s'))
    \<and> delivered s' = delivered s"
    using assms
  proof (cases rule: env_step.cases)
    case (env_close i k pc' s1)
    with close_stmt_effect(2) [OF env_close(4,3)] close_stmt_mono [OF env_close(4)]
    show ?thesis by simp
  qed (auto dest: bufio_Write_same)
  then show "cancelled (conn s) \<longrightarrow> cancelled (conn s')"
    and "conn_closed (conn s) \<longrightarrow> conn_closed (conn s')" and "delivered s' = delivered s"
    by simp_all
qed

lemma recv_step_closed: "recv_step idle s s' \<Longrightarrow> conn_closed (conn s) \<Longrightarrow> conn_closed (conn s')"
  by (erule recv_step.cases) (auto dest: close_stmt_mono(2))

lemma runs_cancelled:
  assumes "runs idle n s s'" and "cancelled (conn s)"
  shows "cancelled (conn s') \<and> n + rank (recv_at s') \<le> rank (recv_at s)
    \<and> length (delivered s') + in_flight (recv_at s') \<le> length (delivered s) + in_flight (recv_at s)"
  using assms
proof (induction rule: runs.induct)
  case (runs_recv n s s' s'')
  with recv_step_cancelled [OF runs_recv.hyps(3)] show ?case by fastforce
next
  case (runs_env n s s' s'')
  with env_step_keeps [OF runs_env.hyps(3)] env_step_recv_at [OF runs_env.hyps(3)] show ?case by simp
qed simp

lemma runs_reachable: "runs idle n s s' \<Longrightarrow> reachable idle c s \<Longrightarrow> reachable idle c s'"
  by (induction rule: runs.induct) (auto intro: reachable.intros)

lemma runs_closed: "runs idle n s s' \<Longrightarrow> conn_closed (conn s) \<Longrightarrow> conn_closed (conn s')"
  by (induction rule: runs.induct) (auto dest: recv_step_closed env_step_keeps(2))

text \<open>On a closed connection the goroutine never blocks.\<close>

lemma closed_enabled:
  assumes "stream_inv s" and "conn_closed (conn s)"
  shows "(\<exists>p. recv_at s = RClose CDone p) \<or> (\<exists>s'. recv_step idle s s')"
proof (cases "recv_at s")
  case RDecode
  with assms have "first_err (reader (conn s)) \<noteq> None" by (simp add: stream_inv_def loop_inv_def)
  with Decode_blocked obtain r segs where "Decode (reader (conn s)) = Some (r, segs)" by fastforce
  with RDecode show ?thesis by (cases r) (auto intro: recv_step.intros)
next
  case (RClose pc p)
  obtain pc' s' where "close_stmt False 0 pc s = (pc', s')" by fastforce
  with RClose recv_close [of s pc p 0 pc' s' idle] show ?thesis by (cases "pc = CDone") auto
qed (blast intro: recv_step.intros)+

lemmas conn_always = conn_events.always [OF _ NewTcpConn_fresh] conn_stream.always [OF _ NewTcpConn_fresh]
  conn_closing.always [OF _ NewTcpConn_fresh] conn_out.always [OF _ NewTcpConn_fresh]

section \<open>The sequential Send and receive loop are runs\<close>

text \<open>The function \<open>Send\<close> of the sequential model is a run of its statements.\<close>

lemma Send_reachable:
  assumes "reachable idle c s" and "recv_at s \<noteq> ROpen" and "\<not> crashed s" and "Encode data = Ok f"
  shows "reachable idle c (s\<lparr>conn := snd (Send Encode idle now data (conn s)), sent := sent s @ [data],
    senders := senders s @ [SDone]\<rparr>)"
proof -
  have ok: "\<not> crashed t" if "recv_at t = recv_at s" for t using assms(3) that by (simp add: crashed_def)
  let ?c = "setWriteTimeout idle now (conn s)"
  obtain err c1 where w: "bufio_Write f ?c = (err, c1)" by fastforce
  let ?s1 = "s\<lparr>conn := ?c, senders := senders s @ [SWrite data f]\<rparr>"
  let ?s2 = "s\<lparr>conn := c1, sent := sent s @ [data], senders := senders s @ [if err then SDone else SFlush]\<rparr>"
  have "reachable idle c ?s1" by (rule reach_env [OF assms(1,3) env_send_call [OF assms(2,4)]])
  from reach_env [OF this ok env_send_write [of "length (senders s)" _ data f err c1]]
  have s2: "reachable idle c ?s2" by (simp add: w)
  have "s\<lparr>sent := sent s @ [data], conn := bufio_Flush c1, senders := senders s @ [SDone]\<rparr>
      = s\<lparr>conn := bufio_Flush c1, sent := sent s @ [data], senders := senders s @ [SDone]\<rparr>" by simp
  with reach_env [OF s2 ok env_send_flush [of "length (senders s)"]] s2 w assms(4) show ?thesis
    by (cases err) (simp_all add: Send_def)
qed

text \<open>
  The function \<open>Recv\<close> of the sequential model, with the handler that records its calls and no
  active \<open>Close\<close>, describes runs of the interleaved model.
\<close>

lemma Recv_loop_reachable:
  assumes "Recv_loop Decode log_handler idle ts (conn s) (events s) = Some (Ok (c', es'))"
    and "reachable idle c s" and "recv_at s = RSelect" and "\<not> ctx_done s"
    and "list_all (\<lambda>t. \<not> cancledElsewhere t) ts"
  shows "\<exists>s'. reachable idle c s' \<and> recv_at s' = RClose CFlush False \<and> conn s' = c' \<and> events s' = es'
    \<and> closers s' = closers s \<and> arrived s' = arrived s \<and> (ctx_done s' \<longrightarrow> (\<exists>t\<in>set ts. ctxDone t))"
  using assms
proof (induction ts arbitrary: s)
  case (Cons t ts)
  have run: "\<not> crashed s" using Cons.prems(3) by (simp add: crashed_def)
  consider (ctx) "ctxDone t" | (stop) "\<not> ctxDone t" "cancelled (conn s)"
    | (go) "\<not> ctxDone t" "\<not> cancelled (conn s)" by blast
  then show ?case
  proof cases
    case ctx
    let ?s = "s\<lparr>ctx_done := True\<rparr>"
    have r: "reachable idle c ?s" by (rule reach_env [OF Cons.prems(2) run env_uninit])
    have "reachable idle c (?s\<lparr>recv_at := RClose CFlush False\<rparr>)"
      by (rule reach_recv [OF r _ recv_stop]) (use Cons.prems(3) in \<open>simp_all add: crashed_def\<close>)
    with ctx Cons.prems(1) show ?thesis
      by (intro exI [of _ "?s\<lparr>recv_at := RClose CFlush False\<rparr>"]) simp
  next
    case stop
    have "reachable idle c (s\<lparr>recv_at := RClose CFlush False\<rparr>)"
      by (rule reach_recv [OF Cons.prems(2) run recv_stop]) (use stop Cons.prems(3) in simp_all)
    with stop Cons.prems(1,4) show ?thesis
      by (intro exI [of _ "s\<lparr>recv_at := RClose CFlush False\<rparr>"]) simp
  next
    case go
    define s1 where "s1 = s\<lparr>recv_at := RDecode, conn := setReadTimeout idle (clock t) (conn s)\<rparr>"
    have r1: "reachable idle c s1"
      unfolding s1_def by (rule reach_recv [OF Cons.prems(2) run recv_default])
        (use Cons.prems(3,4) go in simp_all)
    have run1: "\<not> crashed s1" "recv_at s1 = RDecode" by (simp_all add: s1_def crashed_def)
    have rd: "reader (conn s1) = reader (conn s)" by (simp add: s1_def)
    from Cons.prems(1,5) go obtain r segs where dec: "Decode (reader (conn s)) = Some (r, segs)"
      by (cases "Decode (reader (conn s))") auto
    show ?thesis
    proof (cases r)
      case (Ok pkg)
      define s2 where "s2 = s1\<lparr>recv_at := RData pkg, conn := (conn s1)\<lparr>reader := segs\<rparr>\<rparr>"
      define s3 where "s3 = s2\<lparr>recv_at := RSelect, events := events s2 @ [Data (connID (conn s2)) pkg]\<rparr>"
      have r2: "reachable idle c s2"
        unfolding s2_def by (rule reach_recv [OF r1 run1(1) recv_packet]) (use run1 dec Ok rd in simp_all)
      have "reachable idle c s3"
        unfolding s3_def by (rule reach_recv [OF r2 _ recv_data]) (simp_all add: s2_def crashed_def)
      moreover have "Recv_loop Decode log_handler idle ts (conn s3) (events s3) = Some (Ok (c', es'))"
        using Cons.prems(1,5) go dec Ok by (simp add: s3_def s2_def s1_def log_handler_def)
      ultimately obtain s' where "reachable idle c s'" "recv_at s' = RClose CFlush False" "conn s' = c'"
        "events s' = es'" "closers s' = closers s3" "arrived s' = arrived s3"
        "ctx_done s' \<longrightarrow> (\<exists>t\<in>set ts. ctxDone t)"
        using Cons.IH [of s3] Cons.prems(4,5) by (auto simp: s3_def s2_def s1_def)
      then show ?thesis by (intro exI [of _ s']) (auto simp: s3_def s2_def s1_def)
    next
      case (Fail e)
      let ?s = "s1\<lparr>recv_at := RClose CFlush False, conn := (conn s1)\<lparr>reader := segs\<rparr>\<rparr>"
      have "reachable idle c ?s"
        by (rule reach_recv [OF r1 run1(1) recv_failed]) (use run1 dec Fail rd in simp_all)
      with Cons.prems(1,4,5) go dec Fail show ?thesis by (intro exI [of _ ?s]) (simp add: s1_def)
    qed (use Cons.prems(1,5) go dec in auto)
  qed
qed simp

lemma Close_reachable:
  assumes "Close log_handler False (conn s) (events s) = Ok (c', es')" and "reachable idle c s"
    and "recv_at s = RClose CFlush False"
  shows "\<exists>s'. reachable idle c s' \<and> recv_at s' = RClose CDone False \<and> (conn s')\<lparr>reader := reader c'\<rparr> = c'
    \<and> events s' = es' \<and> closers s' = closers s \<and> arrived s' = arrived s \<and> ctx_done s' = ctx_done s"
proof -
  have step: "reachable idle c (s'\<lparr>recv_at := RClose pc' False\<rparr>)"
    if "reachable idle c t" "recv_at t = RClose pc False" "pc \<noteq> CDone" "close_stmt False 0 pc t = (pc', s')"
    for t pc pc' s'
    using reach_recv [OF that(1) _ recv_close [OF that(2-4)]] that(2) by (simp add: crashed_def)
  let ?c = "bufio_Flush (conn s)"
  let ?es = "events s @ [Closed (connID ?c) False]"
  have "reachable idle c (s\<lparr>conn := ?c, recv_at := RClose CNotify False\<rparr>)"
    using step [OF assms(2,3)] by simp
  from step [OF this] have "reachable idle c (s\<lparr>conn := ?c, events := ?es, recv_at := RClose CCancel False\<rparr>)"
    by simp
  from step [OF this] have
    "reachable idle c (s\<lparr>events := ?es, conn := ?c\<lparr>cancelled := True\<rparr>, recv_at := RClose CShut False\<rparr>)"
    by simp
  note shut = step [OF this]
  let ?s = "s\<lparr>events := ?es,
    conn := ?c\<lparr>cancelled := True, conn_closed := True, reader := [RErr NetOther]\<rparr>,
    stream_ended := True, recv_at := RClose CDone False\<rparr>"
  from shut have "reachable idle c ?s" by simp
  with assms(1) show ?thesis
    by (intro exI [of _ ?s]) (auto simp: Close_def log_handler_def)
qed

lemma Recv_reachable:
  assumes "Recv Decode log_handler idle ts c [] = Some (Ok (c', es))"
    and "list_all (\<lambda>t. \<not> cancledElsewhere t) ts"
  shows "\<exists>s. reachable idle c s \<and> recv_at s = RClose CDone False \<and> (conn s)\<lparr>reader := reader c'\<rparr> = c'
    \<and> events s = es \<and> closers s = [] \<and> arrived s = avail (reader c)
    \<and> (ctx_done s \<longrightarrow> (\<exists>t\<in>set ts. ctxDone t))"
proof -
  let ?s = "(start c)\<lparr>recv_at := RSelect, events := [Opened (connID c)]\<rparr>"
  have "reachable idle c ?s"
    using reach_recv [OF reach_start _ recv_opened, of c idle] by (simp add: start_def crashed_def)
  moreover from assms(1) obtain c1 es1 where
    loop: "Recv_loop Decode log_handler idle ts c [Opened (connID c)] = Some (Ok (c1, es1))"
    and cl: "Close log_handler False c1 es1 = Ok (c', es)"
    by (auto simp: Recv_def log_handler_def split: option.splits res.splits)
  ultimately obtain s1 where s1: "reachable idle c s1" "recv_at s1 = RClose CFlush False" "conn s1 = c1"
    "events s1 = es1" "closers s1 = []" "arrived s1 = avail (reader c)"
    "ctx_done s1 \<longrightarrow> (\<exists>t\<in>set ts. ctxDone t)"
    using Recv_loop_reachable [of idle ts ?s c1 es1 c] assms(2) by (auto simp: start_def)
  from Close_reachable [of s1 c' es idle c] s1 cl show ?thesis by metis
qed

lemma finished_events:
  assumes "NewTcpConn now segs room gen = (c, gen')" and "reachable idle c s"
    and "recv_at s = RClose CDone False" and "\<not> ctx_done s" and "closers s = []"
  shows "events s = Opened (connID c) # map (Data (connID c)) (packets_of (arrived s))
    @ [Closed (connID c) False]"
proof -
  note inv = conn_always [OF assms(2,1)]
  have "filter (\<lambda>e. \<not> is_active e) (events s) = events s"
    using inv(1) assms(5) by (auto simp: events_inv_def filter_empty_conv filter_id_conv)
  with inv(1,2) assms(3-5) show ?thesis
    by (simp add: events_inv_def own_events_def stream_inv_def left_inv_def notified_def)
qed

text \<open>An active \<open>Close\<close> that runs to its end while the goroutine makes no step.\<close>

definition closed_by_other :: "conn_sys \<Rightarrow> conn_sys" where
  "closed_by_other s = s\<lparr>events := events s @ [Closed (connID (conn s)) True],
     conn := (bufio_Flush (conn s))\<lparr>cancelled := True, conn_closed := True, reader := [RErr NetOther]\<rparr>,
     stream_ended := True, closers := [CDone]\<rparr>"

lemma closed_by_other_reachable:
  assumes "reachable idle c s" and "recv_at s \<noteq> ROpen" and "\<not> crashed s" and "closers s = []"
  shows "reachable idle c (closed_by_other s)"
proof -
  have step: "reachable idle c (s'\<lparr>closers := [pc']\<rparr>)"
    if "reachable idle c t" "recv_at t = recv_at s" "closers t = [pc]" "pc \<noteq> CDone"
      "close_stmt True 0 pc t = (pc', s')" for t pc pc' s'
    using reach_env [OF that(1) _ env_close [of 0 t 0 pc' s' idle]] that(2-5) assms(3)
    by (simp add: crashed_def)
  let ?c = "bufio_Flush (conn s)"
  let ?es = "events s @ [Closed (connID (conn s)) True]"
  have "reachable idle c (s\<lparr>closers := [CFlush]\<rparr>)"
    using reach_env [OF assms(1,3) env_close_call [OF assms(2)]] assms(4) by simp
  from step [OF this] have "reachable idle c (s\<lparr>conn := ?c, closers := [CNotify]\<rparr>)" by simp
  from step [OF this] have "reachable idle c (s\<lparr>conn := ?c, events := ?es, closers := [CCancel]\<rparr>)"
    by simp
  from step [OF this] have
    "reachable idle c (s\<lparr>events := ?es, conn := ?c\<lparr>cancelled := True\<rparr>, closers := [CShut]\<rparr>)" by simp
  from step [OF this] show ?thesis by (simp add: closed_by_other_def)
qed

section \<open>Example runs\<close>

definition example_packet :: "byte list" where
  "example_packet = [1, 0, 0, 0, 7, 8, 9]"

definition example_frame :: "byte list" where
  "example_frame = [1, 0, 0, 0, 2, 0, 0, 0, 7, 8, 9]"

lemma example_Encode: "Encode example_packet = Ok example_frame" and example_ok: "packet_ok example_packet"
  using Encode_frame [of example_packet 1] packet_packet_ok [of "[7]" "[8, 9]"]
  by (simp_all add: example_packet_def example_frame_def LE_Uint32_def frame_def packet_def LE_bytes_def)

text \<open>A connection that gets one packet, cut into two segments, and then an error.\<close>

definition example_conn :: tcpConn where
  "example_conn = fst (NewTcpConn 5 [Seg [1, 0, 0, 0, 2, 0], Seg [0, 0, 7, 8, 9], RErr NetOther] None None)"

lemma example_conn_new:
  "NewTcpConn 5 [Seg [1, 0, 0, 0, 2, 0], Seg [0, 0, 7, 8, 9], RErr NetOther] None None = (example_conn, None)"
  by (simp add: example_conn_def NewTcpConn_def GenerateUID_def)

lemma example_Recv:
  "\<exists>c'. Recv Decode log_handler 30 (replicate 2 \<lparr>ctxDone = False, cancledElsewhere = False, clock = 9\<rparr>)
     example_conn [] = Some (Ok (c', [Opened 0, Data 0 example_packet, Closed 0 False]))"
  using default_codec.Recv_delivers [OF log_handler_obeys, where ps = "[example_packet]"
      and fs = "[example_frame]" and c = example_conn and e = NetOther and idle = 30 and s = "[]"
      and ts = "replicate 2 \<lparr>ctxDone = False, cancledElsewhere = False, clock = 9\<rparr>"]
    example_Encode example_ok
  by (simp add: example_conn_def NewTcpConn_def GenerateUID_def example_frame_def quiet_def numeral_2_eq_2)

lemma example_received:
  "\<exists>s. reachable 30 example_conn s \<and> recv_at s = RClose CDone False \<and> \<not> ctx_done s \<and> closers s = []
     \<and> events s = [Opened 0, Data 0 example_packet, Closed 0 False] \<and> arrived s = example_frame"
proof -
  obtain c' where "Recv Decode log_handler 30
      (replicate 2 \<lparr>ctxDone = False, cancledElsewhere = False, clock = 9\<rparr>) example_conn []
    = Some (Ok (c', [Opened 0, Data 0 example_packet, Closed 0 False]))"
    using example_Recv by blast
  from Recv_reachable [OF this] obtain s where "reachable 30 example_conn s" "recv_at s = RClose CDone False"
    "events s = [Opened 0, Data 0 example_packet, Closed 0 False]" "closers s = []" "\<not> ctx_done s"
    "arrived s = avail (reader example_conn)"
    by (auto simp: numeral_2_eq_2)
  then show ?thesis
    by (intro exI [of _ s]) (simp add: example_conn_def NewTcpConn_def GenerateUID_def example_frame_def)
qed

definition silent_conn :: tcpConn where
  "silent_conn = fst (NewTcpConn 5 [] None None)"

lemma silent_conn_new: "NewTcpConn 5 [] None None = (silent_conn, None)"
  by (simp add: silent_conn_def NewTcpConn_def GenerateUID_def)

lemma silent_opened:
  "reachable idle silent_conn ((start silent_conn)\<lparr>recv_at := RSelect, events := [Opened 0]\<rparr>)"
  using reach_recv [OF reach_start _ recv_opened, of silent_conn idle]
  by (simp add: start_def crashed_def silent_conn_def NewTcpConn_def GenerateUID_def)

lemma example_sent:
  "\<exists>s. reachable 30 silent_conn s \<and> \<not> raced s \<and> sent s = [example_packet] \<and> peer_got (conn s) = example_frame"
proof -
  let ?s = "(start silent_conn)\<lparr>recv_at := RSelect, events := [Opened 0]\<rparr>"
  have "writable silent_conn"
    by (simp add: silent_conn_def NewTcpConn_def GenerateUID_def writable_def)
  then obtain c' where "Send Encode 30 6 example_packet silent_conn = (Ok (), c')"
    "peer_got c' = peer_got silent_conn @ example_frame"
    using Send_writable [of silent_conn Encode example_packet example_frame 30 6] example_Encode by blast
  moreover let ?t = "?s\<lparr>conn := snd (Send Encode 30 6 example_packet (conn ?s)),
    sent := sent ?s @ [example_packet], senders := senders ?s @ [SDone]\<rparr>"
  have "reachable 30 silent_conn ?t"
    by (rule Send_reachable [OF silent_opened _ _ example_Encode]) (simp_all add: crashed_def)
  ultimately show ?thesis
    by (intro exI [of _ ?t]) (simp add: start_def silent_conn_def NewTcpConn_def GenerateUID_def)
qed

section \<open>Properties\<close>

text \<open>
  C4.  Whatever the interleaving, the goroutine of a connection calls the handler in this order:
  the opening, then packets of the stream that arrived, from its first packet on and none left
  out, then the closing once; when the goroutine has ended the closing event has been
  reported and the socket is closed.  Every active \<open>Close\<close> adds one closing event of its own.
\<close>

theorem conn_events_in_order:
  assumes "NewTcpConn now segs room gen = (c, gen')" and "reachable idle c s"
  shows "\<exists>ps. prefix ps (packets_of (arrived s))
    \<and> prefix (own_events s) (Opened (connID c) # map (Data (connID c)) ps @ [Closed (connID c) False])
    \<and> (recv_at s = RClose CDone p \<longrightarrow> conn_closed (conn s)
         \<and> own_events s = Opened (connID c) # map (Data (connID c)) ps @ [Closed (connID c) False])
    \<and> length (filter is_active (events s)) = length (filter notified (closers s))"
proof -
  note inv = conn_always [OF assms(2,1)]
  have "prefix (delivered s) (packets_of (arrived s))"
    using inv(2) loop_inv_prefix by (auto simp: stream_inv_def left_inv_def split: if_splits)
  with inv(1,3) show ?thesis
    by (cases "recv_at s") (auto simp: events_inv_def closing_inv_def close_inv_def notified_def
        intro!: exI [of _ "delivered s"])
qed

theorem conn_events_in_order_witness:
  "\<exists>s ps. reachable 30 example_conn s \<and> prefix ps (packets_of (arrived s)) \<and> conn_closed (conn s)
     \<and> own_events s = Opened 0 # map (Data 0) ps @ [Closed 0 False]"
proof -
  obtain s where s: "reachable 30 example_conn s" "recv_at s = RClose CDone False"
    using example_received by blast
  with conn_events_in_order [OF example_conn_new s(1), of False] show ?thesis
    by (auto simp: example_conn_def NewTcpConn_def GenerateUID_def)
qed

text \<open>
  C5.  When the receiving goroutine of a connection has ended without a panic, the transport
  is running and nobody closed the connection actively, the handler got the opening, every
  packet of the stream that arrived, and the closing, and nothing else.
\<close>

theorem conn_delivers_all:
  assumes "NewTcpConn now segs room gen = (c, gen')" and "reachable idle c s"
    and "recv_at s = RClose CDone False" and "\<not> ctx_done s" and "closers s = []"
  shows "events s = Opened (connID c) # map (Data (connID c)) (packets_of (arrived s))
    @ [Closed (connID c) False]"
  by (rule finished_events [OF assms])

theorem conn_delivers_all_witness:
  "\<exists>s. reachable 30 example_conn s \<and> arrived s = example_frame
     \<and> events s = Opened 0 # map (Data 0) (packets_of example_frame) @ [Closed 0 False]"
proof -
  obtain s where "reachable 30 example_conn s" "recv_at s = RClose CDone False" "\<not> ctx_done s"
    "closers s = []" "arrived s = example_frame" using example_received by blast
  with conn_delivers_all [OF example_conn_new] show ?thesis
    by (auto simp: example_conn_def NewTcpConn_def GenerateUID_def)
qed

text \<open>
  C3.  Safety of the whole way as long as no two goroutines are in a call on the sender's
  buffered writer at the same time (the code has no lock that would prevent it, and two
  overlapping calls of \<open>Send\<close> can lose a frame): however the calls of \<open>Send\<close> and \<open>Close\<close>, the
  receiving goroutine and the network interleave otherwise, partial writes and closings at any
  time included, what the handler of a connection has received are the first packets that the
  other side has sent, in the order of their writes, without gaps, duplicates or damage.
\<close>

theorem tcp_safe_delivery:
  assumes "NewTcpConn now segs room gen = (a, gen')" and "reachable idle a s"
    and "NewTcpConn now2 segs2 room2 gen2 = (b, gen3)" and "reachable idle2 b t"
    and "\<not> raced s" and "prefix (arrived t) (peer_got (conn s))" and "list_all packet_ok (sent s)"
  shows "prefix (data_of (events t)) (sent s)"
proof -
  have "prefix (delivered t) (packets_of (arrived t))"
    using conn_always(2) [OF assms(4,3)] loop_inv_prefix
    by (auto simp: stream_inv_def left_inv_def split: if_splits)
  also have "prefix (packets_of (arrived t)) (packets_of (sent_bytes (sent s)))"
    using conn_always(4) [OF assms(2,1)] assms(5,6)
    by (meson out_inv_def out_ok_prefix packets_of_prefix prefix_order.trans)
  also have "packets_of (sent_bytes (sent s)) = sent s"
  proof -
    let ?fs = "map (\<lambda>p. case Encode p of Ok f \<Rightarrow> f | _ \<Rightarrow> []) (sent s)"
    have "map Encode (sent s) = map Ok ?fs"
      using assms(7) default_codec.encode_ok by (fastforce simp: list_all_iff)
    with assms(7) show ?thesis by (simp add: packets_of_concat sent_bytes_def)
  qed
  finally show ?thesis .
qed

theorem tcp_safe_delivery_witness:
  "\<exists>s t. reachable 30 silent_conn s \<and> reachable 30 example_conn t \<and> data_of (events t) = [example_packet]
     \<and> prefix (data_of (events t)) (sent s)"
proof -
  obtain s where s: "reachable 30 silent_conn s" "\<not> raced s" "sent s = [example_packet]"
    "peer_got (conn s) = example_frame" using example_sent by blast
  obtain t where t: "reachable 30 example_conn t" "arrived t = example_frame"
    "events t = [Opened 0, Data 0 example_packet, Closed 0 False]" using example_received by blast
  from tcp_safe_delivery [OF silent_conn_new s(1) example_conn_new t(1)] s t example_ok
  have "prefix (data_of (events t)) (sent s)" by simp
  moreover have "data_of (events t) = [example_packet]" using t(3) by simp
  ultimately show ?thesis using s(1) t(1) by blast
qed

text \<open>
  C6.  An active \<open>Close\<close> ends the receiving goroutine: once the socket is closed, the goroutine
  takes at most seven more steps in any run, delivers at most one more packet, and is never
  blocked before it has ended.
\<close>

theorem close_stops_receiver:
  assumes "NewTcpConn now segs room gen = (c, gen')" and "reachable idle c s"
    and "conn_closed (conn s)" and "runs idle n s s'"
  shows "n \<le> 7 \<and> length (data_of (events s')) \<le> length (data_of (events s)) + 1
    \<and> ((\<exists>p. recv_at s' = RClose CDone p) \<or> (\<exists>s''. recv_step idle s' s''))"
proof -
  have "cancelled (conn s)" using conn_always(3) [OF assms(2,1)] assms(3) by (simp add: closing_inv_def)
  from runs_cancelled [OF assms(4) this] rank_bounds(1) [of "recv_at s"] rank_bounds(2) [of "recv_at s"]
  have "n \<le> 7" "length (delivered s') \<le> length (delivered s) + 1" by linarith+
  moreover have "stream_inv s'"
    using conn_always(2) [OF runs_reachable [OF assms(4,2)] assms(1)] .
  ultimately show ?thesis using closed_enabled runs_closed [OF assms(4,3)] by blast
qed

theorem close_stops_receiver_witness:
  "\<exists>s s'. reachable 30 silent_conn s \<and> recv_at s = RSelect \<and> conn_closed (conn s) \<and> runs 30 1 s s'
     \<and> length (data_of (events s')) \<le> length (data_of (events s)) + 1
     \<and> ((\<exists>p. recv_at s' = RClose CDone p) \<or> (\<exists>s''. recv_step 30 s' s''))"
proof -
  define s where "s = closed_by_other ((start silent_conn)\<lparr>recv_at := RSelect, events := [Opened 0]\<rparr>)"
  have r: "reachable 30 silent_conn s"
    unfolding s_def by (rule closed_by_other_reachable [OF silent_opened])
      (simp_all add: crashed_def start_def)
  have f: "recv_at s = RSelect" "conn_closed (conn s)" "cancelled (conn s)" "\<not> crashed s"
    by (simp_all add: s_def closed_by_other_def crashed_def)
  then have run: "runs 30 1 s (s\<lparr>recv_at := RClose CFlush False\<rparr>)"
    using runs_recv [OF runs_none _ recv_stop, of s 30] by simp
  from close_stops_receiver [OF silent_conn_new r f(2) this] r f(1,2) run show ?thesis by blast
qed

text \<open>
  C7.  The sequential \<open>Recv\<close> is a run of the interleaved model, and so for any bytes that a
  connection gets, well formed or not: when \<open>Recv\<close> returns and the transport was not stopped,
  the handler got the opening, exactly the packets of those bytes, and the closing.
\<close>

theorem recv_refines_steps:
  assumes "NewTcpConn now segs room gen = (c, gen')"
    and "Recv Decode log_handler idle ts c [] = Some (Ok (c', es))" and "list_all quiet ts"
  shows "es = Opened (connID c) # map (Data (connID c)) (packets_of (avail segs)) @ [Closed (connID c) False]
    \<and> (\<exists>s. reachable idle c s \<and> recv_at s = RClose CDone False \<and> events s = es
         \<and> (conn s)\<lparr>reader := reader c'\<rparr> = c')"
proof -
  have q: "list_all (\<lambda>t. \<not> cancledElsewhere t) ts" "\<not> (\<exists>t\<in>set ts. ctxDone t)"
    using assms(3) by (auto simp: list_all_iff quiet_def)
  from Recv_reachable [OF assms(2) q(1)] q(2) obtain s where s: "reachable idle c s"
    "recv_at s = RClose CDone False" "(conn s)\<lparr>reader := reader c'\<rparr> = c'" "events s = es"
    "closers s = []" "arrived s = avail (reader c)" "\<not> ctx_done s" by blast
  have "reader c = segs" using assms(1) by (auto simp: NewTcpConn_def split: prod.splits)
  with finished_events [OF assms(1) s(1,2,7,5)] s show ?thesis by auto
qed

theorem recv_refines_steps_witness:
  "\<exists>c' s. Recv Decode log_handler 30 (replicate 2 \<lparr>ctxDone = False, cancledElsewhere = False, clock = 9\<rparr>)
       example_conn [] = Some (Ok (c', [Opened 0, Data 0 example_packet, Closed 0 False]))
     \<and> reachable 30 example_conn s \<and> events s = [Opened 0, Data 0 example_packet, Closed 0 False]"
proof -
  obtain c' where r: "Recv Decode log_handler 30
      (replicate 2 \<lparr>ctxDone = False, cancledElsewhere = False, clock = 9\<rparr>) example_conn []
    = Some (Ok (c', [Opened 0, Data 0 example_packet, Closed 0 False]))"
    using example_Recv by blast
  have "list_all quiet (replicate 2 \<lparr>ctxDone = False, cancledElsewhere = False, clock = 9\<rparr>)"
    by (simp add: quiet_def numeral_2_eq_2)
  from recv_refines_steps [OF example_conn_new r this] r show ?thesis by blast
qed

text \<open>
  \<open>Uninit\<close> of the transport does not end a connection whose peer is silent: the goroutine
  looks at the context only before it decodes, and stays blocked in the decoder.
\<close>

theorem uninit_leaves_reader_blocked:
  "\<exists>s. reachable idle silent_conn s \<and> ctx_done s \<and> recv_at s = RDecode \<and> \<not> (\<exists>s'. recv_step idle s s')"
proof -
  let ?s = "(start silent_conn)\<lparr>recv_at := RSelect, events := [Opened 0]\<rparr>"
  let ?t = "?s\<lparr>recv_at := RDecode, conn := setReadTimeout idle 6 (conn ?s)\<rparr>"
  have f: "\<not> cancelled silent_conn" "reader silent_conn = []"
    by (simp_all add: silent_conn_def NewTcpConn_def GenerateUID_def)
  have "reachable idle silent_conn ?t"
    by (rule reach_recv [OF silent_opened _ recv_default]) (simp_all add: crashed_def start_def f)
  then have "reachable idle silent_conn (?t\<lparr>ctx_done := True\<rparr>)"
    by (rule reach_env [OF _ _ env_uninit]) (simp add: crashed_def)
  moreover have "\<not> recv_step idle (?t\<lparr>ctx_done := True\<rparr>) s'" for s'
    using Decode_end [of "[]"] f by (auto simp: start_def elim: recv_stepE)
  ultimately show ?thesis by (intro exI [of _ "?t\<lparr>ctx_done := True\<rparr>"]) simp
qed

text \<open>
  A packet may be delivered after an active \<open>Close\<close> has reported the closing and returned:
  the goroutine tests for cancellation before it decodes, not before it delivers.
\<close>

theorem data_after_close_reported:
  assumes "reachable idle c s" and "recv_at s = RData pkg" and "connID (conn s) = i" and "closers s = []"
  shows "\<exists>s'. reachable idle c s' \<and> conn_closed (conn s') \<and> closers s' = [CDone]
    \<and> events s' = events s @ [Closed i True, Data i pkg]"
proof -
  have "reachable idle c (closed_by_other s)"
    using assms(1,2,4) by (intro closed_by_other_reachable) (simp_all add: crashed_def)
  from reach_recv [OF this _ recv_data [of _ pkg]] assms(2,3)
  have "reachable idle c ((closed_by_other s)\<lparr>recv_at := RSelect,
      events := events s @ [Closed i True, Data i pkg]\<rparr>)" (is "reachable idle c ?s")
    by (simp add: crashed_def closed_by_other_def)
  then show ?thesis by (intro exI [of _ ?s]) (simp add: closed_by_other_def)
qed

end
