(* ===== verification/Msg.thy ===== *)
theory Msg
  imports Tcp
begin

text \<open>
  The message layer of \<^verbatim>\<open>src/server_base/msg\<close> (\<^verbatim>\<open>msg.go\<close>, \<^verbatim>\<open>codec.go\<close>) and its adapter to the
  transport, \<^verbatim>\<open>src/server_base/app/tcp.go\<close>: the handler tables, the packet codec on top of the
  frame codec, dispatch of a client message, sending to a client.  The protobuf runtime is the
  record \<open>protobuf\<close> of the functions the code calls; registered handlers are functions on the
  connection and the application state \<open>'s\<close>.  Lines that only print a message are left out.
\<close>

section \<open>Handler tables\<close>

type_synonym 's ConnEventHandler = "tcpConn \<Rightarrow> 's \<Rightarrow> (unit, tcpConn \<times> 's) res"
type_synonym ('hd, 'msg, 's) ClientMsgHandler = "tcpConn \<Rightarrow> 'hd \<Rightarrow> 'msg \<Rightarrow> 's \<Rightarrow> (unit, tcpConn \<times> 's) res"
type_synonym 's ServerMsgHandler = "'s \<Rightarrow> (unit, 's) res"

record ('hd, 'msg, 's) MsgHandlerMgr =
  connEventHandler :: "int \<rightharpoonup> 's ConnEventHandler"
  clientMsgHandler :: "int \<rightharpoonup> ('hd, 'msg, 's) ClientMsgHandler"
  serverMsgHandler :: "int \<rightharpoonup> 's ServerMsgHandler"

definition CONN_EVENT_START :: int where "CONN_EVENT_START = 0"
definition CONN_EVENT_STOP :: int where "CONN_EVENT_STOP = 1"

definition msgHandlerMgr :: "('hd, 'msg, 's) MsgHandlerMgr" where
  "msgHandlerMgr = \<lparr>connEventHandler = Map.empty, clientMsgHandler = Map.empty,
     serverMsgHandler = Map.empty\<rparr>"

datatype reg_err = AlreadyFindEventType | AlreadyFindMsgid

definition RegisterConnMsgHandler ::
  "int \<Rightarrow> 's ConnEventHandler \<Rightarrow> ('hd, 'msg, 's) MsgHandlerMgr
    \<Rightarrow> reg_err option \<times> ('hd, 'msg, 's) MsgHandlerMgr" where
  "RegisterConnMsgHandler eventType handler m =
     (case connEventHandler m eventType of
        Some _ \<Rightarrow> (Some AlreadyFindEventType, m)
      | None \<Rightarrow> (None, m\<lparr>connEventHandler := (connEventHandler m)(eventType \<mapsto> handler)\<rparr>))"

definition RegisterClientMsgHandler ::
  "int \<Rightarrow> ('hd, 'msg, 's) ClientMsgHandler \<Rightarrow> ('hd, 'msg, 's) MsgHandlerMgr
    \<Rightarrow> reg_err option \<times> ('hd, 'msg, 's) MsgHandlerMgr" where
  "RegisterClientMsgHandler msgid handler m =
     (case clientMsgHandler m msgid of
        Some _ \<Rightarrow> (Some AlreadyFindMsgid, m)
      | None \<Rightarrow> (None, m\<lparr>clientMsgHandler := (clientMsgHandler m)(msgid \<mapsto> handler)\<rparr>))"

definition RegisterServerMsgHandler ::
  "int \<Rightarrow> 's ServerMsgHandler \<Rightarrow> ('hd, 'msg, 's) MsgHandlerMgr
    \<Rightarrow> reg_err option \<times> ('hd, 'msg, 's) MsgHandlerMgr" where
  "RegisterServerMsgHandler msgid handler m =
     (case serverMsgHandler m msgid of
        Some _ \<Rightarrow> (Some AlreadyFindMsgid, m)
      | None \<Rightarrow> (None, m\<lparr>serverMsgHandler := (serverMsgHandler m)(msgid \<mapsto> handler)\<rparr>))"

interpretation conn_handlers: first_wins_registry RegisterConnMsgHandler connEventHandler "\<lambda>_. True"
  by unfold_locales (auto simp: RegisterConnMsgHandler_def)

interpretation client_handlers: first_wins_registry RegisterClientMsgHandler clientMsgHandler "\<lambda>_. True"
  by unfold_locales (auto simp: RegisterClientMsgHandler_def)

interpretation server_handlers: first_wins_registry RegisterServerMsgHandler serverMsgHandler "\<lambda>_. True"
  by unfold_locales (auto simp: RegisterServerMsgHandler_def)

text \<open>Calling the entry of a missing key calls a nil function.\<close>

definition OnClientConnOpened ::
  "('hd, 'msg, 's) MsgHandlerMgr \<Rightarrow> tcpConn \<Rightarrow> 's \<Rightarrow> (unit, tcpConn \<times> 's) res" where
  "OnClientConnOpened m conn s =
     (case connEventHandler m CONN_EVENT_START of None \<Rightarrow> Panic | Some h \<Rightarrow> h conn s)"

definition OnClientConnClosed ::
  "('hd, 'msg, 's) MsgHandlerMgr \<Rightarrow> tcpConn \<Rightarrow> bool \<Rightarrow> 's \<Rightarrow> (unit, tcpConn \<times> 's) res" where
  "OnClientConnClosed m conn active s =
     (case connEventHandler m CONN_EVENT_STOP of None \<Rightarrow> Panic | Some h \<Rightarrow> h conn s)"

section \<open>The packet codec\<close>

text \<open>The functions of the protobuf runtime that the codec calls; \<open>None\<close> is their error.\<close>

record ('hd, 'sc, 'msg, 'ty) protobuf =
  Marshal_SCHead :: "'sc \<Rightarrow> byte list option"
  Marshal_body :: "'msg \<Rightarrow> byte list option"
  Unmarshal_CSHead :: "byte list \<Rightarrow> 'hd option"
  GetMsgid :: "'hd \<Rightarrow> int"
  FindMessageByName :: "string \<Rightarrow> 'ty option"
  Unmarshal_body :: "'ty \<Rightarrow> byte list \<Rightarrow> 'msg option"

definition CSMessageID_name :: "int \<rightharpoonup> string" where
  "CSMessageID_name = map_of
     [(0, ''cs_message_begin''), (1, ''cs_login''), (4095, ''cs_message_end'')]"

definition ToUpper_char :: "char \<Rightarrow> char" where
  "ToUpper_char c =
     (let n = of_char c :: nat in if 97 \<le> n \<and> n \<le> 122 then char_of (n - 32) else c)"

definition ToUpper :: "string \<Rightarrow> string" where
  "ToUpper = map ToUpper_char"

definition maxBuffSize :: nat where "maxBuffSize = 500 * 1024"

datatype cs_err = MarshalErr | BuffCopyFailed | SendErr send_err

definition DefaultCSCodec_Encode ::
  "('hd, 'sc, 'msg, 'ty) protobuf \<Rightarrow> 'sc \<Rightarrow> 'msg \<Rightarrow> (cs_err, byte list) res" where
  "DefaultCSCodec_Encode pb header body =
     (let buff = replicate maxBuffSize 0 in
      case Marshal_SCHead pb header of
        None \<Rightarrow> Fail MarshalErr
      | Some data \<Rightarrow>
          let headerSize = length data in
          res_bind (LE_PutUint32 buff 0 (word_of_nat headerSize)) (\<lambda>buff.
          res_bind (go_copy buff 4 data) (\<lambda>(n, buff).
            if n \<noteq> headerSize then Fail BuffCopyFailed
            else
              case Marshal_body pb body of
                None \<Rightarrow> Fail MarshalErr
              | Some data \<Rightarrow>
                  res_bind (go_copy buff (4 + headerSize) data) (\<lambda>(n, buff).
                    if n \<noteq> length data then Fail BuffCopyFailed
                    else go_slice buff 0 (4 + headerSize + n)))))"

text \<open>\<open>4 + headerSize\<close> is computed in 32 bits.\<close>

definition DefaultCSCodec_Decode ::
  "('hd, 'sc, 'msg, 'ty) protobuf \<Rightarrow> byte list \<Rightarrow> (cs_err, ('hd \<times> 'msg) option) res" where
  "DefaultCSCodec_Decode pb data =
     res_bind (go_slice data 0 4) (\<lambda>pre.
     res_bind (LE_Uint32 pre) (\<lambda>headerSize.
     res_bind (go_slice data 4 (unat (4 + headerSize))) (\<lambda>hbytes.
       case Unmarshal_CSHead pb hbytes of
         None \<Rightarrow> Ok None
       | Some header \<Rightarrow>
           (case CSMessageID_name (GetMsgid pb header) of
              None \<Rightarrow> Ok None
            | Some msgStr \<Rightarrow>
                (case FindMessageByName pb (''proto.'' @ ToUpper msgStr) of
                   None \<Rightarrow> Ok None
                 | Some msgType \<Rightarrow>
                     res_bind (go_slice data (unat (4 + headerSize)) (length data)) (\<lambda>mbytes.
                       case Unmarshal_body pb msgType mbytes of
                         None \<Rightarrow> Ok None
                       | Some msg \<Rightarrow> Ok (Some (header, msg))))))))"

record ('hd, 'sc, 'msg) CSCodec =
  cs_Encode :: "'sc \<Rightarrow> 'msg \<Rightarrow> (cs_err, byte list) res"
  cs_Decode :: "byte list \<Rightarrow> (cs_err, ('hd \<times> 'msg) option) res"

definition registerCodec ::
  "string \<Rightarrow> ('hd, 'sc, 'msg) CSCodec \<Rightarrow> (string \<rightharpoonup> ('hd, 'sc, 'msg) CSCodec)
    \<Rightarrow> (string \<rightharpoonup> ('hd, 'sc, 'msg) CSCodec)" where
  "registerCodec t code csCodecFactory = csCodecFactory(t \<mapsto> code)"

definition getCodec ::
  "(string \<rightharpoonup> ('hd, 'sc, 'msg) CSCodec) \<Rightarrow> string \<Rightarrow> ('hd, 'sc, 'msg) CSCodec option" where
  "getCodec csCodecFactory t = csCodecFactory t"

interpretation cs_codecs: last_wins_registry registerCodec getCodec
  by unfold_locales (auto simp: registerCodec_def getCodec_def fun_eq_iff)

definition CODEC_DEFAULT :: string where "CODEC_DEFAULT = ''default''"

definition codec_init ::
  "('hd, 'sc, 'msg, 'ty) protobuf \<Rightarrow> (string \<rightharpoonup> ('hd, 'sc, 'msg) CSCodec)
    \<Rightarrow> (string \<rightharpoonup> ('hd, 'sc, 'msg) CSCodec)" where
  "codec_init pb = registerCodec CODEC_DEFAULT
     \<lparr>cs_Encode = DefaultCSCodec_Encode pb, cs_Decode = DefaultCSCodec_Decode pb\<rparr>"

section \<open>Receiving from and sending to a client\<close>

definition RecvClientMsg ::
  "('hd, 'sc, 'msg, 'ty) protobuf \<Rightarrow> (string \<rightharpoonup> ('hd, 'sc, 'msg) CSCodec)
    \<Rightarrow> ('hd, 'msg, 's) MsgHandlerMgr \<Rightarrow> tcpConn \<Rightarrow> byte list \<Rightarrow> 's \<Rightarrow> (unit, tcpConn \<times> 's) res" where
  "RecvClientMsg pb codecs m conn data s =
     (case getCodec codecs CODEC_DEFAULT of
        None \<Rightarrow> Panic
      | Some codec \<Rightarrow>
          (case cs_Decode codec data of
             Panic \<Rightarrow> Panic
           | Fail _ \<Rightarrow> Ok (conn, s)
           | Ok None \<Rightarrow> Ok (conn, s)
           | Ok (Some (header, msg)) \<Rightarrow>
               (case clientMsgHandler m (GetMsgid pb header) of
                  None \<Rightarrow> Ok (conn, s)
                | Some h \<Rightarrow> h conn header msg s)))"

definition SendToClient ::
  "(string \<rightharpoonup> ('hd, 'sc, 'msg) CSCodec) \<Rightarrow> u32 \<Rightarrow> int \<Rightarrow> tcpConn \<Rightarrow> 'sc \<Rightarrow> 'msg
    \<Rightarrow> (cs_err, unit) res \<times> tcpConn" where
  "SendToClient codecs idle now conn header msg =
     (case getCodec codecs CODEC_DEFAULT of
        None \<Rightarrow> (Panic, conn)
      | Some codec \<Rightarrow>
          (case cs_Encode codec header msg of
             Panic \<Rightarrow> (Panic, conn)
           | Fail err \<Rightarrow> (Fail err, conn)
           | Ok data \<Rightarrow>
               (case Send Encode idle now data conn of
                  (Fail err, conn) \<Rightarrow> (Fail (SendErr err), conn)
                | (Panic, conn) \<Rightarrow> (Panic, conn)
                | (Ok _, conn) \<Rightarrow> (Ok (), conn))))"

text \<open>The server-to-server half is empty in the code.\<close>

definition RecvServerMsg :: "tcpConn \<Rightarrow> byte list \<Rightarrow> 's \<Rightarrow> (unit, tcpConn \<times> 's) res" where
  "RecvServerMsg conn data s = Ok (conn, s)"

definition SendToServer :: "byte list \<Rightarrow> 's \<Rightarrow> 's" where
  "SendToServer data s = s"

text \<open>The transport's event handler of the application.\<close>

definition eventTcp ::
  "('hd, 'sc, 'msg, 'ty) protobuf \<Rightarrow> (string \<rightharpoonup> ('hd, 'sc, 'msg) CSCodec)
    \<Rightarrow> ('hd, 'msg, 's) MsgHandlerMgr \<Rightarrow> 's EventHandler" where
  "eventTcp pb codecs m =
     \<lparr>OnConnOpened = OnClientConnOpened m, OnConnClosed = OnClientConnClosed m,
      OnData = RecvClientMsg pb codecs m\<rparr>"

section \<open>Facts about the codec\<close>

lemma getCodec_init [simp]:
  "getCodec (codec_init pb codecs) CODEC_DEFAULT
     = Some \<lparr>cs_Encode = DefaultCSCodec_Encode pb, cs_Decode = DefaultCSCodec_Decode pb\<rparr>"
  by (simp add: codec_init_def cs_codecs.find_put)

lemma DefaultCSCodec_Encode_eq:
  "DefaultCSCodec_Encode pb header body =
     (case Marshal_SCHead pb header of
        None \<Rightarrow> Fail MarshalErr
      | Some h \<Rightarrow>
          if maxBuffSize < 4 + length h then Fail BuffCopyFailed
          else case Marshal_body pb body of
                 None \<Rightarrow> Fail MarshalErr
               | Some b \<Rightarrow> if maxBuffSize < 4 + length h + length b then Fail BuffCopyFailed
                           else Ok (packet h b))"
proof -
  have 4: "4 \<le> maxBuffSize" by (simp add: maxBuffSize_def)
  let ?p = "\<lambda>h :: byte list. LE_bytes (word_of_nat (length h))"
  have put: "LE_PutUint32 (replicate maxBuffSize 0) 0 (word_of_nat (length h))
    = Ok (?p h @ replicate (maxBuffSize - 4) 0)" for h :: "byte list"
    using 4 by (simp add: LE_PutUint32_def)
  show ?thesis
  proof (cases "Marshal_SCHead pb header")
    case None
    then show ?thesis by (simp add: DefaultCSCodec_Encode_def)
  next
    case (Some h)
    show ?thesis
    proof (cases "maxBuffSize < 4 + length h")
      case True
      with 4 Some show ?thesis
        by (auto simp: DefaultCSCodec_Encode_def put go_copy_append Let_def)
    next
      case False
      have copy1: "go_copy (?p h @ replicate (maxBuffSize - 4) 0) 4 h
        = Ok (length h, (?p h @ h) @ replicate (maxBuffSize - (4 + length h)) 0)"
        using False 4 by (simp add: go_copy_append)
      have copy2: "go_copy ((?p h @ h) @ replicate (maxBuffSize - (4 + length h)) 0) (4 + length h) b
        = Ok (min (maxBuffSize - (4 + length h)) (length b),
            (?p h @ h) @ take (maxBuffSize - (4 + length h)) b
              @ replicate (maxBuffSize - (4 + length h) - length b) 0)" for b
        by (subst go_copy_append) simp_all
      show ?thesis
        using False Some
        by (auto simp: DefaultCSCodec_Encode_def put copy1 copy2 go_slice_def packet_def Let_def min_def
            simp del: append_assoc split: option.split)
    qed
  qed
qed

text \<open>What the decoder does with a packet, by the size its first four bytes give the header.\<close>

definition decode_parts ::
  "('hd, 'sc, 'msg, 'ty) protobuf \<Rightarrow> byte list \<Rightarrow> byte list \<Rightarrow> ('hd \<times> 'msg) option" where
  "decode_parts pb hbytes mbytes =
     Option.bind (Unmarshal_CSHead pb hbytes) (\<lambda>header.
     Option.bind (CSMessageID_name (GetMsgid pb header)) (\<lambda>msgStr.
     Option.bind (FindMessageByName pb (''proto.'' @ ToUpper msgStr)) (\<lambda>msgType.
     map_option (Pair header) (Unmarshal_body pb msgType mbytes))))"

lemma unat_4_plus:
  fixes hs :: u32
  shows "unat (4 + hs) = (if unat hs < 4294967292 then 4 + unat hs else unat hs - 4294967292)"
  using unat_u32_bound [of hs] by (simp add: unat_plus_if')

lemma DefaultCSCodec_Decode_fits:
  assumes "unat hs \<le> length payload" and "unat hs < 4294967292"
  shows "DefaultCSCodec_Decode pb (LE_bytes hs @ payload)
    = Ok (decode_parts pb (take (unat hs) payload) (drop (unat hs) payload))"
  using assms
  by (simp add: DefaultCSCodec_Decode_def decode_parts_def go_slice_def unat_4_plus
      split: option.split)

lemma DefaultCSCodec_Decode_panic:
  assumes "length payload < unat hs \<or> 4294967292 \<le> unat hs"
  shows "DefaultCSCodec_Decode pb (LE_bytes hs @ payload) = Panic"
  using assms unat_u32_bound [of hs]
  by (auto simp: DefaultCSCodec_Decode_def go_slice_def unat_4_plus)

lemma DefaultCSCodec_Decode_packet:
  assumes "length hbytes + length mbytes < 2 ^ 32 - 4"
  shows "DefaultCSCodec_Decode pb (packet hbytes mbytes) = Ok (decode_parts pb hbytes mbytes)"
  using assms DefaultCSCodec_Decode_fits [of "word_of_nat (length hbytes)" "hbytes @ mbytes" pb]
  by (simp add: packet_def unat_word_of_nat_u32)

lemma packet_ok_decodes:
  assumes "packet_ok b"
  shows "\<exists>r. DefaultCSCodec_Decode pb b = Ok r"
proof -
  obtain hs where "b = LE_bytes hs @ drop 4 b" "length b < 2 ^ 32" "unat hs \<le> length b - 4" "4 \<le> length b"
    using packet_okD [OF assms] by metis
  then show ?thesis
    using DefaultCSCodec_Decode_fits [of hs "drop 4 b" pb] by simp
qed

text \<open>
  The application side: each registered handler returns, and changes the state by a function
  of the identifier of the connection and the message.
\<close>

definition handlers_obey ::
  "('hd, 'msg, 's) MsgHandlerMgr \<Rightarrow> (int \<Rightarrow> u64 \<Rightarrow> 's \<Rightarrow> 's)
    \<Rightarrow> (int \<Rightarrow> u64 \<Rightarrow> 'hd \<Rightarrow> 'msg \<Rightarrow> 's \<Rightarrow> 's) \<Rightarrow> bool" where
  "handlers_obey m onconn onmsg \<longleftrightarrow>
     (\<forall>k\<in>{CONN_EVENT_START, CONN_EVENT_STOP}. \<exists>h. connEventHandler m k = Some h
        \<and> (\<forall>c s. \<exists>c'. h c s = Ok (c', onconn k (connID c) s) \<and> same_stream c c'))
   \<and> (\<forall>k h. clientMsgHandler m k = Some h \<longrightarrow>
        (\<forall>c hd msg s. \<exists>c'. h c hd msg s = Ok (c', onmsg k (connID c) hd msg s) \<and> same_stream c c'))"

text \<open>The effect of an event of the transport on the application.\<close>

definition app_event ::
  "('hd, 'sc, 'msg, 'ty) protobuf \<Rightarrow> ('hd, 'msg, 's) MsgHandlerMgr \<Rightarrow> (int \<Rightarrow> u64 \<Rightarrow> 's \<Rightarrow> 's)
    \<Rightarrow> (int \<Rightarrow> u64 \<Rightarrow> 'hd \<Rightarrow> 'msg \<Rightarrow> 's \<Rightarrow> 's) \<Rightarrow> conn_event \<Rightarrow> 's \<Rightarrow> 's" where
  "app_event pb m onconn onmsg e s =
     (case e of
        Opened i \<Rightarrow> onconn CONN_EVENT_START i s
      | Closed i active \<Rightarrow> onconn CONN_EVENT_STOP i s
      | Data i pkg \<Rightarrow>
          (case DefaultCSCodec_Decode pb pkg of
             Ok (Some (header, msg)) \<Rightarrow>
               if clientMsgHandler m (GetMsgid pb header) = None then s
               else onmsg (GetMsgid pb header) i header msg s
           | _ \<Rightarrow> s))"

lemma same_stream_refl [simp]: "same_stream c c"
  by (simp add: same_stream_def)

lemma RecvClientMsg_obeys:
  assumes "handlers_obey m onconn onmsg" and "packet_ok pkg"
  shows "\<exists>c'. RecvClientMsg pb (codec_init pb codecs) m c pkg s
      = Ok (c', app_event pb m onconn onmsg (Data (connID c) pkg) s) \<and> same_stream c c'"
proof -
  obtain r where r: "DefaultCSCodec_Decode pb pkg = Ok r" using packet_ok_decodes [OF assms(2)] by blast
  show ?thesis
  proof (cases r)
    case None
    with r show ?thesis by (simp add: RecvClientMsg_def app_event_def)
  next
    case (Some p)
    obtain header msg where p: "p = (header, msg)" by (cases p)
    show ?thesis
    proof (cases "clientMsgHandler m (GetMsgid pb header)")
      case None
      with r Some p show ?thesis by (simp add: RecvClientMsg_def app_event_def)
    next
      case h: (Some h)
      with assms(1) obtain c' where "h c header msg s
          = Ok (c', onmsg (GetMsgid pb header) (connID c) header msg s)" "same_stream c c'"
        unfolding handlers_obey_def by blast
      with r Some p h show ?thesis by (simp add: RecvClientMsg_def app_event_def)
    qed
  qed
qed

lemma eventTcp_obeys:
  assumes "handlers_obey m onconn onmsg"
  shows "handler_obeys packet_ok (eventTcp pb (codec_init pb codecs) m) (app_event pb m onconn onmsg)"
proof -
  obtain h1 where h1: "connEventHandler m CONN_EVENT_START = Some h1"
    "\<And>c s. \<exists>c'. h1 c s = Ok (c', onconn CONN_EVENT_START (connID c) s) \<and> same_stream c c'"
    using assms unfolding handlers_obey_def by blast
  obtain h2 where h2: "connEventHandler m CONN_EVENT_STOP = Some h2"
    "\<And>c s. \<exists>c'. h2 c s = Ok (c', onconn CONN_EVENT_STOP (connID c) s) \<and> same_stream c c'"
    using assms unfolding handlers_obey_def by blast
  have ev: "app_event pb m onconn onmsg (Opened i) s = onconn CONN_EVENT_START i s"
    "app_event pb m onconn onmsg (Closed i active) s = onconn CONN_EVENT_STOP i s" for i active s
    by (simp_all add: app_event_def)
  show ?thesis
    unfolding handler_obeys_def
  proof (intro conjI allI impI)
    fix c s pkg assume "packet_ok pkg"
    then show "\<exists>c'. OnData (eventTcp pb (codec_init pb codecs) m) c pkg s
        = Ok (c', app_event pb m onconn onmsg (Data (connID c) pkg) s) \<and> same_stream c c'"
      using RecvClientMsg_obeys [OF assms] by (simp add: eventTcp_def)
  qed (use h1 h2 in \<open>simp_all add: eventTcp_def OnClientConnOpened_def OnClientConnClosed_def ev\<close>)
qed

section \<open>Properties\<close>

text \<open>
  C8.  The client sends packets through the frame codec over a connection of the server: every
  packet reaches the handler registered for its message id, in order and once, between the
  opening and the closing callback; packets that do not decode, or whose message id has no
  handler, change nothing; nothing panics.
\<close>

theorem client_messages_dispatched:
  assumes "handlers_obey m onconn onmsg" and "list_all packet_ok ps" and "map Encode ps = map Ok fs"
    and "avail (reader c) = concat fs" and "first_err (reader c) = Some e"
    and "\<not> cancelled c" and "list_all quiet ts" and "length ps < length ts"
  shows "\<exists>c'. Recv Decode (eventTcp pb (codec_init pb codecs) m) idle ts c s = Some (Ok (c',
    fold (app_event pb m onconn onmsg)
      (Opened (connID c) # map (Data (connID c)) ps @ [Closed (connID c) False]) s))"
  by (rule default_codec.Recv_delivers [OF eventTcp_obeys [OF assms(1)] assms(2-8)])

text \<open>A toy protobuf runtime: a header is one byte, the message id; a body is its bytes.\<close>

definition byte_pb :: "(byte, byte, byte list, unit) protobuf" where
  "byte_pb = \<lparr>Marshal_SCHead = (\<lambda>b. Some [b]), Marshal_body = Some,
     Unmarshal_CSHead = (\<lambda>bs. case bs of [b] \<Rightarrow> Some b | _ \<Rightarrow> None), GetMsgid = uint,
     FindMessageByName = (\<lambda>n. if n = ''proto.CS_LOGIN'' then Some () else None),
     Unmarshal_body = (\<lambda>_. Some)\<rparr>"

definition log_mgr :: "(byte, byte list, string list) MsgHandlerMgr" where
  "log_mgr = \<lparr>connEventHandler = (\<lambda>k. Some (\<lambda>c s. Ok (c, s @ [if k = 0 then ''open'' else ''close'']))),
     clientMsgHandler = [1 \<mapsto> (\<lambda>c hd msg s. Ok (c, s @ [''login'']))],
     serverMsgHandler = Map.empty\<rparr>"

lemma log_mgr_obeys:
  "handlers_obey log_mgr (\<lambda>k _ s. s @ [if k = 0 then ''open'' else ''close''])
     (\<lambda>_ _ _ _ s. s @ [''login''])"
  by (simp add: handlers_obey_def log_mgr_def)

theorem client_messages_dispatched_witness:
  "\<exists>c'. Recv Decode (eventTcp byte_pb (codec_init byte_pb Map.empty) log_mgr) 30
       (replicate 2 \<lparr>ctxDone = False, cancledElsewhere = False, clock = 9\<rparr>)
       (fst (NewTcpConn 5 [Seg [1, 0, 0, 0, 2, 0], Seg [0, 0, 1, 8, 9], RErr NetOther] None None)) []
     = Some (Ok (c', [''open'', ''login'', ''close'']))"
proof -
  let ?p = "packet [1] [8, 9]"
  have p: "?p = [1, 0, 0, 0, 1, 8, 9]" by (simp add: packet_def LE_bytes_def)
  have "Encode ?p = Ok [1, 0, 0, 0, 2, 0, 0, 0, 1, 8, 9]"
    using Encode_frame [of ?p 1] by (simp add: p LE_Uint32_def frame_def LE_bytes_def)
  moreover have "packet_ok ?p" using packet_packet_ok [of "[1]" "[8, 9]"] by simp
  moreover have "ToUpper ''cs_login'' = ''CS_LOGIN''" by code_simp
  then have "DefaultCSCodec_Decode byte_pb ?p = Ok (Some (1, [8, 9]))"
    by (simp add: DefaultCSCodec_Decode_packet)
      (simp add: decode_parts_def byte_pb_def CSMessageID_name_def)
  ultimately show ?thesis
    using client_messages_dispatched [OF log_mgr_obeys, of "[?p]"
        "[[1, 0, 0, 0, 2, 0, 0, 0, 1, 8, 9]]"
        "fst (NewTcpConn 5 [Seg [1, 0, 0, 0, 2, 0], Seg [0, 0, 1, 8, 9], RErr NetOther] None None)"
        NetOther "replicate 2 \<lparr>ctxDone = False, cancledElsewhere = False, clock = 9\<rparr>"
        byte_pb Map.empty 30 "[]"]
    by (simp add: NewTcpConn_def GenerateUID_def quiet_def numeral_2_eq_2 app_event_def log_mgr_def
        byte_pb_def CONN_EVENT_START_def CONN_EVENT_STOP_def)
qed

text \<open>
  A remote peer can stop the server: a frame whose two size fields add up, in 32 bits, to a
  smaller number than the header size passes the frame codec and then makes the packet codec
  panic; a frame whose sizes do not wrap never does.
\<close>

theorem wrapped_frame_panics:
  assumes "avail segs = frame hs bs rest" and "Decode segs = Some (Ok pkg, segs')"
  shows "RecvClientMsg pb (codec_init pb codecs) m c pkg s = Panic
    \<longleftrightarrow> 2 ^ 32 \<le> unat hs + unat bs
      \<or> (\<exists>header msg h. DefaultCSCodec_Decode pb pkg = Ok (Some (header, msg))
          \<and> clientMsgHandler m (GetMsgid pb header) = Some h \<and> h c header msg s = Panic)"
proof -
  have small: "4 \<le> unat (4 + hs + bs)" and len: "unat (hs + bs) \<le> length rest"
    and pkg: "pkg = LE_bytes hs @ take (unat (hs + bs)) rest"
    using Decode_frame [OF assms(1)] assms(2)
    by (cases "unat (hs + bs) \<le> length rest"; force simp: not_le split: option.splits)+
  have sum: "unat (hs + bs) = (if unat hs + unat bs < 4294967296 then unat hs + unat bs
      else unat hs + unat bs - 4294967296)"
    by (simp add: unat_plus_if')
  show ?thesis
  proof (cases "2 ^ 32 \<le> unat hs + unat bs")
    case True
    with sum unat_u32_bound [of bs] have "unat (hs + bs) < unat hs" by simp
    with pkg have "DefaultCSCodec_Decode pb pkg = Panic"
      using DefaultCSCodec_Decode_panic [of "take (unat (hs + bs)) rest" hs pb] by (simp add: min_less_iff_disj)
    with True show ?thesis by (simp add: RecvClientMsg_def)
  next
    case False
    with sum have eq: "unat (hs + bs) = unat hs + unat bs" by simp
    with small unat_u32_bound [of "hs + bs"] have "unat hs < 4294967292"
      by (auto simp: add.assoc unat_4_plus split: if_splits)
    with eq len pkg have "\<exists>r. DefaultCSCodec_Decode pb pkg = Ok r"
      by (simp add: DefaultCSCodec_Decode_fits)
    with False show ?thesis
      by (auto simp: RecvClientMsg_def split: option.splits)
  qed
qed

theorem wrapped_frame_panics_witness:
  "\<exists>pkg segs'. Decode [Seg (frame 0xFFFFFFFF 6 [0, 0, 0, 0, 0])] = Some (Ok pkg, segs')
     \<and> RecvClientMsg byte_pb (codec_init byte_pb Map.empty) log_mgr
         (fst (NewTcpConn 5 [] None None)) pkg [] = Panic"
proof -
  let ?segs = "[Seg (frame 0xFFFFFFFF 6 [0, 0, 0, 0, 0])]"
  have av: "avail ?segs = frame 0xFFFFFFFF 6 [0, 0, 0, 0, 0]" by simp
  from Decode_frame(2) [OF av] obtain pkg segs' where dec: "Decode ?segs = Some (Ok pkg, segs')"
    by auto
  with wrapped_frame_panics [OF av dec, of byte_pb Map.empty log_mgr
      "fst (NewTcpConn 5 [] None None)" "[]"]
  show ?thesis by auto
qed

text \<open>
  Sending to a client: when header and body fit the buffer of 512000 bytes, the call
  succeeds on a connection whose peer takes it and the bytes written are one frame that decodes
  to the packet of the two; when they do not fit, the call fails and nothing is written.
\<close>

theorem send_to_client_frames:
  assumes "writable conn" and "Marshal_SCHead pb header = Some h" and "Marshal_body pb msg = Some b"
  shows "if 4 + length h + length b \<le> maxBuffSize
    then \<exists>f conn'. SendToClient (codec_init pb codecs) idle now conn header msg = (Ok (), conn')
        \<and> peer_got conn' = peer_got conn @ f
        \<and> (\<forall>segs rest. avail segs = f @ rest \<longrightarrow>
             (\<exists>segs'. Decode segs = Some (Ok (packet h b), segs') \<and> avail segs' = rest))
    else SendToClient (codec_init pb codecs) idle now conn header msg = (Fail BuffCopyFailed, conn)"
proof (cases "4 + length h + length b \<le> maxBuffSize")
  case True
  then have enc: "DefaultCSCodec_Encode pb header msg = Ok (packet h b)"
    using assms(2,3) by (simp add: DefaultCSCodec_Encode_eq)
  from True have ok: "packet_ok (packet h b)" by (intro packet_packet_ok) (simp add: maxBuffSize_def)
  then obtain f where f: "Encode (packet h b) = Ok f" using default_codec.encode_ok by blast
  obtain c' where c': "Send Encode idle now (packet h b) conn = (Ok (), c')"
    "peer_got c' = peer_got conn @ f"
    using Send_writable [where encode = Encode, OF assms(1) f] by metis
  have "\<forall>segs rest. avail segs = f @ rest \<longrightarrow>
      (\<exists>segs'. Decode segs = Some (Ok (packet h b), segs') \<and> avail segs' = rest)"
    using default_codec.decode_encode [OF ok f] by blast
  with True enc c' show ?thesis by (auto simp: SendToClient_def)
next
  case False
  with assms(2,3) show ?thesis by (simp add: SendToClient_def DefaultCSCodec_Encode_eq)
qed

theorem send_to_client_frames_witness:
  "\<exists>f conn'. SendToClient (codec_init byte_pb Map.empty) 30 6 (fst (NewTcpConn 5 [] None None)) 1 [2, 3]
     = (Ok (), conn') \<and> peer_got conn' = f
     \<and> (\<forall>segs rest. avail segs = f @ rest \<longrightarrow>
          (\<exists>segs'. Decode segs = Some (Ok (packet [1] [2, 3]), segs') \<and> avail segs' = rest))"
  using send_to_client_frames [of "fst (NewTcpConn 5 [] None None)" byte_pb 1 "[1]" "[2, 3]" "[2, 3]"
      Map.empty 30 6]
  by (simp add: NewTcpConn_def GenerateUID_def writable_def byte_pb_def maxBuffSize_def)

text \<open>
  The tables of message handlers: after any sequence of registrations a client message is
  dispatched to the handler that was registered first for its id, and later registrations of
  the id fail.
\<close>

theorem client_handler_first_wins:
  "clientMsgHandler (register_all RegisterClientMsgHandler kvs msgHandlerMgr) = map_of kvs
   \<and> (fst (RegisterClientMsgHandler k v (register_all RegisterClientMsgHandler kvs msgHandlerMgr)) = None
        \<longleftrightarrow> k \<notin> fst ` set kvs)"
proof -
  have "clientMsgHandler (register_all RegisterClientMsgHandler kvs msgHandlerMgr) = map_of kvs"
    by (rule ext) (simp add: client_handlers.find_register_all msgHandlerMgr_def)
  then show ?thesis by (simp add: client_handlers.reg_ok_iff map_of_eq_None_iff)
qed

text \<open>
  A connection is accepted before any handler for it is registered: without a handler for
  the opening event the receive loop panics on the first connection.
\<close>

theorem conn_without_handlers_panics:
  assumes "connEventHandler m CONN_EVENT_START = None"
  shows "Recv decode (eventTcp pb codecs m) idle ts c s = Some Panic"
  using assms by (simp add: Recv_def eventTcp_def OnClientConnOpened_def)

theorem conn_without_handlers_panics_witness:
  "Recv Decode (eventTcp byte_pb (codec_init byte_pb Map.empty) msgHandlerMgr) 30 []
     (fst (NewTcpConn 5 [] None None)) () = Some Panic"
  by (rule conn_without_handlers_panics) (simp add: msgHandlerMgr_def)

end
