(* ===== verification/Event.thy ===== *)
theory Event
  imports Mango_Prelude
begin

text \<open>
  The publish/subscribe bus of \<^verbatim>\<open>src/server_base/event/event.go\<close>: topics with a timeout, their
  subscribers, and publishing.  A callback runs in its own goroutine and gets a channel; what
  matters of it is when, if ever, it signals on that channel, and whether it sends or closes.
  Delays are in nanoseconds after the callback was started; a signal at the very instant of the
  timeout counts as in time.
\<close>

section \<open>Model\<close>

definition maxTopicSubscriberNum :: nat where "maxTopicSubscriberNum = 1024"
definition maxTopicTimeout :: int where "maxTopicTimeout = 1000000000"

datatype done_signal = Sends | Closes

record 'i Subscriber =
  sub_name :: string
  callback :: "'i \<Rightarrow> (nat \<times> done_signal) option"

record 'i Topic =
  timeout :: int
  subscribers :: "'i Subscriber list"

type_synonym 'i Publisher = "string \<rightharpoonup> 'i Topic"

datatype event_err = TopicExists | TopicTimeTooMax | TopicNotCreated | TooManySubscribers | SubscriberExists

definition NewTopic :: "string \<Rightarrow> int \<Rightarrow> 'i Publisher \<Rightarrow> event_err option \<times> 'i Publisher" where
  "NewTopic name t topics =
     (case topics name of
        Some _ \<Rightarrow> (Some TopicExists, topics)
      | None \<Rightarrow>
          if t > maxTopicTimeout then (Some TopicTimeTooMax, topics)
          else (None, topics(name \<mapsto> \<lparr>timeout = t, subscribers = []\<rparr>)))"

definition RegisterSubscriber ::
  "string \<Rightarrow> 'i Subscriber \<Rightarrow> 'i Publisher \<Rightarrow> event_err option \<times> 'i Publisher" where
  "RegisterSubscriber name sub topics =
     (case topics name of
        None \<Rightarrow> (Some TopicNotCreated, topics)
      | Some topic \<Rightarrow>
          if length (subscribers topic) \<ge> maxTopicSubscriberNum then (Some TooManySubscribers, topics)
          else if list_ex (\<lambda>s. sub_name s = sub_name sub) (subscribers topic)
          then (Some SubscriberExists, topics)
          else (None, topics(name \<mapsto> topic\<lparr>subscribers := subscribers topic @ [sub]\<rparr>)))"

text \<open>
  \<open>SendTopic\<close>: when it is done, and when, if ever, its channel makes the program panic.  The deferred
  \<open>close(ch)\<close> runs when \<open>SendTopic\<close> is done: a callback that sends after that sends on a closed channel,
  and a callback that closes the channel makes one of the two closes the second one.  When the
  callback closes in time the panic is in \<open>SendTopic\<close> itself, at once.
\<close>

definition SendTopic :: "'i Subscriber \<Rightarrow> 'i \<Rightarrow> 'i Topic \<Rightarrow> int \<times> int option" where
  "SendTopic sub i topic =
     (case callback sub i of
        None \<Rightarrow> (max 0 (timeout topic), None)
      | Some (d, sig) \<Rightarrow>
          if timeout topic > 0 \<and> int d \<le> timeout topic
          then (int d, if sig = Closes then Some (int d) else None)
          else (max 0 (timeout topic), Some (int d)))"

text \<open>
  \<open>Publish\<close>, from the moment it has the lock: one \<open>SendTopic\<close> per subscriber, all at once; it waits
  for the last.  The result is when that is done, and when the program panics: \<open>Publish\<close> returns to its
  caller if that is later, or never.  How long it waits for the lock is not part of the model.
\<close>

definition Publish :: "string \<Rightarrow> 'i \<Rightarrow> 'i Publisher \<Rightarrow> (event_err, int \<times> int list) res" where
  "Publish name i topics =
     (case topics name of
        None \<Rightarrow> Fail TopicNotCreated
      | Some topic \<Rightarrow>
          let rs = map (\<lambda>sub. SendTopic sub i topic) (subscribers topic)
          in Ok (fold max (map fst rs) 0, List.map_filter snd rs))"

section \<open>The bus as a system of operations\<close>

datatype 'i event_op = OpNewTopic string int | OpRegister string "'i Subscriber"

fun event_step :: "'i event_op \<Rightarrow> 'i Publisher \<Rightarrow> 'i Publisher option" where
  "event_step (OpNewTopic name t) topics = Some (snd (NewTopic name t topics))"
| "event_step (OpRegister name sub) topics = Some (snd (RegisterSubscriber name sub topics))"

definition topic_ok :: "'i Topic \<Rightarrow> bool" where
  "topic_ok topic \<longleftrightarrow> timeout topic \<le> maxTopicTimeout
     \<and> length (subscribers topic) \<le> maxTopicSubscriberNum
     \<and> distinct (map sub_name (subscribers topic))"

definition publisher_inv :: "'i Publisher \<Rightarrow> bool" where
  "publisher_inv topics \<longleftrightarrow> (\<forall>topic\<in>ran topics. topic_ok topic)"

lemma publisher_inv_upd:
  "publisher_inv topics \<Longrightarrow> topic_ok topic \<Longrightarrow> publisher_inv (topics(name \<mapsto> topic))"
  by (auto simp: publisher_inv_def ran_def)

lemma NewTopic_inv [inv_rules]: "publisher_inv topics \<Longrightarrow> publisher_inv (snd (NewTopic name t topics))"
  by (auto simp: NewTopic_def topic_ok_def intro: publisher_inv_upd split: option.split)

lemma RegisterSubscriber_inv [inv_rules]:
  assumes "publisher_inv topics"
  shows "publisher_inv (snd (RegisterSubscriber name sub topics))"
proof (cases "topics name")
  case (Some topic)
  with assms have "topic_ok topic" by (auto simp: publisher_inv_def ran_def)
  with Some assms show ?thesis
    by (auto simp: RegisterSubscriber_def topic_ok_def list_ex_iff maxTopicSubscriberNum_def
        intro!: publisher_inv_upd) blast
qed (simp add: RegisterSubscriber_def assms)

interpretation event_sys: invariant_system event_step publisher_inv "\<lambda>_. True"
proof
  fix topics :: "'a Publisher" and e :: "'a event_op"
  assume "publisher_inv topics"
  then show "\<exists>topics'. event_step e topics = Some topics' \<and> publisher_inv topics'"
    by (cases e) (auto intro: inv_rules)
qed

interpretation topics: first_wins_registry NewTopic "\<lambda>topics k. map_option timeout (topics k)"
  "\<lambda>t. t \<le> maxTopicTimeout"
  by unfold_locales (auto simp: NewTopic_def fun_eq_iff split: option.split)

lemma fold_max_bounds:
  fixes m :: int
  shows "m \<le> fold max xs m" and "m \<le> b \<Longrightarrow> (\<forall>x\<in>set xs. x \<le> b) \<Longrightarrow> fold max xs m \<le> b"
proof -
  show "m \<le> fold max xs m"
  proof (induction xs arbitrary: m)
    case (Cons x xs)
    from Cons.IH [of "max x m"] show ?case by simp
  qed simp
  show "m \<le> b \<Longrightarrow> (\<forall>x\<in>set xs. x \<le> b) \<Longrightarrow> fold max xs m \<le> b"
    by (induction xs arbitrary: m) auto
qed

lemma SendTopic_time: "timeout topic \<le> b \<Longrightarrow> 0 \<le> b \<Longrightarrow> fst (SendTopic sub i topic) \<le> b"
  by (auto simp: SendTopic_def split: option.split)

lemma SendTopic_panics_iff:
  "snd (SendTopic sub i topic) \<noteq> None \<longleftrightarrow> (\<exists>t sig. callback sub i = Some (t, sig)
     \<and> (sig = Closes \<or> timeout topic < int t \<or> timeout topic \<le> 0))"
  by (cases "callback sub i") (auto simp: SendTopic_def split: if_splits)

lemma SendTopic_early_panic:
  assumes "0 < timeout topic"
  shows "(\<forall>p. snd (SendTopic sub i topic) = Some p \<longrightarrow> timeout topic < p)
    \<longleftrightarrow> \<not> (\<exists>t. callback sub i = Some (t, Closes) \<and> int t \<le> timeout topic)"
  using assms by (cases "callback sub i") (auto simp: SendTopic_def split: if_splits)

lemma SendTopic_panic_time:
  "snd (SendTopic sub i topic) = Some p \<Longrightarrow> p \<le> timeout topic \<Longrightarrow> 0 < timeout topic \<Longrightarrow> fst (SendTopic sub i topic) = p"
  by (auto simp: SendTopic_def split: option.splits if_splits)

lemma set_map_filter: "set (List.map_filter f xs) = {y. \<exists>x\<in>set xs. f x = Some y}"
  by (induction xs) (auto simp: List.map_filter_def image_iff)

lemma fold_max_upper:
  fixes m :: int
  shows "x \<in> set xs \<Longrightarrow> x \<le> fold max xs m"
proof (induction xs arbitrary: m)
  case (Cons y ys)
  then show ?case using fold_max_bounds(1) [of "max y m" ys] by auto
qed simp

text \<open>The panics that come before \<open>Publish\<close> would return are those of callbacks that close in time.\<close>

lemma Publish_returns_iff:
  assumes "topics name = Some topic" and "0 < timeout topic" and "Publish name i topics = Ok (d, ps)"
  shows "(\<forall>p\<in>set ps. d < p) \<longleftrightarrow>
    \<not> (\<exists>sub\<in>set (subscribers topic). \<exists>t. callback sub i = Some (t, Closes) \<and> int t \<le> timeout topic)"
proof -
  let ?send = "\<lambda>sub. SendTopic sub i topic"
  from assms have d: "d = fold max (map fst (map ?send (subscribers topic))) 0"
    and ps: "set ps = {p. \<exists>sub\<in>set (subscribers topic). snd (?send sub) = Some p}"
    by (auto simp: Publish_def set_map_filter)
  have "d \<le> timeout topic"
    unfolding d using assms(2) by (intro fold_max_bounds(2)) (auto intro: SendTopic_time)
  moreover have "p \<le> d" if "sub \<in> set (subscribers topic)" "snd (?send sub) = Some p" "p \<le> timeout topic" for sub p
    using SendTopic_panic_time [OF that(2,3) assms(2)] that(1) unfolding d by (intro fold_max_upper) force
  ultimately have "(\<forall>p\<in>set ps. d < p) \<longleftrightarrow>
      (\<forall>sub\<in>set (subscribers topic). \<forall>p. snd (?send sub) = Some p \<longrightarrow> timeout topic < p)"
    unfolding ps by (auto simp: not_less) (metis not_le)+
  then show ?thesis using SendTopic_early_panic [OF assms(2)] by blast
qed

text \<open>
  Publishing leads to a panic exactly when some callback signals late, or signals by closing its
  channel; with a timeout of zero or less every callback that ever signals does.
\<close>

lemma Publish_panics_iff:
  assumes "topics name = Some topic" and "Publish name i topics = Ok (d, ps)"
  shows "ps \<noteq> [] \<longleftrightarrow> (\<exists>sub\<in>set (subscribers topic). \<exists>t sig. callback sub i = Some (t, sig)
    \<and> (sig = Closes \<or> timeout topic < int t \<or> timeout topic \<le> 0))"
proof -
  have "set ps = {p. \<exists>sub\<in>set (subscribers topic). snd (SendTopic sub i topic) = Some p}"
    using assms by (auto simp: Publish_def set_map_filter)
  then have "ps \<noteq> [] \<longleftrightarrow> (\<exists>sub\<in>set (subscribers topic). snd (SendTopic sub i topic) \<noteq> None)"
    unfolding set_empty [symmetric] by auto
  then show ?thesis unfolding SendTopic_panics_iff .
qed

lemma late_signal_panics:
  "Publish ''t'' () [''t'' \<mapsto> \<lparr>timeout = 500,
       subscribers = [\<lparr>sub_name = ''s'', callback = (\<lambda>_. Some (501, Sends))\<rparr>]\<rparr>] = Ok (500, [501])"
  by (simp add: Publish_def SendTopic_def List.map_filter_def)

section \<open>Properties\<close>



end
