(* ===== verification/Config.thy ===== *)
theory Config
  imports Mango_Prelude
begin

text \<open>
  The configuration holder of \<^verbatim>\<open>src/config/config.go\<close>: two \<open>viper\<close> objects, of which one is
  active while the other takes the next load.  \<open>viper\<close> is not modelled: its contents are a value
  of type \<open>'v\<close>, \<open>new\<close> is an empty one, and \<open>read path\<close> is what \<open>ReadInConfig\<close> finds at a path
  (\<open>None\<close>: it fails and leaves the object as it was).
\<close>

section \<open>Model\<close>

record 'v configData =
  config :: 'v
  configBak :: 'v
  isUseBak :: bool
  cfgFilePath :: string
  daemonFlag :: bool
  command :: string

datatype config_err = InvalidCfgFilePath | ReadConfigFailed

definition defaultConfPath :: string where "defaultConfPath = ''./conf/server.yaml''"

text \<open>Which of the two objects a function returns, and what it holds.\<close>

datatype viper_ref = MainRef | BakRef

definition deref :: "viper_ref \<Rightarrow> 'v configData \<Rightarrow> 'v" where
  "deref r c = (case r of MainRef \<Rightarrow> config c | BakRef \<Rightarrow> configBak c)"

definition assign :: "viper_ref \<Rightarrow> 'v \<Rightarrow> 'v configData \<Rightarrow> 'v configData" where
  "assign r v c = (case r of MainRef \<Rightarrow> c\<lparr>config := v\<rparr> | BakRef \<Rightarrow> c\<lparr>configBak := v\<rparr>)"

definition getBakConfig :: "'v configData \<Rightarrow> viper_ref" where
  "getBakConfig c = (if isUseBak c then MainRef else BakRef)"

definition GetConfig :: "'v configData \<Rightarrow> viper_ref" where
  "GetConfig c = (if isUseBak c then BakRef else MainRef)"

definition loadConfig :: "(string \<Rightarrow> 'v option) \<Rightarrow> 'v configData \<Rightarrow> config_err option \<times> 'v configData" where
  "loadConfig read c =
     (let v = getBakConfig c in
      if cfgFilePath c = [] then (Some InvalidCfgFilePath, c)
      else case read (cfgFilePath c) of
             None \<Rightarrow> (Some ReadConfigFailed, c)
           | Some contents \<Rightarrow>
               let c = assign v contents c in (None, c\<lparr>isUseBak := \<not> isUseBak c\<rparr>))"

text \<open>\<open>Init\<close> takes the values of the command line flags, each with its default.\<close>

definition Config_Init ::
  "'v \<Rightarrow> string option \<Rightarrow> string option \<Rightarrow> bool option \<Rightarrow> (string \<Rightarrow> 'v option)
    \<Rightarrow> config_err option \<times> 'v configData" where
  "Config_Init new conf cmd daemon read =
     loadConfig read
       \<lparr>config = new, configBak = new, isUseBak = False,
        cfgFilePath = (case conf of None \<Rightarrow> defaultConfPath | Some p \<Rightarrow> p),
        daemonFlag = (case daemon of None \<Rightarrow> False | Some d \<Rightarrow> d),
        command = (case cmd of None \<Rightarrow> ''start'' | Some s \<Rightarrow> s)\<rparr>"

definition Config_Reload ::
  "(string \<Rightarrow> 'v option) \<Rightarrow> 'v configData \<Rightarrow> config_err option \<times> 'v configData" where
  "Config_Reload read c = loadConfig read c"

definition GetDaemon :: "'v configData \<Rightarrow> bool" where "GetDaemon c = daemonFlag c"

definition GetCommand :: "'v configData \<Rightarrow> string" where "GetCommand c = command c"

section \<open>Facts\<close>

text \<open>The active configuration.\<close>

definition active :: "'v configData \<Rightarrow> 'v" where
  "active c = deref (GetConfig c) c"

lemma loadConfig_active:
  "active (snd (loadConfig read c)) =
     (if cfgFilePath c = [] then active c
      else case read (cfgFilePath c) of None \<Rightarrow> active c | Some v \<Rightarrow> v)"
  by (simp add: loadConfig_def active_def deref_def assign_def GetConfig_def getBakConfig_def
      split: option.split)

lemma loadConfig_path [simp]: "cfgFilePath (snd (loadConfig read c)) = cfgFilePath c"
  by (simp add: loadConfig_def assign_def getBakConfig_def split: option.split)

text \<open>A load never writes the object in use.\<close>

lemma loadConfig_keeps_used: "deref (GetConfig c) (snd (loadConfig read c)) = deref (GetConfig c) c"
  by (simp add: loadConfig_def deref_def assign_def GetConfig_def getBakConfig_def split: option.split)

section \<open>Properties\<close>

definition reloads :: "(string \<Rightarrow> 'v option) list \<Rightarrow> 'v configData \<Rightarrow> 'v configData" where
  "reloads = fold (\<lambda>read c. snd (Config_Reload read c))"

lemma reloads_active:
  assumes "cfgFilePath c \<noteq> []"
  shows "active (reloads rs c) = last (active c # map the (filter (\<lambda>r. r \<noteq> None)
      (map (\<lambda>read. read (cfgFilePath c)) rs)))"
  using assms
proof (induction rs arbitrary: c)
  case (Cons r rs)
  from Cons.IH [of "snd (Config_Reload r c)"] Cons.prems show ?case
    by (auto simp: reloads_def Config_Reload_def loadConfig_active split: option.split)
qed (simp add: reloads_def)

text \<open>
  C34.  After the start and any number of reloads, each of which may fail, the active
  configuration is the one of the last load that succeeded; and the object a caller got from
  \<open>GetConfig\<close> is not changed by the next reload.
\<close>

theorem config_last_good_load:
  assumes "path \<noteq> []" and "Config_Init new (Some path) cmd daemon read = (err, c)"
  shows "active (reloads rs c) = last (new # map the (filter (\<lambda>r. r \<noteq> None)
      (map (\<lambda>read. read path) (read # rs))))
    \<and> deref (GetConfig c) (reloads [r] c) = active c"
proof -
  have eq: "c = reloads [read] \<lparr>config = new, configBak = new, isUseBak = False, cfgFilePath = path,
      daemonFlag = (case daemon of None \<Rightarrow> False | Some d \<Rightarrow> d),
      command = (case cmd of None \<Rightarrow> ''start'' | Some s \<Rightarrow> s)\<rparr>" (is "c = reloads [read] ?c0")
    using assms(2) by (simp add: Config_Init_def reloads_def Config_Reload_def)
  then have "reloads rs c = reloads (read # rs) ?c0" by (simp add: reloads_def)
  moreover have "active ?c0 = new" by (simp add: active_def GetConfig_def deref_def)
  ultimately show ?thesis
    using reloads_active [of ?c0 "read # rs"] assms(1) loadConfig_keeps_used [of c r]
    by (simp add: active_def reloads_def Config_Reload_def)
qed

theorem config_last_good_load_witness:
  "active (reloads [\<lambda>_. Some 2, \<lambda>_. None] (snd (Config_Init (0::nat) (Some ''a'') None None (\<lambda>_. Some 1)))) = 2"
  using config_last_good_load [of "''a''" "0::nat" None None "\<lambda>_. Some 1"
      "fst (Config_Init (0::nat) (Some ''a'') None None (\<lambda>_. Some 1))"
      "snd (Config_Init (0::nat) (Some ''a'') None None (\<lambda>_. Some 1))" "[\<lambda>_. Some 2, \<lambda>_. None]"]
  by simp

end
