(* ===== verification/Plugin.thy ===== *)
theory Plugin
  imports Mango_Prelude
begin

text \<open>
  The plugin manager of \<^verbatim>\<open>src/plugin/plugin.go\<close>: the table of factories, the table of
  instances, and the start, main loop and destruction of all plugins.  A factory acts on a world
  \<open>'w\<close> that stands for whatever its \<open>Setup\<close>, \<open>Mainloop\<close> and \<open>Destroy\<close> touch.  The unmarshalled
  plugin configuration is an association list from plugin types to association lists from
  plugin names to the configuration subtree \<open>'v\<close>; its order is the iteration order of the run.
  The factory interface also has a \<open>Reload\<close> method; the manager never calls it, so the record
  has no field for it.
\<close>

section \<open>Model\<close>

record ('v, 'p, 'w) PluginFactory =
  f_Type :: string
  f_Name :: string
  f_Setup :: "'v \<Rightarrow> 'w \<Rightarrow> (unit, 'p) res \<times> 'w"
  f_Destroy :: "'p \<Rightarrow> 'w \<Rightarrow> 'w"
  f_Mainloop :: "'p \<Rightarrow> 'w \<Rightarrow> 'w"

record ('v, 'p, 'w) plugins =
  pluginFactoryMgr :: "string \<rightharpoonup> ('v, 'p, 'w) PluginFactory"
  pluginMgr :: "(string \<times> 'p) list"
  plugin_world :: 'w

type_synonym 'v PluginConfig = "(string \<times> (string \<times> 'v) list) list"

datatype plugin_err =
    UnmarshalFailed
  | LogPluginInitFailed
  | GetFactoryFailed string string
  | SetupFailed string string

definition constructPluginKey :: "string \<Rightarrow> string \<Rightarrow> string" where
  "constructPluginKey typ name = typ @ ''_'' @ name"

definition RegisterPluginFactory ::
  "('v, 'p, 'w) PluginFactory \<Rightarrow> ('v, 'p, 'w) plugins \<Rightarrow> ('v, 'p, 'w) plugins" where
  "RegisterPluginFactory f m =
     m\<lparr>pluginFactoryMgr := (pluginFactoryMgr m)(constructPluginKey (f_Type f) (f_Name f) \<mapsto> f)\<rparr>"

definition getPluginFactoryByKey ::
  "string \<Rightarrow> ('v, 'p, 'w) plugins \<Rightarrow> ('v, 'p, 'w) PluginFactory option" where
  "getPluginFactoryByKey key m = pluginFactoryMgr m key"

definition getPluginFactory ::
  "string \<Rightarrow> string \<Rightarrow> ('v, 'p, 'w) plugins \<Rightarrow> ('v, 'p, 'w) PluginFactory option" where
  "getPluginFactory t n m = pluginFactoryMgr m (constructPluginKey t n)"

definition registerPluginInst :: "string \<Rightarrow> 'p \<Rightarrow> ('v, 'p, 'w) plugins \<Rightarrow> ('v, 'p, 'w) plugins" where
  "registerPluginInst key plugin m = m\<lparr>pluginMgr := AList.update key plugin (pluginMgr m)\<rparr>"

definition GetPluginInst :: "string \<Rightarrow> string \<Rightarrow> ('v, 'p, 'w) plugins \<Rightarrow> 'p option" where
  "GetPluginInst typ name m = map_of (pluginMgr m) (constructPluginKey typ name)"

fun init_log_plugins ::
  "(string \<times> 'v) list \<Rightarrow> ('v, 'p, 'w) plugins \<Rightarrow> (plugin_err, unit) res \<times> ('v, 'p, 'w) plugins" where
  "init_log_plugins [] m = (Ok (), m)"
| "init_log_plugins ((n, v) # s) m =
     (case getPluginFactory ''log'' n m of
        None \<Rightarrow> init_log_plugins s m
      | Some f \<Rightarrow>
          let (r, w) = f_Setup f v (plugin_world m); m = m\<lparr>plugin_world := w\<rparr>
          in case r of
               Panic \<Rightarrow> (Panic, m)
             | Fail _ \<Rightarrow> (Fail LogPluginInitFailed, m)
             | Ok plugin \<Rightarrow>
                 init_log_plugins s (registerPluginInst (constructPluginKey ''log'' n) plugin m))"

fun init_type_plugins ::
  "string \<Rightarrow> (string \<times> 'v) list \<Rightarrow> ('v, 'p, 'w) plugins
    \<Rightarrow> (plugin_err, unit) res \<times> ('v, 'p, 'w) plugins" where
  "init_type_plugins t [] m = (Ok (), m)"
| "init_type_plugins t ((n, v) # s) m =
     (case getPluginFactory t n m of
        None \<Rightarrow> (Fail (GetFactoryFailed t n), m)
      | Some f \<Rightarrow>
          let (r, w) = f_Setup f v (plugin_world m); m = m\<lparr>plugin_world := w\<rparr>
          in case r of
               Panic \<Rightarrow> (Panic, m)
             | Fail _ \<Rightarrow> (Fail (SetupFailed t n), m)
             | Ok plugin \<Rightarrow>
                 init_type_plugins t s (registerPluginInst (constructPluginKey t n) plugin m))"

fun init_plugins ::
  "'v PluginConfig \<Rightarrow> ('v, 'p, 'w) plugins \<Rightarrow> (plugin_err, unit) res \<times> ('v, 'p, 'w) plugins" where
  "init_plugins [] m = (Ok (), m)"
| "init_plugins ((t, s) # cfg) m =
     (if t = ''log'' then init_plugins cfg m
      else case init_type_plugins t s m of
             (Ok _, m) \<Rightarrow> init_plugins cfg m
           | (r, m) \<Rightarrow> (r, m))"

text \<open>
  \<open>v.Unmarshal(&cfg)\<close> gives the configuration or fails.  \<open>v\<close> is not nil here; the application's
  call with a nil \<open>v\<close> is in theory \<open>App\<close>.
\<close>

definition Plugin_Init ::
  "'v PluginConfig option \<Rightarrow> ('v, 'p, 'w) plugins \<Rightarrow> (plugin_err, unit) res \<times> ('v, 'p, 'w) plugins" where
  "Plugin_Init unmarshalled m =
     (case unmarshalled of
        None \<Rightarrow> (Fail UnmarshalFailed, m)
      | Some cfg \<Rightarrow>
          (case map_of cfg ''log'' of
             None \<Rightarrow> init_plugins cfg m
           | Some s \<Rightarrow>
               (case init_log_plugins s m of
                  (Ok _, m) \<Rightarrow> init_plugins cfg m
                | (r, m) \<Rightarrow> (r, m))))"

definition Plugin_Reload :: "'c \<Rightarrow> ('v, 'p, 'w) plugins \<Rightarrow> plugin_err option \<times> ('v, 'p, 'w) plugins" where
  "Plugin_Reload v m = (None, m)"

text \<open>
  Each \<open>f.Mainloop(p)\<close> runs in its own goroutine.  The loops over the instances have an order of
  their own each.
\<close>

fun mainloop_all ::
  "(string \<times> 'p) list \<Rightarrow> ('v, 'p, 'w) plugins \<Rightarrow> (unit, ('v, 'p, 'w) plugins) res" where
  "mainloop_all [] m = Ok m"
| "mainloop_all ((k, p) # ps) m =
     (case getPluginFactoryByKey k m of
        None \<Rightarrow> Panic
      | Some f \<Rightarrow> mainloop_all ps (m\<lparr>plugin_world := f_Mainloop f p (plugin_world m)\<rparr>))"

definition Plugin_Mainloop :: "rank \<Rightarrow> ('v, 'p, 'w) plugins \<Rightarrow> (unit, ('v, 'p, 'w) plugins) res" where
  "Plugin_Mainloop rank m = mainloop_all (ranged rank (pluginMgr m)) m"

fun destroy_all ::
  "(string \<times> 'p) list \<Rightarrow> ('v, 'p, 'w) plugins \<Rightarrow> (unit, ('v, 'p, 'w) plugins) res" where
  "destroy_all [] m = Ok m"
| "destroy_all ((k, p) # ps) m =
     (case getPluginFactoryByKey k m of
        None \<Rightarrow> Panic
      | Some f \<Rightarrow> destroy_all ps (m\<lparr>plugin_world := f_Destroy f p (plugin_world m)\<rparr>))"

definition Plugin_Destroy :: "rank \<Rightarrow> ('v, 'p, 'w) plugins \<Rightarrow> (unit, ('v, 'p, 'w) plugins) res" where
  "Plugin_Destroy rank m = destroy_all (ranged rank (pluginMgr m)) m"

section \<open>Keys and factories\<close>

lemma constructPluginKey_inj:
  assumes "constructPluginKey t n = constructPluginKey t' n'"
    and "CHR ''_'' \<notin> set t" and "CHR ''_'' \<notin> set t'"
  shows "t = t' \<and> n = n'"
  using assms
proof (induction t arbitrary: t')
  case Nil
  then show ?case by (cases t') (auto simp: constructPluginKey_def)
next
  case (Cons c t)
  then show ?case by (cases t') (auto simp: constructPluginKey_def)
qed

lemma keys_distinct:
  assumes "distinct (map (\<lambda>(t, n, v). (t, n)) plan)" and "\<forall>t\<in>fst ` set plan. CHR ''_'' \<notin> set t"
  shows "distinct (map (\<lambda>(t, n, v). constructPluginKey t n) plan)"
proof -
  have "inj_on (\<lambda>(t, n). constructPluginKey t n) (set (map (\<lambda>(t, n, v). (t, n)) plan))"
  proof (rule inj_onI, clarify)
    fix t n t' n'
    assume "(t, n) \<in> set (map (\<lambda>(t, n, v). (t, n)) plan)"
      and "(t', n') \<in> set (map (\<lambda>(t, n, v). (t, n)) plan)"
      and eq: "constructPluginKey t n = constructPluginKey t' n'"
    then have "t \<in> fst ` set plan" "t' \<in> fst ` set plan" by force+
    with assms(2) constructPluginKey_inj [OF eq] show "t = t' \<and> n = n'" by blast
  qed
  moreover have "map (\<lambda>(t, n, v). constructPluginKey t n) plan
      = map (\<lambda>(t, n). constructPluginKey t n) (map (\<lambda>(t, n, v). (t, n)) plan)"
    by (simp add: comp_def split_beta)
  ultimately show ?thesis using assms(1) by (simp only: distinct_map)
qed

text \<open>The registry of factories, seen through their keys.\<close>

definition put_factory ::
  "string \<Rightarrow> ('v, 'p, 'w) PluginFactory \<Rightarrow> ('v, 'p, 'w) plugins \<Rightarrow> ('v, 'p, 'w) plugins" where
  "put_factory key f m = m\<lparr>pluginFactoryMgr := (pluginFactoryMgr m)(key \<mapsto> f)\<rparr>"

interpretation factories: last_wins_registry put_factory "\<lambda>m k. getPluginFactoryByKey k m"
  by unfold_locales (auto simp: put_factory_def getPluginFactoryByKey_def fun_eq_iff)

lemma RegisterPluginFactory_put:
  "RegisterPluginFactory f = put_factory (constructPluginKey (f_Type f) (f_Name f)) f"
  by (rule ext) (simp add: RegisterPluginFactory_def put_factory_def)

section \<open>Every instance has a factory\<close>

definition plugins_inv :: "('v, 'p, 'w) plugins \<Rightarrow> bool" where
  "plugins_inv m \<longleftrightarrow> distinct (map fst (pluginMgr m))
     \<and> (\<forall>k\<in>fst ` set (pluginMgr m). pluginFactoryMgr m k \<noteq> None)"

lemma registerPluginInst_inv [inv_rules]:
  "plugins_inv m \<Longrightarrow> getPluginFactory t n m \<noteq> None \<Longrightarrow>
     plugins_inv (registerPluginInst (constructPluginKey t n) p m)"
  by (auto simp: plugins_inv_def registerPluginInst_def getPluginFactory_def dom_update distinct_update)

lemma world_inv [inv_rules]: "plugins_inv m \<Longrightarrow> plugins_inv (m\<lparr>plugin_world := w\<rparr>)"
  by (simp add: plugins_inv_def)

lemma getPluginFactory_world [simp]:
  "getPluginFactory t n (m\<lparr>plugin_world := w\<rparr>) = getPluginFactory t n m"
  by (simp add: getPluginFactory_def)

lemma RegisterPluginFactory_inv [inv_rules]: "plugins_inv m \<Longrightarrow> plugins_inv (RegisterPluginFactory f m)"
  by (auto simp: plugins_inv_def RegisterPluginFactory_def)

lemma set_up_inv:
  "plugins_inv m \<Longrightarrow> getPluginFactory t n m = Some f \<Longrightarrow>
     plugins_inv (registerPluginInst (constructPluginKey t n) p (m\<lparr>plugin_world := w\<rparr>))"
  by (intro registerPluginInst_inv world_inv) simp_all

lemma init_log_plugins_inv [inv_rules]: "plugins_inv m \<Longrightarrow> plugins_inv (snd (init_log_plugins s m))"
proof (induction s arbitrary: m)
  case (Cons nv s)
  obtain n v where "nv = (n, v)" by (cases nv)
  with Cons.prems show ?case
    by (simp add: Let_def Cons.IH set_up_inv world_inv split: option.split prod.split res.split)
qed simp

lemma init_type_plugins_inv [inv_rules]: "plugins_inv m \<Longrightarrow> plugins_inv (snd (init_type_plugins t s m))"
proof (induction s arbitrary: m)
  case (Cons nv s)
  obtain n v where "nv = (n, v)" by (cases nv)
  with Cons.prems show ?case
    by (simp add: Let_def Cons.IH set_up_inv world_inv split: option.split prod.split res.split)
qed simp

lemma init_plugins_inv [inv_rules]: "plugins_inv m \<Longrightarrow> plugins_inv (snd (init_plugins cfg m))"
proof (induction cfg arbitrary: m)
  case (Cons ts cfg)
  obtain t s where "ts = (t, s)" by (cases ts)
  with Cons show ?case
    using init_type_plugins_inv [OF Cons.prems, of t s] by (auto split: prod.split res.split)
qed simp

lemma Plugin_Init_inv [inv_rules]:
  assumes "plugins_inv m"
  shows "plugins_inv (snd (Plugin_Init u m))"
proof -
  have "plugins_inv m'" if "init_log_plugins s m = (r, m')" for s r m'
    using init_log_plugins_inv [OF assms, of s] that by simp
  with assms show ?thesis
    by (auto simp: Plugin_Init_def intro: init_plugins_inv split: option.split prod.split res.split)
qed

lemma mainloop_all_returns:
  assumes "\<forall>k\<in>fst ` set ps. pluginFactoryMgr m k \<noteq> None"
  shows "\<exists>w. mainloop_all ps m = Ok (m\<lparr>plugin_world := w\<rparr>)"
  using assms
proof (induction ps arbitrary: m)
  case Nil
  have "m = m\<lparr>plugin_world := plugin_world m\<rparr>" by simp
  then show ?case by (metis mainloop_all.simps(1))
next
  case (Cons kp ps)
  obtain k p where kp: "kp = (k, p)" by (cases kp)
  with Cons.prems obtain f where f: "pluginFactoryMgr m k = Some f" by auto
  from Cons.prems Cons.IH [of "m\<lparr>plugin_world := f_Mainloop f p (plugin_world m)\<rparr>"] kp f
  show ?case by (simp add: getPluginFactoryByKey_def)
qed

lemma destroy_all_returns:
  assumes "\<forall>k\<in>fst ` set ps. pluginFactoryMgr m k \<noteq> None"
  shows "\<exists>w. destroy_all ps m = Ok (m\<lparr>plugin_world := w\<rparr>)"
  using assms
proof (induction ps arbitrary: m)
  case Nil
  have "m = m\<lparr>plugin_world := plugin_world m\<rparr>" by simp
  then show ?case by (metis destroy_all.simps(1))
next
  case (Cons kp ps)
  obtain k p where kp: "kp = (k, p)" by (cases kp)
  with Cons.prems obtain f where f: "pluginFactoryMgr m k = Some f" by auto
  from Cons.prems Cons.IH [of "m\<lparr>plugin_world := f_Destroy f p (plugin_world m)\<rparr>"] kp f
  show ?case by (simp add: getPluginFactoryByKey_def)
qed

lemma Plugin_Mainloop_returns:
  "plugins_inv m \<Longrightarrow> \<exists>w. Plugin_Mainloop rank m = Ok (m\<lparr>plugin_world := w\<rparr>)"
  by (simp add: Plugin_Mainloop_def plugins_inv_def mainloop_all_returns)

lemma Plugin_Destroy_returns:
  "plugins_inv m \<Longrightarrow> \<exists>w. Plugin_Destroy rank m = Ok (m\<lparr>plugin_world := w\<rparr>)"
  by (simp add: Plugin_Destroy_def plugins_inv_def destroy_all_returns)

datatype ('v, 'p, 'w) plugin_op =
    OpRegisterFactory "('v, 'p, 'w) PluginFactory"
  | OpInit "'v PluginConfig option"
  | OpMainloop rank
  | OpDestroy rank

text \<open>A step of the manager; \<open>None\<close> is a panic of the manager itself.\<close>

fun plugin_step :: "('v, 'p, 'w) plugin_op \<Rightarrow> ('v, 'p, 'w) plugins \<Rightarrow> ('v, 'p, 'w) plugins option" where
  "plugin_step (OpRegisterFactory f) m = Some (RegisterPluginFactory f m)"
| "plugin_step (OpInit u) m = Some (snd (Plugin_Init u m))"
| "plugin_step (OpMainloop rank) m = (case Plugin_Mainloop rank m of Ok m \<Rightarrow> Some m | _ \<Rightarrow> None)"
| "plugin_step (OpDestroy rank) m = (case Plugin_Destroy rank m of Ok m \<Rightarrow> Some m | _ \<Rightarrow> None)"

interpretation plugin_sys: invariant_system plugin_step plugins_inv "\<lambda>_. True"
proof
  fix m :: "('a, 'b, 'c) plugins" and e :: "('a, 'b, 'c) plugin_op"
  assume "plugins_inv m"
  then show "\<exists>m'. plugin_step e m = Some m' \<and> plugins_inv m'"
  proof (cases e)
    case (OpMainloop rank)
    with Plugin_Mainloop_returns [OF \<open>plugins_inv m\<close>, of rank] \<open>plugins_inv m\<close> show ?thesis
      by (auto intro: inv_rules)
  next
    case (OpDestroy rank)
    with Plugin_Destroy_returns [OF \<open>plugins_inv m\<close>, of rank] \<open>plugins_inv m\<close> show ?thesis
      by (auto intro: inv_rules)
  qed (auto intro: inv_rules)
qed

section \<open>Order and effect of the start\<close>

text \<open>
  What the start promises: the plugins of a plan are set up one after the other, each by its
  factory, and entered in the table; anything else stops the start.
\<close>

fun setup_plan ::
  "(string \<times> string \<times> 'v) list \<Rightarrow> ('v, 'p, 'w) plugins \<Rightarrow> ('v, 'p, 'w) plugins option" where
  "setup_plan [] m = Some m"
| "setup_plan ((t, n, v) # plan) m =
     (case getPluginFactory t n m of
        None \<Rightarrow> None
      | Some f \<Rightarrow>
          (case f_Setup f v (plugin_world m) of
             (Ok p, w) \<Rightarrow>
               setup_plan plan (registerPluginInst (constructPluginKey t n) p (m\<lparr>plugin_world := w\<rparr>))
           | _ \<Rightarrow> None))"

definition entries :: "string \<Rightarrow> (string \<times> 'v) list \<Rightarrow> (string \<times> string \<times> 'v) list" where
  "entries t s = map (\<lambda>(n, v). (t, n, v)) s"

definition start_plan :: "'v PluginConfig \<Rightarrow> ('v, 'p, 'w) plugins \<Rightarrow> (string \<times> string \<times> 'v) list" where
  "start_plan cfg m =
     filter (\<lambda>(t, n, v). getPluginFactory t n m \<noteq> None)
       (entries ''log'' (case map_of cfg ''log'' of None \<Rightarrow> [] | Some s \<Rightarrow> s))
     @ concat (map (\<lambda>(t, s). entries t s) (filter (\<lambda>(t, s). t \<noteq> ''log'') cfg))"

lemma setup_plan_append:
  "setup_plan (p @ q) m = (case setup_plan p m of None \<Rightarrow> None | Some m \<Rightarrow> setup_plan q m)"
  by (induction p m rule: setup_plan.induct) (auto split: option.split prod.split res.split)

lemma getPluginFactory_inst [simp]:
  "getPluginFactory t n (registerPluginInst k p m) = getPluginFactory t n m"
  by (simp add: getPluginFactory_def registerPluginInst_def)

lemma init_log_plugins_plan:
  "init_log_plugins s m = (Ok (), m') \<longleftrightarrow>
     setup_plan (filter (\<lambda>(t, n, v). getPluginFactory t n m \<noteq> None) (entries ''log'' s)) m = Some m'"
proof (induction s arbitrary: m)
  case (Cons nv s)
  obtain n v where "nv = (n, v)" by (cases nv)
  with Cons show ?case
    by (auto simp: entries_def Let_def split: option.split prod.split res.split)
qed (simp add: entries_def)

lemma init_type_plugins_plan:
  "init_type_plugins t s m = (Ok (), m') \<longleftrightarrow> setup_plan (entries t s) m = Some m'"
proof (induction s arbitrary: m)
  case (Cons nv s)
  obtain n v where "nv = (n, v)" by (cases nv)
  with Cons show ?case
    by (auto simp: entries_def Let_def split: option.split prod.split res.split)
qed (simp add: entries_def)

lemma init_plugins_plan:
  "init_plugins cfg m = (Ok (), m') \<longleftrightarrow>
     setup_plan (concat (map (\<lambda>(t, s). entries t s) (filter (\<lambda>(t, s). t \<noteq> ''log'') cfg))) m = Some m'"
proof (induction cfg arbitrary: m)
  case (Cons ts cfg)
  obtain t s where ts: "ts = (t, s)" by (cases ts)
  obtain r m1 where r: "init_type_plugins t s m = (r, m1)" by fastforce
  show ?case
  proof (cases r)
    case (Ok u)
    with r init_type_plugins_plan [of t s m m1] have "setup_plan (entries t s) m = Some m1" by simp
    with Ok r Cons.IH ts show ?thesis by (simp add: setup_plan_append)
  qed (use r init_type_plugins_plan [of t s m] Cons.IH ts in
      \<open>auto simp: setup_plan_append split: option.splits\<close>)
qed simp

lemma Plugin_Init_plan:
  "Plugin_Init (Some cfg) m = (Ok (), m') \<longleftrightarrow> setup_plan (start_plan cfg m) m = Some m'"
proof (cases "map_of cfg ''log''")
  case None
  then show ?thesis by (simp add: Plugin_Init_def start_plan_def entries_def init_plugins_plan)
next
  case (Some s)
  obtain r m1 where r: "init_log_plugins s m = (r, m1)" by fastforce
  show ?thesis
  proof (cases r)
    case (Ok u)
    with r init_log_plugins_plan [of s m m1] Some show ?thesis
      by (simp add: Plugin_Init_def start_plan_def setup_plan_append init_plugins_plan)
  qed (use r init_log_plugins_plan [of s m] Some in
      \<open>auto simp: Plugin_Init_def start_plan_def setup_plan_append split: option.splits\<close>)
qed

text \<open>After a plan has run, each of its entries is found with the value its factory made.\<close>

lemma setup_plan_keeps:
  assumes "setup_plan plan m = Some m'" and "k \<notin> set (map (\<lambda>(t, n, v). constructPluginKey t n) plan)"
  shows "map_of (pluginMgr m') k = map_of (pluginMgr m) k"
  using assms
proof (induction plan arbitrary: m)
  case (Cons e plan)
  obtain t n v where "e = (t, n, v)" by (cases e)
  with Cons.prems Cons.IH show ?case
    by (fastforce simp: registerPluginInst_def split: option.splits prod.splits res.splits)
qed simp

lemma setup_plan_lookup:
  assumes "setup_plan plan m = Some m'" and "(t, n, v) \<in> set plan"
    and "distinct (map (\<lambda>(t, n, v). constructPluginKey t n) plan)"
  shows "\<exists>f w p w'. getPluginFactory t n m = Some f \<and> f_Setup f v w = (Ok p, w')
    \<and> GetPluginInst t n m' = Some p"
  using assms
proof (induction plan arbitrary: m)
  case (Cons e plan)
  obtain t1 n1 v1 where e: "e = (t1, n1, v1)" by (cases e)
  with Cons.prems(1) obtain f p w where f: "getPluginFactory t1 n1 m = Some f"
    "f_Setup f v1 (plugin_world m) = (Ok p, w)"
    "setup_plan plan (registerPluginInst (constructPluginKey t1 n1) p (m\<lparr>plugin_world := w\<rparr>)) = Some m'"
    by (auto split: option.splits prod.splits res.splits)
  show ?case
  proof (cases "(t, n, v) = e")
    case True
    with f e Cons.prems(3) setup_plan_keeps [OF f(3), of "constructPluginKey t n"]
    have "GetPluginInst t n m' = Some p"
      by (simp add: GetPluginInst_def registerPluginInst_def)
    with True e f show ?thesis by auto
  next
    case False
    with Cons.prems(2,3) Cons.IH [OF f(3)] show ?thesis by simp
  qed
qed simp

section \<open>Properties\<close>

definition no_plugins :: "'w \<Rightarrow> ('v, 'p, 'w) plugins" where
  "no_plugins w = \<lparr>pluginFactoryMgr = Map.empty, pluginMgr = [], plugin_world = w\<rparr>"

text \<open>
  C18.  In every run of registrations, starts (successful or not), main loops and destructions
  from the empty manager, no instance is without a factory, so neither the main loop nor the
  destruction calls a method of a missing factory.
\<close>

theorem plugin_runs_never_panic:
  "\<exists>m. run_ops plugin_step es (no_plugins w) = Some m \<and> plugins_inv m"
proof -
  have inv: "plugins_inv (no_plugins w)" by (simp add: no_plugins_def plugins_inv_def)
  from plugin_sys.run_returns [OF inv, of es] show ?thesis by (simp add: list_all_iff)
qed

text \<open>
  C19.  The start succeeds exactly when the plan succeeds: first the configured log plugins that
  have a factory, then all others, in order; every other type must have its factory.
\<close>

theorem plugin_init_refines_plan:
  "Plugin_Init (Some cfg) m = (Ok (), m') \<longleftrightarrow> setup_plan (start_plan cfg m) m = Some m'"
  by (rule Plugin_Init_plan)

text \<open>
  After a successful start every planned plugin is found under its type and name, with the
  instance its own factory made, provided no two keys coincide (the key joins type and name with
  an underscore, so types without underscores are enough).
\<close>

theorem plugin_lookup_after_init:
  assumes "Plugin_Init (Some cfg) m = (Ok (), m')" and "(t, n, v) \<in> set (start_plan cfg m)"
    and "distinct (map (\<lambda>(t, n, v). (t, n)) (start_plan cfg m))"
    and "\<forall>t\<in>fst ` set (start_plan cfg m). CHR ''_'' \<notin> set t"
  shows "\<exists>f w p w'. getPluginFactory t n m = Some f \<and> f_Setup f v w = (Ok p, w')
    \<and> GetPluginInst t n m' = Some p"
proof (rule setup_plan_lookup)
  show "setup_plan (start_plan cfg m) m = Some m'"
    using assms(1) Plugin_Init_plan [of cfg m m'] by simp
  show "distinct (map (\<lambda>(t, n, v). constructPluginKey t n) (start_plan cfg m))"
    using keys_distinct [OF assms(3,4)] .
qed (rule assms(2))

definition id_factory :: "string \<Rightarrow> string \<Rightarrow> (nat, nat, unit) PluginFactory" where
  "id_factory t n = \<lparr>f_Type = t, f_Name = n, f_Setup = (\<lambda>v w. (Ok v, w)),
     f_Destroy = (\<lambda>p w. w), f_Mainloop = (\<lambda>p w. w)\<rparr>"

theorem plugin_lookup_after_init_witness:
  "\<exists>f w p w'. getPluginFactory ''mq'' ''kafka'' (RegisterPluginFactory (id_factory ''mq'' ''kafka'') (no_plugins ()))
       = Some f \<and> f_Setup f 7 w = (Ok p, w')
     \<and> GetPluginInst ''mq'' ''kafka'' (snd (Plugin_Init (Some [(''mq'', [(''kafka'', 7)])])
          (RegisterPluginFactory (id_factory ''mq'' ''kafka'') (no_plugins ())))) = Some p"
  by (rule plugin_lookup_after_init [where cfg = "[(''mq'', [(''kafka'', 7)])]"])
    (simp_all add: Plugin_Init_def getPluginFactory_def RegisterPluginFactory_def id_factory_def
      no_plugins_def constructPluginKey_def start_plan_def entries_def registerPluginInst_def)

end
