(* ===== verification/Process.thy ===== *)
theory Process
  imports Go_Strconv
begin

text \<open>
  The pid file of \<^verbatim>\<open>src/common/process/process.go\<close> and the signal table of
  \<^verbatim>\<open>src/common/signal/signal.go\<close>.  The host is a record: the files under their paths, whether
  the file system takes a write, and the signals sent to each process id so far.  \<open>Daemon\<close> acts on
  the process it runs in: it returns there, or ends it and leaves a child.
\<close>

section \<open>The pid file\<close>

record host =
  files :: "string \<rightharpoonup> string"
  writable_fs :: bool
  signals_sent :: "(int \<times> int) list"
  self_pid :: nat

datatype process_err = ReadErr | ParsePidErr | SignalErr | WritePidErr

definition pid_path :: "string \<Rightarrow> string" where
  "pid_path entityid = ''/tmp/'' @ entityid @ ''.pid''"

definition GetProcessPid :: "string \<Rightarrow> host \<Rightarrow> (process_err, int) res" where
  "GetProcessPid entityid w =
     (case files w (pid_path entityid) of
        None \<Rightarrow> Fail ReadErr
      | Some content \<Rightarrow>
          (case Atoi (filter (\<lambda>c. c \<noteq> CHR 0x0A) content) of
             None \<Rightarrow> Fail ParsePidErr
           | Some pid \<Rightarrow> Ok pid))"

definition SIGKILL :: int where "SIGKILL = 9"

text \<open>Whether the kill succeeds only decides about a pause and a log line.\<close>

definition KillProcess :: "string \<Rightarrow> host \<Rightarrow> process_err option \<times> host" where
  "KillProcess entityid w =
     (case GetProcessPid entityid w of
        Ok pid \<Rightarrow> (None, w\<lparr>signals_sent := signals_sent w @ [(pid, SIGKILL)]\<rparr>)
      | Fail err \<Rightarrow> (Some err, w)
      | Panic \<Rightarrow> (Some ReadErr, w))"

text \<open>\<open>alive\<close> says which processes take a signal.\<close>

definition SendSignal :: "(int \<Rightarrow> bool) \<Rightarrow> string \<Rightarrow> int \<Rightarrow> host \<Rightarrow> process_err option \<times> host" where
  "SendSignal alive entityid sig w =
     (case GetProcessPid entityid w of
        Ok pid \<Rightarrow>
          if alive pid then (None, w\<lparr>signals_sent := signals_sent w @ [(pid, sig)]\<rparr>)
          else (Some SignalErr, w)
      | Fail err \<Rightarrow> (Some err, w)
      | Panic \<Rightarrow> (Some ReadErr, w))"

definition WritePidFile :: "string \<Rightarrow> host \<Rightarrow> process_err option \<times> host" where
  "WritePidFile entityid w =
     (if writable_fs w
      then (None, w\<lparr>files := (files w)(pid_path entityid \<mapsto> Itoa (self_pid w))\<rparr>)
      else (Some WritePidErr, w))"

definition KillPre :: "string \<Rightarrow> host \<Rightarrow> process_err option \<times> host" where
  "KillPre entityid w =
     (case KillProcess entityid w of
        (Some err, w) \<Rightarrow> (Some err, w)
      | (None, w) \<Rightarrow> WritePidFile entityid w)"

section \<open>Daemon\<close>

text \<open>\<open>os.OpenFile("/dev/null", 0, 0)\<close> opens for reading only.\<close>

datatype fd = Stdin | Stdout | Stderr | NullReadOnly

record process =
  ppid :: int
  cwd :: string
  umask :: int
  session_leader :: bool
  fds :: "fd list"

datatype daemon_result = DaemonReturns int bool process | ParentExits process

text \<open>
  The result and whether there is an error; or the parent exits, with the child it has started.
  \<open>parent\<close> is the process id that the child sees as its parent.
\<close>

definition Daemon :: "bool \<Rightarrow> bool \<Rightarrow> int \<Rightarrow> int \<Rightarrow> int \<Rightarrow> process \<Rightarrow> daemon_result" where
  "Daemon null_ok start_ok parent nochdir noclose p =
     (if ppid p = 1
      then let p = p\<lparr>umask := 0\<rparr>;
               p = (if nochdir = 0 then p\<lparr>cwd := ''/''\<rparr> else p)
           in DaemonReturns 0 False p
      else if noclose = 0 \<and> \<not> null_ok then DaemonReturns 1 True p
      else
        let files = (if noclose = 0 then replicate 3 NullReadOnly else [Stdin, Stdout, Stderr])
        in if \<not> start_ok then DaemonReturns (- 1) True p
           else ParentExits \<lparr>ppid = parent, cwd = cwd p, umask = umask p, session_leader = True, fds = files\<rparr>)"

text \<open>
  The child runs the program again and calls \<open>Daemon\<close> again: the generations of processes, each
  with the parent it sees, until one returns; \<open>None\<close>: none has so far.
\<close>

fun daemon_generations :: "int list \<Rightarrow> int \<Rightarrow> int \<Rightarrow> process \<Rightarrow> (int \<times> bool \<times> process) option" where
  "daemon_generations [] nochdir noclose p = None"
| "daemon_generations (parent # parents) nochdir noclose p =
     (case Daemon True True parent nochdir noclose p of
        DaemonReturns r err p \<Rightarrow> Some (r, err, p)
      | ParentExits child \<Rightarrow> daemon_generations parents nochdir noclose child)"

section \<open>Signal handlers\<close>

record 'h signals =
  sigHandlers :: "int \<rightharpoonup> 'h"
  notified :: "int set"

fun RegisterSignalHandler :: "int list \<Rightarrow> 'h \<Rightarrow> 'h signals \<Rightarrow> 'h signals" where
  "RegisterSignalHandler [] handler s = s"
| "RegisterSignalHandler (sig # sigs) handler s =
     RegisterSignalHandler sigs handler (s\<lparr>sigHandlers := (sigHandlers s)(sig \<mapsto> handler)\<rparr>)"

definition StartSignal :: "'h signals \<Rightarrow> 'h signals" where
  "StartSignal s = (if sigHandlers s = Map.empty then s else s\<lparr>notified := dom (sigHandlers s)\<rparr>)"

text \<open>What the goroutine does with a signal; one that is not notified does not reach it.\<close>

definition on_signal :: "int \<Rightarrow> 'h signals \<Rightarrow> 'h option" where
  "on_signal sig s = (if sig \<in> notified s then sigHandlers s sig else None)"

definition put_handler :: "int \<Rightarrow> 'h \<Rightarrow> 'h signals \<Rightarrow> 'h signals" where
  "put_handler sig h = RegisterSignalHandler [sig] h"

interpretation handlers: last_wins_registry put_handler "sigHandlers"
  by unfold_locales (simp add: put_handler_def)

lemma RegisterSignalHandler_fold:
  "RegisterSignalHandler sigs h s = fold (\<lambda>(sig, h). put_handler sig h) (map (\<lambda>sig. (sig, h)) sigs) s"
  by (induction sigs arbitrary: s) (simp_all add: put_handler_def)

lemma sigHandlers_Register:
  "sigHandlers (RegisterSignalHandler sigs h s) k = (if k \<in> set sigs then Some h else sigHandlers s k)"
  by (induction sigs arbitrary: s) auto

section \<open>Properties\<close>

text \<open>
  The pid file round trip: after the file has been written, reading it gives the own
  process id, whatever was in the file before.
\<close>

theorem pid_file_round_trip:
  assumes "self_pid w < 2 ^ 63" and "WritePidFile entityid w = (None, w')"
  shows "GetProcessPid entityid w' = Ok (int (self_pid w))"
proof -
  have "filter (\<lambda>c. c \<noteq> CHR 0x0A) (Itoa n) = Itoa n" for n
    using Itoa_digits [of "CHR 0x0A" n] by (auto simp: filter_id_conv digit_value_def)
  with assms show ?thesis
    by (auto simp: WritePidFile_def GetProcessPid_def Atoi_Itoa split: if_splits)
qed

theorem pid_file_round_trip_witness:
  "GetProcessPid ''s1'' (snd (WritePidFile ''s1''
     \<lparr>files = Map.empty, writable_fs = True, signals_sent = [], self_pid = 421\<rparr>)) = Ok 421"
  using pid_file_round_trip [of "\<lparr>files = Map.empty, writable_fs = True, signals_sent = [], self_pid = 421\<rparr>"
      "''s1''" "snd (WritePidFile ''s1''
        \<lparr>files = Map.empty, writable_fs = True, signals_sent = [], self_pid = 421\<rparr>)"]
  by (simp add: WritePidFile_def)

text \<open>
  Turning into a daemon works out in one generation when the child is adopted by process 1: the
  child leads a session of its own, has the root as its directory and the mask 0.  It has no
  stream it could write to: the null device was opened for reading.
\<close>

theorem daemon_second_generation:
  assumes "ppid p \<noteq> 1"
  shows "daemon_generations (1 # q # parents) 0 0 p =
    Some (0, False, \<lparr>ppid = 1, cwd = ''/'', umask = 0, session_leader = True, fds = replicate 3 NullReadOnly\<rparr>)"
  using assms by (simp add: Daemon_def)

text \<open>
  Where orphans are adopted by another process than 1 (a subreaper, as under a service manager of
  a user or in a container), no generation ever returns from \<open>Daemon\<close>: every child starts the next.
\<close>

theorem daemon_respawns_forever:
  assumes "ppid p \<noteq> 1" and "1 \<notin> set parents"
  shows "daemon_generations parents nochdir noclose p = None"
  using assms
proof (induction parents arbitrary: p)
  case (Cons parent parents)
  then show ?case by (simp add: Daemon_def)
qed simp

text \<open>
  \<open>KillPre\<close> is documented to write the pid file, but gives up when there is none: starting
  with no pid file it fails, changes nothing, and no number of starts ever writes the file, so
  that the stop and reload commands never find the server.
\<close>

theorem pid_file_never_created:
  assumes "files w (pid_path entityid) = None"
  shows "((\<lambda>w. snd (KillPre entityid w)) ^^ n) w = w \<and> fst (KillPre entityid w) = Some ReadErr
    \<and> SendSignal alive entityid sig w = (Some ReadErr, w)"
proof -
  have "KillPre entityid w = (Some ReadErr, w)"
    using assms by (simp add: KillPre_def KillProcess_def GetProcessPid_def)
  moreover from this have "((\<lambda>w. snd (KillPre entityid w)) ^^ n) w = w" by (induction n) simp_all
  ultimately show ?thesis using assms by (simp add: SendSignal_def GetProcessPid_def)
qed

theorem pid_file_never_created_witness:
  "KillPre ''s1'' \<lparr>files = Map.empty, writable_fs = True, signals_sent = [], self_pid = 421\<rparr>
     = (Some ReadErr, \<lparr>files = Map.empty, writable_fs = True, signals_sent = [], self_pid = 421\<rparr>)"
  using pid_file_never_created [of "\<lparr>files = Map.empty, writable_fs = True, signals_sent = [], self_pid = 421\<rparr>"
      "''s1''" 1 "\<lambda>_. True" 1]
  by (auto intro: prod_eqI)

end
