(* ===== verification/App.thy ===== *)
theory App
  imports Config Plugin Process
begin

text \<open>
  The server application of \<^verbatim>\<open>src/server_base/app\<close> (\<^verbatim>\<open>app.go\<close>, \<^verbatim>\<open>module.go\<close>): the container of
  modules and the life cycle start, main loop, reload, quit, end, on top of the configuration,
  the plugin manager, the pid file and the signal table.  Modules and plugins act on one world
  \<open>'w\<close>; of the plugin manager a module sees \<open>GetPluginInst\<close>, which is given to it.  \<open>Init\<close> and \<open>UnInit\<close>
  of a module may fail or panic, \<open>Mainloop\<close> and \<open>OnReload\<close> return.  What the code takes from \<open>viper\<close> (\<open>GetString\<close>, \<open>Sub\<close>) and the type assertion on the tcp
  plugin are arguments.  The main loop is a function of the events it gets: a tick of its ticker
  or a signal.  The container is a Go map: every loop over it, two in \<open>Init\<close> and in \<open>Fini\<close>, one in every
  \<open>onFrame\<close> and in every \<open>Reload\<close>, visits the modules in an order of its own (a \<open>rank\<close>).
\<close>

section \<open>Modules\<close>

type_synonym 'p plugin_lookup = "string \<Rightarrow> string \<Rightarrow> 'p option"

record ('p, 'w) ServerModule =
  m_Init :: "'p plugin_lookup \<Rightarrow> 'w \<Rightarrow> (string, unit) res \<times> 'w"
  m_UnInit :: "'p plugin_lookup \<Rightarrow> 'w \<Rightarrow> (string, unit) res \<times> 'w"
  m_Mainloop :: "'w \<Rightarrow> 'w"
  m_IsPreInit :: bool
  m_GetName :: string
  m_OnReload :: "'w \<Rightarrow> 'w"

type_synonym ('p, 'w) moduleCont = "(string \<times> ('p, 'w) ServerModule) list"

definition getModuleCount :: "('p, 'w) moduleCont \<Rightarrow> nat" where
  "getModuleCount mc = length mc"

definition registerModule :: "('p, 'w) ServerModule \<Rightarrow> ('p, 'w) moduleCont \<Rightarrow> ('p, 'w) moduleCont" where
  "registerModule m mc = AList.update (m_GetName m) m mc"

definition unRegisterModule :: "string \<Rightarrow> ('p, 'w) moduleCont \<Rightarrow> ('p, 'w) moduleCont" where
  "unRegisterModule name mc = AList.delete name mc"

definition getModule :: "string \<Rightarrow> ('p, 'w) moduleCont \<Rightarrow> ('p, 'w) ServerModule option" where
  "getModule name mc = map_of mc name"

definition put_module :: "string \<Rightarrow> ('p, 'w) ServerModule \<Rightarrow> ('p, 'w) moduleCont \<Rightarrow> ('p, 'w) moduleCont" where
  "put_module name m mc = AList.update name m mc"

text \<open>
  The exported functions on the container of the package; \<open>GetModule\<close> reports a missing module.
\<close>

definition RegisterModule :: "('p, 'w) ServerModule \<Rightarrow> ('p, 'w) moduleCont \<Rightarrow> string option \<times> ('p, 'w) moduleCont" where
  "RegisterModule m mc = (None, registerModule m mc)"

definition GetModule :: "string \<Rightarrow> ('p, 'w) moduleCont \<Rightarrow> string + ('p, 'w) ServerModule" where
  "GetModule name mc =
     (case getModule name mc of
        None \<Rightarrow> Inl (''get module '' @ name @ '' failed'')
      | Some m \<Rightarrow> Inr m)"

definition GetModuleCount :: "('p, 'w) moduleCont \<Rightarrow> nat" where
  "GetModuleCount mc = getModuleCount mc"

interpretation modules: last_wins_registry put_module "\<lambda>mc name. getModule name mc"
  by unfold_locales (auto simp: put_module_def getModule_def fun_eq_iff)

lemma registerModule_put: "registerModule m = put_module (m_GetName m) m"
  by (rule ext) (simp add: registerModule_def put_module_def)

section \<open>The application\<close>

datatype sig_action = QuitAction | ReloadAction

record ('v, 'p, 'w) serverApp =
  serverName :: string
  serverID :: string
  lastReloadTime :: int
  moduleCont :: "('p, 'w) moduleCont"
  app_config :: "'v configData option"
  app_plugins :: "('v, 'p, 'w) plugins"
  app_host :: host
  app_signals :: "sig_action signals"

abbreviation app_world :: "('v, 'p, 'w) serverApp \<Rightarrow> 'w" where
  "app_world s \<equiv> plugin_world (app_plugins s)"

definition set_world :: "'w \<Rightarrow> ('v, 'p, 'w) serverApp \<Rightarrow> ('v, 'p, 'w) serverApp" where
  "set_world w s = s\<lparr>app_plugins := (app_plugins s)\<lparr>plugin_world := w\<rparr>\<rparr>"

datatype app_err = ConfigErr config_err | PluginErr plugin_err | ModuleErr string

text \<open>How a call of the application ends: it returns, or the process exits or panics.\<close>

datatype app_outcome = Returned "app_err option" | Exited | Panicked

definition SIGINT :: int where "SIGINT = 2"
definition SIGUSR1 :: int where "SIGUSR1 = 10"
definition SIGUSR2 :: int where "SIGUSR2 = 12"

text \<open>
  What the code uses of the host and of \<open>viper\<close> during the start.  \<open>sub_plugin\<close> is \<open>None\<close> when
  \<open>conf.Sub("plugin")\<close> is nil, and otherwise what \<open>Unmarshal\<close> makes of it; \<open>init_ranks\<close> are the orders
  of the two loops over the modules.
\<close>

record ('v, 'p, 'w) app_env =
  new_viper :: 'v
  flag_conf :: "string option"
  flag_command :: "string option"
  flag_daemon :: "bool option"
  read_config :: "string \<Rightarrow> 'v option"
  get_serverid :: "'v \<Rightarrow> string"
  sub_plugin :: "'v \<Rightarrow> 'v PluginConfig option option"
  is_alive :: "int \<Rightarrow> bool"
  is_tcp :: "'p \<Rightarrow> bool"
  tcp_init :: "'p \<Rightarrow> 'w \<Rightarrow> 'w"
  init_ranks :: "rank \<times> rank"

text \<open>One pass over the modules, for those with the given \<open>IsPreInit\<close>; it stops at an error.\<close>

fun module_pass ::
  "(('p, 'w) ServerModule \<Rightarrow> 'w \<Rightarrow> (string, unit) res \<times> 'w) \<Rightarrow> bool \<Rightarrow> ('p, 'w) moduleCont \<Rightarrow> 'w
    \<Rightarrow> (string, unit) res \<times> 'w" where
  "module_pass act pre [] w = (Ok (), w)"
| "module_pass act pre ((_, m) # mc) w =
     (if m_IsPreInit m = pre
      then case act m w of (Ok _, w) \<Rightarrow> module_pass act pre mc w | (r, w) \<Rightarrow> (r, w)
      else module_pass act pre mc w)"

text \<open>The two loops of \<open>Init\<close> and of \<open>Fini\<close>, each in an order of its own.\<close>

definition two_passes ::
  "(('p, 'w) ServerModule \<Rightarrow> 'w \<Rightarrow> (string, unit) res \<times> 'w) \<Rightarrow> rank \<times> rank \<Rightarrow> ('p, 'w) moduleCont \<Rightarrow> 'w
    \<Rightarrow> (string, unit) res \<times> 'w" where
  "two_passes act ranks mc w =
     (case module_pass act True (ranged (fst ranks) mc) w of
        (Ok _, w) \<Rightarrow> module_pass act False (ranged (snd ranks) mc) w
      | (r, w) \<Rightarrow> (r, w))"

definition lookup_of :: "('v, 'p, 'w) plugins \<Rightarrow> 'p plugin_lookup" where
  "lookup_of m typ name = GetPluginInst typ name m"

text \<open>\<open>initInputParam\<close>: the stop and reload commands signal the running server and exit.\<close>

definition initInputParam ::
  "('v, 'p, 'w) app_env \<Rightarrow> string \<Rightarrow> ('v, 'p, 'w) serverApp \<Rightarrow> app_outcome \<times> ('v, 'p, 'w) serverApp" where
  "initInputParam env cmd s =
     (if cmd = ''stop''
      then (Exited, s\<lparr>app_host := snd (SendSignal (is_alive env) (serverID s) SIGUSR1 (app_host s))\<rparr>)
      else if cmd = ''reload''
      then (Exited, s\<lparr>app_host := snd (SendSignal (is_alive env) (serverID s) SIGUSR2 (app_host s))\<rparr>)
      else (Returned None, s))"

fun module_outcome :: "(string, unit) res \<Rightarrow> app_outcome" where
  "module_outcome (Ok _) = Returned None"
| "module_outcome (Fail err) = Returned (Some (ModuleErr err))"
| "module_outcome Panic = Panicked"

definition start_modules :: "rank \<times> rank \<Rightarrow> ('v, 'p, 'w) serverApp \<Rightarrow> app_outcome \<times> ('v, 'p, 'w) serverApp" where
  "start_modules ranks s =
     (let (r, w) = two_passes (\<lambda>m. m_Init m (lookup_of (app_plugins s))) ranks (moduleCont s) (app_world s)
      in (module_outcome r, set_world w s))"

text \<open>
  The errors of \<open>KillPre\<close> and of the transport's \<open>Init\<close> are dropped.  A configuration without a
  plugin section makes \<open>plugin.Init\<close> call a method of a nil \<open>viper\<close>.
\<close>

definition App_Init ::
  "('v, 'p, 'w) app_env \<Rightarrow> ('v, 'p, 'w) serverApp \<Rightarrow> app_outcome \<times> ('v, 'p, 'w) serverApp" where
  "App_Init env s =
     (case Config_Init (new_viper env) (flag_conf env) (flag_command env) (flag_daemon env)
             (read_config env) of
        (Some err, c) \<Rightarrow> (Returned (Some (ConfigErr err)), s\<lparr>app_config := Some c\<rparr>)
      | (None, c) \<Rightarrow>
          (case initInputParam env (GetCommand c)
                  (s\<lparr>app_config := Some c, serverID := get_serverid env (active c)\<rparr>) of
             (Returned None, s) \<Rightarrow>
               let s = s\<lparr>app_host := snd (KillPre (serverID s) (app_host s))\<rparr>
               in (case sub_plugin env (active c) of
                     None \<Rightarrow> (Panicked, s)
                   | Some unmarshalled \<Rightarrow>
                       let (r, m) = Plugin_Init unmarshalled (app_plugins s);
                           s = s\<lparr>app_plugins := m\<rparr>
                       in (case r of
                             Fail err \<Rightarrow> (Returned (Some (PluginErr err)), s)
                           | Panic \<Rightarrow> (Panicked, s)
                           | Ok _ \<Rightarrow>
                               (case GetPluginInst ''transport'' ''tcp'' m of
                                  None \<Rightarrow> (Panicked, s)
                                | Some p \<Rightarrow>
                                    if \<not> is_tcp env p then (Panicked, s)
                                    else start_modules (init_ranks env) (set_world (tcp_init env p (app_world s)) s))))
           | (out, s) \<Rightarrow> (out, s)))"

text \<open>\<open>Fini\<close> with the orders of its two loops and of the loop in \<open>plugin.Destroy\<close>.\<close>

definition Fini :: "rank \<times> rank \<Rightarrow> rank \<Rightarrow> ('v, 'p, 'w) serverApp \<Rightarrow> app_outcome \<times> ('v, 'p, 'w) serverApp" where
  "Fini ranks destroy_rank s =
     (case two_passes (\<lambda>m. m_UnInit m (lookup_of (app_plugins s))) ranks (moduleCont s) (app_world s) of
        (Ok _, w) \<Rightarrow>
          let s = set_world w s
          in (case Plugin_Destroy destroy_rank (app_plugins s) of
                Ok m \<Rightarrow> (Returned None, s\<lparr>app_plugins := m\<rparr>)
              | _ \<Rightarrow> (Panicked, s))
      | (r, w) \<Rightarrow> (module_outcome r, set_world w s))"

definition onFrame :: "rank \<Rightarrow> ('v, 'p, 'w) serverApp \<Rightarrow> ('v, 'p, 'w) serverApp" where
  "onFrame rank s = set_world (fold (\<lambda>(_, m). m_Mainloop m) (ranged rank (moduleCont s)) (app_world s)) s"

text \<open>\<open>Reload\<close> goes on after an error of the configuration.\<close>

definition Reload :: "rank \<Rightarrow> (string \<Rightarrow> 'v option) \<Rightarrow> ('v, 'p, 'w) serverApp \<Rightarrow> ('v, 'p, 'w) serverApp" where
  "Reload rank read s =
     (let s = s\<lparr>app_config := map_option (\<lambda>c. snd (Config_Reload read c)) (app_config s)\<rparr>;
          s = s\<lparr>app_plugins := snd (Plugin_Reload (app_config s) (app_plugins s))\<rparr>
      in set_world (fold (\<lambda>(_, m). m_OnReload m) (ranged rank (moduleCont s)) (app_world s)) s)"

text \<open>
  What the main loop gets: a tick, with the order of its loop over the modules, or a signal, with
  what a reload reads and the order of its loop over the modules.
\<close>

datatype 'v loop_event = Frame rank | Signal int "string \<Rightarrow> 'v option" rank

fun main_loop :: "'v loop_event list \<Rightarrow> ('v, 'p, 'w) serverApp \<Rightarrow> ('v, 'p, 'w) serverApp option" where
  "main_loop [] s = None"
| "main_loop (Frame rank # es) s = main_loop es (onFrame rank s)"
| "main_loop (Signal sig read rank # es) s =
     (case on_signal sig (app_signals s) of
        Some QuitAction \<Rightarrow> Some s
      | Some ReloadAction \<Rightarrow> main_loop es (Reload rank read s)
      | None \<Rightarrow> main_loop es s)"

definition register_signals :: "sig_action signals \<Rightarrow> sig_action signals" where
  "register_signals g =
     StartSignal (RegisterSignalHandler [SIGUSR2] ReloadAction
       (RegisterSignalHandler [SIGINT, SIGUSR1] QuitAction g))"

definition Mainloop ::
  "rank \<Rightarrow> 'v loop_event list \<Rightarrow> ('v, 'p, 'w) serverApp \<Rightarrow> (unit, ('v, 'p, 'w) serverApp) res option" where
  "Mainloop rank es s =
     (case Plugin_Mainloop rank (app_plugins s) of
        Ok m \<Rightarrow>
          map_option Ok (main_loop es
            (s\<lparr>app_plugins := m, app_signals := register_signals (app_signals s)\<rparr>))
      | _ \<Rightarrow> Some Panic)"

definition NewServerApp ::
  "string \<Rightarrow> ('p, 'w) moduleCont \<Rightarrow> ('v, 'p, 'w) plugins \<Rightarrow> host \<Rightarrow> ('v, 'p, 'w) serverApp" where
  "NewServerApp name mc m h =
     \<lparr>serverName = name, serverID = [], lastReloadTime = 0, moduleCont = mc, app_config = None,
      app_plugins = m, app_host = h, app_signals = \<lparr>sigHandlers = Map.empty, notified = {}\<rparr>\<rparr>"

definition GetServerName :: "('v, 'p, 'w) serverApp \<Rightarrow> string" where
  "GetServerName s = serverName s"

definition GetServerID :: "('v, 'p, 'w) serverApp \<Rightarrow> string" where
  "GetServerID s = serverID s"

text \<open>
  Modules by name: after any registrations \<open>GetModule\<close> finds the last module registered under a
  name, and the count is the number of names.
\<close>

lemma registered_module_found:
  assumes "mc = fold (\<lambda>m mc. snd (RegisterModule m mc)) ms []"
  shows "GetModule name mc = (case find (\<lambda>m. m_GetName m = name) (rev ms) of
      None \<Rightarrow> Inl (''get module '' @ name @ '' failed'') | Some m \<Rightarrow> Inr m)"
    and "GetModuleCount mc = card (m_GetName ` set ms)"
proof -
  have "distinct (map fst mc) \<and> fst ` set mc = m_GetName ` set ms
      \<and> map_of mc name = find (\<lambda>m. m_GetName m = name) (rev ms)"
    unfolding assms
  proof (induction ms rule: rev_induct)
    case (snoc m ms)
    then show ?case
      by (auto simp: RegisterModule_def registerModule_def distinct_update dom_update)
  qed simp
  then show "GetModule name mc = (case find (\<lambda>m. m_GetName m = name) (rev ms) of
      None \<Rightarrow> Inl (''get module '' @ name @ '' failed'') | Some m \<Rightarrow> Inr m)"
    and "GetModuleCount mc = card (m_GetName ` set ms)"
    using distinct_card [of "map fst mc"]
    by (auto simp: GetModule_def getModule_def GetModuleCount_def getModuleCount_def)
qed

section \<open>Order of the modules\<close>

text \<open>
  The order in which two loops visit the modules: those with \<open>IsPreInit\<close> first.  Whatever the
  orders of the two loops, every module comes once.
\<close>

definition module_order :: "rank \<times> rank \<Rightarrow> ('p, 'w) moduleCont \<Rightarrow> ('p, 'w) ServerModule list" where
  "module_order ranks mc = filter m_IsPreInit (map snd (ranged (fst ranks) mc))
     @ filter (\<lambda>m. \<not> m_IsPreInit m) (map snd (ranged (snd ranks) mc))"

lemma module_order_once: "mset (module_order ranks mc) = mset (map snd mc)"
  by (simp add: module_order_def mset_filter)

lemma set_module_order [simp]: "set (module_order ranks mc) = snd ` set mc"
  using mset_eq_setD [OF module_order_once [of ranks mc]] by simp

lemma module_order_sorted: "sorted_wrt (\<lambda>a b. m_IsPreInit b \<longrightarrow> m_IsPreInit a) (module_order ranks mc)"
proof -
  have "sorted_wrt (\<lambda>a b. m_IsPreInit b \<longrightarrow> m_IsPreInit a) (filter m_IsPreInit ms)" for ms :: "('a, 'b) ServerModule list"
    by (induction ms) auto
  moreover have "sorted_wrt (\<lambda>a b. m_IsPreInit b \<longrightarrow> m_IsPreInit a) (filter (\<lambda>m. \<not> m_IsPreInit m) ms)"
    for ms :: "('a, 'b) ServerModule list"
    by (induction ms) auto
  ultimately show ?thesis by (auto simp: module_order_def sorted_wrt_append)
qed

lemma module_order_single: "module_order ranks [(n, m)] = [m]"
  by (simp add: module_order_def)

fun run_modules ::
  "(('p, 'w) ServerModule \<Rightarrow> 'w \<Rightarrow> (string, unit) res \<times> 'w) \<Rightarrow> ('p, 'w) ServerModule list \<Rightarrow> 'w
    \<Rightarrow> (string, unit) res \<times> 'w" where
  "run_modules act [] w = (Ok (), w)"
| "run_modules act (m # ms) w =
     (case act m w of (Ok _, w) \<Rightarrow> run_modules act ms w | (r, w) \<Rightarrow> (r, w))"

lemma run_modules_append:
  "run_modules act (ms @ ms') w =
     (case run_modules act ms w of (Ok _, w) \<Rightarrow> run_modules act ms' w | (r, w) \<Rightarrow> (r, w))"
  by (induction ms arbitrary: w) (auto split: prod.split res.split)

lemma module_pass_run:
  "module_pass act pre mc w = run_modules act (filter (\<lambda>m. m_IsPreInit m = pre) (map snd mc)) w"
proof (induction mc arbitrary: w)
  case (Cons nm mc)
  obtain n m where "nm = (n, m)" by (cases nm)
  with Cons show ?case by (auto split: prod.split res.split)
qed simp

lemma two_passes_run: "two_passes act ranks mc w = run_modules act (module_order ranks mc) w"
  by (simp add: two_passes_def module_pass_run module_order_def run_modules_append
      split: prod.split res.split)

lemma run_modules_ok:
  "run_modules act ms w = (Ok (), w') \<Longrightarrow> w' = fold (\<lambda>m w. snd (act m w)) ms w"
proof (induction ms arbitrary: w)
  case (Cons m ms)
  then show ?case by (cases "act m w") (auto split: res.splits)
qed simp

lemma module_outcome_iff: "module_outcome r = Returned None \<longleftrightarrow> r = Ok ()"
  by (cases r) auto

section \<open>The main loop\<close>

lemma set_world_simps [simp]:
  "app_world (set_world w s) = w" "moduleCont (set_world w s) = moduleCont s"
  "app_signals (set_world w s) = app_signals s" "app_config (set_world w s) = app_config s"
  "set_world w' (set_world w s) = set_world w' s"
  by (simp_all add: set_world_def)

lemma on_signal_registered:
  assumes "sigHandlers g = Map.empty"
  shows "on_signal sig (register_signals g) =
    (if sig = SIGINT \<or> sig = SIGUSR1 then Some QuitAction
     else if sig = SIGUSR2 then Some ReloadAction else None)"
  using assms
  by (simp add: register_signals_def StartSignal_def on_signal_def SIGINT_def SIGUSR1_def SIGUSR2_def)

definition is_quit :: "'v loop_event \<Rightarrow> bool" where
  "is_quit e = (case e of Frame _ \<Rightarrow> False | Signal sig _ _ \<Rightarrow> sig = SIGINT \<or> sig = SIGUSR1)"

text \<open>What an event before the end does to the world, and the reads of the configuration.\<close>

definition event_effect :: "('p, 'w) moduleCont \<Rightarrow> 'v loop_event \<Rightarrow> 'w \<Rightarrow> 'w" where
  "event_effect mc e w =
     (case e of
        Frame rank \<Rightarrow> fold (\<lambda>(_, m). m_Mainloop m) (ranged rank mc) w
      | Signal sig read rank \<Rightarrow>
          if sig = SIGUSR2 then fold (\<lambda>(_, m). m_OnReload m) (ranged rank mc) w else w)"

fun config_reads :: "'v loop_event list \<Rightarrow> (string \<Rightarrow> 'v option) list" where
  "config_reads [] = []"
| "config_reads (Frame rank # es) = config_reads es"
| "config_reads (Signal sig read rank # es) =
     (if sig = SIGUSR2 then read # config_reads es else config_reads es)"

lemma main_loop_run:
  assumes "app_signals s = register_signals g" and "sigHandlers g = Map.empty"
    and "list_all (\<lambda>e. \<not> is_quit e) es" and "is_quit q"
  shows "\<exists>s'. main_loop (es @ q # post) s = Some s'
    \<and> app_world s' = fold (event_effect (moduleCont s)) es (app_world s)
    \<and> app_config s' = map_option (reloads (config_reads es)) (app_config s)"
  using assms(1,3)
proof (induction es arbitrary: s)
  case Nil
  from assms(4) obtain sig read rank where "q = Signal sig read rank" "sig = SIGINT \<or> sig = SIGUSR1"
    by (cases q) (auto simp: is_quit_def)
  with Nil.prems on_signal_registered [OF assms(2), of sig] show ?case
    by (auto simp: reloads_def option.map_ident)
next
  case (Cons e es)
  show ?case
  proof (cases e)
    case (Frame rank)
    with Cons.IH [of "onFrame rank s"] Cons.prems show ?thesis
      by (simp add: onFrame_def event_effect_def)
  next
    case (Signal sig read rank)
    show ?thesis
    proof (cases "sig = SIGUSR2")
      case True
      with Signal Cons.IH [of "Reload rank read s"] Cons.prems on_signal_registered [OF assms(2), of sig]
      show ?thesis
        by (simp add: Reload_def Plugin_Reload_def event_effect_def reloads_def
            SIGINT_def SIGUSR1_def SIGUSR2_def option.map_comp comp_def)
    next
      case False
      with Signal Cons.IH [of s] Cons.prems on_signal_registered [OF assms(2), of sig]
      show ?thesis
        by (auto simp: is_quit_def event_effect_def)
    qed
  qed
qed

lemma lookup_of_world [simp]: "lookup_of (m\<lparr>plugin_world := w\<rparr>) = lookup_of m"
  by (simp add: lookup_of_def GetPluginInst_def fun_eq_iff)

lemma App_Init_starts_modules:
  assumes "Config_Init (new_viper env) (flag_conf env) (flag_command env) (flag_daemon env)
        (read_config env) = (None, c)"
    and "GetCommand c \<noteq> ''stop''" and "GetCommand c \<noteq> ''reload''"
    and "sub_plugin env (active c) = Some u" and "Plugin_Init u (app_plugins s) = (Ok (), m)"
    and "GetPluginInst ''transport'' ''tcp'' m = Some p" and "is_tcp env p"
    and "run_modules (\<lambda>md. m_Init md (lookup_of m)) (module_order (init_ranks env) (moduleCont s)) (tcp_init env p (plugin_world m)) = (r, w)"
  shows "fst (App_Init env s) = module_outcome r"
  using assms
  by (simp add: App_Init_def initInputParam_def start_modules_def two_passes_run set_world_def)

lemma App_Init_success:
  assumes "App_Init env s = (Returned None, s')"
  shows "\<exists>c u m p. Config_Init (new_viper env) (flag_conf env) (flag_command env) (flag_daemon env)
        (read_config env) = (None, c)
    \<and> sub_plugin env (active c) = Some u
    \<and> Plugin_Init u (app_plugins s) = (Ok (), m)
    \<and> GetPluginInst ''transport'' ''tcp'' m = Some p
    \<and> is_tcp env p
    \<and> run_modules (\<lambda>md. m_Init md (lookup_of m)) (module_order (init_ranks env) (moduleCont s)) (tcp_init env p (plugin_world m))
        = (Ok (), app_world s')
    \<and> app_plugins s' = m\<lparr>plugin_world := app_world s'\<rparr>"
proof -
  obtain err c where c: "Config_Init (new_viper env) (flag_conf env) (flag_command env)
      (flag_daemon env) (read_config env) = (err, c)" by fastforce
  with assms have err: "err = None" by (auto simp: App_Init_def split: option.splits)
  from assms c err have cmd: "GetCommand c \<noteq> ''stop''" "GetCommand c \<noteq> ''reload''"
    by (auto simp: App_Init_def initInputParam_def split: if_splits)
  from assms c err cmd obtain u where u: "sub_plugin env (active c) = Some u"
    by (auto simp: App_Init_def initInputParam_def Let_def split: option.splits)
  obtain r m where m: "Plugin_Init u (app_plugins s) = (r, m)" by fastforce
  from assms c err u m cmd obtain p where p: "r = Ok ()" "GetPluginInst ''transport'' ''tcp'' m = Some p"
    "is_tcp env p"
    and st: "two_passes (\<lambda>md. m_Init md (lookup_of m)) (init_ranks env) (moduleCont s) (tcp_init env p (plugin_world m))
        = (Ok (), app_world s')" "app_plugins s' = m\<lparr>plugin_world := app_world s'\<rparr>"
    by (auto simp: App_Init_def initInputParam_def start_modules_def Let_def set_world_def module_outcome_iff
        split: res.splits option.splits if_splits prod.splits)
  then show ?thesis using c err u m by (auto simp: two_passes_run)
qed

text \<open>A configuration without a plugin section ends the start with a panic, not with an error.\<close>

lemma missing_plugin_section_panics:
  assumes "Config_Init (new_viper env) (flag_conf env) (flag_command env) (flag_daemon env)
        (read_config env) = (None, c)"
    and "GetCommand c \<noteq> ''stop''" and "GetCommand c \<noteq> ''reload''" and "sub_plugin env (active c) = None"
  shows "fst (App_Init env s) = Panicked"
  using assms by (simp add: App_Init_def initInputParam_def)

section \<open>Properties\<close>

text \<open>
  A start that reports success has loaded the configuration, started all plugins, started
  the tcp transport, and then run \<open>Init\<close> of every module exactly once: first the modules with
  \<open>IsPreInit\<close>, then the others, all after the plugins, whose instances every one of them sees.  No
  module failed or panicked.
\<close>

theorem app_init_order:
  assumes "App_Init env s = (Returned None, s')"
  shows "\<exists>c u m p. Config_Init (new_viper env) (flag_conf env) (flag_command env) (flag_daemon env)
        (read_config env) = (None, c)
    \<and> sub_plugin env (active c) = Some u
    \<and> Plugin_Init u (app_plugins s) = (Ok (), m)
    \<and> GetPluginInst ''transport'' ''tcp'' m = Some p
    \<and> run_modules (\<lambda>md. m_Init md (lookup_of m)) (module_order (init_ranks env) (moduleCont s)) (tcp_init env p (plugin_world m))
        = (Ok (), app_world s')"
  using App_Init_success [OF assms] by blast

text \<open>A small server: the world is the trace of what was called.\<close>

definition trace_module :: "string \<Rightarrow> bool \<Rightarrow> (string, string list) ServerModule" where
  "trace_module n pre = \<lparr>m_Init = (\<lambda>look w. (Ok (), w @ [n @ ''.init''])),
     m_UnInit = (\<lambda>look w. (Ok (), w @ [n @ ''.uninit''])), m_Mainloop = (\<lambda>w. w @ [n @ ''.frame'']),
     m_IsPreInit = pre, m_GetName = n, m_OnReload = (\<lambda>w. w @ [n @ ''.reload''])\<rparr>"

definition tcp_factory :: "(nat, string, string list) PluginFactory" where
  "tcp_factory = \<lparr>f_Type = ''transport'', f_Name = ''tcp'', f_Setup = (\<lambda>v w. (Ok ''tcp'', w @ [''setup''])),
     f_Destroy = (\<lambda>p w. w @ [''destroy'']), f_Mainloop = (\<lambda>p w. w @ [''mainloop''])\<rparr>"

definition demo_env :: "(nat, string, string list) app_env" where
  "demo_env = \<lparr>new_viper = 0, flag_conf = None, flag_command = None, flag_daemon = None,
     read_config = (\<lambda>_. Some 2), get_serverid = (\<lambda>_. ''1.1''),
     sub_plugin = (\<lambda>_. Some (Some [(''transport'', [(''tcp'', 5)])])), is_alive = (\<lambda>_. True),
     is_tcp = (\<lambda>p. p = ''tcp''), tcp_init = (\<lambda>p w. w @ [''listen'']),
     init_ranks = (\<lambda>_. 0, \<lambda>_. 0)\<rparr>"

definition demo_app :: "(nat, string, string list) serverApp" where
  "demo_app = NewServerApp ''demo''
     (registerModule (trace_module ''a'' False) (registerModule (trace_module ''b'' True) []))
     (RegisterPluginFactory tcp_factory (no_plugins []))
     \<lparr>files = Map.empty, writable_fs = True, signals_sent = [], self_pid = 7\<rparr>"

lemmas demo_defs = demo_env_def demo_app_def NewServerApp_def registerModule_def trace_module_def
  RegisterPluginFactory_def tcp_factory_def no_plugins_def constructPluginKey_def

theorem app_init_order_witness:
  "app_world (snd (App_Init demo_env demo_app)) = [''setup'', ''listen'', ''b.init'', ''a.init'']"
proof -
  let ?m = "(RegisterPluginFactory tcp_factory (no_plugins []))
    \<lparr>pluginMgr := [(''transport_tcp'', ''tcp'')], plugin_world := [''setup'']\<rparr>"
  let ?c = "snd (Config_Init 0 None None None (\<lambda>_. Some (2::nat)))"
  have c: "Config_Init 0 None None None (\<lambda>_. Some (2::nat)) = (None, ?c)" "GetCommand ?c = ''start''"
    by (simp_all add: Config_Init_def loadConfig_def assign_def getBakConfig_def GetCommand_def
        defaultConfPath_def)
  have m: "Plugin_Init (Some [(''transport'', [(''tcp'', 5)])]) (RegisterPluginFactory tcp_factory (no_plugins []))
      = (Ok (), ?m)"
    by (simp add: Plugin_Init_def getPluginFactory_def registerPluginInst_def demo_defs)
  have p: "GetPluginInst ''transport'' ''tcp'' ?m = Some ''tcp''"
    by (simp add: GetPluginInst_def demo_defs)
  have env: "new_viper demo_env = 0" "flag_conf demo_env = None" "flag_command demo_env = None"
    "flag_daemon demo_env = None" "read_config demo_env = (\<lambda>_. Some 2)"
    "sub_plugin demo_env v = Some (Some [(''transport'', [(''tcp'', 5)])])" "is_tcp demo_env ''tcp''"
    "tcp_init demo_env q w = w @ [''listen'']" for v q w
    by (simp_all add: demo_env_def)
  have app: "app_plugins demo_app = RegisterPluginFactory tcp_factory (no_plugins [])"
    "module_order ranks (moduleCont demo_app) = [trace_module ''b'' True, trace_module ''a'' False]" for ranks
    by (simp_all add: demo_app_def NewServerApp_def registerModule_def trace_module_def module_order_def ranged_def)
  have run: "run_modules (\<lambda>md. m_Init md look) (module_order ranks (moduleCont demo_app)) [''setup'', ''listen'']
      = (Ok (), [''setup'', ''listen'', ''b.init'', ''a.init''])" for look ranks
    by (simp add: app trace_module_def)
  have "fst (App_Init demo_env demo_app) = Returned None"
    using App_Init_starts_modules [of demo_env ?c _ demo_app ?m "''tcp''" "Ok ()"] env app(1) c m p run
    by simp
  then have "App_Init demo_env demo_app = (Returned None, snd (App_Init demo_env demo_app))"
    by (simp add: prod_eq_iff)
  from app_init_order [OF this] show ?thesis
    using env app(1) c(1) m p run by auto
qed

text \<open>
  The main loop returns at the first quit signal (\<open>SIGINT\<close> or \<open>SIGUSR1\<close>), never panics, and
  until then has run every module once per tick and told every module of every reload; the
  active configuration is what the reloads of that time have left.
\<close>

theorem mainloop_returns_on_quit:
  assumes "plugins_inv (app_plugins s)" and "sigHandlers (app_signals s) = Map.empty"
    and "list_all (\<lambda>e. \<not> is_quit e) es" and "is_quit q"
  shows "\<exists>m s'. Plugin_Mainloop rank (app_plugins s) = Ok m \<and> Mainloop rank (es @ q # post) s = Some (Ok s')
    \<and> app_world s' = fold (event_effect (moduleCont s)) es (plugin_world m)
    \<and> app_config s' = map_option (reloads (config_reads es)) (app_config s)"
proof -
  obtain w where w: "Plugin_Mainloop rank (app_plugins s) = Ok ((app_plugins s)\<lparr>plugin_world := w\<rparr>)"
    using Plugin_Mainloop_returns [OF assms(1)] by blast
  let ?s = "s\<lparr>app_plugins := (app_plugins s)\<lparr>plugin_world := w\<rparr>,
    app_signals := register_signals (app_signals s)\<rparr>"
  have "app_signals ?s = register_signals (app_signals s)" by simp
  from main_loop_run [OF this assms(2,3,4), of post] w show ?thesis
    by (auto simp: Mainloop_def)
qed

definition up :: rank where "up k = (if k = ''a'' then 0 else 1)"
definition down :: rank where "down k = (if k = ''a'' then 1 else 0)"

theorem mainloop_returns_on_quit_witness:
  "\<exists>s'. Mainloop up [Frame up, Signal 12 (\<lambda>_. None) down, Frame down, Signal 2 (\<lambda>_. None) up, Frame up] demo_app
       = Some (Ok s')
     \<and> app_world s' = [''a.frame'', ''b.frame'', ''b.reload'', ''a.reload'', ''b.frame'', ''a.frame'']"
proof -
  let ?es = "[Frame up, Signal 12 (\<lambda>_. None) down, Frame down]"
  have inv: "plugins_inv (app_plugins demo_app)" and sig: "sigHandlers (app_signals demo_app) = Map.empty"
    by (simp_all add: demo_defs plugins_inv_def)
  have q: "list_all (\<lambda>e. \<not> is_quit e) ?es" "is_quit (Signal 2 (\<lambda>_. None) up)"
    by (simp_all add: is_quit_def SIGINT_def SIGUSR1_def)
  have "fold (event_effect (moduleCont demo_app)) ?es [] =
      [''a.frame'', ''b.frame'', ''b.reload'', ''a.reload'', ''b.frame'', ''a.frame'']"
    by (simp add: demo_defs event_effect_def SIGUSR2_def ranged_def up_def down_def)
  moreover have "Plugin_Mainloop up (app_plugins demo_app) = Ok (app_plugins demo_app)"
    "plugin_world (app_plugins demo_app) = []"
    by (simp_all add: demo_defs Plugin_Mainloop_def)
  ultimately show ?thesis
    using mainloop_returns_on_quit [OF inv sig q, of up "[Frame up]"] by auto
qed

text \<open>
  The end of the server runs \<open>UnInit\<close> of every module once, the modules with \<open>IsPreInit\<close> first, as at
  the start and not in reverse.  When all succeed the plugins are destroyed;
  when one fails the end stops there and no plugin is destroyed.
\<close>

theorem fini_order:
  assumes "plugins_inv (app_plugins s)"
  shows "case run_modules (\<lambda>md. m_UnInit md (lookup_of (app_plugins s))) (module_order ranks (moduleCont s)) (app_world s) of
      (Ok _, w) \<Rightarrow> \<exists>m. Plugin_Destroy rank ((app_plugins s)\<lparr>plugin_world := w\<rparr>) = Ok m
        \<and> Fini ranks rank s = (Returned None, (set_world w s)\<lparr>app_plugins := m\<rparr>)
    | (r, w) \<Rightarrow> Fini ranks rank s = (module_outcome r, set_world w s)"
proof -
  obtain r w where rw: "run_modules (\<lambda>md. m_UnInit md (lookup_of (app_plugins s))) (module_order ranks (moduleCont s))
      (app_world s) = (r, w)"
    by fastforce
  obtain w' where "Plugin_Destroy rank ((app_plugins s)\<lparr>plugin_world := w\<rparr>)
      = Ok ((app_plugins s)\<lparr>plugin_world := w'\<rparr>)"
    using Plugin_Destroy_returns [OF world_inv [OF assms, of w]] by auto
  with rw show ?thesis
    by (auto simp: Fini_def two_passes_run set_world_def split: res.split)
qed

theorem fini_order_witness:
  "\<exists>s'. Fini (up, down) up demo_app = (Returned None, s')"
  using fini_order [of demo_app up "(up, down)"]
  by (auto simp: demo_defs plugins_inv_def module_order_def ranged_def up_def down_def)

end
