(* ===== verification/App_Run.thy ===== *)
theory App_Run
  imports App
begin

text \<open>
  A running server and its goroutines, \<^verbatim>\<open>src/server_base/app/app.go\<close> and \<^verbatim>\<open>src/common/signal/signal.go\<close>:
  the main goroutine, which serves the ticker and the finish channel and then ends the modules, and
  the goroutine of \<open>StartSignal\<close>, which takes signals from a channel of twenty and runs \<open>Quit\<close> and
  \<open>Reload\<close> itself.  A step is the beginning of a call of a module, a signal, or a meeting at the
  unbuffered finish channel; a module is named, and every pass over the map of modules takes them
  in an order of its own.  The sequential main loop of \<open>App\<close> is one of the interleavings.
\<close>

section \<open>Steps\<close>

datatype module_call = MainloopOf string | OnReloadOf string | UnInitOf string

text \<open>
  Where the two goroutines stand: in a call of a module, with the modules that are still to be
  called, or waiting.  \<open>Leaving\<close> is the rest of \<open>Fini\<close> and of \<open>main\<close>; after it, or after a panic of a
  module, the process is gone, and its goroutines with it.
\<close>

datatype main_pc = Selecting | InFrame string "string list" | InUnInit string "string list" | Leaving | Returns | Dies

datatype sig_pc = Waiting | Quitting | InReload string "string list" | Gone

record run =
  main_at :: main_pc
  sig_at :: sig_pc
  sig_queue :: "int list"
  calls :: "module_call list"
  ticks :: nat
  reloads_begun :: nat

definition run_start :: run where
  "run_start = \<lparr>main_at = Selecting, sig_at = Waiting, sig_queue = [], calls = [], ticks = 0, reloads_begun = 0\<rparr>"

definition sig_cap :: nat where "sig_cap = 20"

definition quit_signal :: "int \<Rightarrow> bool" where
  "quit_signal sig = (sig = SIGINT \<or> sig = SIGUSR1)"

text \<open>An iteration over the map of modules, and the one of \<open>Fini\<close> with its two passes.\<close>

definition visits :: "string list \<Rightarrow> string set \<Rightarrow> bool" where
  "visits ns S = (distinct ns \<and> set ns = S)"

definition fini_visits :: "('p, 'w) moduleCont \<Rightarrow> string list \<Rightarrow> bool" where
  "fini_visits mc ns = (\<exists>ps rs. ns = ps @ rs
     \<and> visits ps {n. \<exists>m. (n, m) \<in> set mc \<and> m_IsPreInit m} \<and> visits rs {n. \<exists>m. (n, m) \<in> set mc \<and> \<not> m_IsPreInit m})"

fun go_on :: "(string \<Rightarrow> string list \<Rightarrow> 'pc) \<Rightarrow> 'pc \<Rightarrow> string list \<Rightarrow> 'pc" where
  "go_on busy idle [] = idle"
| "go_on busy idle (n # ns) = busy n ns"

fun begun :: "(string \<Rightarrow> module_call) \<Rightarrow> string list \<Rightarrow> module_call list" where
  "begun c [] = []"
| "begun c (n # ns) = [c n]"

definition main_calls :: "(string \<Rightarrow> string list \<Rightarrow> main_pc) \<Rightarrow> main_pc \<Rightarrow> (string \<Rightarrow> module_call) \<Rightarrow> string list \<Rightarrow> run \<Rightarrow> run" where
  "main_calls busy idle c ns s = s\<lparr>main_at := go_on busy idle ns, calls := calls s @ begun c ns\<rparr>"

definition reload_calls :: "string list \<Rightarrow> run \<Rightarrow> run" where
  "reload_calls ns s = s\<lparr>sig_at := go_on InReload Waiting ns, calls := calls s @ begun OnReloadOf ns\<rparr>"

text \<open>The steps that need neither the ticker nor a new signal.\<close>

inductive internal_step :: "('p, 'w) moduleCont \<Rightarrow> run \<Rightarrow> run \<Rightarrow> bool" for mc where
  frame_next: "main_at s = InFrame n ns \<Longrightarrow> internal_step mc s (main_calls InFrame Selecting MainloopOf ns s)"
| take_quit: "sig_at s = Waiting \<Longrightarrow> sig_queue s = sig # q \<Longrightarrow> quit_signal sig \<Longrightarrow>
    internal_step mc s (s\<lparr>sig_at := Quitting, sig_queue := q\<rparr>)"
| take_reload: "sig_at s = Waiting \<Longrightarrow> sig_queue s = SIGUSR2 # q \<Longrightarrow> visits ns (fst ` set mc) \<Longrightarrow>
    internal_step mc s (reload_calls ns (s\<lparr>sig_queue := q, reloads_begun := reloads_begun s + 1\<rparr>))"
| reload_next: "sig_at s = InReload n ns \<Longrightarrow> internal_step mc s (reload_calls ns s)"
| quit: "main_at s = Selecting \<Longrightarrow> sig_at s = Quitting \<Longrightarrow> fini_visits mc ns \<Longrightarrow>
    internal_step mc s (main_calls InUnInit Leaving UnInitOf ns (s\<lparr>sig_at := Waiting\<rparr>))"
| uninit_next: "main_at s = InUnInit n ns \<Longrightarrow> internal_step mc s (main_calls InUnInit Leaving UnInitOf ns s)"
| uninit_error: "main_at s = InUnInit n ns \<Longrightarrow> internal_step mc s (s\<lparr>main_at := Leaving\<rparr>)"
| exit: "main_at s = Leaving \<Longrightarrow> internal_step mc s (s\<lparr>main_at := Returns, sig_at := Gone\<rparr>)"
| main_panics: "main_at s = InFrame n ns \<or> main_at s = InUnInit n ns \<Longrightarrow>
    internal_step mc s (s\<lparr>main_at := Dies, sig_at := Gone\<rparr>)"
| sig_panics: "sig_at s = InReload n ns \<Longrightarrow> internal_step mc s (s\<lparr>main_at := Dies, sig_at := Gone\<rparr>)"

text \<open>A signal that finds the channel full is dropped.\<close>

inductive app_step :: "('p, 'w) moduleCont \<Rightarrow> run \<Rightarrow> run \<Rightarrow> bool" for mc where
  internal: "internal_step mc s s' \<Longrightarrow> app_step mc s s'"
| tick: "main_at s = Selecting \<Longrightarrow> visits ns (fst ` set mc) \<Longrightarrow>
    app_step mc s (main_calls InFrame Selecting MainloopOf ns (s\<lparr>ticks := ticks s + 1\<rparr>))"
| deliver: "sig_at s \<noteq> Gone \<Longrightarrow> quit_signal sig \<or> sig = SIGUSR2 \<Longrightarrow>
    app_step mc s (s\<lparr>sig_queue := (if length (sig_queue s) < sig_cap then sig_queue s @ [sig] else sig_queue s)\<rparr>)"

definition run_reachable :: "('p, 'w) moduleCont \<Rightarrow> run \<Rightarrow> bool" where
  "run_reachable mc s = (app_step mc)\<^sup>*\<^sup>* run_start s"

definition gone :: "run \<Rightarrow> bool" where
  "gone s = (main_at s = Returns \<or> main_at s = Dies)"

inductive_cases internal_stepE: "internal_step mc s s'"
inductive_cases app_stepE: "app_step mc s s'"


text \<open>A quit is pending from its delivery on.\<close>

fun serving :: "main_pc \<Rightarrow> bool" where
  "serving Selecting = True"
| "serving (InFrame n ns) = True"
| "serving _ = False"

definition quit_pending :: "run \<Rightarrow> bool" where
  "quit_pending s = (list_ex quit_signal (sig_queue s) \<or> sig_at s = Quitting \<or> \<not> serving (main_at s))"

section \<open>Orders of the modules\<close>

lemma visits_remdups: "visits (remdups xs) (set xs)"
  by (simp add: visits_def)

lemma visits_exist: "\<exists>ns. visits ns (fst ` set mc)"
  using visits_remdups [of "map fst mc"] by auto

lemma fini_visits_exist: "\<exists>ns. fini_visits mc ns"
proof -
  have "visits (remdups (map fst (filter (\<lambda>(_, m). P m) mc))) {n. \<exists>m. (n, m) \<in> set mc \<and> P m}" for P
    by (auto simp: visits_def image_iff)
  from this [of m_IsPreInit] this [of "\<lambda>m. \<not> m_IsPreInit m"] show ?thesis
    unfolding fini_visits_def by blast
qed

lemma visits_length: "visits ns S \<Longrightarrow> S \<subseteq> fst ` set xs \<Longrightarrow> length ns \<le> length xs"
proof -
  assume "visits ns S" "S \<subseteq> fst ` set xs"
  then have "card (set ns) \<le> card (set (map fst xs))" by (intro card_mono) (auto simp: visits_def)
  also have "\<dots> \<le> length (map fst xs)" by (rule card_length)
  finally show "length ns \<le> length xs" using \<open>visits ns S\<close> by (auto simp: visits_def distinct_card)
qed

lemma fini_visits_length:
  assumes "fini_visits mc ns"
  shows "length ns \<le> length mc"
proof -
  have part: "length ps \<le> length (filter (\<lambda>(_, m). P m) mc)"
    if "visits ps {n. \<exists>m. (n, m) \<in> set mc \<and> P m}" for ps P
    using that by (rule visits_length) (auto simp: image_iff)
  have "length (filter (\<lambda>(_, m). m_IsPreInit m) mc) + length (filter (\<lambda>(_, m). \<not> m_IsPreInit m) mc) = length mc"
    using sum_length_filter_compl [of "\<lambda>(_, m). m_IsPreInit m" mc] by (simp add: case_prod_unfold)
  with assms part [of _ m_IsPreInit] part [of _ "\<lambda>m. \<not> m_IsPreInit m"] show ?thesis
    by (force simp: fini_visits_def)
qed

lemma fini_visits_distinct:
  assumes "distinct (map fst mc)" "fini_visits mc ns"
  shows "distinct ns" "set ns = fst ` set mc"
  using assms by (auto simp: fini_visits_def visits_def image_iff dest: eq_key_imp_eq_value; force)+

section \<open>A quit ends the server\<close>

text \<open>What is left to do: every step that needs no tick and no new signal makes it less.\<close>

fun main_weight :: "nat \<Rightarrow> main_pc \<Rightarrow> nat" where
  "main_weight k Selecting = k + 1"
| "main_weight k (InFrame n ns) = k + 2 + length ns"
| "main_weight k (InUnInit n ns) = 2 + length ns"
| "main_weight k Leaving = 1"
| "main_weight k Returns = 0"
| "main_weight k Dies = 0"

fun sig_weight :: "sig_pc \<Rightarrow> nat" where
  "sig_weight Waiting = 0"
| "sig_weight Quitting = 1"
| "sig_weight (InReload n ns) = 1 + length ns"
| "sig_weight Gone = 0"

definition run_weight :: "('p, 'w) moduleCont \<Rightarrow> run \<Rightarrow> nat" where
  "run_weight mc s = main_weight (length mc) (main_at s) + sig_weight (sig_at s) + (length mc + 2) * length (sig_queue s)"

lemma go_on_cases: "go_on busy idle ns = (case ns of [] \<Rightarrow> idle | n # ns \<Rightarrow> busy n ns)"
  by (cases ns) simp_all

lemma begun_cases: "begun c ns = (case ns of [] \<Rightarrow> [] | n # _ \<Rightarrow> [c n])"
  by (cases ns) simp_all

lemmas step_defs = main_calls_def reload_calls_def go_on_cases begun_cases

lemma internal_step_weight:
  assumes "internal_step mc s s'"
  shows "run_weight mc s' < run_weight mc s"
  using assms
proof cases
  case (take_reload q ns)
  then have "length ns \<le> length mc" by (simp add: visits_length)
  with take_reload show ?thesis by (auto simp: run_weight_def step_defs split: list.split)
next
  case (quit ns)
  with fini_visits_length [of mc ns] show ?thesis by (auto simp: run_weight_def step_defs split: list.split)
qed (auto simp: run_weight_def step_defs split: list.split)

lemma internal_steps_bounded: "(internal_step mc ^^ k) s s' \<Longrightarrow> k + run_weight mc s' \<le> run_weight mc s"
  by (induction k arbitrary: s') (use internal_step_weight in fastforce)+

text \<open>The states of a run.\<close>

definition run_ok :: "run \<Rightarrow> bool" where
  "run_ok s = (list_all (\<lambda>sig. quit_signal sig \<or> sig = SIGUSR2) (sig_queue s) \<and> length (sig_queue s) \<le> sig_cap
     \<and> (sig_at s = Gone \<longleftrightarrow> gone s))"

lemma app_step_ok: "app_step mc s s' \<Longrightarrow> run_ok s \<Longrightarrow> run_ok s'"
  by (elim app_stepE internal_stepE) (auto simp: run_ok_def gone_def step_defs split: list.splits)

lemma reachable_induct [consumes 1, case_names start step]:
  assumes "run_reachable mc s" "P run_start" "\<And>s s'. run_reachable mc s \<Longrightarrow> P s \<Longrightarrow> app_step mc s s' \<Longrightarrow> P s'"
  shows "P s"
  using assms(1) unfolding run_reachable_def
  by (induction rule: rtranclp_induct) (use assms(2,3) in \<open>auto simp: run_reachable_def\<close>)

lemma reachable_ok: "run_reachable mc s \<Longrightarrow> run_ok s"
proof (induction rule: reachable_induct)
  case start
  show ?case by (simp add: run_ok_def run_start_def gone_def)
qed (rule app_step_ok)

lemma internal_step_ok: "internal_step mc s s' \<Longrightarrow> run_ok s \<Longrightarrow> run_ok s'"
  by (rule app_step_ok) (rule internal)

lemma internal_step_pending: "internal_step mc s s' \<Longrightarrow> quit_pending s \<Longrightarrow> quit_pending s'"
  by (elim internal_stepE)
    (auto simp: quit_pending_def step_defs quit_signal_def SIGUSR2_def SIGINT_def SIGUSR1_def split: list.splits main_pc.splits)

lemma pending_not_stuck:
  assumes "run_ok s" "quit_pending s" "\<not> gone s"
  shows "\<exists>s'. internal_step mc s s'"
proof (cases "sig_at s")
  case Waiting
  show ?thesis
  proof (cases "sig_queue s")
    case Nil
    with Waiting assms show ?thesis
      by (cases "main_at s") (auto simp: quit_pending_def gone_def intro: internal_step.intros)
  next
    case (Cons sig q)
    with Waiting assms visits_exist [of mc] show ?thesis
      by (auto simp: run_ok_def intro: internal_step.intros)
  qed
next
  case Quitting
  with assms(3) fini_visits_exist [of mc] show ?thesis
    by (cases "main_at s") (auto simp: gone_def intro: internal_step.intros)
next
  case Gone
  with assms show ?thesis by (simp add: run_ok_def)
qed (auto intro: reload_next)

lemma internal_steps_keep:
  assumes "run_ok s" "quit_pending s" "(internal_step mc ^^ k) s s'"
  shows "run_ok s' \<and> quit_pending s'"
  using assms(3) by (induction k arbitrary: s') (use assms internal_step_ok internal_step_pending in fastforce)+

text \<open>A pass never holds more modules than there are, so the weight of a reachable state is bounded.\<close>

definition passes_ok :: "('p, 'w) moduleCont \<Rightarrow> run \<Rightarrow> bool" where
  "passes_ok mc s =
     ((case main_at s of InFrame n ns \<Rightarrow> length ns < length mc | InUnInit n ns \<Rightarrow> length ns < length mc | _ \<Rightarrow> True)
      \<and> (case sig_at s of InReload n ns \<Rightarrow> length ns < length mc | _ \<Rightarrow> True))"

lemma app_step_passes: "app_step mc s s' \<Longrightarrow> passes_ok mc s \<Longrightarrow> passes_ok mc s'"
  by (elim app_stepE internal_stepE)
    (auto simp: passes_ok_def step_defs Suc_le_eq dest!: visits_length [OF _ order_refl] fini_visits_length split: list.splits)

lemma reachable_passes: "run_reachable mc s \<Longrightarrow> passes_ok mc s"
proof (induction rule: reachable_induct)
  case start
  show ?case by (simp add: passes_ok_def run_start_def)
qed (rule app_step_passes)

lemma run_weight_bound:
  assumes "run_ok s" "passes_ok mc s"
  shows "run_weight mc s \<le> (sig_cap + 3) * (length mc + 2)"
proof -
  have "main_weight (length mc) (main_at s) \<le> 2 * (length mc + 2)" "sig_weight (sig_at s) \<le> length mc + 2"
    using assms(2) by (auto simp: passes_ok_def split: main_pc.splits sig_pc.splits)
  moreover have "(length mc + 2) * length (sig_queue s) \<le> (length mc + 2) * sig_cap"
    using assms(1) unfolding run_ok_def by (intro mult_le_mono2) blast
  ultimately have "run_weight mc s \<le> 2 * (length mc + 2) + (length mc + 2) + (length mc + 2) * sig_cap"
    unfolding run_weight_def by (intro add_mono)
  then show ?thesis by (simp add: algebra_simps)
qed

lemma gone_stuck: "run_ok s \<Longrightarrow> gone s \<Longrightarrow> \<not> internal_step mc s s'"
  by (auto simp: run_ok_def gone_def elim!: internal_stepE)

text \<open>
  C21.  A quit ends the server: once \<open>SIGINT\<close> or \<open>SIGUSR1\<close> is in the channel of signals, whatever the
  two goroutines are doing and in whatever order they go on, at most \<open>23 * (modules + 2)\<close> steps
  follow without a tick or a new signal, and the two goroutines never block each other on the way:
  the run only stops when the process is gone.
\<close>

theorem quit_ends_server:
  assumes "run_reachable mc s" "quit_pending s" "(internal_step mc ^^ k) s s'"
  shows "k \<le> 23 * (length mc + 2) \<and> ((\<exists>s''. internal_step mc s' s'') \<longleftrightarrow> \<not> gone s')"
proof
  note s = reachable_ok [OF assms(1)]
  from internal_steps_bounded [OF assms(3)] run_weight_bound [OF s reachable_passes [OF assms(1)]]
  show "k \<le> 23 * (length mc + 2)" by (simp add: sig_cap_def)
  from internal_steps_keep [OF s assms(2,3)] show "(\<exists>s''. internal_step mc s' s'') \<longleftrightarrow> \<not> gone s'"
    using pending_not_stuck gone_stuck by blast
qed

text \<open>A server with two modules that has just received its first \<open>SIGINT\<close>.\<close>

definition interrupted :: run where
  "interrupted = run_start\<lparr>sig_queue := [SIGINT]\<rparr>"

lemma interrupted_reachable: "run_reachable mc interrupted"
proof -
  have "app_step mc run_start interrupted"
    using app_step.deliver [of run_start SIGINT mc] by (simp add: interrupted_def run_start_def quit_signal_def sig_cap_def)
  then show ?thesis by (simp add: run_reachable_def)
qed

lemma interrupted_quitting: "internal_step mc interrupted (run_start\<lparr>sig_at := Quitting\<rparr>)"
  using internal_step.take_quit [of interrupted SIGINT "[]" mc] by (simp add: interrupted_def run_start_def quit_signal_def)

theorem quit_ends_server_witness:
  "1 \<le> 23 * (length (moduleCont demo_app) + 2)
     \<and> (\<exists>s''. internal_step (moduleCont demo_app) (run_start\<lparr>sig_at := Quitting\<rparr>) s'')"
proof -
  have "quit_pending interrupted" by (simp add: quit_pending_def interrupted_def quit_signal_def)
  moreover have "(internal_step (moduleCont demo_app) ^^ 1) interrupted (run_start\<lparr>sig_at := Quitting\<rparr>)"
    using interrupted_quitting by (simp add: eval_nat_numeral relcompp_apply)
  ultimately show ?thesis
    using quit_ends_server [OF interrupted_reachable] by (fastforce simp: gone_def run_start_def)
qed

section \<open>Every tick runs every module\<close>

fun frame_due :: "main_pc \<Rightarrow> string list" where
  "frame_due (InFrame n ns) = ns"
| "frame_due _ = []"

fun uninit_due :: "main_pc \<Rightarrow> string list" where
  "uninit_due (InUnInit n ns) = ns"
| "uninit_due _ = []"

fun reload_due :: "sig_pc \<Rightarrow> string list" where
  "reload_due (InReload n ns) = ns"
| "reload_due _ = []"

fun in_main :: "module_call \<Rightarrow> bool" where
  "in_main (OnReloadOf n) = False"
| "in_main _ = True"

definition counts_up :: "string set \<Rightarrow> (string \<Rightarrow> module_call) \<Rightarrow> module_call list \<Rightarrow> nat \<Rightarrow> string list \<Rightarrow> bool \<Rightarrow> bool" where
  "counts_up S c cs k due live = (distinct due \<and> set due \<subseteq> S
     \<and> (\<forall>n\<in>S. count_list cs (c n) \<le> k \<and> k \<le> count_list cs (c n) + 1
         \<and> (live \<longrightarrow> count_list cs (c n) + (if n \<in> set due then 1 else 0) = k)))"

definition frames_counted :: "string set \<Rightarrow> run \<Rightarrow> bool" where
  "frames_counted S s = counts_up S MainloopOf (calls s) (ticks s) (frame_due (main_at s)) (main_at s \<noteq> Dies)"

definition reloads_counted :: "string set \<Rightarrow> run \<Rightarrow> bool" where
  "reloads_counted S s = counts_up S OnReloadOf (calls s) (reloads_begun s) (reload_due (sig_at s)) (sig_at s \<noteq> Gone)"

definition main_in_order :: "string set \<Rightarrow> run \<Rightarrow> bool" where
  "main_in_order S s = (\<exists>fs us. filter in_main (calls s) = map MainloopOf fs @ map UnInitOf us
     \<and> distinct (us @ uninit_due (main_at s)) \<and> set us \<union> set (uninit_due (main_at s)) \<subseteq> S
     \<and> (serving (main_at s) \<longrightarrow> us = []))"

lemma counts_up_begin:
  assumes "counts_up S c cs k [] True" "visits ns S" "inj c"
  shows "counts_up S c (cs @ begun c ns) (k + 1) (tl ns) True"
  using assms by (cases ns) (auto simp: counts_up_def visits_def inj_eq)

lemma counts_up_next:
  assumes "counts_up S c cs k due True" "inj c"
  shows "counts_up S c (cs @ begun c due) k (tl due) True"
  using assms by (cases due) (auto simp: counts_up_def inj_eq)


lemma counts_up_other:
  "(\<And>n m. c n \<noteq> d m) \<Longrightarrow> counts_up S c (cs @ begun d ns) k due live = counts_up S c cs k due live"
proof -
  assume "\<And>n m. c n \<noteq> d m"
  then have "count_list (cs @ begun d ns) (c n) = count_list cs (c n)" for n
    by (cases ns) (simp_all, metis)
  then show ?thesis by (simp add: counts_up_def)
qed

lemma counts_up_dies: "counts_up S c cs k due live \<Longrightarrow> counts_up S c cs k [] False"
  by (auto simp: counts_up_def)

lemma inj_calls: "inj MainloopOf" "inj OnReloadOf"
  by (auto intro: injI)

lemma due_go_on [simp]:
  "frame_due (go_on InFrame Selecting ns) = tl ns" "frame_due (go_on InUnInit Leaving ns) = []"
  "uninit_due (go_on InUnInit Leaving ns) = tl ns" "uninit_due (go_on InFrame Selecting ns) = []"
  "reload_due (go_on InReload Waiting ns) = tl ns"
  "serving (go_on InFrame Selecting ns)" "\<not> serving (go_on InUnInit Leaving ns)"
  "go_on InFrame Selecting ns \<noteq> Dies" "go_on InUnInit Leaving ns \<noteq> Dies" "go_on InReload Waiting ns \<noteq> Gone"
  by (cases ns; simp)+

lemmas counted_simps = frames_counted_def reloads_counted_def main_calls_def reload_calls_def counts_up_other

lemmas counted_intros = counts_up_begin [OF _ _ inj_calls(1)] counts_up_begin [OF _ _ inj_calls(2)]
  counts_up_next [OF _ inj_calls(1)] counts_up_next [OF _ inj_calls(2)] counts_up_dies

lemma internal_step_frames: "internal_step mc s s' \<Longrightarrow> frames_counted S s \<Longrightarrow> frames_counted S s'"
  by (elim internal_stepE) (auto simp: counted_simps intro: counted_intros)

lemma app_step_frames:
  assumes "app_step mc s s'" "frames_counted (fst ` set mc) s"
  shows "frames_counted (fst ` set mc) s'"
  using assms(1)
proof cases
  case (tick ns)
  with assms(2) show ?thesis
    using counts_up_begin [OF _ _ inj_calls(1)] by (fastforce simp: counted_simps)
next
  case internal
  with assms(2) show ?thesis by (rule internal_step_frames [rotated])
qed (use assms(2) in \<open>simp add: frames_counted_def\<close>)

lemma internal_step_reloads:
  assumes "internal_step mc s s'" "reloads_counted (fst ` set mc) s"
  shows "reloads_counted (fst ` set mc) s'"
  using assms(1)
proof cases
  case (take_reload q ns)
  with assms(2) show ?thesis
    using counts_up_begin [OF _ _ inj_calls(2)] by (fastforce simp: counted_simps)
qed (use assms(2) in \<open>auto simp: counted_simps intro: counted_intros\<close>)

lemma app_step_reloads:
  assumes "app_step mc s s'" "reloads_counted (fst ` set mc) s"
  shows "reloads_counted (fst ` set mc) s'"
  using assms(1)
proof cases
  case internal
  with assms(2) show ?thesis by (rule internal_step_reloads [rotated])
qed (use assms(2) in \<open>simp_all add: counted_simps\<close>)

lemma filter_begun [simp]:
  "filter in_main (begun MainloopOf ns) = begun MainloopOf ns" "filter in_main (begun UnInitOf ns) = begun UnInitOf ns"
  "filter in_main (begun OnReloadOf ns) = []"
  by (cases ns; simp)+

lemma begun_take: "begun c ns = map c (take 1 ns)"
  by (cases ns) simp_all

lemma main_in_orderI:
  assumes "filter in_main (calls s) = map MainloopOf fs @ map UnInitOf us" "distinct (us @ uninit_due (main_at s))"
    "set us \<union> set (uninit_due (main_at s)) \<subseteq> S" "serving (main_at s) \<Longrightarrow> us = []"
  shows "main_in_order S s"
  using assms unfolding main_in_order_def by blast

lemma main_in_order_frame:
  assumes "main_in_order S s" "serving (main_at s)"
  shows "main_in_order S (main_calls InFrame Selecting MainloopOf ns (s\<lparr>ticks := k\<rparr>))"
proof -
  from assms obtain fs where "filter in_main (calls s) = map MainloopOf fs" by (auto simp: main_in_order_def)
  then have "filter in_main (calls s @ begun MainloopOf ns) = map MainloopOf (fs @ take 1 ns) @ map UnInitOf []"
    by (simp add: begun_take)
  then show ?thesis
    by (intro main_in_orderI [where fs = "fs @ take 1 ns" and us = "[]"]) (simp_all add: main_calls_def)
qed

lemma main_in_order_uninit:
  assumes "filter in_main (calls s) = map MainloopOf fs @ map UnInitOf us" "distinct (us @ ns)" "set (us @ ns) \<subseteq> S"
  shows "main_in_order S (main_calls InUnInit Leaving UnInitOf ns s)"
proof -
  have "filter in_main (calls s @ begun UnInitOf ns) = map MainloopOf fs @ map UnInitOf (us @ take 1 ns)"
    using assms(1) by (simp add: begun_take)
  moreover have "distinct ((us @ take 1 ns) @ tl ns)" "set (us @ take 1 ns) \<union> set (tl ns) \<subseteq> S"
    using assms(2,3) by (cases ns; auto)+
  ultimately show ?thesis
    by (intro main_in_orderI [where fs = fs and us = "us @ take 1 ns"]) (simp_all add: main_calls_def)
qed

lemma internal_step_order:
  assumes "internal_step mc s s'" "main_in_order (fst ` set mc) s" "distinct (map fst mc)"
  shows "main_in_order (fst ` set mc) s'"
  using assms(1)
proof cases
  case (frame_next n ns)
  with main_in_order_frame [OF assms(2), of ns "ticks s"] show ?thesis by simp
next
  case (quit ns)
  from assms(2) quit obtain fs where "filter in_main (calls s) = map MainloopOf fs @ map UnInitOf []"
    by (auto simp: main_in_order_def)
  with quit fini_visits_distinct [OF assms(3)] show ?thesis
    by (auto intro!: main_in_order_uninit)
next
  case (uninit_next n ns)
  from assms(2) obtain fs us where "filter in_main (calls s) = map MainloopOf fs @ map UnInitOf us"
    "distinct (us @ uninit_due (main_at s))" "set us \<union> set (uninit_due (main_at s)) \<subseteq> fst ` set mc"
    by (auto simp: main_in_order_def)
  with uninit_next show ?thesis by (auto intro!: main_in_order_uninit)
qed (use assms(2) in \<open>auto simp: main_in_order_def reload_calls_def\<close>)

lemma app_step_order:
  assumes "app_step mc s s'" "main_in_order (fst ` set mc) s" "distinct (map fst mc)"
  shows "main_in_order (fst ` set mc) s'"
  using assms(1)
proof cases
  case (tick ns)
  with main_in_order_frame [OF assms(2)] show ?thesis by simp
next
  case internal
  then show ?thesis using assms(2,3) by (rule internal_step_order)
qed (use assms(2) in \<open>simp add: main_in_order_def\<close>)

lemma reachable_called:
  assumes "run_reachable mc s" "distinct (map fst mc)"
  shows "frames_counted (fst ` set mc) s \<and> reloads_counted (fst ` set mc) s \<and> main_in_order (fst ` set mc) s"
  using assms(1)
proof (induction rule: reachable_induct)
  case start
  show ?case by (simp add: run_start_def frames_counted_def reloads_counted_def counts_up_def main_in_order_def)
next
  case (step s s')
  with assms(2) app_step_frames app_step_reloads app_step_order show ?case by blast
qed

text \<open>
  C22.  Every tick runs every module: at every moment of every interleaving, each module has been called
  once per tick that was served, the current frame apart, and once per reload that was begun, the
  current one apart; the calls of the main goroutine are frames followed by \<open>UnInit\<close> calls, and no
  module is ended twice.
\<close>

theorem every_tick_runs_modules:
  assumes "run_reachable mc s" "distinct (map fst mc)" "n \<in> fst ` set mc"
  shows "count_list (calls s) (MainloopOf n) \<le> ticks s \<and> ticks s \<le> count_list (calls s) (MainloopOf n) + 1
    \<and> (main_at s = Selecting \<longrightarrow> count_list (calls s) (MainloopOf n) = ticks s)
    \<and> count_list (calls s) (OnReloadOf n) \<le> reloads_begun s \<and> reloads_begun s \<le> count_list (calls s) (OnReloadOf n) + 1
    \<and> (sig_at s = Waiting \<longrightarrow> count_list (calls s) (OnReloadOf n) = reloads_begun s)
    \<and> (\<exists>fs us. filter in_main (calls s) = map MainloopOf fs @ map UnInitOf us \<and> distinct us)"
  using reachable_called [OF assms(1,2)] assms(3)
  by (auto simp: frames_counted_def reloads_counted_def counts_up_def main_in_order_def)

section \<open>What the goroutines do at the same time\<close>

lemma reachable_step: "run_reachable mc s \<Longrightarrow> app_step mc s s' \<Longrightarrow> run_reachable mc s'"
  by (simp add: run_reachable_def)

lemmas reachable_internal = reachable_step [OF _ app_step.internal]

lemma reachable_deliver:
  assumes "run_reachable mc s" "sig_at s \<noteq> Gone" "quit_signal sig \<or> sig = SIGUSR2" "length (sig_queue s) < sig_cap"
  shows "run_reachable mc (s\<lparr>sig_queue := sig_queue s @ [sig]\<rparr>)"
  using reachable_step [OF assms(1) app_step.deliver [OF assms(2,3)]] assms(4) by simp

lemma visits_from: "n \<in> S \<Longrightarrow> finite S \<Longrightarrow> \<exists>ns. visits (n # ns) S"
  using finite_distinct_list [of "S - {n}"] by (auto simp: visits_def)

lemma reachable_reload:
  assumes "run_reachable mc s" "sig_at s = Waiting" "sig_queue s = []" "n \<in> fst ` set mc"
  shows "\<exists>s' ns. run_reachable mc s' \<and> main_at s' = main_at s \<and> sig_at s' = InReload n ns"
proof -
  obtain ns where ns: "visits (n # ns) (fst ` set mc)" using visits_from assms(4) by blast
  from assms have "run_reachable mc (s\<lparr>sig_queue := [SIGUSR2]\<rparr>)"
    using reachable_deliver [OF assms(1), of SIGUSR2] by (simp add: sig_cap_def)
  from reachable_internal [OF this internal_step.take_reload [OF _ _ ns]] assms(2)
  show ?thesis by (fastforce simp: reload_calls_def)
qed

text \<open>
  Frames and reloads overlap: for every module there is a run in which its \<open>Mainloop\<close> and its
  \<open>OnReload\<close> are under way at the same time, in two goroutines.
\<close>

lemma frame_and_reload_overlap:
  assumes "n \<in> fst ` set mc"
  shows "\<exists>s ns ms. run_reachable mc s \<and> main_at s = InFrame n ns \<and> sig_at s = InReload n ms"
proof -
  obtain ns where ns: "visits (n # ns) (fst ` set mc)" using visits_from assms by blast
  have "run_reachable mc run_start" by (simp add: run_reachable_def)
  from reachable_step [OF this app_step.tick [OF _ ns]]
  have "run_reachable mc (main_calls InFrame Selecting MainloopOf (n # ns) (run_start\<lparr>ticks := 1\<rparr>))"
    by (simp add: run_start_def)
  from reachable_reload [OF this _ _ assms] show ?thesis
    by (fastforce simp: main_calls_def run_start_def)
qed

text \<open>A server with modules can be ending a module that is in the middle of its reload.\<close>

lemma fini_and_reload_overlap:
  assumes "mc \<noteq> []"
  shows "\<exists>s n ns ms. run_reachable mc s \<and> main_at s = InUnInit n ns \<and> sig_at s = InReload n ms"
proof -
  obtain ns where ns: "fini_visits mc ns" using fini_visits_exist by blast
  then have set_ns: "set ns = fst ` set mc" by (force simp: fini_visits_def visits_def)
  with assms obtain n ms where n: "ns = n # ms" "n \<in> fst ` set mc" by (cases ns) auto
  let ?s = "main_calls InUnInit Leaving UnInitOf ns run_start"
  have "run_reachable mc ?s"
    using reachable_internal [OF reachable_internal [OF interrupted_reachable interrupted_quitting] internal_step.quit [OF _ _ ns]]
    by (simp add: run_start_def)
  moreover have "main_at ?s = InUnInit n ms" "sig_at ?s = Waiting" "sig_queue ?s = []"
    using n(1) by (simp_all add: main_calls_def run_start_def)
  ultimately show ?thesis using reachable_reload [OF _ _ _ n(2), of ?s] by metis
qed

theorem every_tick_runs_modules_witness:
  "\<exists>s. run_reachable (moduleCont demo_app) s \<and> main_at s \<noteq> Selecting
     \<and> ticks s \<le> count_list (calls s) (MainloopOf ''a'') + 1
     \<and> (\<exists>fs us. filter in_main (calls s) = map MainloopOf fs @ map UnInitOf us \<and> distinct us)"
proof -
  have mc: "''a'' \<in> fst ` set (moduleCont demo_app)" "distinct (map fst (moduleCont demo_app))"
    by (simp_all add: demo_defs)
  from frame_and_reload_overlap [OF this(1)] obtain s ns where
    s: "run_reachable (moduleCont demo_app) s" "main_at s = InFrame ''a'' ns" by blast
  note counts = every_tick_runs_modules [OF s(1) mc(2,1)]
  have "main_at s \<noteq> Selecting" using s(2) by simp
  with s(1) counts show ?thesis by blast
qed

section \<open>The sequential main loop\<close>

text \<open>What a sequence of calls does to the world, when no module panics.\<close>

definition call_effect :: "('p, 'w) moduleCont \<Rightarrow> module_call \<Rightarrow> 'w \<Rightarrow> 'w" where
  "call_effect mc c w =
     (case c of
        MainloopOf n \<Rightarrow> (case map_of mc n of Some m \<Rightarrow> m_Mainloop m w | None \<Rightarrow> w)
      | OnReloadOf n \<Rightarrow> (case map_of mc n of Some m \<Rightarrow> m_OnReload m w | None \<Rightarrow> w)
      | UnInitOf n \<Rightarrow> w)"


definition event_calls :: "('p, 'w) moduleCont \<Rightarrow> 'v loop_event \<Rightarrow> module_call list" where
  "event_calls mc e =
     (case e of
        Frame rank \<Rightarrow> map (MainloopOf \<circ> fst) (ranged rank mc)
      | Signal sig read rank \<Rightarrow> if sig = SIGUSR2 then map (OnReloadOf \<circ> fst) (ranged rank mc) else [])"

lemma fold_call_effect:
  assumes "distinct (map fst mc)" "\<And>n m w. map_of mc n = Some m \<Longrightarrow> call_effect mc (c n) w = f m w"
  shows "fold (call_effect mc) (map (c \<circ> fst) (ranged rank mc)) = fold (\<lambda>(_, m). f m) (ranged rank mc)"
proof (rule ext)
  fix w
  have "fold (\<lambda>p. call_effect mc (c (fst p))) (ranged rank mc) w = fold (\<lambda>p. f (snd p)) (ranged rank mc) w"
    using assms by (intro fold_cong) (auto simp: fun_eq_iff)
  then show "fold (call_effect mc) (map (c \<circ> fst) (ranged rank mc)) w = fold (\<lambda>(_, m). f m) (ranged rank mc) w"
    by (simp add: fold_map comp_def case_prod_unfold)
qed

lemma event_calls_effect:
  "distinct (map fst mc) \<Longrightarrow> fold (call_effect mc) (event_calls mc e) = event_effect mc e"
  using fold_call_effect [of mc MainloopOf m_Mainloop] fold_call_effect [of mc OnReloadOf m_OnReload]
  by (auto simp: event_calls_def event_effect_def call_effect_def fun_eq_iff split: loop_event.split)

lemma frame_finishes:
  "main_at s = InFrame n ns \<Longrightarrow> (app_step mc)\<^sup>*\<^sup>* s (s\<lparr>main_at := Selecting, calls := calls s @ map MainloopOf ns\<rparr>)"
proof (induction ns arbitrary: n s)
  case Nil
  then have "app_step mc s (main_calls InFrame Selecting MainloopOf [] s)"
    by (intro internal frame_next)
  with Nil show ?case by (simp add: main_calls_def r_into_rtranclp)
next
  case (Cons m ns)
  let ?s = "main_calls InFrame Selecting MainloopOf (m # ns) s"
  have "app_step mc s ?s" using Cons.prems by (intro internal frame_next)
  also have "(app_step mc)\<^sup>*\<^sup>* ?s (?s\<lparr>main_at := Selecting, calls := calls ?s @ map MainloopOf ns\<rparr>)"
    by (rule Cons.IH) (simp add: main_calls_def)
  finally show ?case by (simp add: main_calls_def)
qed

lemma reload_finishes:
  "sig_at s = InReload n ns \<Longrightarrow> (app_step mc)\<^sup>*\<^sup>* s (s\<lparr>sig_at := Waiting, calls := calls s @ map OnReloadOf ns\<rparr>)"
proof (induction ns arbitrary: n s)
  case Nil
  then have "app_step mc s (reload_calls [] s)"
    by (intro internal reload_next)
  with Nil show ?case by (simp add: reload_calls_def r_into_rtranclp)
next
  case (Cons m ns)
  let ?s = "reload_calls (m # ns) s"
  have "app_step mc s ?s" using Cons.prems by (intro internal reload_next)
  also have "(app_step mc)\<^sup>*\<^sup>* ?s (?s\<lparr>sig_at := Waiting, calls := calls ?s @ map OnReloadOf ns\<rparr>)"
    by (rule Cons.IH) (simp add: reload_calls_def)
  finally show ?case by (simp add: reload_calls_def)
qed

definition at_rest :: "run \<Rightarrow> bool" where
  "at_rest s = (main_at s = Selecting \<and> sig_at s = Waiting \<and> sig_queue s = [])"

lemma whole_frame:
  assumes "at_rest s" "visits ns (fst ` set mc)"
  shows "\<exists>s'. (app_step mc)\<^sup>*\<^sup>* s s' \<and> at_rest s' \<and> calls s' = calls s @ map MainloopOf ns"
proof -
  let ?s = "main_calls InFrame Selecting MainloopOf ns (s\<lparr>ticks := ticks s + 1\<rparr>)"
  have step: "app_step mc s ?s" using assms by (intro tick) (simp_all add: at_rest_def)
  show ?thesis
  proof (cases ns)
    case Nil
    with step assms(1) show ?thesis by (intro exI [of _ ?s]) (auto simp: at_rest_def main_calls_def)
  next
    case (Cons n ms)
    then have "(app_step mc)\<^sup>*\<^sup>* ?s (?s\<lparr>main_at := Selecting, calls := calls ?s @ map MainloopOf ms\<rparr>)"
      by (intro frame_finishes) (simp add: main_calls_def)
    with step Cons assms(1) show ?thesis
      by (intro exI [of _ "?s\<lparr>main_at := Selecting, calls := calls ?s @ map MainloopOf ms\<rparr>"])
        (auto simp: at_rest_def main_calls_def intro: converse_rtranclp_into_rtranclp)
  qed
qed

lemma whole_reload:
  assumes "at_rest s" "visits ns (fst ` set mc)"
  shows "\<exists>s'. (app_step mc)\<^sup>*\<^sup>* s s' \<and> at_rest s' \<and> calls s' = calls s @ map OnReloadOf ns"
proof -
  let ?d = "s\<lparr>sig_queue := [SIGUSR2]\<rparr>"
  let ?s = "reload_calls ns (?d\<lparr>sig_queue := [], reloads_begun := reloads_begun ?d + 1\<rparr>)"
  have "(app_step mc)\<^sup>*\<^sup>* s ?d"
    using app_step.deliver [of s SIGUSR2 mc] assms(1) by (intro r_into_rtranclp) (simp add: at_rest_def sig_cap_def)
  also have "app_step mc ?d ?s"
    using assms by (intro internal take_reload) (simp_all add: at_rest_def)
  finally have step: "(app_step mc)\<^sup>*\<^sup>* s ?s" .
  show ?thesis
  proof (cases ns)
    case Nil
    with step assms(1) show ?thesis by (intro exI [of _ ?s]) (auto simp: at_rest_def reload_calls_def)
  next
    case (Cons n ms)
    then have "(app_step mc)\<^sup>*\<^sup>* ?s (?s\<lparr>sig_at := Waiting, calls := calls ?s @ map OnReloadOf ms\<rparr>)"
      by (intro reload_finishes) (simp add: reload_calls_def)
    with step Cons assms(1) show ?thesis
      by (intro exI [of _ "?s\<lparr>sig_at := Waiting, calls := calls ?s @ map OnReloadOf ms\<rparr>"])
        (auto simp: at_rest_def reload_calls_def intro: rtranclp_trans)
  qed
qed

lemma sequential_reachable:
  assumes "distinct (map fst mc)"
  shows "\<exists>s. run_reachable mc s \<and> at_rest s \<and> calls s = concat (map (event_calls mc) es)"
proof (induction es rule: rev_induct)
  case Nil
  show ?case by (intro exI [of _ run_start]) (simp add: run_reachable_def at_rest_def run_start_def)
next
  case (snoc e es)
  then obtain s where s: "run_reachable mc s" "at_rest s" "calls s = concat (map (event_calls mc) es)" by blast
  have "visits (map fst (ranged rank mc)) (fst ` set mc)" for rank using assms by (simp add: visits_def)
  from whole_frame [OF s(2) this] whole_reload [OF s(2) this] s(2)
  have "\<exists>s'. (app_step mc)\<^sup>*\<^sup>* s s' \<and> at_rest s' \<and> calls s' = calls s @ event_calls mc e"
    by (cases e) (auto simp: event_calls_def)
  with s(1,3) show ?case unfolding run_reachable_def by (auto intro: rtranclp_trans)
qed

text \<open>
  The sequential main loop of \<open>App\<close> is one of the interleavings: some run of the two goroutines comes
  to the finish channel with exactly its calls, which leave the world as the loop leaves it.
\<close>

lemma main_loop_interleaves:
  assumes "app_signals s = register_signals g" "sigHandlers g = Map.empty" "list_all (\<lambda>e. \<not> is_quit e) es" "is_quit q"
    "distinct (map fst (moduleCont s))"
  shows "\<exists>s' r. main_loop (es @ q # post) s = Some s' \<and> run_reachable (moduleCont s) r \<and> at_rest r
    \<and> app_world s' = fold (call_effect (moduleCont s)) (calls r) (app_world s)"
proof -
  have "fold (call_effect (moduleCont s)) (concat (map (event_calls (moduleCont s)) es)) w
      = fold (event_effect (moduleCont s)) es w" for w
    by (induction es arbitrary: w) (simp_all add: event_calls_effect [OF assms(5)])
  with main_loop_run [OF assms(1-4)] sequential_reachable [OF assms(5), of es] show ?thesis by metis
qed

end
