(* ===== verification/Msg_Text.thy ===== *)
theory Msg_Text
  imports Msg
begin

text \<open>
  The lines that \<^verbatim>\<open>src/server_base/msg/msg.go\<close> logs for a message that was received or sent: the
  text of the header and of the body, each indented by two spaces in a block of its own.  The text
  format of the protobuf runtime is an argument, \<open>fmt\<close>.
\<close>

section \<open>Printing\<close>

definition newline :: char where "newline = CHR 0x0A"

text \<open>\<open>strings.Replace\<close> of every line break, \<open>strings.TrimRight\<close> of blanks, and \<open>fmt.Sprintf\<close> with the verb \<open>%s\<close>.\<close>

definition indent_breaks :: "string \<Rightarrow> string" where
  "indent_breaks s = concat (map (\<lambda>c. if c = newline then newline # ''  '' else [c]) s)"

definition TrimRight_blanks :: "string \<Rightarrow> string" where
  "TrimRight_blanks s = rev (dropWhile (\<lambda>c. c = CHR '' '') (rev s))"

fun Sprintf_s :: "string \<Rightarrow> string list \<Rightarrow> string" where
  "Sprintf_s (c # d # cs) (a # as) =
     (if c = CHR ''%'' \<and> d = CHR ''s'' then a @ Sprintf_s cs as else c # Sprintf_s (d # cs) (a # as))"
| "Sprintf_s cs as = cs"

definition PrintReadableStr :: "('m \<Rightarrow> string) \<Rightarrow> 'm \<Rightarrow> string" where
  "PrintReadableStr fmt msg = ''  '' @ TrimRight_blanks (indent_breaks (fmt msg))"

text \<open>The text of the line, for the name of the message type and the two texts.\<close>

definition printCSMsg :: "('hd \<Rightarrow> string) \<Rightarrow> ('msg \<Rightarrow> string) \<Rightarrow> ('msg \<Rightarrow> string) \<Rightarrow> 'hd \<Rightarrow> 'msg \<Rightarrow> string" where
  "printCSMsg fmt_head fmt name header msg =
     Sprintf_s (''recv cs msg:'' @ [newline] @ ''CS_HEAD {'' @ [newline] @ ''%s}'' @ [newline] @ ''%s {'' @ [newline] @ ''%s}'')
       [PrintReadableStr fmt_head header, name msg, PrintReadableStr fmt msg]"

definition printSCMsg :: "('sc \<Rightarrow> string) \<Rightarrow> ('msg \<Rightarrow> string) \<Rightarrow> ('msg \<Rightarrow> string) \<Rightarrow> 'sc \<Rightarrow> 'msg \<Rightarrow> string" where
  "printSCMsg fmt_head fmt name header msg =
     Sprintf_s (''send sc msg:'' @ [newline] @ ''SC_HEAD {'' @ [newline] @ ''%s}'' @ [newline] @ ''%s {'' @ [newline] @ ''%s}'')
       [PrintReadableStr fmt_head header, name msg, PrintReadableStr fmt msg]"

section \<open>Lines\<close>

definition as_lines :: "string list \<Rightarrow> string" where
  "as_lines ls = concat (map (\<lambda>l. l @ [newline]) ls)"

lemma indent_breaks_append: "indent_breaks (s @ t) = indent_breaks s @ indent_breaks t"
  by (simp add: indent_breaks_def)

lemma indent_breaks_line: "newline \<notin> set l \<Longrightarrow> indent_breaks l = l"
  by (induction l) (auto simp: indent_breaks_def)

lemma indent_breaks_lines:
  "\<forall>l\<in>set ls. newline \<notin> set l \<Longrightarrow> ''  '' @ indent_breaks (as_lines ls) = as_lines (map (\<lambda>l. ''  '' @ l) ls) @ ''  ''"
proof (induction ls)
  case (Cons l ls)
  then have "indent_breaks (as_lines (l # ls)) = l @ [newline] @ ''  '' @ indent_breaks (as_lines ls)"
    by (simp add: as_lines_def indent_breaks_append indent_breaks_line) (simp add: indent_breaks_def)
  also have "''  '' @ indent_breaks (as_lines ls) = as_lines (map (\<lambda>l. ''  '' @ l) ls) @ ''  ''"
    using Cons by simp
  finally show ?case by (simp add: as_lines_def)
qed (simp add: as_lines_def indent_breaks_def)

lemma TrimRight_break: "TrimRight_blanks (s @ [newline] @ ''  '') = s @ [newline]"
  by (simp add: TrimRight_blanks_def newline_def)

lemma TrimRight_prefix: "TrimRight_blanks t \<noteq> [] \<Longrightarrow> TrimRight_blanks (s @ t) = s @ TrimRight_blanks t"
  by (auto simp: TrimRight_blanks_def dropWhile_eq_Nil_conv dropWhile_append1)

text \<open>
  A text of lines is printed as the same lines, every one indented by two spaces, whatever blanks
  they end in; so no line of a message is lost or joined in the log.
\<close>

theorem readable_lines:
  assumes "fmt msg = as_lines ls" and "ls \<noteq> []" and "\<forall>l\<in>set ls. newline \<notin> set l"
  shows "PrintReadableStr fmt msg = as_lines (map (\<lambda>l. ''  '' @ l) ls)"
proof -
  obtain ks l where ls: "ls = ks @ [l]" using assms(2) by (metis rev_exhaust)
  have "''  '' @ indent_breaks (fmt msg) = (as_lines (map (\<lambda>l. ''  '' @ l) ks) @ ''  '' @ l) @ [newline] @ ''  ''"
    unfolding assms(1) indent_breaks_lines [OF assms(3)] by (simp add: ls as_lines_def comp_def)
  then have "TrimRight_blanks (''  '' @ indent_breaks (fmt msg)) = as_lines (map (\<lambda>l. ''  '' @ l) ls)"
    unfolding ls by (simp only: TrimRight_break) (simp add: as_lines_def comp_def)
  moreover have "newline \<in> set (TrimRight_blanks (indent_breaks (fmt msg)))"
  proof -
    have "indent_breaks (fmt msg) = indent_breaks (as_lines ks @ l) @ [newline] @ ''  ''"
      unfolding assms(1) ls by (simp add: as_lines_def indent_breaks_append) (simp add: indent_breaks_def)
    then show ?thesis by (simp only: TrimRight_break) simp
  qed
  then have "TrimRight_blanks (indent_breaks (fmt msg)) \<noteq> []" by auto
  ultimately show ?thesis using TrimRight_prefix [of "indent_breaks (fmt msg)" "''  ''"] by (simp add: PrintReadableStr_def)
qed

text \<open>The whole line for a received message.\<close>

lemma received_lines:
  assumes "fmt_head header = as_lines hs" and "hs \<noteq> []" and "fmt msg = as_lines ls" and "ls \<noteq> []"
    and "\<forall>l\<in>set (hs @ ls). newline \<notin> set l"
  shows "printCSMsg fmt_head fmt name header msg @ [newline]
    = as_lines ([''recv cs msg:'', ''CS_HEAD {''] @ map (\<lambda>l. ''  '' @ l) hs @ [''}'', name msg @ '' {''] @ map (\<lambda>l. ''  '' @ l) ls @ [''}''])"
proof -
  have "PrintReadableStr fmt_head header = as_lines (map (\<lambda>l. ''  '' @ l) hs)" "PrintReadableStr fmt msg = as_lines (map (\<lambda>l. ''  '' @ l) ls)"
    using readable_lines assms by (metis Un_iff set_append)+
  then show ?thesis by (simp add: printCSMsg_def newline_def as_lines_def)
qed

end
