(* ===== verification/Log.thy ===== *)
theory Log
  imports Go_Strconv
begin

text \<open>
  The logging of \<^verbatim>\<open>src/plugin/log\<close>: the level filter and the counters of \<^verbatim>\<open>logger.go\<close>, and the
  file logger of \<^verbatim>\<open>bingologger/bingologger.go\<close> with its configuration check, its file rotation
  and its batching queue.  The file system maps a path to the contents and the change time (in
  seconds) of a file; the paths in \<open>denied\<close> fail with an error that is not \<open>NotExist\<close>, those in
  \<open>no_rename\<close> cannot be renamed.  The calendar of the host (\<open>time.Time\<close>'s year, month and day in local time) is the argument \<open>date\<close>.
\<close>

section \<open>Levels and counters\<close>

definition LogLevelNull :: int where "LogLevelNull = 0"
definition LogLevelTrace :: int where "LogLevelTrace = 1"
definition LogLevelDebug :: int where "LogLevelDebug = 2"
definition LogLevelInfo :: int where "LogLevelInfo = 3"
definition LogLevelError :: int where "LogLevelError = 4"
definition LogLevelFatal :: int where "LogLevelFatal = 5"

lemmas levels = LogLevelNull_def LogLevelTrace_def LogLevelDebug_def LogLevelInfo_def
  LogLevelError_def LogLevelFatal_def

record AcntLogger =
  InLogWhitelist :: bool
  GetLogStr :: string

text \<open>The global logger (\<open>None\<close> is nil) by its level, the counters, and what it was given.\<close>

record log_front =
  globalLogger :: "int option"
  TraceCnt :: u32
  DebugCnt :: u32
  InfoCnt :: u32
  ErrorCnt :: u32
  FatalCnt :: u32
  emitted :: "(string \<times> AcntLogger option \<times> string) list"

definition SetLogger :: "int option \<Rightarrow> log_front \<Rightarrow> log_front" where
  "SetLogger logger s = s\<lparr>globalLogger := logger\<rparr>"

definition Output_to :: "string \<Rightarrow> AcntLogger option \<Rightarrow> string \<Rightarrow> log_front \<Rightarrow> log_front" where
  "Output_to tag a msg s = s\<lparr>emitted := emitted s @ [(tag, a, msg)]\<rparr>"

definition Trace :: "string \<Rightarrow> log_front \<Rightarrow> log_front" where
  "Trace msg s = (case globalLogger s of None \<Rightarrow> s | Some l \<Rightarrow>
     if l > LogLevelTrace then s
     else Output_to ''TRACE'' None msg (s\<lparr>TraceCnt := TraceCnt s + 1\<rparr>))"

definition Debug :: "string \<Rightarrow> log_front \<Rightarrow> log_front" where
  "Debug msg s = (case globalLogger s of None \<Rightarrow> s | Some l \<Rightarrow>
     if l > LogLevelDebug then s
     else Output_to ''DEBUG'' None msg (s\<lparr>DebugCnt := DebugCnt s + 1\<rparr>))"

definition Info :: "string \<Rightarrow> log_front \<Rightarrow> log_front" where
  "Info msg s = (case globalLogger s of None \<Rightarrow> s | Some l \<Rightarrow>
     if l > LogLevelInfo then s
     else Output_to ''INFO'' None msg (s\<lparr>InfoCnt := InfoCnt s + 1\<rparr>))"

definition Error :: "string \<Rightarrow> log_front \<Rightarrow> log_front" where
  "Error msg s = (case globalLogger s of None \<Rightarrow> s | Some l \<Rightarrow>
     if l > LogLevelError then s
     else Output_to ''ERR'' None msg (s\<lparr>ErrorCnt := ErrorCnt s + 1\<rparr>))"

definition Fatal :: "string \<Rightarrow> log_front \<Rightarrow> log_front" where
  "Fatal msg s = (case globalLogger s of None \<Rightarrow> s | Some l \<Rightarrow>
     if l > LogLevelFatal then s
     else Output_to ''FATAL'' None msg (s\<lparr>FatalCnt := FatalCnt s + 1\<rparr>))"

definition AcntTrace :: "AcntLogger \<Rightarrow> string \<Rightarrow> log_front \<Rightarrow> log_front" where
  "AcntTrace a msg s = (case globalLogger s of None \<Rightarrow> s | Some l \<Rightarrow>
     if \<not> InLogWhitelist a \<and> l > LogLevelTrace then s
     else Output_to ''TRACE'' (Some a) msg (s\<lparr>TraceCnt := TraceCnt s + 1\<rparr>))"

definition AcntDebug :: "AcntLogger \<Rightarrow> string \<Rightarrow> log_front \<Rightarrow> log_front" where
  "AcntDebug a msg s = (case globalLogger s of None \<Rightarrow> s | Some l \<Rightarrow>
     if \<not> InLogWhitelist a \<and> l > LogLevelDebug then s
     else Output_to ''DEBUG'' (Some a) msg (s\<lparr>DebugCnt := DebugCnt s + 1\<rparr>))"

definition AcntInfo :: "AcntLogger \<Rightarrow> string \<Rightarrow> log_front \<Rightarrow> log_front" where
  "AcntInfo a msg s = (case globalLogger s of None \<Rightarrow> s | Some l \<Rightarrow>
     if \<not> InLogWhitelist a \<and> l > LogLevelInfo then s
     else Output_to ''INFO'' (Some a) msg (s\<lparr>InfoCnt := InfoCnt s + 1\<rparr>))"

definition AcntError :: "AcntLogger \<Rightarrow> string \<Rightarrow> log_front \<Rightarrow> log_front" where
  "AcntError a msg s = (case globalLogger s of None \<Rightarrow> s | Some l \<Rightarrow>
     if \<not> InLogWhitelist a \<and> l > LogLevelError then s
     else Output_to ''ERR'' (Some a) msg (s\<lparr>ErrorCnt := ErrorCnt s + 1\<rparr>))"

definition AcntFatal :: "AcntLogger \<Rightarrow> string \<Rightarrow> log_front \<Rightarrow> log_front" where
  "AcntFatal a msg s = (case globalLogger s of None \<Rightarrow> s | Some l \<Rightarrow>
     if \<not> InLogWhitelist a \<and> l > LogLevelFatal then s
     else Output_to ''FATAL'' (Some a) msg (s\<lparr>FatalCnt := FatalCnt s + 1\<rparr>))"

definition GetLogLevel :: "log_front \<Rightarrow> int" where
  "GetLogLevel s = (case globalLogger s of None \<Rightarrow> LogLevelNull | Some l \<Rightarrow> l)"

text \<open>A call of the front end: its level, the account if any, the message.\<close>

datatype log_level = LTrace | LDebug | LInfo | LError | LFatal

fun level_num :: "log_level \<Rightarrow> int" where
  "level_num LTrace = LogLevelTrace"
| "level_num LDebug = LogLevelDebug"
| "level_num LInfo = LogLevelInfo"
| "level_num LError = LogLevelError"
| "level_num LFatal = LogLevelFatal"

fun level_tag :: "log_level \<Rightarrow> string" where
  "level_tag LTrace = ''TRACE''"
| "level_tag LDebug = ''DEBUG''"
| "level_tag LInfo = ''INFO''"
| "level_tag LError = ''ERR''"
| "level_tag LFatal = ''FATAL''"

fun counter :: "log_level \<Rightarrow> log_front \<Rightarrow> u32" where
  "counter LTrace s = TraceCnt s"
| "counter LDebug s = DebugCnt s"
| "counter LInfo s = InfoCnt s"
| "counter LError s = ErrorCnt s"
| "counter LFatal s = FatalCnt s"

fun log_call :: "log_level \<times> AcntLogger option \<times> string \<Rightarrow> log_front \<Rightarrow> log_front" where
  "log_call (LTrace, None, msg) = Trace msg"
| "log_call (LDebug, None, msg) = Debug msg"
| "log_call (LInfo, None, msg) = Info msg"
| "log_call (LError, None, msg) = Error msg"
| "log_call (LFatal, None, msg) = Fatal msg"
| "log_call (LTrace, Some a, msg) = AcntTrace a msg"
| "log_call (LDebug, Some a, msg) = AcntDebug a msg"
| "log_call (LInfo, Some a, msg) = AcntInfo a msg"
| "log_call (LError, Some a, msg) = AcntError a msg"
| "log_call (LFatal, Some a, msg) = AcntFatal a msg"

definition passes :: "int \<Rightarrow> log_level \<times> AcntLogger option \<times> string \<Rightarrow> bool" where
  "passes l c = (case c of (k, a, msg) \<Rightarrow>
     l \<le> level_num k \<or> (\<exists>x. a = Some x \<and> InLogWhitelist x))"

lemmas log_calls = Trace_def Debug_def Info_def Error_def Fatal_def AcntTrace_def AcntDebug_def
  AcntInfo_def AcntError_def AcntFatal_def Output_to_def

lemma log_call_effect:
  assumes "globalLogger s = Some l"
  shows "emitted (log_call (k, a, msg) s)
      = emitted s @ (if passes l (k, a, msg) then [(level_tag k, a, msg)] else [])"
    and "counter k' (log_call (k, a, msg) s)
      = counter k' s + (if passes l (k, a, msg) \<and> k = k' then 1 else 0)"
    and "globalLogger (log_call (k, a, msg) s) = Some l"
proof -
  show "emitted (log_call (k, a, msg) s)
      = emitted s @ (if passes l (k, a, msg) then [(level_tag k, a, msg)] else [])"
    using assms by (cases k; cases a) (simp_all add: log_calls passes_def)
  show "counter k' (log_call (k, a, msg) s)
      = counter k' s + (if passes l (k, a, msg) \<and> k = k' then 1 else 0)"
    using assms by (cases k; cases a; cases k') (simp_all add: log_calls passes_def)
  show "globalLogger (log_call (k, a, msg) s) = Some l"
    using assms by (cases k; cases a) (simp_all add: log_calls)
qed

lemma log_calls_effect:
  assumes "globalLogger s = Some l"
  shows "emitted (fold log_call cs s)
      = emitted s @ map (\<lambda>(k, a, msg). (level_tag k, a, msg)) (filter (passes l) cs)
    \<and> counter k (fold log_call cs s) = counter k s + of_nat (length (filter (\<lambda>c. passes l c \<and> fst c = k) cs))"
  using assms
proof (induction cs arbitrary: s)
  case (Cons c cs)
  obtain k' a msg where c: "c = (k', a, msg)" by (cases c)
  from Cons.IH [OF log_call_effect(3) [OF Cons.prems, of k' a msg]]
    log_call_effect(1) [OF Cons.prems, of k' a msg]
    log_call_effect(2) [OF Cons.prems, where k = k' and k' = k and a = a and msg = msg] c
  show ?case by auto
qed simp

section \<open>The file logger\<close>

record LogCfg =
  LogPath :: string
  LogLevel :: int
  FileSplitMB :: int
  IsAsync :: bool
  AsyncCacheSize :: int
  AsyncWriteMillSec :: int

record BingoLogger =
  level :: int
  fileName :: string
  fileSplitMB :: int
  isAsync :: bool
  asyncWriteMillSec :: int
  logTime :: int
  fileFd :: bool
  fileCreateTime :: int
  generation :: nat
  isInited :: bool
  bufChan :: "string list"
  bufCap :: nat

record filesys =
  fs_files :: "string \<rightharpoonup> (string \<times> int)"
  denied :: "string \<Rightarrow> bool"
  no_rename :: "string \<Rightarrow> bool"

datatype log_err =
    LogPathEmpty | LevelNegative | FileSplitNotPositive | CacheSizeNotPositive | WriteMillNotPositive
  | HasInited | FileNameEmpty | StatErr | OpenErr | HaveOpened | RenameErr | NotOpened

definition asyncByteSizePerIOWrite :: nat where "asyncByteSizePerIOWrite = 10 * 2 ^ 20"

definition CheckCfgValid :: "LogCfg \<Rightarrow> log_err option" where
  "CheckCfgValid cfg =
     (if LogPath cfg = [] then Some LogPathEmpty
      else if LogLevel cfg < 0 then Some LevelNegative
      else if FileSplitMB cfg \<le> 0 then Some FileSplitNotPositive
      else if IsAsync cfg \<and> AsyncCacheSize cfg \<le> 0 then Some CacheSizeNotPositive
      else if IsAsync cfg \<and> AsyncWriteMillSec cfg \<le> 0 then Some WriteMillNotPositive
      else None)"

definition SetLevel :: "int \<Rightarrow> BingoLogger \<Rightarrow> BingoLogger" where
  "SetLevel lv l =
     (let lv = (if lv > LogLevelFatal then LogLevelFatal else lv);
          lv = (if lv < 0 then 0 else lv)
      in l\<lparr>level := lv\<rparr>)"

definition GetLevel :: "BingoLogger \<Rightarrow> int" where
  "GetLevel l = level l"

definition isLogFileExist :: "string \<Rightarrow> filesys \<Rightarrow> (log_err, bool) res" where
  "isLogFileExist p fs =
     (if denied fs p then Fail StatErr else Ok (fs_files fs p \<noteq> None))"

text \<open>The name a full or old log file gets.\<close>

definition rotated_path :: "string \<Rightarrow> nat \<times> nat \<times> nat \<Rightarrow> nat \<Rightarrow> string" where
  "rotated_path filePath ymd gen =
     (case ymd of (y, m, d) \<Rightarrow>
        filePath @ ''.'' @ pad 2 y @ pad 2 m @ pad 2 d @ (if gen = 0 then [] else ''.'' @ Itoa gen))"

text \<open>
  The search for a name that is not taken, with the split count it ends at; \<open>None\<close> if it never ends.
\<close>

partial_function (option) find_free ::
  "filesys \<Rightarrow> string \<Rightarrow> nat \<times> nat \<times> nat \<Rightarrow> nat \<Rightarrow> (log_err option \<times> nat) option" where
  "find_free fs filePath ymd gen =
     (case isLogFileExist (rotated_path filePath ymd gen) fs of
        Ok isExist \<Rightarrow> if isExist then find_free fs filePath ymd (gen + 1) else Some (None, gen)
      | Fail err \<Rightarrow> Some (Some err, gen)
      | Panic \<Rightarrow> None)"

definition os_Rename :: "int \<Rightarrow> string \<Rightarrow> string \<Rightarrow> filesys \<Rightarrow> log_err option \<times> filesys" where
  "os_Rename now old new fs =
     (case fs_files fs old of
        None \<Rightarrow> (Some RenameErr, fs)
      | Some (contents, _) \<Rightarrow>
          if no_rename fs old then (Some RenameErr, fs)
          else (None, fs\<lparr>fs_files := (fs_files fs)(old := None, new \<mapsto> (contents, now))\<rparr>))"

definition moveLogFile ::
  "(int \<Rightarrow> nat \<times> nat \<times> nat) \<Rightarrow> int \<Rightarrow> BingoLogger \<Rightarrow> filesys
    \<Rightarrow> (log_err option \<times> BingoLogger \<times> filesys) option" where
  "moveLogFile date now l fs =
     (let l = l\<lparr>fileFd := False\<rparr> in
      case find_free fs (fileName l) (date (fileCreateTime l)) (generation l) of
        None \<Rightarrow> None
      | Some (None, gen) \<Rightarrow>
          let l = l\<lparr>generation := gen\<rparr>;
              (err, fs) = os_Rename now (fileName l)
                (rotated_path (fileName l) (date (fileCreateTime l)) gen) fs
          in Some (err, l, fs)
      | Some (Some err, gen) \<Rightarrow> Some (Some err, l\<lparr>generation := gen\<rparr>, fs))"

definition updateOldFileFd ::
  "(int \<Rightarrow> nat \<times> nat \<times> nat) \<Rightarrow> int \<Rightarrow> BingoLogger \<Rightarrow> filesys
    \<Rightarrow> (log_err option \<times> BingoLogger \<times> filesys) option" where
  "updateOldFileFd date now l fs =
     (if \<not> fileFd l then Some (None, l, fs)
      else if denied fs (fileName l) then Some (Some StatErr, l, fs)
      else case fs_files fs (fileName l) of
             None \<Rightarrow> Some (None, l\<lparr>fileFd := False\<rparr>, fs)
           | Some (contents, _) \<Rightarrow>
               if fileCreateTime l + 86400 < now
                  \<or> snd (snd (date (fileCreateTime l))) \<noteq> snd (snd (date now))
               then case moveLogFile date now l fs of
                      None \<Rightarrow> None
                    | Some (Some err, l, fs) \<Rightarrow> Some (Some err, l, fs)
                    | Some (None, l, fs) \<Rightarrow> Some (None, l\<lparr>generation := 0\<rparr>, fs)
               else if fileSplitMB l * 2 ^ 20 \<le> int (length contents)
               then case moveLogFile date now l fs of
                      None \<Rightarrow> None
                    | Some (Some err, l, fs) \<Rightarrow> Some (Some err, l, fs)
                    | Some (None, l, fs) \<Rightarrow> Some (None, l\<lparr>generation := generation l + 1\<rparr>, fs)
               else Some (None, l, fs))"

definition openLogFile :: "int \<Rightarrow> BingoLogger \<Rightarrow> filesys \<Rightarrow> log_err option \<times> BingoLogger \<times> filesys" where
  "openLogFile now l fs =
     (if fileFd l then (Some HaveOpened, l, fs)
      else if denied fs (fileName l) then (Some OpenErr, l, fs)
      else
        let (contents, ctime) = (case fs_files fs (fileName l) of None \<Rightarrow> ([], now) | Some f \<Rightarrow> f)
        in (None, l\<lparr>fileCreateTime := ctime, fileFd := True\<rparr>,
            fs\<lparr>fs_files := (fs_files fs)(fileName l \<mapsto> (contents, ctime))\<rparr>))"

definition updateFileFd ::
  "(int \<Rightarrow> nat \<times> nat \<times> nat) \<Rightarrow> int \<Rightarrow> BingoLogger \<Rightarrow> filesys
    \<Rightarrow> (log_err option \<times> BingoLogger \<times> filesys) option" where
  "updateFileFd date now l fs =
     (if fileName l = [] then Some (Some FileNameEmpty, l, fs)
      else case updateOldFileFd date now l fs of
             None \<Rightarrow> None
           | Some (Some err, l, fs) \<Rightarrow> Some (Some err, l, fs)
           | Some (None, l, fs) \<Rightarrow>
               if \<not> fileFd l then Some (openLogFile now l fs) else Some (None, l, fs))"

definition writeSync ::
  "(int \<Rightarrow> nat \<times> nat \<times> nat) \<Rightarrow> int \<Rightarrow> string \<Rightarrow> BingoLogger \<Rightarrow> filesys
    \<Rightarrow> (log_err option \<times> BingoLogger \<times> filesys) option" where
  "writeSync date now buf l fs =
     (case updateFileFd date now l fs of
        None \<Rightarrow> None
      | Some (Some err, l, fs) \<Rightarrow> Some (Some err, l, fs)
      | Some (None, l, fs) \<Rightarrow>
          let l = l\<lparr>logTime := now\<rparr>
          in if \<not> fileFd l then Some (Some NotOpened, l, fs)
             else let contents = (case fs_files fs (fileName l) of None \<Rightarrow> [] | Some (c, _) \<Rightarrow> c)
                  in Some (None, l, fs\<lparr>fs_files := (fs_files fs)(fileName l \<mapsto> (contents @ buf, now))\<rparr>))"

section \<open>The asynchronous queue\<close>

text \<open>
  The batches that one run of \<open>writeAllFunc\<close> hands to \<open>writeSync\<close>; \<open>sendBuffer\<close> is what has been
  collected so far.
\<close>

fun batches :: "string \<Rightarrow> string list \<Rightarrow> string list" where
  "batches sendBuffer [] = (if sendBuffer = [] then [] else [sendBuffer])"
| "batches sendBuffer (buf # bufs) =
     (if length sendBuffer + length buf > asyncByteSizePerIOWrite
      then sendBuffer # batches buf bufs
      else batches (sendBuffer @ buf) bufs)"

text \<open>The errors of the writes are dropped.\<close>

fun write_each ::
  "(int \<Rightarrow> nat \<times> nat \<times> nat) \<Rightarrow> int \<Rightarrow> string list \<Rightarrow> BingoLogger \<Rightarrow> filesys \<Rightarrow> (BingoLogger \<times> filesys) option" where
  "write_each date now [] l fs = Some (l, fs)"
| "write_each date now (b # bs) l fs =
     (case writeSync date now b l fs of
        None \<Rightarrow> None
      | Some (_, l, fs) \<Rightarrow> write_each date now bs l fs)"

definition writeAllFunc ::
  "(int \<Rightarrow> nat \<times> nat \<times> nat) \<Rightarrow> int \<Rightarrow> BingoLogger \<Rightarrow> filesys \<Rightarrow> (BingoLogger \<times> filesys) option" where
  "writeAllFunc date now l fs = write_each date now (batches [] (bufChan l)) (l\<lparr>bufChan := []\<rparr>) fs"

text \<open>
  An asynchronous logger as its caller alone sees it: \<open>None\<close> is a call that blocks until the write
  loop does its part.  A full queue makes \<open>writeAsync\<close> wait for the loop to take a notification and
  then for room; \<open>Sync\<close> always waits for the loop to take a notification and to answer it.  Callers
  and loop together are theory \<open>Log_Async\<close>.
\<close>

definition writeAsync :: "string \<Rightarrow> BingoLogger \<Rightarrow> BingoLogger option" where
  "writeAsync buf l =
     (if length (bufChan l) < bufCap l then Some (l\<lparr>bufChan := bufChan l @ [buf]\<rparr>) else None)"

definition Write ::
  "(int \<Rightarrow> nat \<times> nat \<times> nat) \<Rightarrow> int \<Rightarrow> string \<Rightarrow> BingoLogger \<Rightarrow> filesys
    \<Rightarrow> (log_err option \<times> BingoLogger \<times> filesys) option" where
  "Write date now buf l fs =
     (if \<not> isInited l then Some (None, l, fs)
      else if isAsync l
      then case writeAsync buf l of None \<Rightarrow> None | Some l \<Rightarrow> Some (None, l, fs)
      else writeSync date now buf l fs)"

definition Sync :: "BingoLogger \<Rightarrow> BingoLogger option" where
  "Sync l = (if \<not> isInited l \<or> \<not> isAsync l then Some l else None)"

text \<open>
  The write loop over what its \<open>select\<close> gets: a notification (with a channel to answer, or from a
  closed channel) or a tick.  The \<open>break\<close> for a closed channel leaves the \<open>select\<close> only.
\<close>

datatype select_event = Notified bool bool | Ticked

fun asyncWriteLoop ::
  "(int \<Rightarrow> nat \<times> nat \<times> nat) \<Rightarrow> (int \<times> select_event) list \<Rightarrow> BingoLogger \<Rightarrow> filesys
    \<Rightarrow> (BingoLogger \<times> filesys) option" where
  "asyncWriteLoop date [] l fs = None"
| "asyncWriteLoop date ((now, Notified answer ok) # es) l fs =
     (case writeAllFunc date now l fs of
        None \<Rightarrow> None
      | Some (l, fs) \<Rightarrow> asyncWriteLoop date es l fs)"
| "asyncWriteLoop date ((now, Ticked) # es) l fs =
     (case writeAllFunc date now l fs of
        None \<Rightarrow> None
      | Some (l, fs) \<Rightarrow> asyncWriteLoop date es l fs)"

definition BingoLogger_Init ::
  "(int \<Rightarrow> nat \<times> nat \<times> nat) \<Rightarrow> (int \<times> select_event) list \<Rightarrow> LogCfg \<Rightarrow> BingoLogger \<Rightarrow> filesys
    \<Rightarrow> (log_err option \<times> BingoLogger \<times> filesys) option" where
  "BingoLogger_Init date es cfg l fs =
     (if isInited l then Some (Some HasInited, l, fs)
      else case CheckCfgValid cfg of
             Some err \<Rightarrow> Some (Some err, l, fs)
           | None \<Rightarrow>
               let l = l\<lparr>fileName := LogPath cfg, level := LogLevel cfg, isAsync := IsAsync cfg,
                         asyncWriteMillSec := AsyncWriteMillSec cfg, fileSplitMB := FileSplitMB cfg\<rparr>
               in if IsAsync cfg
                  then case asyncWriteLoop date es
                              (l\<lparr>bufChan := [], bufCap := nat (AsyncCacheSize cfg)\<rparr>) fs of
                         None \<Rightarrow> None
                       | Some (l, fs) \<Rightarrow> Some (None, l\<lparr>isInited := True\<rparr>, fs)
                  else Some (None, l\<lparr>isInited := True\<rparr>, fs))"

definition newLogger :: BingoLogger where
  "newLogger = \<lparr>level = 0, fileName = [], fileSplitMB = 0, isAsync = False, asyncWriteMillSec = 0,
     logTime = 0, fileFd = False, fileCreateTime = 0, generation = 0, isInited = False,
     bufChan = [], bufCap = 0\<rparr>"

definition NewBingoLogger ::
  "(int \<Rightarrow> nat \<times> nat \<times> nat) \<Rightarrow> (int \<times> select_event) list \<Rightarrow> LogCfg \<Rightarrow> filesys
    \<Rightarrow> (log_err option \<times> BingoLogger \<times> filesys) option" where
  "NewBingoLogger date es cfg fs = BingoLogger_Init date es cfg newLogger fs"

text \<open>\<open>Reload\<close> of the plugin factory, on the decoded configuration.\<close>

definition Log_Reload :: "LogCfg \<Rightarrow> BingoLogger \<Rightarrow> log_err option \<times> BingoLogger" where
  "Log_Reload cfg l =
     (case CheckCfgValid cfg of
        Some err \<Rightarrow> (Some err, l)
      | None \<Rightarrow> (None, l\<lparr>level := LogLevel cfg, fileSplitMB := FileSplitMB cfg\<rparr>))"

record log_time =
  lt_year :: nat
  lt_month :: nat
  lt_day :: nat
  lt_hour :: nat
  lt_min :: nat
  lt_sec :: nat
  lt_msec :: nat

definition log_line :: "log_time \<Rightarrow> string \<Rightarrow> string \<times> nat \<Rightarrow> AcntLogger option \<Rightarrow> string \<Rightarrow> string" where
  "log_line t tag at a msg =
     ''['' @ pad 4 (lt_year t) @ ''-'' @ pad 2 (lt_month t) @ ''-'' @ pad 2 (lt_day t) @ '' ''
      @ pad 2 (lt_hour t) @ '':'' @ pad 2 (lt_min t) @ '':'' @ pad 2 (lt_sec t) @ ''.''
      @ pad 3 (lt_msec t) @ ''] ['' @ tag @ ''] ['' @ fst at @ '':'' @ Itoa (snd at) @ ''] ''
      @ (case a of None \<Rightarrow> msg | Some x \<Rightarrow> GetLogStr x @ '' '' @ msg)"

text \<open>A logger that is not initialised prints to the standard output instead.\<close>

definition Output ::
  "(int \<Rightarrow> nat \<times> nat \<times> nat) \<Rightarrow> int \<Rightarrow> log_time \<Rightarrow> string \<Rightarrow> string \<times> nat \<Rightarrow> AcntLogger option \<Rightarrow> string
    \<Rightarrow> BingoLogger \<Rightarrow> filesys \<Rightarrow> (string list \<times> BingoLogger \<times> filesys) option" where
  "Output date now t tag at a msg l fs =
     (if isInited l
      then case Write date now (log_line t tag at a msg @ [CHR 0x0A]) l fs of
             None \<Rightarrow> None
           | Some (_, l, fs) \<Rightarrow> Some ([], l, fs)
      else Some ([log_line t tag at a msg], l, fs))"

definition LastIndexByte :: "string \<Rightarrow> char \<Rightarrow> nat option" where
  "LastIndexByte s c =
     (if c \<in> set s then Some (length s - 1 - length (takeWhile (\<lambda>x. x \<noteq> c) (rev s))) else None)"

text \<open>The last two components of the path of the caller.\<close>

definition getCallPath :: "(string \<times> nat) option \<Rightarrow> string \<times> nat" where
  "getCallPath caller =
     (case caller of
        None \<Rightarrow> ([], 0)
      | Some (file, line) \<Rightarrow>
          (case LastIndexByte file (CHR ''/'') of
             None \<Rightarrow> (file, line)
           | Some idx \<Rightarrow>
               (case LastIndexByte (take idx file) (CHR ''/'') of
                  None \<Rightarrow> (file, line)
                | Some idx \<Rightarrow> (drop (idx + 1) file, line))))"

section \<open>Rotation\<close>

lemma rotated_path_inj: "rotated_path p ymd g = rotated_path p ymd g' \<longleftrightarrow> g = g'"
  by (cases ymd) (auto simp: rotated_path_def)

lemma rotated_path_neq [simp]: "rotated_path p ymd g \<noteq> p" "p \<noteq> rotated_path p ymd g"
  by (cases ymd; simp add: rotated_path_def)+

lemma free_generation:
  assumes "finite (dom (fs_files fs))"
  shows "\<exists>n. fs_files fs (rotated_path p ymd (g + n)) = None"
proof (rule ccontr)
  assume "\<nexists>n. fs_files fs (rotated_path p ymd (g + n)) = None"
  then have "range (\<lambda>n. rotated_path p ymd (g + n)) \<subseteq> dom (fs_files fs)" by auto
  with assms have "finite (range (\<lambda>n. rotated_path p ymd (g + n)))" by (rule finite_subset [rotated])
  moreover have "inj (\<lambda>n. rotated_path p ymd (g + n))" by (auto simp: inj_def rotated_path_inj)
  ultimately show False using finite_imageD infinite_UNIV_nat by blast
qed

lemma find_free_result:
  assumes "fs_files fs (rotated_path p ymd (g + n)) = None"
  shows "(\<exists>g'. find_free fs p ymd g = Some (Some StatErr, g'))
    \<or> (\<exists>g'. find_free fs p ymd g = Some (None, g') \<and> fs_files fs (rotated_path p ymd g') = None)"
  using assms
proof (induction n arbitrary: g)
  case 0
  then show ?case by (subst (1 2) find_free.simps) (simp add: isLogFileExist_def)
next
  case (Suc n)
  then show ?case
    by (cases "fs_files fs (rotated_path p ymd g)"; subst (1 2) find_free.simps)
      (simp_all add: isLogFileExist_def)
qed

lemma find_free_returns:
  assumes "finite (dom (fs_files fs))"
  shows "(\<exists>g'. find_free fs p ymd g = Some (Some StatErr, g'))
    \<or> (\<exists>g'. find_free fs p ymd g = Some (None, g') \<and> fs_files fs (rotated_path p ymd g') = None)"
  using free_generation [OF assms] find_free_result by blast

text \<open>The contents of a path, empty when there is no file.\<close>

definition contents_of :: "filesys \<Rightarrow> string \<Rightarrow> string" where
  "contents_of fs p = (case fs_files fs p of None \<Rightarrow> [] | Some (c, _) \<Rightarrow> c)"

text \<open>
  Adding to the log loses nothing: all other files are as before, and what the log file held is
  still at its head, or is the contents of a file that did not exist before.
\<close>

definition log_extended :: "string \<Rightarrow> string \<Rightarrow> filesys \<Rightarrow> filesys \<Rightarrow> bool" where
  "log_extended f added fs fs' \<longleftrightarrow>
     (\<forall>p. p \<noteq> f \<longrightarrow> fs_files fs p \<noteq> None \<longrightarrow> fs_files fs' p = fs_files fs p)
   \<and> (contents_of fs' f = contents_of fs f @ added
      \<or> contents_of fs' f = added
        \<and> (\<exists>p. p \<noteq> f \<and> fs_files fs p = None \<and> contents_of fs' p = contents_of fs f))"

lemma contents_of_set:
  "contents_of (fs\<lparr>fs_files := (fs_files fs)(f \<mapsto> (c, t))\<rparr>) p = (if p = f then c else contents_of fs p)"
  by (simp add: contents_of_def)

lemma log_extended_refl: "log_extended f [] fs fs"
  by (simp add: log_extended_def)

lemma log_extended_move:
  assumes "fs_files fs f = Some (old, t)" and "fs_files fs p = None"
    and "fs_files fs' = (fs_files fs)(f := None, p \<mapsto> (old, now))"
  shows "log_extended f [] fs fs'"
proof -
  from assms(1,2) have p: "p \<noteq> f" by auto
  with assms have "contents_of fs' f = []" "contents_of fs' p = contents_of fs f"
    by (simp_all add: contents_of_def)
  moreover have "\<forall>q. q \<noteq> f \<longrightarrow> fs_files fs q \<noteq> None \<longrightarrow> fs_files fs' q = fs_files fs q"
    using assms(2,3) by auto
  ultimately show ?thesis unfolding log_extended_def using p assms(2) by blast
qed

lemma log_extended_set:
  assumes "log_extended f a fs fs1" and "c = contents_of fs1 f @ b"
  shows "log_extended f (a @ b) fs (fs1\<lparr>fs_files := (fs_files fs1)(f \<mapsto> (c, t))\<rparr>)"
proof -
  let ?fs = "fs1\<lparr>fs_files := (fs_files fs1)(f \<mapsto> (c, t))\<rparr>"
  have "\<forall>p. p \<noteq> f \<longrightarrow> fs_files fs p \<noteq> None \<longrightarrow> fs_files ?fs p = fs_files fs p"
    using assms(1) by (simp add: log_extended_def)
  moreover have "contents_of ?fs f = contents_of fs f @ a @ b \<or> contents_of ?fs f = a @ b
      \<and> (\<exists>p. p \<noteq> f \<and> fs_files fs p = None \<and> contents_of ?fs p = contents_of fs f)"
    using assms by (auto simp: log_extended_def contents_of_set)
  ultimately show ?thesis by (simp add: log_extended_def)
qed

lemma moveLogFile_spec:
  assumes "finite (dom (fs_files fs))" and "fs_files fs (fileName l) = Some (old, t)"
  shows "\<exists>err l' fs'. moveLogFile date now l fs = Some (err, l', fs')
    \<and> fileName l' = fileName l \<and> \<not> fileFd l' \<and> denied fs' = denied fs
    \<and> (err = None \<longrightarrow> (\<exists>p. fs_files fs p = None
         \<and> fs_files fs' = (fs_files fs)(fileName l := None, p \<mapsto> (old, now))))"
proof -
  let ?ff = "find_free fs (fileName l) (date (fileCreateTime l)) (generation l)"
  consider g where "?ff = Some (Some StatErr, g)"
    | g where "?ff = Some (None, g)" "fs_files fs (rotated_path (fileName l) (date (fileCreateTime l)) g) = None"
    using find_free_returns [OF assms(1)] by blast
  then show ?thesis
    using assms(2) by cases (auto simp: moveLogFile_def os_Rename_def Let_def)
qed

lemma updateOldFileFd_spec:
  assumes "finite (dom (fs_files fs))"
  shows "\<exists>err l' fs'. updateOldFileFd date now l fs = Some (err, l', fs')
    \<and> fileName l' = fileName l \<and> denied fs' = denied fs
    \<and> (err = None \<longrightarrow> fs' = fs \<and> (fileFd l' \<longrightarrow> fs_files fs (fileName l) \<noteq> None)
       \<or> \<not> fileFd l' \<and> (\<exists>p old t. fs_files fs (fileName l) = Some (old, t) \<and> fs_files fs p = None
         \<and> fs_files fs' = (fs_files fs)(fileName l := None, p \<mapsto> (old, now))))"
proof (cases "fs_files fs (fileName l)")
  case None
  then show ?thesis by (simp add: updateOldFileFd_def)
next
  case (Some ct)
  obtain c t where ct: "ct = (c, t)" by (cases ct)
  with Some have cur: "fs_files fs (fileName l) = Some (c, t)" by simp
  obtain err l' fs' where mv: "moveLogFile date now l fs = Some (err, l', fs')"
    "fileName l' = fileName l" "\<not> fileFd l'" "denied fs' = denied fs"
    "err = None \<longrightarrow> (\<exists>p. fs_files fs p = None
         \<and> fs_files fs' = (fs_files fs)(fileName l := None, p \<mapsto> (c, now)))"
    using moveLogFile_spec [OF assms cur] by blast
  then show ?thesis
    using cur by (cases err) (auto simp: updateOldFileFd_def)
qed

lemma updateFileFd_spec:
  assumes "finite (dom (fs_files fs))"
  shows "\<exists>err l' fs'. updateFileFd date now l fs = Some (err, l', fs')
    \<and> fileName l' = fileName l
    \<and> (err = None \<longrightarrow> fileFd l' \<and> finite (dom (fs_files fs')) \<and> log_extended (fileName l) [] fs fs')"
proof -
  obtain err l1 fs1 where u: "updateOldFileFd date now l fs = Some (err, l1, fs1)"
    "fileName l1 = fileName l" "denied fs1 = denied fs"
    and ok: "err = None \<longrightarrow> fs1 = fs \<and> (fileFd l1 \<longrightarrow> fs_files fs (fileName l) \<noteq> None)
       \<or> \<not> fileFd l1 \<and> (\<exists>p old t. fs_files fs (fileName l) = Some (old, t) \<and> fs_files fs p = None
         \<and> fs_files fs1 = (fs_files fs)(fileName l := None, p \<mapsto> (old, now)))"
    using updateOldFileFd_spec [OF assms, of date now l] by blast
  have kept: "finite (dom (fs_files fs1)) \<and> log_extended (fileName l) [] fs fs1" if "err = None"
    using ok that assms log_extended_refl by (auto intro: log_extended_move)
  show ?thesis
  proof (cases err)
    case (Some e)
    with u show ?thesis by (simp add: updateFileFd_def)
  next
    case None
    show ?thesis
    proof (cases "fileFd l1")
      case True
      with None u kept show ?thesis by (simp add: updateFileFd_def)
    next
      case False
      have "log_extended (fileName l) [] fs (snd (snd (openLogFile now l1 fs1)))"
        using log_extended_set [of "fileName l" "[]" fs fs1 "contents_of fs1 (fileName l)" "[]"]
          kept None u(2) False
        by (auto simp: openLogFile_def contents_of_def split: option.splits)
      moreover have "finite (dom (fs_files (snd (snd (openLogFile now l1 fs1)))))"
        using kept None by (auto simp: openLogFile_def split: option.splits)
      moreover have "fileName (fst (snd (openLogFile now l1 fs1))) = fileName l"
        "fst (openLogFile now l1 fs1) = None \<longrightarrow> fileFd (fst (snd (openLogFile now l1 fs1)))"
        using u(2) False by (auto simp: openLogFile_def split: option.splits)
      ultimately show ?thesis
        using None u False
        by (cases "openLogFile now l1 fs1") (auto simp: updateFileFd_def)
    qed
  qed
qed

lemma writeSync_spec:
  assumes "finite (dom (fs_files fs))"
  shows "\<exists>err l' fs'. writeSync date now buf l fs = Some (err, l', fs')
    \<and> (err = None \<longrightarrow> log_extended (fileName l) buf fs fs')"
proof -
  obtain err l1 fs1 where u: "updateFileFd date now l fs = Some (err, l1, fs1)"
    "fileName l1 = fileName l"
    "err = None \<longrightarrow> fileFd l1 \<and> log_extended (fileName l) [] fs fs1"
    using updateFileFd_spec [OF assms, of date now l] by blast
  show ?thesis
  proof (cases err)
    case None
    with u have "log_extended (fileName l) buf fs
      (fs1\<lparr>fs_files := (fs_files fs1)(fileName l \<mapsto> (contents_of fs1 (fileName l) @ buf, now))\<rparr>)"
      using log_extended_set [of "fileName l" "[]" fs fs1 "contents_of fs1 (fileName l) @ buf" buf]
      by simp
    with None u show ?thesis
      by (simp add: writeSync_def contents_of_def)
  qed (simp add: writeSync_def u)
qed

text \<open>Writing leaves the queue and the configuration of the logger alone.\<close>

lemma moveLogFile_keeps:
  "moveLogFile date now l fs = Some (err, l', fs') \<Longrightarrow>
     bufChan l' = bufChan l \<and> bufCap l' = bufCap l \<and> isAsync l' = isAsync l \<and> isInited l' = isInited l \<and> fileName l' = fileName l
     \<and> (finite (dom (fs_files fs)) \<longrightarrow> finite (dom (fs_files fs')))"
  by (auto simp: moveLogFile_def os_Rename_def Let_def split: option.splits prod.splits if_splits)

lemma writeSync_keeps:
  assumes "writeSync date now buf l fs = Some (err, l', fs')"
  shows "bufChan l' = bufChan l" and "bufCap l' = bufCap l" and "isAsync l' = isAsync l"
    and "isInited l' = isInited l" and "fileName l' = fileName l" and "finite (dom (fs_files fs)) \<Longrightarrow> finite (dom (fs_files fs'))"
proof -
  have old: "bufChan l' = bufChan l \<and> bufCap l' = bufCap l \<and> isAsync l' = isAsync l \<and> isInited l' = isInited l \<and> fileName l' = fileName l
      \<and> (finite (dom (fs_files fs)) \<longrightarrow> finite (dom (fs_files fs')))"
    if "updateOldFileFd date now l fs = Some (err, l', fs')" for err l' fs'
    using that by (auto simp: updateOldFileFd_def split: option.splits prod.splits if_splits dest!: moveLogFile_keeps)
  have "bufChan l' = bufChan l \<and> bufCap l' = bufCap l \<and> isAsync l' = isAsync l \<and> isInited l' = isInited l \<and> fileName l' = fileName l
      \<and> (finite (dom (fs_files fs)) \<longrightarrow> finite (dom (fs_files fs')))"
    using assms by (auto simp: writeSync_def updateFileFd_def openLogFile_def Let_def
        split: option.splits prod.splits if_splits dest!: old)
  then show "bufChan l' = bufChan l" and "bufCap l' = bufCap l" and "isAsync l' = isAsync l"
    and "isInited l' = isInited l" and "fileName l' = fileName l" and "finite (dom (fs_files fs)) \<Longrightarrow> finite (dom (fs_files fs'))"
    by simp_all
qed

section \<open>Batches\<close>

lemma concat_batches: "concat (batches sb bufs) = sb @ concat bufs"
  by (induction sb bufs rule: batches.induct) auto

lemma batches_bound:
  assumes "\<forall>b\<in>set (sb # bufs). length b \<le> asyncByteSizePerIOWrite"
  shows "\<forall>b\<in>set (batches sb bufs). length b \<le> asyncByteSizePerIOWrite"
  using assms by (induction sb bufs rule: batches.induct) auto

section \<open>Properties\<close>

text \<open>
  The level filter: of a sequence of log calls exactly those are given to the logger, in
  order, whose level is at least that of the logger or whose account is whitelisted, and each
  counter has grown by the number of those of its level (in 32 bits).
\<close>

theorem log_filter_and_counters:
  assumes "globalLogger s = Some l"
  shows "emitted (fold log_call cs s)
      = emitted s @ map (\<lambda>(k, a, msg). (level_tag k, a, msg)) (filter (passes l) cs)
    \<and> counter k (fold log_call cs s)
      = counter k s + of_nat (length (filter (\<lambda>c. passes l c \<and> fst c = k) cs))"
  by (rule log_calls_effect [OF assms])

definition log_front0 :: "int \<Rightarrow> log_front" where
  "log_front0 l = \<lparr>globalLogger = Some l, TraceCnt = 0, DebugCnt = 0, InfoCnt = 0, ErrorCnt = 0,
     FatalCnt = 0, emitted = []\<rparr>"

theorem log_filter_and_counters_witness:
  "emitted (fold log_call [(LDebug, None, ''d''), (LInfo, None, ''i''),
       (LDebug, Some \<lparr>InLogWhitelist = True, GetLogStr = ''u''\<rparr>, ''w'')] (log_front0 3))
     = [(''INFO'', None, ''i''), (''DEBUG'', Some \<lparr>InLogWhitelist = True, GetLogStr = ''u''\<rparr>, ''w'')]"
  using log_filter_and_counters [of "log_front0 3" 3 "[(LDebug, None, ''d''), (LInfo, None, ''i''),
       (LDebug, Some \<lparr>InLogWhitelist = True, GetLogStr = ''u''\<rparr>, ''w'')]" LDebug]
  by (simp add: log_front0_def passes_def levels)

text \<open>
  C28.  A synchronous write always returns (the search for a free file name ends), and when it
  reports no error nothing that was logged is lost: no other file changes, and the old contents
  of the log file are still in front of the new line or have become a file of a fresh name.
\<close>

theorem log_write_keeps_everything:
  assumes "finite (dom (fs_files fs))"
  shows "\<exists>err l' fs'. writeSync date now buf l fs = Some (err, l', fs')
    \<and> (err = None \<longrightarrow> log_extended (fileName l) buf fs fs')"
  by (rule writeSync_spec [OF assms])

text \<open>A log file from the day before is moved away first.\<close>

theorem log_write_keeps_everything_witness:
  "\<exists>l' fs'. writeSync (\<lambda>_. (2024, 12, 2)) 90000 ''x''
       (newLogger\<lparr>fileName := ''a.log'', fileFd := True, fileCreateTime := 3\<rparr>)
       \<lparr>fs_files = [''a.log'' \<mapsto> (''old'', 3)], denied = (\<lambda>_. False), no_rename = (\<lambda>_. False)\<rparr> = Some (None, l', fs')
     \<and> log_extended ''a.log'' ''x''
          \<lparr>fs_files = [''a.log'' \<mapsto> (''old'', 3)], denied = (\<lambda>_. False), no_rename = (\<lambda>_. False)\<rparr> fs'
     \<and> contents_of fs' ''a.log'' = ''x''"
proof -
  let ?fs = "\<lparr>fs_files = [''a.log'' \<mapsto> (''old'', 3)], denied = (\<lambda>_. False), no_rename = (\<lambda>_. False)\<rparr>"
  let ?l = "newLogger\<lparr>fileName := ''a.log'', fileFd := True, fileCreateTime := 3\<rparr>"
  have free: "find_free ?fs ''a.log'' (2024, 12, 2) 0 = Some (None, 0)"
    by (subst find_free.simps) (simp add: isLogFileExist_def)
  have run: "\<exists>l' fs'. writeSync (\<lambda>_. (2024, 12, 2)) 90000 ''x'' ?l ?fs = Some (None, l', fs')
      \<and> contents_of fs' ''a.log'' = ''x''"
    by (simp add: writeSync_def updateFileFd_def updateOldFileFd_def moveLogFile_def free os_Rename_def
        openLogFile_def newLogger_def contents_of_def Let_def)
  have fin: "finite (dom (fs_files ?fs))" by simp
  from run log_write_keeps_everything [OF fin, of "\<lambda>_. (2024, 12, 2)" 90000 "''x''" ?l]
  show ?thesis by auto
qed

text \<open>
  With an asynchronous configuration the initialisation of the logger never returns: it
  runs the write loop itself, not in a goroutine, and no event ends that loop, not even a closed
  channel.  So the plugin is never set up.
\<close>

theorem async_init_never_returns:
  assumes "IsAsync cfg" and "CheckCfgValid cfg = None"
  shows "NewBingoLogger date es cfg fs = None"
proof -
  have "asyncWriteLoop date es l fs = None" for l fs
    by (induction date es l fs rule: asyncWriteLoop.induct) (auto split: option.split)
  with assms show ?thesis by (simp add: NewBingoLogger_def BingoLogger_Init_def newLogger_def)
qed

theorem async_init_never_returns_witness:
  "NewBingoLogger (\<lambda>_. (2024, 1, 2)) [(1, Ticked), (2, Notified True True), (3, Notified False False)]
     \<lparr>LogPath = ''a.log'', LogLevel = 1, FileSplitMB = 10, IsAsync = True, AsyncCacheSize = 5,
      AsyncWriteMillSec = 100\<rparr> \<lparr>fs_files = Map.empty, denied = (\<lambda>_. False), no_rename = (\<lambda>_. False)\<rparr> = None"
  by (rule async_init_never_returns) (simp_all add: CheckCfgValid_def)

end
