(* ===== verification/Log_Async.thy ===== *)
theory Log_Async
  imports Log "HOL-Library.Sublist"
begin

text \<open>
  The asynchronous mode of the file logger, \<^verbatim>\<open>src/plugin/log/bingologger/bingologger.go\<close>: any number
  of goroutines in \<open>writeAsync\<close> and \<open>Sync\<close>, and the write loop of \<open>asyncWriteLoop\<close>, cut at every channel
  operation and every write to the file.  \<open>bufChan\<close> has a capacity; \<open>ntfChan\<close> and the channel that \<open>Sync\<close>
  makes have none, so a send on them is a step of both sides together.  The logger is taken as
  initialised with its loop in a goroutine of its own, which is what the code is written for; as it
  stands \<open>Init\<close> runs the loop itself and never returns (\<open>async_init_never_returns\<close> in theory \<open>Log\<close>).
\<close>

section \<open>Model\<close>

text \<open>
  A goroutine in \<open>writeAsync\<close>: at the \<open>select\<close>, at \<open>ntfChan <- nil\<close>, at \<open>bufChan <- newBuf\<close>, or back.
  One in \<open>Sync\<close>: at \<open>ntfChan <- doneChan\<close>, at \<open><-doneChan\<close>, or back, with the number of entries that the
  queue had taken when it was called (a history).
\<close>

datatype log_caller =
    AtTry string | AtNotify string | AtPut string | Written
  | SyncNotify nat | SyncWait nat | Synced nat

text \<open>
  The write loop: at its \<open>select\<close>; in \<open>writeAllFunc\<close> with the entries it has still to take, what
  \<open>sendBuffer\<close> holds and the caller it has to answer; or at \<open>doneChan <- struct{}{}\<close>.
\<close>

datatype loop_pc = LoopSelect | Draining nat string "nat option" | Answering nat

text \<open>
  The last two fields are histories: the entries in the order in which the queue took them, and the
  calls of \<open>writeSync\<close> with the error that was dropped and the files after it.
\<close>

record async_sys =
  a_log :: BingoLogger
  a_fs :: filesys
  a_loop :: loop_pc
  a_callers :: "log_caller list"
  accepted :: "string list"
  writes :: "(string \<times> log_err option \<times> filesys) list"

definition async_start :: "BingoLogger \<Rightarrow> filesys \<Rightarrow> async_sys" where
  "async_start l fs = \<lparr>a_log = l\<lparr>bufChan := []\<rparr>, a_fs = fs, a_loop = LoopSelect, a_callers = [], accepted = [],
     writes = []\<rparr>"

abbreviation queue :: "async_sys \<Rightarrow> string list" where
  "queue s \<equiv> bufChan (a_log s)"

definition set_caller :: "nat \<Rightarrow> log_caller \<Rightarrow> async_sys \<Rightarrow> async_sys" where
  "set_caller i c s = s\<lparr>a_callers := (a_callers s)[i := c]\<rparr>"

definition caller_at :: "async_sys \<Rightarrow> nat \<Rightarrow> log_caller \<Rightarrow> bool" where
  "caller_at s i c \<longleftrightarrow> i < length (a_callers s) \<and> a_callers s ! i = c"

text \<open>Steps of the callers on the queue.\<close>

inductive caller_step :: "async_sys \<Rightarrow> async_sys \<Rightarrow> bool" where
  try_put: "caller_at s i (AtTry buf) \<Longrightarrow> writeAsync buf (a_log s) = Some l \<Longrightarrow>
    caller_step s (set_caller i Written (s\<lparr>a_log := l, accepted := accepted s @ [buf]\<rparr>))"
| try_full: "caller_at s i (AtTry buf) \<Longrightarrow> writeAsync buf (a_log s) = None \<Longrightarrow>
    caller_step s (set_caller i (AtNotify buf) s)"
| put: "caller_at s i (AtPut buf) \<Longrightarrow> length (queue s) < bufCap (a_log s) \<Longrightarrow>
    caller_step s (set_caller i Written
      (s\<lparr>a_log := (a_log s)\<lparr>bufChan := queue s @ [buf]\<rparr>, accepted := accepted s @ [buf]\<rparr>))"

text \<open>Steps of the loop, with the callers it meets on \<open>ntfChan\<close> and \<open>doneChan\<close>.\<close>

inductive loop_step :: "(int \<Rightarrow> nat \<times> nat \<times> nat) \<Rightarrow> async_sys \<Rightarrow> async_sys \<Rightarrow> bool" for date where
  notified: "a_loop s = LoopSelect \<Longrightarrow> caller_at s i (AtNotify buf) \<Longrightarrow>
    loop_step date s ((set_caller i (AtPut buf) s)\<lparr>a_loop := Draining (length (queue s)) [] None\<rparr>)"
| notified_sync: "a_loop s = LoopSelect \<Longrightarrow> caller_at s i (SyncNotify k) \<Longrightarrow>
    loop_step date s ((set_caller i (SyncWait k) s)\<lparr>a_loop := Draining (length (queue s)) [] (Some i)\<rparr>)"
| take: "a_loop s = Draining (Suc n) sb r \<Longrightarrow> queue s = buf # rest \<Longrightarrow>
    length sb + length buf \<le> asyncByteSizePerIOWrite \<Longrightarrow>
    loop_step date s (s\<lparr>a_log := (a_log s)\<lparr>bufChan := rest\<rparr>, a_loop := Draining n (sb @ buf) r\<rparr>)"
| take_full: "a_loop s = Draining (Suc n) sb r \<Longrightarrow> queue s = buf # rest \<Longrightarrow>
    asyncByteSizePerIOWrite < length sb + length buf \<Longrightarrow>
    writeSync date now sb ((a_log s)\<lparr>bufChan := rest\<rparr>) (a_fs s) = Some (err, l, fs) \<Longrightarrow>
    loop_step date s (s\<lparr>a_log := l, a_fs := fs, a_loop := Draining n buf r, writes := writes s @ [(sb, err, fs)]\<rparr>)"
| write_rest: "a_loop s = Draining 0 sb r \<Longrightarrow> sb \<noteq> [] \<Longrightarrow>
    writeSync date now sb (a_log s) (a_fs s) = Some (err, l, fs) \<Longrightarrow>
    loop_step date s (s\<lparr>a_log := l, a_fs := fs, a_loop := Draining 0 [] r, writes := writes s @ [(sb, err, fs)]\<rparr>)"
| drained: "a_loop s = Draining 0 [] None \<Longrightarrow> loop_step date s (s\<lparr>a_loop := LoopSelect\<rparr>)"
| drained_sync: "a_loop s = Draining 0 [] (Some i) \<Longrightarrow> loop_step date s (s\<lparr>a_loop := Answering i\<rparr>)"
| answer: "a_loop s = Answering i \<Longrightarrow> caller_at s i (SyncWait k) \<Longrightarrow>
    loop_step date s ((set_caller i (Synced k) s)\<lparr>a_loop := LoopSelect\<rparr>)"

text \<open>What comes from outside: a tick of the loop's timer, and new calls.\<close>

inductive tick_step :: "async_sys \<Rightarrow> async_sys \<Rightarrow> bool" where
  tick: "a_loop s = LoopSelect \<Longrightarrow> tick_step s (s\<lparr>a_loop := Draining (length (queue s)) [] None\<rparr>)"

inductive call_step :: "async_sys \<Rightarrow> async_sys \<Rightarrow> bool" where
  call_write: "call_step s (s\<lparr>a_callers := a_callers s @ [AtTry buf]\<rparr>)"
| call_sync: "call_step s (s\<lparr>a_callers := a_callers s @ [SyncNotify (length (accepted s))]\<rparr>)"

definition inner_step :: "(int \<Rightarrow> nat \<times> nat \<times> nat) \<Rightarrow> async_sys \<Rightarrow> async_sys \<Rightarrow> bool" where
  "inner_step date s s' \<longleftrightarrow> caller_step s s' \<or> loop_step date s s'"

definition async_step :: "(int \<Rightarrow> nat \<times> nat \<times> nat) \<Rightarrow> async_sys \<Rightarrow> async_sys \<Rightarrow> bool" where
  "async_step date s s' \<longleftrightarrow> inner_step date s s' \<or> tick_step s s' \<or> call_step s s'"

section \<open>Invariants\<close>

fun sendBuffer :: "loop_pc \<Rightarrow> string" where
  "sendBuffer (Draining n sb r) = sb"
| "sendBuffer _ = []"

fun answers_to :: "loop_pc \<Rightarrow> nat option" where
  "answers_to (Draining n sb r) = r"
| "answers_to (Answering i) = Some i"
| "answers_to LoopSelect = None"

fun to_take :: "loop_pc \<Rightarrow> nat" where
  "to_take (Draining n sb r) = n"
| "to_take _ = 0"

abbreviation written :: "async_sys \<Rightarrow> string" where
  "written s \<equiv> concat (map fst (writes s))"

text \<open>Nothing is lost between the queue and \<open>writeSync\<close>, and the queue keeps to its capacity.\<close>

definition queue_inv :: "async_sys \<Rightarrow> bool" where
  "queue_inv s \<longleftrightarrow> (\<exists>taken. accepted s = taken @ queue s \<and> written s @ sendBuffer (a_loop s) = concat taken)
     \<and> to_take (a_loop s) \<le> length (queue s) \<and> length (queue s) \<le> bufCap (a_log s)"

text \<open>A goroutine waits on its \<open>doneChan\<close> exactly when the loop is going to answer it.\<close>

definition meeting_inv :: "async_sys \<Rightarrow> bool" where
  "meeting_inv s \<longleftrightarrow> (\<forall>i. (\<exists>k. caller_at s i (SyncWait k)) \<longleftrightarrow> answers_to (a_loop s) = Some i)"

text \<open>What was in the queue when \<open>Sync\<close> was called has been taken when the loop answers, and written out.\<close>

fun synced_ok :: "async_sys \<Rightarrow> log_caller \<Rightarrow> bool" where
  "synced_ok s (SyncNotify k) = (k \<le> length (accepted s))"
| "synced_ok s (SyncWait k) = (k + length (queue s) \<le> length (accepted s) + to_take (a_loop s))"
| "synced_ok s (Synced k) = (k \<le> length (accepted s) \<and> prefix (concat (take k (accepted s))) (written s))"
| "synced_ok s _ = True"

definition sync_inv :: "async_sys \<Rightarrow> bool" where
  "sync_inv s \<longleftrightarrow> (\<forall>c\<in>set (a_callers s). synced_ok s c)"

text \<open>Every write that reports no error has extended the log file, and nothing else changes files.\<close>

fun last_fs :: "filesys \<Rightarrow> (string \<times> log_err option \<times> filesys) list \<Rightarrow> filesys" where
  "last_fs fs [] = fs"
| "last_fs fs ((b, err, fs') # ws) = last_fs fs' ws"

fun logged :: "string \<Rightarrow> filesys \<Rightarrow> (string \<times> log_err option \<times> filesys) list \<Rightarrow> bool" where
  "logged f fs [] = True"
| "logged f fs ((b, err, fs') # ws) = ((err = None \<longrightarrow> log_extended f b fs fs') \<and> logged f fs' ws)"

lemma last_fs_snoc [simp]: "last_fs fs (ws @ [(b, err, fs')]) = fs'"
  by (induction fs ws rule: last_fs.induct) auto

lemma logged_snoc [simp]:
  "logged f fs (ws @ [(b, err, fs')]) \<longleftrightarrow> logged f fs ws \<and> (err = None \<longrightarrow> log_extended f b (last_fs fs ws) fs')"
  by (induction f fs ws rule: logged.induct) auto

definition files_inv :: "BingoLogger \<Rightarrow> filesys \<Rightarrow> async_sys \<Rightarrow> bool" where
  "files_inv l fs s \<longleftrightarrow> finite (dom (fs_files (a_fs s))) \<and> fileName (a_log s) = fileName l \<and> bufCap (a_log s) = bufCap l
     \<and> a_fs s = last_fs fs (writes s) \<and> logged (fileName l) fs (writes s)"

definition short_inv :: "async_sys \<Rightarrow> bool" where
  "short_inv s \<longleftrightarrow> ((\<forall>e\<in>set (accepted s). length e \<le> asyncByteSizePerIOWrite) \<longrightarrow>
     (\<forall>w\<in>set (writes s). length (fst w) \<le> asyncByteSizePerIOWrite)
     \<and> length (sendBuffer (a_loop s)) \<le> asyncByteSizePerIOWrite)"

lemma set_caller_simps [simp]:
  "a_log (set_caller i c s) = a_log s" "a_fs (set_caller i c s) = a_fs s" "a_loop (set_caller i c s) = a_loop s"
  "accepted (set_caller i c s) = accepted s" "writes (set_caller i c s) = writes s"
  "a_callers (set_caller i c s) = (a_callers s)[i := c]"
  by (simp_all add: set_caller_def)

lemma writeAsync_Some:
  "writeAsync buf l = Some l' \<longleftrightarrow> length (bufChan l) < bufCap l \<and> l' = l\<lparr>bufChan := bufChan l @ [buf]\<rparr>"
  by (auto simp: writeAsync_def)

lemma writeAsync_None: "writeAsync buf l = None \<longleftrightarrow> bufCap l \<le> length (bufChan l)"
  by (auto simp: writeAsync_def)


lemma caller_at_mem: "caller_at s i c \<Longrightarrow> c \<in> set (a_callers s)"
  by (auto simp: caller_at_def)

subsection \<open>The queue\<close>

lemma caller_step_queue: "caller_step s s' \<Longrightarrow> queue_inv s \<Longrightarrow> queue_inv s'"
  by (induction rule: caller_step.induct) (auto simp: queue_inv_def writeAsync_Some)

lemma loop_step_queue: "loop_step date s s' \<Longrightarrow> queue_inv s \<Longrightarrow> queue_inv s'"
proof (induction rule: loop_step.induct)
  case (take s n sb r buf rest)
  then obtain taken where "accepted s = (taken @ [buf]) @ rest" "written s @ sb @ buf = concat (taken @ [buf])"
    by (auto simp: queue_inv_def)
  with take show ?case by (auto simp: queue_inv_def intro: exI [of _ "taken @ [buf]"])
next
  case (take_full s n sb r buf rest now err l fs)
  then obtain taken where "accepted s = (taken @ [buf]) @ rest" "written s @ sb @ buf = concat (taken @ [buf])"
    by (auto simp: queue_inv_def)
  with take_full show ?case
    by (auto simp: queue_inv_def writeSync_keeps [OF take_full(4)] intro: exI [of _ "taken @ [buf]"])
qed (auto simp: queue_inv_def writeSync_keeps)

subsection \<open>Who waits for the loop\<close>

lemma meeting_update:
  assumes "meeting_inv s" and "i < length (a_callers s)" and "a_callers s' = (a_callers s)[i := c]"
    and p: "\<And>j. answers_to (a_loop s') = Some j \<longleftrightarrow> (if j = i then \<exists>k. c = SyncWait k else answers_to (a_loop s) = Some j)"
  shows "meeting_inv s'"
  unfolding meeting_inv_def
proof
  fix j
  have "(\<exists>k. caller_at s' j (SyncWait k)) \<longleftrightarrow> (if j = i then \<exists>k. c = SyncWait k else \<exists>k. caller_at s j (SyncWait k))"
    using assms(2,3) by (simp add: caller_at_def)
  also have "\<dots> \<longleftrightarrow> answers_to (a_loop s') = Some j"
    using assms(1) unfolding meeting_inv_def p by presburger
  finally show "(\<exists>k. caller_at s' j (SyncWait k)) \<longleftrightarrow> answers_to (a_loop s') = Some j" .
qed

lemma meeting_other:
  assumes "meeting_inv s" and "caller_at s i d" and "\<And>k. d \<noteq> SyncWait k"
  shows "answers_to (a_loop s) \<noteq> Some i"
  using assms unfolding meeting_inv_def caller_at_def by metis

lemma caller_step_meeting: "caller_step s s' \<Longrightarrow> meeting_inv s \<Longrightarrow> meeting_inv s'"
proof (induction rule: caller_step.induct)
  case (try_put s i buf l)
  then show ?case
    using meeting_other [OF try_put(3,1)] by - (rule meeting_update [of s i _ Written], auto simp: caller_at_def)
next
  case (try_full s i buf)
  then show ?case
    using meeting_other [OF try_full(3,1)] by - (rule meeting_update [of s i _ "AtNotify buf"], auto simp: caller_at_def)
next
  case (put s i buf)
  then show ?case
    using meeting_other [OF put(3,1)] by - (rule meeting_update [of s i _ Written], auto simp: caller_at_def)
qed

lemma loop_step_meeting: "loop_step date s s' \<Longrightarrow> meeting_inv s \<Longrightarrow> meeting_inv s'"
proof (induction rule: loop_step.induct)
  case (answer s i k)
  then show ?case by - (rule meeting_update [of s i _ "Synced k"], auto simp: caller_at_def)
next
  case (notified s i buf)
  then show ?case by - (rule meeting_update [of s i _ "AtPut buf"], auto simp: caller_at_def)
next
  case (notified_sync s i k)
  then show ?case by - (rule meeting_update [of s i _ "SyncWait k"], auto simp: caller_at_def)
qed (simp_all add: meeting_inv_def caller_at_def)

subsection \<open>The files\<close>

lemma caller_step_files: "caller_step s s' \<Longrightarrow> files_inv l fs s \<Longrightarrow> files_inv l fs s'"
  by (induction rule: caller_step.induct) (auto simp: files_inv_def writeAsync_Some)

lemma writeSync_extends:
  "writeSync date now buf l fs = Some (None, l', fs') \<Longrightarrow> finite (dom (fs_files fs)) \<Longrightarrow> log_extended (fileName l) buf fs fs'"
  using writeSync_spec [of fs date now buf l] by auto

lemma loop_step_files: "loop_step date s s' \<Longrightarrow> files_inv l fs s \<Longrightarrow> files_inv l fs s'"
proof (induction rule: loop_step.induct)
  case (take_full s n sb r buf rest now err l' fs')
  then show ?case
    using writeSync_extends [of date now sb "(a_log s)\<lparr>bufChan := rest\<rparr>" "a_fs s" l' fs']
    by (auto simp: files_inv_def writeSync_keeps [OF take_full(4)])
next
  case (write_rest s sb r now err l' fs')
  then show ?case
    using writeSync_extends [of date now sb "a_log s" "a_fs s" l' fs']
    by (auto simp: files_inv_def writeSync_keeps [OF write_rest(3)])
qed (auto simp: files_inv_def)

subsection \<open>What a returned \<open>Sync\<close> means\<close>

lemma synced_ok_mono:
  assumes "synced_ok s c" and "accepted s' = accepted s @ x" and "written s' = written s @ y"
    and "length (queue s') + length (accepted s) + to_take (a_loop s)
      \<le> length (queue s) + length (accepted s') + to_take (a_loop s')"
  shows "synced_ok s' c"
  using assms by (cases c) auto

lemma sync_update:
  assumes "sync_inv s" and "a_callers s' = (a_callers s)[i := d]" and "synced_ok s' d"
    and "accepted s' = accepted s @ x" and "written s' = written s @ y"
    and "length (queue s') + length (accepted s) + to_take (a_loop s)
      \<le> length (queue s) + length (accepted s') + to_take (a_loop s')"
  shows "sync_inv s'"
proof -
  have "synced_ok s' c" if "c \<in> set (a_callers s)" for c
    using that assms(1) synced_ok_mono [OF _ assms(4-6)] by (auto simp: sync_inv_def)
  with assms(2,3) show ?thesis
    using set_update_subset_insert [of "a_callers s" i d] by (auto simp: sync_inv_def)
qed

lemma sync_keep:
  assumes "sync_inv s" and "a_callers s' = a_callers s"
    and "accepted s' = accepted s @ x" and "written s' = written s @ y"
    and "length (queue s') + length (accepted s) + to_take (a_loop s)
      \<le> length (queue s) + length (accepted s') + to_take (a_loop s')"
  shows "sync_inv s'"
  using assms(1,2) synced_ok_mono [OF _ assms(3-5)] by (auto simp: sync_inv_def)

lemma caller_step_sync: "caller_step s s' \<Longrightarrow> sync_inv s \<Longrightarrow> sync_inv s'"
proof (induction rule: caller_step.induct)
  case (try_put s i buf l)
  then show ?case by - (rule sync_update [of s _ i Written "[buf]" "[]"], auto simp: writeAsync_Some)
next
  case (try_full s i buf)
  then show ?case by - (rule sync_update [of s _ i "AtNotify buf" "[]" "[]"], auto)
next
  case (put s i buf)
  then show ?case by - (rule sync_update [of s _ i Written "[buf]" "[]"], auto)
qed

lemma answered_prefix:
  assumes "queue_inv s" and "a_loop s = Answering i" and "synced_ok s (SyncWait k)"
  shows "k \<le> length (accepted s) \<and> prefix (concat (take k (accepted s))) (written s)"
proof -
  obtain taken where q: "accepted s = taken @ queue s" "written s = concat taken"
    using assms(1,2) by (auto simp: queue_inv_def)
  with assms(2,3) have "k \<le> length taken" by simp
  then have "concat taken = concat (take k taken) @ concat (drop k taken)"
    by (metis append_take_drop_id concat_append)
  with q \<open>k \<le> length taken\<close> show ?thesis by simp
qed

lemma loop_step_sync: "loop_step date s s' \<Longrightarrow> queue_inv s \<Longrightarrow> sync_inv s \<Longrightarrow> sync_inv s'"
proof (induction rule: loop_step.induct)
  case (notified s i buf)
  then show ?case by - (rule sync_update [of s _ i "AtPut buf" "[]" "[]"], auto)
next
  case (notified_sync s i k)
  have "synced_ok s (SyncNotify k)"
    using notified_sync(2,4) caller_at_mem unfolding sync_inv_def by blast
  with notified_sync show ?case by - (rule sync_update [of s _ i "SyncWait k" "[]" "[]"], auto)
next
  case (take s n sb r buf rest)
  then show ?case by - (rule sync_keep [of s _ "[]" "[]"], auto)
next
  case (take_full s n sb r buf rest now err l fs)
  then show ?case
    by - (rule sync_keep [of s _ "[]" sb], auto simp: writeSync_keeps [OF take_full(4)])
next
  case (write_rest s sb r now err l fs)
  then show ?case
    by - (rule sync_keep [of s _ "[]" sb], auto simp: writeSync_keeps [OF write_rest(3)])
next
  case (answer s i k)
  have "synced_ok s (SyncWait k)"
    using answer(2,4) caller_at_mem unfolding sync_inv_def by blast
  then show ?case
    using answer answered_prefix [OF answer(3,1)]
    by - (rule sync_update [of s _ i "Synced k" "[]" "[]"], auto)
next
  case (drained s)
  then show ?case by - (rule sync_keep [of s _ "[]" "[]"], auto)
next
  case (drained_sync s i)
  then show ?case by - (rule sync_keep [of s _ "[]" "[]"], auto)
qed

subsection \<open>The size of a write\<close>

lemma caller_step_short: "caller_step s s' \<Longrightarrow> short_inv s \<Longrightarrow> short_inv s'"
  by (induction rule: caller_step.induct) (auto simp: short_inv_def writeAsync_Some)

lemma loop_step_short: "loop_step date s s' \<Longrightarrow> queue_inv s \<Longrightarrow> short_inv s \<Longrightarrow> short_inv s'"
proof (induction rule: loop_step.induct)
  case (take_full s n sb r buf rest now err l fs)
  then have "buf \<in> set (accepted s)" by (auto simp: queue_inv_def)
  with take_full show ?case by (auto simp: short_inv_def)
qed (auto simp: short_inv_def)

subsection \<open>Every reachable state\<close>

definition async_inv :: "BingoLogger \<Rightarrow> filesys \<Rightarrow> async_sys \<Rightarrow> bool" where
  "async_inv l fs s \<longleftrightarrow> queue_inv s \<and> meeting_inv s \<and> sync_inv s \<and> files_inv l fs s \<and> short_inv s"

lemma async_inv_inner: "inner_step date s s' \<Longrightarrow> async_inv l fs s \<Longrightarrow> async_inv l fs s'"
  unfolding inner_step_def async_inv_def
  by (meson caller_step_queue caller_step_meeting caller_step_sync caller_step_files caller_step_short
      loop_step_queue loop_step_meeting loop_step_sync loop_step_files loop_step_short)

lemma async_inv_tick:
  assumes "tick_step s s'" and "async_inv l fs s"
  shows "async_inv l fs s'"
  using assms
proof (induction rule: tick_step.induct)
  case (tick s)
  have "sync_inv (s\<lparr>a_loop := Draining (length (queue s)) [] None\<rparr>)"
    using tick by - (rule sync_keep [of s _ "[]" "[]"], auto simp: async_inv_def)
  with tick show ?case
    by (auto simp: async_inv_def queue_inv_def meeting_inv_def files_inv_def short_inv_def caller_at_def)
qed

lemma sync_call:
  assumes "sync_inv s" and "synced_ok s c"
  shows "sync_inv (s\<lparr>a_callers := a_callers s @ [c]\<rparr>)"
proof -
  have "synced_ok (s\<lparr>a_callers := a_callers s @ [c]\<rparr>) d \<longleftrightarrow> synced_ok s d" for d
    by (cases d) auto
  with assms show ?thesis by (auto simp: sync_inv_def)
qed

lemma meeting_call:
  assumes "meeting_inv s" and "\<And>k. c \<noteq> SyncWait k"
  shows "meeting_inv (s\<lparr>a_callers := a_callers s @ [c]\<rparr>)"
  using assms by (auto simp: meeting_inv_def caller_at_def nth_append less_Suc_eq)

lemma async_inv_call:
  assumes "call_step s s'" and "async_inv l fs s"
  shows "async_inv l fs s'"
  using assms
  by (induction rule: call_step.induct)
    (auto simp: async_inv_def queue_inv_def files_inv_def short_inv_def intro!: sync_call meeting_call)

lemma async_inv_start: "finite (dom (fs_files fs)) \<Longrightarrow> async_inv l fs (async_start l fs)"
  by (auto simp: async_inv_def async_start_def queue_inv_def meeting_inv_def sync_inv_def files_inv_def
      short_inv_def caller_at_def)

lemma async_inv_reachable:
  assumes "(async_step date)\<^sup>*\<^sup>* (async_start l fs) s" and "finite (dom (fs_files fs))"
  shows "async_inv l fs s"
  using assms
proof (induction rule: rtranclp_induct)
  case (step s s')
  then show ?case
    unfolding async_step_def by (blast intro: async_inv_inner async_inv_tick async_inv_call)
qed (simp add: async_inv_start)

section \<open>Progress\<close>

fun returned :: "log_caller \<Rightarrow> bool" where
  "returned Written = True"
| "returned (Synced k) = True"
| "returned _ = False"

fun is_put :: "log_caller \<Rightarrow> bool" where
  "is_put (AtPut buf) = True"
| "is_put _ = False"

definition pending :: "async_sys \<Rightarrow> nat" where
  "pending s = length (filter (\<lambda>c. \<not> returned c) (a_callers s))"

text \<open>The steps a caller and the loop can still make, and those of the loop that the caller can cause.\<close>

fun caller_work :: "nat \<Rightarrow> log_caller \<Rightarrow> nat" where
  "caller_work m (AtTry buf) = 2 * m + 5"
| "caller_work m (AtNotify buf) = 2 * m + 4"
| "caller_work m (SyncNotify k) = 2 * m + 4"
| "caller_work m (AtPut buf) = 1"
| "caller_work m (SyncWait k) = 1"
| "caller_work m _ = 0"

fun loop_work :: "loop_pc \<Rightarrow> nat" where
  "loop_work (Draining n sb r) = 2 * n + (if sb = [] then 2 else 3)"
| "loop_work (Answering i) = 1"
| "loop_work LoopSelect = 0"

definition work :: "async_sys \<Rightarrow> nat" where
  "work s = sum_list (map (caller_work (bufCap (a_log s))) (a_callers s)) + loop_work (a_loop s)"

lemma sum_list_map_update:
  fixes f :: "'a \<Rightarrow> nat"
  assumes "i < length xs"
  shows "sum_list (map f (xs[i := c])) + f (xs ! i) = sum_list (map f xs) + f c"
  using assms by (induction xs arbitrary: i) (auto split: nat.split)

lemma pending_sum: "pending s = sum_list (map (\<lambda>c. if returned c then 0 else 1) (a_callers s))"
proof -
  have "length (filter (\<lambda>c. \<not> returned c) cs) = sum_list (map (\<lambda>c. if returned c then 0 else 1) cs)" for cs
    by (induction cs) auto
  then show ?thesis by (simp add: pending_def)
qed

lemma work_update:
  assumes "caller_at s i c" and "a_callers s' = (a_callers s)[i := d]" and "bufCap (a_log s') = bufCap (a_log s)"
    and "caller_work (bufCap (a_log s)) d + loop_work (a_loop s') < caller_work (bufCap (a_log s)) c + loop_work (a_loop s)"
  shows "work s' < work s"
  using assms sum_list_map_update [of i "a_callers s" "caller_work (bufCap (a_log s))" d]
  by (auto simp: work_def caller_at_def)

lemma pending_update:
  assumes "caller_at s i c" and "\<not> returned c" and "a_callers s' = (a_callers s)[i := d]"
  shows "pending s' \<le> pending s" and "returned d \<Longrightarrow> pending s' < pending s"
  using assms sum_list_map_update [of i "a_callers s" "\<lambda>c. if returned c then 0 else 1" d]
  unfolding pending_sum caller_at_def by (auto split: if_splits)

lemma caller_step_work: "caller_step s s' \<Longrightarrow> work s' < work s"
proof (induction rule: caller_step.induct)
  case (try_put s i buf l)
  then show ?case by - (rule work_update [OF try_put(1), of _ Written], auto simp: writeAsync_Some)
next
  case (try_full s i buf)
  then show ?case by - (rule work_update [OF try_full(1), of _ "AtNotify buf"], auto)
next
  case (put s i buf)
  then show ?case by - (rule work_update [OF put(1), of _ Written], auto)
qed

lemma loop_step_work: "loop_step date s s' \<Longrightarrow> queue_inv s \<Longrightarrow> work s' < work s"
proof (induction rule: loop_step.induct)
  case (notified s i buf)
  then show ?case by - (rule work_update [OF notified(2), of _ "AtPut buf"], auto simp: queue_inv_def)
next
  case (notified_sync s i k)
  then show ?case by - (rule work_update [OF notified_sync(2), of _ "SyncWait k"], auto simp: queue_inv_def)
next
  case (answer s i k)
  then show ?case by - (rule work_update [OF answer(2), of _ "Synced k"], auto)
next
  case (take_full s n sb r buf rest now err l fs)
  then show ?case by (simp add: work_def writeSync_keeps [OF take_full(4)])
next
  case (write_rest s sb r now err l fs)
  then show ?case by (simp add: work_def writeSync_keeps [OF write_rest(3)])
qed (simp_all add: work_def)

lemma inner_step_work: "inner_step date s s' \<Longrightarrow> async_inv l fs s \<Longrightarrow> work s' < work s"
  unfolding inner_step_def async_inv_def by (blast intro: caller_step_work loop_step_work)

lemma inner_run:
  assumes "(inner_step date ^^ n) s s'" and "async_inv l fs s"
  shows "async_inv l fs s' \<and> n + work s' \<le> work s"
  using assms(1)
proof (induction n arbitrary: s')
  case (Suc n)
  then obtain t where "(inner_step date ^^ n) s t" "inner_step date t s'" by (auto elim: relpowp_Suc_E)
  with Suc.IH [of t] show ?case
    using async_inv_inner [of date t s' l fs] inner_step_work [of date t s' l fs] by auto
qed (use assms(2) in simp)

lemma caller_work_le: "caller_work m c \<le> 2 * m + 5"
  by (cases c) auto

lemma work_le:
  assumes "async_inv l fs s"
  shows "work s \<le> (2 * bufCap l + 5) * length (a_callers s) + 2 * bufCap l + 3"
proof -
  have cap: "bufCap (a_log s) = bufCap l" "to_take (a_loop s) \<le> bufCap l"
    using assms unfolding async_inv_def queue_inv_def files_inv_def by simp_all
  have "sum_list (map (caller_work (bufCap l)) cs) \<le> (2 * bufCap l + 5) * length cs" for cs
    using caller_work_le [of "bufCap l"] by (induction cs) (auto intro: add_mono)
  moreover have "loop_work (a_loop s) \<le> 2 * bufCap l + 3"
    using cap(2) by (cases "a_loop s") auto
  ultimately show ?thesis
    unfolding work_def cap(1) add.assoc [symmetric] by (metis add.assoc add_mono)
qed

subsection \<open>Where the callers can be stuck\<close>

lemma loop_can_step:
  assumes "async_inv l fs s" and "a_loop s \<noteq> LoopSelect"
  shows "\<exists>t. loop_step date s t"
proof (cases "a_loop s")
  case (Draining n sb r)
  have fin: "finite (dom (fs_files (a_fs s)))" using assms(1) unfolding async_inv_def files_inv_def by blast
  show ?thesis
  proof (cases n)
    case 0
    show ?thesis
    proof (cases "sb = []")
      case True
      with 0 Draining show ?thesis using drained [of s] drained_sync [of s] by (cases r) auto
    next
      case False
      obtain err l' fs' where "writeSync date 0 sb (a_log s) (a_fs s) = Some (err, l', fs')"
        using writeSync_spec [OF fin] by blast
      with False 0 Draining show ?thesis using write_rest [of s sb r] by blast
    qed
  next
    case (Suc m)
    with Draining assms(1) obtain buf rest where q: "queue s = buf # rest"
      by (cases "queue s") (auto simp: async_inv_def queue_inv_def)
    obtain err l' fs' where "writeSync date 0 sb ((a_log s)\<lparr>bufChan := rest\<rparr>) (a_fs s) = Some (err, l', fs')"
      using writeSync_spec [OF fin] by blast
    with q Suc Draining show ?thesis
      using take [of s m sb r buf rest] take_full [of s m sb r buf rest] by (meson not_le)
  qed
next
  case (Answering i)
  then obtain k where "caller_at s i (SyncWait k)"
    using assms(1) by (auto simp: async_inv_def meeting_inv_def)
  with Answering show ?thesis using answer by blast
qed (use assms(2) in simp)

definition stuck :: "(int \<Rightarrow> nat \<times> nat \<times> nat) \<Rightarrow> async_sys \<Rightarrow> bool" where
  "stuck date s \<longleftrightarrow> (\<nexists>t. inner_step date s t)"

lemma stuck_callers:
  assumes inv: "async_inv l fs s" and "stuck date s"
  shows "a_loop s = LoopSelect"
    and "c \<in> set (a_callers s) \<Longrightarrow> returned c \<or> is_put c \<and> length (queue s) = bufCap l"
proof -
  have no: "\<not> caller_step s t" "\<not> loop_step date s t" for t
    using assms(2) by (auto simp: stuck_def inner_step_def)
  show sel: "a_loop s = LoopSelect" using loop_can_step [OF inv] no(2) by blast
  have cap: "length (queue s) \<le> bufCap l" "bufCap (a_log s) = bufCap l"
    using inv unfolding async_inv_def queue_inv_def files_inv_def by simp_all
  assume "c \<in> set (a_callers s)"
  then obtain i where c: "caller_at s i c" by (auto simp: in_set_conv_nth caller_at_def)
  show "returned c \<or> is_put c \<and> length (queue s) = bufCap l"
  proof (cases c)
    case (AtTry buf)
    with c have False
      using no(1) try_put [of s i buf] try_full [of s i buf] by (cases "writeAsync buf (a_log s)") auto
    then show ?thesis ..
  next
    case (AtNotify buf)
    with c sel have False using no(2) notified by blast
    then show ?thesis ..
  next
    case (AtPut buf)
    with c have "\<not> length (queue s) < bufCap (a_log s)" using no(1) put by blast
    with cap AtPut show ?thesis by simp
  next
    case (SyncNotify k)
    with c sel have False using no(2) notified_sync by blast
    then show ?thesis ..
  next
    case (SyncWait k)
    with c sel inv have False unfolding async_inv_def meeting_inv_def by (metis answers_to.simps(3) option.distinct(1))
    then show ?thesis ..
  qed simp_all
qed

subsection \<open>What a tick does for them\<close>

definition after_tick :: "nat \<Rightarrow> async_sys \<Rightarrow> bool" where
  "after_tick p s \<longleftrightarrow> pending s < p
     \<or> pending s = p \<and> (\<forall>c\<in>set (a_callers s). returned c \<or> is_put c)
       \<and> ((\<exists>sb. a_loop s = Draining (length (queue s)) sb None) \<or> a_loop s = LoopSelect \<and> queue s = [])"

lemma caller_step_pending: "caller_step s s' \<Longrightarrow> pending s' \<le> pending s"
proof (induction rule: caller_step.induct)
  case (try_put s i buf l)
  then show ?case by - (rule pending_update(1) [OF try_put(1), of _ Written], simp_all)
next
  case (try_full s i buf)
  then show ?case by - (rule pending_update(1) [OF try_full(1), of _ "AtNotify buf"], simp_all)
next
  case (put s i buf)
  then show ?case by - (rule pending_update(1) [OF put(1), of _ Written], simp_all)
qed

lemma loop_step_pending: "loop_step date s s' \<Longrightarrow> pending s' \<le> pending s"
proof (induction rule: loop_step.induct)
  case (notified s i buf)
  then show ?case by - (rule pending_update(1) [OF notified(2), of _ "AtPut buf"], simp_all)
next
  case (notified_sync s i k)
  then show ?case by - (rule pending_update(1) [OF notified_sync(2), of _ "SyncWait k"], simp_all)
next
  case (answer s i k)
  then show ?case by - (rule pending_update(1) [OF answer(2), of _ "Synced k"], simp_all)
qed (simp_all add: pending_def)

lemma caller_step_after_tick:
  assumes "caller_step s s'" and "after_tick p s"
  shows "after_tick p s'"
proof (cases "pending s < p")
  case True
  with caller_step_pending [OF assms(1)] show ?thesis by (simp add: after_tick_def)
next
  case False
  with assms(2) have p: "pending s = p" "\<forall>c\<in>set (a_callers s). returned c \<or> is_put c"
    by (auto simp: after_tick_def)
  from assms(1) p have "pending s' < pending s"
  proof (induction rule: caller_step.induct)
    case (put s i buf)
    then show ?case by - (rule pending_update(2) [OF put(1), of _ Written], simp_all)
  qed (auto dest!: caller_at_mem)
  with p(1) show ?thesis by (simp add: after_tick_def)
qed

lemma loop_step_after_tick:
  assumes "loop_step date s s'" and "after_tick p s"
  shows "after_tick p s'"
proof (cases "pending s < p")
  case True
  with loop_step_pending [OF assms(1)] show ?thesis by (simp add: after_tick_def)
next
  case False
  with assms(2) have p: "pending s = p" "\<forall>c\<in>set (a_callers s). returned c \<or> is_put c"
    "(\<exists>sb. a_loop s = Draining (length (queue s)) sb None) \<or> a_loop s = LoopSelect \<and> queue s = []"
    by (auto simp: after_tick_def)
  from assms(1) p show ?thesis
  proof (induction rule: loop_step.induct)
    case (take_full s n sb r buf rest now err l fs)
    then show ?case by (simp add: after_tick_def pending_def writeSync_keeps [OF take_full(4)])
  next
    case (write_rest s sb r now err l fs)
    then show ?case by (simp add: after_tick_def pending_def writeSync_keeps [OF write_rest(3)])
  qed (auto simp: after_tick_def pending_def dest!: caller_at_mem)
qed

lemma after_tick_run:
  assumes "(inner_step date)\<^sup>*\<^sup>* s t" and "after_tick p s" and "async_inv l fs s"
  shows "after_tick p t \<and> async_inv l fs t"
  using assms
proof (induction rule: rtranclp_induct)
  case (step t u)
  then show ?case
    using async_inv_inner caller_step_after_tick loop_step_after_tick unfolding inner_step_def by blast
qed simp

lemma tick_lets_one_return:
  assumes inv: "async_inv l fs s" and "stuck date s" and "0 < bufCap l" and "0 < pending s"
    and "tick_step s t" and "(inner_step date)\<^sup>*\<^sup>* t u" and "stuck date u"
  shows "pending u < pending s"
proof -
  have "after_tick (pending s) t"
    using assms(5) stuck_callers(2) [OF inv assms(2)]
    by (auto simp: tick_step.simps after_tick_def pending_def)
  then have u: "after_tick (pending s) u" "async_inv l fs u"
    using after_tick_run [OF assms(6)] async_inv_tick [OF assms(5) inv] by blast+
  show ?thesis
  proof (rule ccontr)
    assume "\<not> pending u < pending s"
    with u(1) stuck_callers(1) [OF u(2) assms(7)] have "pending u = pending s" "queue u = []"
      by (auto simp: after_tick_def)
    moreover from this assms(4) obtain c where "c \<in> set (a_callers u)" "\<not> returned c"
      by (metis (mono_tags) filter_False length_0_conv less_numeral_extra(3) pending_def)
    ultimately show False
      using stuck_callers(2) [OF u(2) assms(7)] assms(3) by fastforce
  qed
qed

lemma stuckI:
  assumes "a_loop s = LoopSelect" and "\<forall>c\<in>set (a_callers s). returned c \<or> is_put c \<and> bufCap (a_log s) \<le> length (queue s)"
  shows "stuck date s"
proof -
  have "\<not> caller_step s t" for t
    using assms(2) by (auto simp: caller_step.simps dest!: caller_at_mem)
  moreover have "\<not> loop_step date s t" for t
    using assms by (auto simp: loop_step.simps dest!: caller_at_mem)
  ultimately show ?thesis by (simp add: stuck_def inner_step_def)
qed

section \<open>One run of \<open>writeAllFunc\<close>\<close>

text \<open>
  With nobody else at work the steps of the loop are the sequential \<open>writeAllFunc\<close> of theory \<open>Log\<close>: the same
  batches, the same files.
\<close>

lemma moveLogFile_bufChan:
  "moveLogFile date now (l\<lparr>bufChan := q\<rparr>) fs
     = map_option (\<lambda>(err, l, fs). (err, l\<lparr>bufChan := q\<rparr>, fs)) (moveLogFile date now l fs)"
  by (auto simp: moveLogFile_def Let_def split: option.splits prod.splits)

lemma writeSync_bufChan:
  "writeSync date now buf (l\<lparr>bufChan := q\<rparr>) fs
     = map_option (\<lambda>(err, l, fs). (err, l\<lparr>bufChan := q\<rparr>, fs)) (writeSync date now buf l fs)"
proof -
  have old: "updateOldFileFd date now (l\<lparr>bufChan := q\<rparr>) fs
      = map_option (\<lambda>(err, l, fs). (err, l\<lparr>bufChan := q\<rparr>, fs)) (updateOldFileFd date now l fs)" for l
    by (auto simp: updateOldFileFd_def moveLogFile_bufChan split: option.splits prod.splits)
  have opn: "openLogFile now (l\<lparr>bufChan := q\<rparr>) fs = (case openLogFile now l fs of (err, l, fs) \<Rightarrow> (err, l\<lparr>bufChan := q\<rparr>, fs))" for l fs
    by (auto simp: openLogFile_def split: option.splits prod.splits)
  have upd: "updateFileFd date now (l\<lparr>bufChan := q\<rparr>) fs
      = map_option (\<lambda>(err, l, fs). (err, l\<lparr>bufChan := q\<rparr>, fs)) (updateFileFd date now l fs)"
    by (auto simp: updateFileFd_def old opn split: option.splits prod.splits)
  show ?thesis
    by (auto simp: writeSync_def upd Let_def split: option.splits prod.splits)
qed

lemma drain_run:
  assumes "a_loop s = Draining (length (queue s)) sb r"
    and "write_each date now (batches sb (queue s)) ((a_log s)\<lparr>bufChan := []\<rparr>) (a_fs s) = Some (l', fs')"
  shows "\<exists>ws. (loop_step date)\<^sup>*\<^sup>* s
      (s\<lparr>a_log := l', a_fs := fs', a_loop := Draining 0 [] r, writes := writes s @ ws\<rparr>)
    \<and> map fst ws = batches sb (queue s)"
  using assms
proof (induction "queue s" arbitrary: s sb)
  case Nil
  show ?case
  proof (cases "sb = []")
    case True
    with Nil have "s\<lparr>a_log := l', a_fs := fs', a_loop := Draining 0 [] r, writes := writes s @ []\<rparr> = s" by auto
    with True Nil(1) show ?thesis by (metis batches.simps(1) list.simps(8) rtranclp.rtrancl_refl)
  next
    case False
    have "(a_log s)\<lparr>bufChan := []\<rparr> = a_log s" unfolding Nil(1) by simp
    with Nil(3) False obtain err where w: "writeSync date now sb (a_log s) (a_fs s) = Some (err, l', fs')"
      unfolding Nil(1) [symmetric] by (auto split: option.splits)
    have "loop_step date s (s\<lparr>a_log := l', a_fs := fs', a_loop := Draining 0 [] r, writes := writes s @ [(sb, err, fs')]\<rparr>)"
      using Nil(2) False w by (intro write_rest) (simp_all flip: Nil(1))
    with False Nil(1) show ?thesis by (intro exI [of _ "[(sb, err, fs')]"]) auto
  qed
next
  case (Cons buf rest)
  note q = Cons.hyps(2) [symmetric]
  show ?case
  proof (cases "length sb + length buf \<le> asyncByteSizePerIOWrite")
    case True
    let ?t = "s\<lparr>a_log := (a_log s)\<lparr>bufChan := rest\<rparr>, a_loop := Draining (length rest) (sb @ buf) r\<rparr>"
    have "loop_step date s ?t" using Cons.prems(1) q True by (intro take) simp_all
    moreover have "\<exists>ws. (loop_step date)\<^sup>*\<^sup>* ?t
        (?t\<lparr>a_log := l', a_fs := fs', a_loop := Draining 0 [] r, writes := writes ?t @ ws\<rparr>)
      \<and> map fst ws = batches (sb @ buf) (queue ?t)"
      using Cons.prems(2) q True by (intro Cons.hyps(1)) simp_all
    ultimately show ?thesis using q True by (auto intro: converse_rtranclp_into_rtranclp)
  next
    case False
    then obtain err l1 fs1 where w: "writeSync date now sb ((a_log s)\<lparr>bufChan := []\<rparr>) (a_fs s) = Some (err, l1, fs1)"
      and rec: "write_each date now (batches buf rest) l1 fs1 = Some (l', fs')"
      using Cons.prems(2) q by (auto split: option.splits)
    have w': "writeSync date now sb ((a_log s)\<lparr>bufChan := rest\<rparr>) (a_fs s) = Some (err, l1\<lparr>bufChan := rest\<rparr>, fs1)"
      using writeSync_bufChan [of date now sb rest "(a_log s)\<lparr>bufChan := []\<rparr>" "a_fs s"] w by simp
    let ?t = "s\<lparr>a_log := l1\<lparr>bufChan := rest\<rparr>, a_fs := fs1, a_loop := Draining (length rest) buf r,
      writes := writes s @ [(sb, err, fs1)]\<rparr>"
    have "loop_step date s ?t" using Cons.prems(1) q False w' by (intro take_full) simp_all
    moreover have "l1\<lparr>bufChan := []\<rparr> = l1" using writeSync_keeps(1) [OF w] by simp
    then have "\<exists>ws. (loop_step date)\<^sup>*\<^sup>* ?t
        (?t\<lparr>a_log := l', a_fs := fs', a_loop := Draining 0 [] r, writes := writes ?t @ ws\<rparr>)
      \<and> map fst ws = batches buf (queue ?t)"
      using rec by (intro Cons.hyps(1)) simp_all
    ultimately obtain ws where "(loop_step date)\<^sup>*\<^sup>* s
        (s\<lparr>a_log := l', a_fs := fs', a_loop := Draining 0 [] r, writes := writes s @ (sb, err, fs1) # ws\<rparr>)"
      "map fst ws = batches buf rest"
      by (auto intro: converse_rtranclp_into_rtranclp)
    with q False show ?thesis by (intro exI [of _ "(sb, err, fs1) # ws"]) simp
  qed
qed

lemma writeAllFunc_run:
  assumes "a_loop s = Draining (length (queue s)) [] r"
    and "writeAllFunc date now (a_log s) (a_fs s) = Some (l', fs')"
  shows "\<exists>ws. (loop_step date)\<^sup>*\<^sup>* s
      (s\<lparr>a_log := l', a_fs := fs', a_loop := Draining 0 [] r, writes := writes s @ ws\<rparr>)
    \<and> map fst ws = batches [] (queue s)"
  using drain_run [OF assms(1)] assms(2) by (simp add: writeAllFunc_def)

section \<open>Properties\<close>


text \<open>
  A queue of one entry: with \<open>x\<close> in it, \<open>y\<close> and \<open>z\<close> and a \<open>Sync\<close> are called; the loop answers the \<open>Sync\<close>, then \<open>y\<close>, but
  \<open>z\<close> takes the free place.
\<close>

definition demo_log :: BingoLogger where
  "demo_log = newLogger\<lparr>fileName := ''a.log'', isAsync := True, isInited := True, bufCap := 1\<rparr>"

definition demo_files :: filesys where
  "demo_files = \<lparr>fs_files = Map.empty, denied = (\<lambda>_. False), no_rename = (\<lambda>_. False)\<rparr>"

definition demo_open :: BingoLogger where
  "demo_open = demo_log\<lparr>fileFd := True, fileCreateTime := 7, logTime := 7\<rparr>"

definition demo_written :: filesys where
  "demo_written = demo_files\<lparr>fs_files := [''a.log'' \<mapsto> (''x'', 7)]\<rparr>"

lemma demo_write: "writeSync (\<lambda>_. (2024, 1, 2)) 7 ''x'' demo_log demo_files = Some (None, demo_open, demo_written)"
  by (simp add: writeSync_def updateFileFd_def updateOldFileFd_def openLogFile_def demo_log_def demo_files_def
      demo_open_def demo_written_def newLogger_def Let_def)

definition demo_early :: "string list \<Rightarrow> loop_pc \<Rightarrow> log_caller list \<Rightarrow> string list \<Rightarrow> async_sys" where
  "demo_early q p cs acc = \<lparr>a_log = demo_log\<lparr>bufChan := q\<rparr>, a_fs = demo_files, a_loop = p, a_callers = cs,
     accepted = acc, writes = []\<rparr>"

definition demo_late :: "string list \<Rightarrow> loop_pc \<Rightarrow> log_caller list \<Rightarrow> string list \<Rightarrow> async_sys" where
  "demo_late q p cs acc = \<lparr>a_log = demo_open\<lparr>bufChan := q\<rparr>, a_fs = demo_written, a_loop = p, a_callers = cs,
     accepted = acc, writes = [(''x'', None, demo_written)]\<rparr>"

abbreviation demo_date :: "int \<Rightarrow> nat \<times> nat \<times> nat" where
  "demo_date \<equiv> \<lambda>_. (2024, 1, 2)"

abbreviation demo_called :: async_sys where
  "demo_called \<equiv> demo_early [''x''] LoopSelect [Written, AtTry ''y'', AtTry ''z'', SyncNotify 1] [''x'']"

abbreviation demo_end :: async_sys where
  "demo_end \<equiv> demo_late [''z''] LoopSelect [Written, AtPut ''y'', Written, Synced 1] [''x'', ''z'']"

lemmas demo_simps = demo_early_def demo_late_def caller_at_def set_caller_def demo_log_def demo_open_def newLogger_def
  writeAsync_def asyncByteSizePerIOWrite_def

lemma demo_reached: "(async_step demo_date)\<^sup>*\<^sup>* (async_start demo_log demo_files) demo_called"
proof -
  let ?e = demo_early
  have step: "async_step demo_date s t" if "call_step s t \<or> caller_step s t" for s t
    using that by (auto simp: async_step_def inner_step_def)
  have "async_start demo_log demo_files = ?e [] LoopSelect [] []"
    by (simp add: async_start_def demo_simps)
  also have "async_step demo_date (?e [] LoopSelect [] []) (?e [] LoopSelect [AtTry ''x''] [])"
    using call_write [of "?e [] LoopSelect [] []" "''x''"] by (intro step) (simp add: demo_early_def)
  then have "(async_step demo_date)\<^sup>*\<^sup>* (?e [] LoopSelect [] []) (?e [] LoopSelect [AtTry ''x''] [])" ..
  also have "async_step demo_date (?e [] LoopSelect [AtTry ''x''] []) (?e [''x''] LoopSelect [Written] [''x''])"
    using try_put [of "?e [] LoopSelect [AtTry ''x''] []" 0 "''x''"] by (intro step) (simp add: demo_simps)
  also have "async_step demo_date (?e [''x''] LoopSelect [Written] [''x'']) (?e [''x''] LoopSelect [Written, AtTry ''y''] [''x''])"
    using call_write [of "?e [''x''] LoopSelect [Written] [''x'']" "''y''"] by (intro step) (simp add: demo_early_def)
  also have "async_step demo_date (?e [''x''] LoopSelect [Written, AtTry ''y''] [''x''])
      (?e [''x''] LoopSelect [Written, AtTry ''y'', AtTry ''z''] [''x''])"
    using call_write [of "?e [''x''] LoopSelect [Written, AtTry ''y''] [''x'']" "''z''"]
    by (intro step) (simp add: demo_early_def)
  also have "async_step demo_date (?e [''x''] LoopSelect [Written, AtTry ''y'', AtTry ''z''] [''x'']) demo_called"
    using call_sync [of "?e [''x''] LoopSelect [Written, AtTry ''y'', AtTry ''z''] [''x'']"]
    by (intro step) (simp add: demo_early_def)
  finally show ?thesis .
qed

lemma demo_first_run:
  "(inner_step demo_date ^^ 4) demo_called
     (demo_late [] (Draining 0 [] (Some 3)) [Written, AtNotify ''y'', AtTry ''z'', SyncWait 1] [''x''])"
proof -
  let ?cs = "[Written, AtNotify ''y'', AtTry ''z'', SyncNotify 1]"
  let ?ds = "[Written, AtNotify ''y'', AtTry ''z'', SyncWait 1]"
  let ?e = demo_early
  have "caller_step demo_called (?e [''x''] LoopSelect ?cs [''x''])"
    using try_full [of demo_called 1 "''y''"] by (simp add: demo_simps)
  moreover have "loop_step demo_date (?e [''x''] LoopSelect ?cs [''x'']) (?e [''x''] (Draining 1 [] (Some 3)) ?ds [''x''])"
    using notified_sync [of "?e [''x''] LoopSelect ?cs [''x'']" 3 1] by (simp add: demo_simps)
  moreover have "loop_step demo_date (?e [''x''] (Draining 1 [] (Some 3)) ?ds [''x'']) (?e [] (Draining 0 ''x'' (Some 3)) ?ds [''x''])"
    using take [of "?e [''x''] (Draining 1 [] (Some 3)) ?ds [''x'']" 0] by (simp add: demo_simps)
  moreover have "loop_step demo_date (?e [] (Draining 0 ''x'' (Some 3)) ?ds [''x'']) (demo_late [] (Draining 0 [] (Some 3)) ?ds [''x''])"
    using write_rest [of "?e [] (Draining 0 ''x'' (Some 3)) ?ds [''x'']" "''x''" "Some 3" demo_date 7] demo_write
    by (simp add: demo_early_def demo_late_def demo_open_def demo_log_def newLogger_def)
  ultimately show ?thesis
    by (auto simp: eval_nat_numeral inner_step_def intro!: relcomppI)
qed

lemma demo_second_run:
  "(inner_step demo_date ^^ 5)
     (demo_late [] (Draining 0 [] (Some 3)) [Written, AtNotify ''y'', AtTry ''z'', SyncWait 1] [''x'']) demo_end"
proof -
  let ?cs = "[Written, AtNotify ''y'', AtTry ''z'', SyncWait 1]"
  let ?ds = "[Written, AtNotify ''y'', AtTry ''z'', Synced 1]"
  let ?us = "[Written, AtPut ''y'', AtTry ''z'', Synced 1]"
  let ?e = demo_late
  have "loop_step demo_date (?e [] (Draining 0 [] (Some 3)) ?cs [''x'']) (?e [] (Answering 3) ?cs [''x''])"
    using drained_sync [of "?e [] (Draining 0 [] (Some 3)) ?cs [''x'']" 3] by (simp add: demo_simps)
  moreover have "loop_step demo_date (?e [] (Answering 3) ?cs [''x'']) (?e [] LoopSelect ?ds [''x''])"
    using answer [of "?e [] (Answering 3) ?cs [''x'']" 3 1] by (simp add: demo_simps)
  moreover have "loop_step demo_date (?e [] LoopSelect ?ds [''x'']) (?e [] (Draining 0 [] None) ?us [''x''])"
    using notified [of "?e [] LoopSelect ?ds [''x'']" 1 "''y''"] by (simp add: demo_simps)
  moreover have "loop_step demo_date (?e [] (Draining 0 [] None) ?us [''x'']) (?e [] LoopSelect ?us [''x''])"
    using drained [of "?e [] (Draining 0 [] None) ?us [''x'']"] by (simp add: demo_simps)
  moreover have "caller_step (?e [] LoopSelect ?us [''x'']) demo_end"
    using try_put [of "?e [] LoopSelect ?us [''x'']" 2 "''z''"] by (simp add: demo_simps)
  ultimately show ?thesis
    by (auto simp: eval_nat_numeral inner_step_def intro!: relcomppI)
qed

lemma demo_run: "(inner_step demo_date ^^ 9) demo_called demo_end"
  using relpowp_trans [OF demo_first_run demo_second_run] by simp

lemma demo_end_stuck: "stuck demo_date demo_end"
  by (rule stuckI) (simp_all add: demo_late_def demo_open_def demo_log_def)




end
