(* ===== verification/Pbsupport.thy ===== *)
theory Pbsupport
  imports Go_Strconv
begin

text \<open>
  The protobuf support of the database plugins, \<^verbatim>\<open>src/plugin/db/pbsupport/pbsupport.go\<close>: which
  fields are stored as text and which as wire bytes, splitting a record into columns, and
  putting it together again.  A message descriptor is a record of its fields; a message is the
  list of its populated scalar fields together with its wire form, the list of its encoded
  fields in order (what \<open>Marshal\<close> followed by \<open>ConsumeField\<close> yields).  Bytes are kept as strings.
\<close>

section \<open>Descriptors\<close>

datatype kind =
    BoolKind | EnumKind | Int32Kind | Sint32Kind | Uint32Kind | Int64Kind | Sint64Kind | Uint64Kind
  | Sfixed32Kind | Fixed32Kind | FloatKind | Sfixed64Kind | Fixed64Kind | DoubleKind | StringKind
  | BytesKind | MessageKind | GroupKind

record field =
  fd_Name :: string
  fd_Number :: nat
  fd_Kind :: kind
  fd_Repeated :: bool

record msg_desc =
  d_Name :: string
  d_FullName :: string
  d_Fields :: "field list"
  d_PrimaryKey :: string

definition ByName :: "msg_desc \<Rightarrow> string \<Rightarrow> field option" where
  "ByName desc n = List.find (\<lambda>fd. fd_Name fd = n) (d_Fields desc)"

definition ByNumber :: "msg_desc \<Rightarrow> nat \<Rightarrow> field option" where
  "ByNumber desc num = List.find (\<lambda>fd. fd_Number fd = num) (d_Fields desc)"

definition BlobKind :: "kind set" where
  "BlobKind = {BytesKind, MessageKind, GroupKind}"

definition IncreaseAbleKind :: "kind set" where
  "IncreaseAbleKind = {Int32Kind, Uint32Kind, Int64Kind, Sint64Kind, Uint64Kind}"

definition IsFdMarshalToBlob :: "field \<Rightarrow> bool" where
  "IsFdMarshalToBlob fd = (if fd_Repeated fd then True else fd_Kind fd \<in> BlobKind)"

text \<open>\<open>strings.Split\<close> at a single character.\<close>

fun split_at :: "char \<Rightarrow> string \<Rightarrow> string \<Rightarrow> string list" where
  "split_at c acc [] = [acc]"
| "split_at c acc (x # xs) = (if x = c then acc # split_at c [] xs else split_at c (acc @ [x]) xs)"

definition FindPrimaryKey :: "msg_desc \<Rightarrow> string list" where
  "FindPrimaryKey desc = (if d_PrimaryKey desc = [] then [] else split_at (CHR '','') [] (d_PrimaryKey desc))"

text \<open>
  The code looks the key fields up by their text name, which is the name for every field that is no
  group; a group is no key.
\<close>

definition FindFds :: "msg_desc \<Rightarrow> string list \<Rightarrow> field option list" where
  "FindFds desc keyNames = map (ByName desc) keyNames"

definition BuildKeyFieldsMap :: "msg_desc \<Rightarrow> string set" where
  "BuildKeyFieldsMap desc = set (FindPrimaryKey desc)"

definition BuildIncreaseableFieldsMap :: "msg_desc \<Rightarrow> string set" where
  "BuildIncreaseableFieldsMap desc =
     set (map fd_Name (filter (\<lambda>fd. \<not> fd_Repeated fd \<and> fd_Name fd \<notin> BuildKeyFieldsMap desc
       \<and> fd_Kind fd \<in> IncreaseAbleKind) (d_Fields desc)))"

section \<open>Scalars\<close>

text \<open>A value of a scalar field; floating point values are kept as the text Go prints for them.\<close>

datatype pvalue = VBool bool | VEnum int | VInt int | VUint nat | VFloat string | VString string

definition marshalScalar :: "pvalue \<Rightarrow> string" where
  "marshalScalar v =
     (case v of
        VBool b \<Rightarrow> if b then ''1'' else ''0''
      | VEnum i \<Rightarrow> FormatInt i
      | VInt i \<Rightarrow> FormatInt i
      | VUint n \<Rightarrow> Itoa n
      | VFloat s \<Rightarrow> s
      | VString s \<Rightarrow> s)"

text \<open>\<open>ParseFloat\<close> of the standard library is the argument \<open>pf\<close>.\<close>

definition unmarshalScalarByStr :: "(string \<Rightarrow> string option) \<Rightarrow> kind \<Rightarrow> string \<Rightarrow> pvalue option" where
  "unmarshalScalarByStr pf k str =
     (case k of
        StringKind \<Rightarrow> Some (VString str)
      | BoolKind \<Rightarrow>
          if str = ''true'' \<or> str = ''1'' then Some (VBool True)
          else if str = ''false'' \<or> str = ''0'' \<or> str = [] then Some (VBool False) else None
      | Int32Kind \<Rightarrow> map_option VInt (ParseInt 32 str)
      | Sint32Kind \<Rightarrow> map_option VInt (ParseInt 32 str)
      | Sfixed32Kind \<Rightarrow> map_option VInt (ParseInt 32 str)
      | Int64Kind \<Rightarrow> map_option VInt (ParseInt 64 str)
      | Sint64Kind \<Rightarrow> map_option VInt (ParseInt 64 str)
      | Sfixed64Kind \<Rightarrow> map_option VInt (ParseInt 64 str)
      | Uint32Kind \<Rightarrow> map_option VUint (ParseUint 32 str)
      | Fixed32Kind \<Rightarrow> map_option VUint (ParseUint 32 str)
      | Uint64Kind \<Rightarrow> map_option VUint (ParseUint 64 str)
      | Fixed64Kind \<Rightarrow> map_option VUint (ParseUint 64 str)
      | DoubleKind \<Rightarrow> map_option VFloat (pf str)
      | FloatKind \<Rightarrow> map_option VFloat (pf str)
      | _ \<Rightarrow> None)"

text \<open>The values a field of a kind can have.\<close>

fun value_ok :: "kind \<Rightarrow> pvalue \<Rightarrow> bool" where
  "value_ok BoolKind v = (\<exists>b. v = VBool b)"
| "value_ok EnumKind v = (\<exists>i. v = VEnum i)"
| "value_ok Int32Kind v = (\<exists>i. v = VInt i \<and> - (2 ^ 31) \<le> i \<and> i < 2 ^ 31)"
| "value_ok Sint32Kind v = (\<exists>i. v = VInt i \<and> - (2 ^ 31) \<le> i \<and> i < 2 ^ 31)"
| "value_ok Sfixed32Kind v = (\<exists>i. v = VInt i \<and> - (2 ^ 31) \<le> i \<and> i < 2 ^ 31)"
| "value_ok Int64Kind v = (\<exists>i. v = VInt i \<and> - (2 ^ 63) \<le> i \<and> i < 2 ^ 63)"
| "value_ok Sint64Kind v = (\<exists>i. v = VInt i \<and> - (2 ^ 63) \<le> i \<and> i < 2 ^ 63)"
| "value_ok Sfixed64Kind v = (\<exists>i. v = VInt i \<and> - (2 ^ 63) \<le> i \<and> i < 2 ^ 63)"
| "value_ok Uint32Kind v = (\<exists>n. v = VUint n \<and> n < 2 ^ 32)"
| "value_ok Fixed32Kind v = (\<exists>n. v = VUint n \<and> n < 2 ^ 32)"
| "value_ok Uint64Kind v = (\<exists>n. v = VUint n \<and> n < 2 ^ 64)"
| "value_ok Fixed64Kind v = (\<exists>n. v = VUint n \<and> n < 2 ^ 64)"
| "value_ok FloatKind v = (\<exists>s. v = VFloat s)"
| "value_ok DoubleKind v = (\<exists>s. v = VFloat s)"
| "value_ok StringKind v = (\<exists>s. v = VString s)"
| "value_ok BytesKind v = False"
| "value_ok MessageKind v = False"
| "value_ok GroupKind v = False"

lemma scalar_round_trip:
  assumes "value_ok k v" and "k \<noteq> EnumKind" and "\<forall>s. v = VFloat s \<longrightarrow> pf s = Some s"
  shows "unmarshalScalarByStr pf k (marshalScalar v) = Some v"
  using assms
  by (cases k)
    (auto simp: unmarshalScalarByStr_def marshalScalar_def ParseInt_FormatInt ParseUint_Itoa
      split: if_splits)

lemma enum_not_read_back: "unmarshalScalarByStr pf EnumKind s = None"
  by (simp add: unmarshalScalarByStr_def)

section \<open>Records and columns\<close>

text \<open>\<open>None\<close> stands for no filter; only the top level of a dotted field name counts.\<close>

definition DirtyFilter :: "msg_desc \<Rightarrow> string list \<Rightarrow> string set option" where
  "DirtyFilter desc flds =
     (if flds = [] then None
      else Some (set (concat (map (\<lambda>fs.
        if ByName desc fs \<noteq> None then [fs]
        else if CHR ''.'' \<notin> set fs then []
        else let retKey = takeWhile (\<lambda>c. c \<noteq> CHR ''.'') fs
             in if ByName desc retKey = None then [] else [retKey]) flds))))"

record message =
  scalars :: "(string \<times> pvalue) list"
  wire :: "(nat \<times> string) list"

datatype pb_err = UnknowFieldNum nat | UnmarshalErr

text \<open>
  Chunks are values here.  In the code \<open>append\<close> extends a slice of the marshalled bytes in place; since the
  chunks of one field are next to each other, it writes there what is there already.
\<close>

fun marshal_loop ::
  "msg_desc \<Rightarrow> (string \<rightharpoonup> string) \<Rightarrow> string set option \<Rightarrow> (nat \<times> string) list
    \<Rightarrow> (string \<times> string) list \<Rightarrow> (pb_err, (string \<times> string) list) res" where
  "marshal_loop desc rawStrMap fdFilter [] wireMap = Ok wireMap"
| "marshal_loop desc rawStrMap fdFilter ((num, chunk) # ws) wireMap =
     (case ByNumber desc num of
        None \<Rightarrow> Fail (UnknowFieldNum num)
      | Some fd \<Rightarrow>
          let fdName = fd_Name fd
          in if (case fdFilter of None \<Rightarrow> False | Some F \<Rightarrow> fdName \<notin> F)
             then marshal_loop desc rawStrMap fdFilter ws wireMap
             else
               (case rawStrMap fdName of
                  Some rstr \<Rightarrow> marshal_loop desc rawStrMap fdFilter ws (AList.update fdName rstr wireMap)
                | None \<Rightarrow>
                    marshal_loop desc rawStrMap fdFilter ws (AList.update fdName
                      ((case map_of wireMap fdName of None \<Rightarrow> [] | Some cb \<Rightarrow> cb) @ chunk) wireMap)))"

definition MarshalToMap ::
  "msg_desc \<Rightarrow> message \<Rightarrow> string list \<Rightarrow> (pb_err, (string \<times> string) list) res" where
  "MarshalToMap desc msg flds =
     marshal_loop desc (map_of (map (\<lambda>(n, v). (n, marshalScalar v)) (scalars msg)))
       (DirtyFilter desc flds) (wire msg) []"

text \<open>
  \<open>UnmarshalFromMap\<close>: the scalar fields that are set, in the order of the map, and the bytes that
  are merged at the end.  A value that does not parse is set all the same (the code tests the
  wrong error variable), and setting an invalid value panics.
\<close>

fun unmarshal_loop ::
  "(string \<Rightarrow> string option) \<Rightarrow> msg_desc \<Rightarrow> (string \<times> string) list \<Rightarrow> (string \<times> pvalue) list \<Rightarrow> string
    \<Rightarrow> (pb_err, (string \<times> pvalue) list \<times> string) res" where
  "unmarshal_loop pf desc [] sets buf = Ok (sets, buf)"
| "unmarshal_loop pf desc ((k, s) # m) sets buf =
     (if take 1 k = ''_'' then unmarshal_loop pf desc m sets buf
      else case ByName desc k of
             None \<Rightarrow> unmarshal_loop pf desc m sets buf
           | Some fd \<Rightarrow>
               if IsFdMarshalToBlob fd then unmarshal_loop pf desc m sets (buf @ s)
               else (case unmarshalScalarByStr pf (fd_Kind fd) s of
                       None \<Rightarrow> Panic
                     | Some v \<Rightarrow> unmarshal_loop pf desc m (AList.update k v sets) buf))"

text \<open>
  \<open>merge msg sets buf\<close> is the message after the \<open>Set\<close> calls and the final \<open>Unmarshal\<close> with \<open>Merge\<close>
  set, together with whether that call succeeded: the caller's message has changed in either
  case, so it is returned beside the error.
\<close>

type_synonym merger = "message \<Rightarrow> (string \<times> pvalue) list \<Rightarrow> string \<Rightarrow> message \<times> bool"

definition UnmarshalFromMap ::
  "(string \<Rightarrow> string option) \<Rightarrow> merger \<Rightarrow> msg_desc \<Rightarrow> message \<Rightarrow> (string \<times> string) list
    \<Rightarrow> (pb_err, message \<times> pb_err option) res" where
  "UnmarshalFromMap pf merge desc msg bytesMap =
     res_bind (unmarshal_loop pf desc bytesMap [] []) (\<lambda>(sets, buf).
       case merge msg sets buf of (msg', ok) \<Rightarrow> Ok (msg', if ok then None else Some UnmarshalErr))"

section \<open>Splitting and joining\<close>

definition chunks :: "msg_desc \<Rightarrow> string \<Rightarrow> (nat \<times> string) list \<Rightarrow> string" where
  "chunks desc n ws =
     concat (map snd (filter (\<lambda>(num, _). map_option fd_Name (ByNumber desc num) = Some n) ws))"

definition wire_names :: "msg_desc \<Rightarrow> (nat \<times> string) list \<Rightarrow> string set" where
  "wire_names desc ws = {fd_Name fd |fd num chunk. (num, chunk) \<in> set ws \<and> ByNumber desc num = Some fd}"

lemma marshal_loop_columns:
  assumes "\<forall>(num, chunk)\<in>set ws. ByNumber desc num \<noteq> None"
  shows "\<exists>wm. marshal_loop desc raw None ws wm0 = Ok wm
    \<and> (distinct (map fst wm0) \<longrightarrow> distinct (map fst wm))
    \<and> (\<forall>n. map_of wm n = (if n \<in> wire_names desc ws
          then (case raw n of Some r \<Rightarrow> Some r
                | None \<Rightarrow> Some ((case map_of wm0 n of None \<Rightarrow> [] | Some c \<Rightarrow> c) @ chunks desc n ws))
          else map_of wm0 n))"
  using assms
proof (induction ws arbitrary: wm0)
  case Nil
  then show ?case by (simp add: wire_names_def)
next
  case (Cons w ws)
  obtain num chunk where w: "w = (num, chunk)" by (cases w)
  with Cons.prems obtain fd where fd: "ByNumber desc num = Some fd" by auto
  define new where "new = (case raw (fd_Name fd) of Some r \<Rightarrow> r
    | None \<Rightarrow> (case map_of wm0 (fd_Name fd) of None \<Rightarrow> [] | Some c \<Rightarrow> c) @ chunk)"
  have step: "marshal_loop desc raw None (w # ws) wm0
    = marshal_loop desc raw None ws (AList.update (fd_Name fd) new wm0)"
    using w fd by (simp add: new_def split: option.split)
  have names: "wire_names desc (w # ws) = insert (fd_Name fd) (wire_names desc ws)"
    using w fd by (auto simp: wire_names_def)
  have chunk: "chunks desc n (w # ws) = (if n = fd_Name fd then chunk else []) @ chunks desc n ws" for n
    using w fd by (simp add: chunks_def)
  have empty: "n \<notin> wire_names desc ws \<Longrightarrow> chunks desc n ws = []" for n
    by (force simp: wire_names_def chunks_def concat_eq_Nil_conv)
  from Cons.prems have "\<forall>(num, chunk)\<in>set ws. ByNumber desc num \<noteq> None" by simp
  from Cons.IH [OF this, of "AList.update (fd_Name fd) new wm0"] obtain wm where
    wm: "marshal_loop desc raw None ws (AList.update (fd_Name fd) new wm0) = Ok wm"
    "distinct (map fst (AList.update (fd_Name fd) new wm0)) \<longrightarrow> distinct (map fst wm)"
    "\<forall>n. map_of wm n = (if n \<in> wire_names desc ws
          then (case raw n of Some r \<Rightarrow> Some r
                | None \<Rightarrow> Some ((case map_of (AList.update (fd_Name fd) new wm0) n of None \<Rightarrow> [] | Some c \<Rightarrow> c)
                    @ chunks desc n ws))
          else map_of (AList.update (fd_Name fd) new wm0) n)"
    by blast
  show ?case
    by (rule exI [of _ wm])
      (use step wm names chunk empty in \<open>auto simp: distinct_update new_def split: option.splits\<close>)
qed

lemma unmarshal_loop_reads:
  assumes "\<forall>(k, s)\<in>set m. take 1 k \<noteq> ''_'' \<and> (\<exists>fd. ByName desc k = Some fd
      \<and> (IsFdMarshalToBlob fd \<and> val k = None
         \<or> \<not> IsFdMarshalToBlob fd \<and> val k \<noteq> None \<and> unmarshalScalarByStr pf (fd_Kind fd) s = val k))"
  shows "\<exists>sets' . unmarshal_loop pf desc m sets buf
      = Ok (sets', buf @ concat (map snd (filter (\<lambda>(k, s). val k = None) m)))
    \<and> map_of sets' = (\<lambda>k. if k \<in> fst ` set m \<and> val k \<noteq> None then val k else map_of sets k)"
  using assms
proof (induction m arbitrary: sets buf)
  case (Cons ks m)
  obtain k s where ks: "ks = (k, s)" by (cases ks)
  from Cons.prems ks obtain fd where fd: "take 1 k \<noteq> ''_''" "ByName desc k = Some fd"
    "IsFdMarshalToBlob fd \<and> val k = None
       \<or> \<not> IsFdMarshalToBlob fd \<and> val k \<noteq> None \<and> unmarshalScalarByStr pf (fd_Kind fd) s = val k"
    by auto
  from Cons.prems have "\<forall>(k, s)\<in>set m. take 1 k \<noteq> ''_'' \<and> (\<exists>fd. ByName desc k = Some fd
      \<and> (IsFdMarshalToBlob fd \<and> val k = None
         \<or> \<not> IsFdMarshalToBlob fd \<and> val k \<noteq> None \<and> unmarshalScalarByStr pf (fd_Kind fd) s = val k))"
    by simp
  note IH = Cons.IH [OF this]
  show ?case
  proof (cases "val k")
    case None
    with fd have "unmarshal_loop pf desc (ks # m) sets buf = unmarshal_loop pf desc m sets (buf @ s)"
      by (simp add: ks)
    with IH [of sets "buf @ s"] None ks show ?thesis by (auto simp: fun_eq_iff)
  next
    case (Some v)
    with fd have "unmarshal_loop pf desc (ks # m) sets buf
      = unmarshal_loop pf desc m (AList.update k v sets) buf"
      by (simp add: ks)
    with IH [of "AList.update k v sets" buf] Some ks show ?thesis by (auto simp: fun_eq_iff)
  qed
qed (simp add: fun_eq_iff)

text \<open>
  A record as the plugins store it: known fields on the wire, every scalar present on the wire
  with a value of its kind, no enum, and no field name with the prefix that \<open>UnmarshalFromMap\<close>
  skips.  \<open>pf\<close> reads a floating point value back as it was printed.
\<close>

definition scalar_ok :: "(string \<Rightarrow> string option) \<Rightarrow> msg_desc \<Rightarrow> string \<times> pvalue \<Rightarrow> bool" where
  "scalar_ok pf desc nv =
     (case ByName desc (fst nv) of
        None \<Rightarrow> False
      | Some fd \<Rightarrow> \<not> IsFdMarshalToBlob fd \<and> fd_Kind fd \<noteq> EnumKind \<and> value_ok (fd_Kind fd) (snd nv)
          \<and> (case snd nv of VFloat s \<Rightarrow> pf s = Some s | _ \<Rightarrow> True))"

definition wire_ok :: "msg_desc \<Rightarrow> message \<Rightarrow> nat \<times> string \<Rightarrow> bool" where
  "wire_ok desc msg w =
     (case ByNumber desc (fst w) of
        None \<Rightarrow> False
      | Some fd \<Rightarrow> ByName desc (fd_Name fd) = Some fd \<and> take 1 (fd_Name fd) \<noteq> ''_''
          \<and> (IsFdMarshalToBlob fd \<longleftrightarrow> fd_Name fd \<notin> fst ` set (scalars msg)))"

definition record_ok :: "(string \<Rightarrow> string option) \<Rightarrow> msg_desc \<Rightarrow> message \<Rightarrow> bool" where
  "record_ok pf desc msg =
     (list_all (wire_ok desc msg) (wire msg) \<and> list_all (scalar_ok pf desc) (scalars msg)
      \<and> distinct (map fst (scalars msg))
      \<and> list_all (\<lambda>(n, v). list_ex (\<lambda>(num, chunk). map_option fd_Name (ByNumber desc num) = Some n) (wire msg))
          (scalars msg))"

lemma wire_names_iff:
  "n \<in> wire_names desc ws \<longleftrightarrow> list_ex (\<lambda>(num, chunk). map_option fd_Name (ByNumber desc num) = Some n) ws"
  by (force simp: wire_names_def list_ex_iff)

lemma record_ok_scalar_name:
  assumes "record_ok pf desc msg" and "map_of (scalars msg) n = Some v"
  shows "n \<in> wire_names desc (wire msg)" and "scalar_ok pf desc (n, v)"
  using assms map_of_SomeD [OF assms(2)]
  by (auto simp: record_ok_def list_all_iff wire_names_iff)

lemma record_ok_wire_name:
  assumes "record_ok pf desc msg" and "n \<in> wire_names desc (wire msg)"
  shows "take 1 n \<noteq> ''_'' \<and> (\<exists>fd. ByName desc n = Some fd
    \<and> (IsFdMarshalToBlob fd \<longleftrightarrow> map_of (scalars msg) n = None))"
  using assms
  by (force simp: record_ok_def list_all_iff wire_ok_def wire_names_def map_of_eq_None_iff)

lemma record_ok_scalar_reads:
  assumes "record_ok pf desc msg" and "map_of (scalars msg) n = Some v" and "ByName desc n = Some fd"
  shows "unmarshalScalarByStr pf (fd_Kind fd) (marshalScalar v) = Some v"
  using record_ok_scalar_name(2) [OF assms(1,2)] assms(3)
  by (intro scalar_round_trip) (auto simp: scalar_ok_def)

lemma marshal_record_columns:
  assumes "record_ok pf desc msg"
  obtains m where "MarshalToMap desc msg [] = Ok m" and "distinct (map fst m)"
    and "\<And>n. map_of m n = (if n \<in> wire_names desc (wire msg)
      then (case map_of (scalars msg) n of Some v \<Rightarrow> Some (marshalScalar v)
            | None \<Rightarrow> Some (chunks desc n (wire msg))) else None)"
proof -
  from assms have "\<forall>(num, chunk)\<in>set (wire msg). ByNumber desc num \<noteq> None"
    by (auto simp: record_ok_def list_all_iff wire_ok_def split: option.splits)
  from marshal_loop_columns [OF this, of "map_of (map (\<lambda>(n, v). (n, marshalScalar v)) (scalars msg))" "[]"]
  obtain wm where "MarshalToMap desc msg [] = Ok wm" "distinct (map fst wm)"
    and wm: "\<And>n. map_of wm n = (if n \<in> wire_names desc (wire msg)
      then (case map_option marshalScalar (map_of (scalars msg) n) of Some r \<Rightarrow> Some r
            | None \<Rightarrow> Some (chunks desc n (wire msg))) else None)"
    by (auto simp: MarshalToMap_def DirtyFilter_def map_of_map cong: if_cong option.case_cong)
  then show ?thesis
    by (intro that) (auto split: option.splits)
qed

lemma record_read_back:
  assumes "record_ok pf desc msg"
  shows "\<exists>m. MarshalToMap desc msg [] = Ok m \<and> distinct (map fst m)
    \<and> (\<forall>m'. set m' = set m \<and> distinct (map fst m') \<longrightarrow>
        (\<exists>sets blobs. map_of sets = map_of (scalars msg)
          \<and> distinct blobs \<and> set blobs = wire_names desc (wire msg) - fst ` set (scalars msg)
          \<and> UnmarshalFromMap pf merge desc old m'
            = (case merge old sets (concat (map (\<lambda>n. chunks desc n (wire msg)) blobs)) of
                 (r, ok) \<Rightarrow> Ok (r, if ok then None else Some UnmarshalErr))))"
proof -
  obtain m where m: "MarshalToMap desc msg [] = Ok m" "distinct (map fst m)"
    "\<And>n. map_of m n = (if n \<in> wire_names desc (wire msg)
      then (case map_of (scalars msg) n of Some v \<Rightarrow> Some (marshalScalar v)
            | None \<Rightarrow> Some (chunks desc n (wire msg))) else None)"
    using marshal_record_columns [OF assms] by blast
  have "\<exists>sets blobs. map_of sets = map_of (scalars msg)
          \<and> distinct blobs \<and> set blobs = wire_names desc (wire msg) - fst ` set (scalars msg)
          \<and> UnmarshalFromMap pf merge desc old m'
            = (case merge old sets (concat (map (\<lambda>n. chunks desc n (wire msg)) blobs)) of
                 (r, ok) \<Rightarrow> Ok (r, if ok then None else Some UnmarshalErr))"
    if m': "set m' = set m" "distinct (map fst m')" for m'
  proof -
    let ?val = "map_of (scalars msg)"
    let ?cols = "filter (\<lambda>(k, s). ?val k = None) m'"
    have col: "k \<in> wire_names desc (wire msg)
        \<and> s = (case ?val k of Some v \<Rightarrow> marshalScalar v | None \<Rightarrow> chunks desc k (wire msg))"
      if "(k, s) \<in> set m'" for k s
      using that m' m(2) m(3) [of k] by (auto split: if_splits option.splits)
    have reads: "\<forall>(k, s)\<in>set m'. take 1 k \<noteq> ''_'' \<and> (\<exists>fd. ByName desc k = Some fd
      \<and> (IsFdMarshalToBlob fd \<and> ?val k = None
         \<or> \<not> IsFdMarshalToBlob fd \<and> ?val k \<noteq> None \<and> unmarshalScalarByStr pf (fd_Kind fd) s = ?val k))"
      using col record_ok_wire_name [OF assms] record_ok_scalar_reads [OF assms]
      by (fastforce split: option.splits)
    have keys: "fst ` set m' = wire_names desc (wire msg)"
      using m' m(3) by (auto simp: dom_map_of_conv_image_fst [symmetric] dom_def split: option.splits)
    from unmarshal_loop_reads [OF reads, of "[]" "[]"] obtain sets where sets:
      "unmarshal_loop pf desc m' [] [] = Ok (sets, concat (map snd ?cols))"
      "map_of sets = (\<lambda>k. if k \<in> fst ` set m' \<and> ?val k \<noteq> None then ?val k else None)"
      by (auto cong: if_cong)
    have "map_of sets = ?val"
    proof
      fix k
      show "map_of sets k = ?val k"
        using sets(2) keys record_ok_scalar_name(1) [OF assms, of k] by (cases "?val k") auto
    qed
    moreover have blobs: "map snd ?cols = map (\<lambda>n. chunks desc n (wire msg)) (map fst ?cols)"
      by (auto simp: comp_def dest: col)
    moreover have "set (map fst ?cols) = wire_names desc (wire msg) - fst ` set (scalars msg)"
    proof -
      have "set (map fst ?cols) = {k \<in> fst ` set m'. ?val k = None}" by force
      with keys show ?thesis by (simp add: map_of_eq_None_iff set_diff_eq)
    qed
    moreover have "distinct (map fst ?cols)"
      using m'(2) by (simp add: distinct_map_filter)
    ultimately show ?thesis
      using sets(1)
      by (intro exI [of _ sets] exI [of _ "map fst ?cols"] conjI)
        (simp_all only: UnmarshalFromMap_def res_bind.simps prod.case blobs)
  qed
  with m show ?thesis by blast
qed

text \<open>
  C25.  A record survives the database.  For a record of known fields with well-typed scalars
  (no enums), \<open>MarshalToMap\<close> returns a map of columns, and whatever the order in which the
  database and Go's map iteration give those columns back, \<open>UnmarshalFromMap\<close> does not panic: it
  sets exactly the scalar fields of the record to their values and merges, each once, the wire
  bytes of exactly the fields stored as blobs.
\<close>

theorem db_record_round_trip:
  assumes "record_ok pf desc msg"
  shows "\<exists>m. MarshalToMap desc msg [] = Ok m \<and> distinct (map fst m)
    \<and> (\<forall>m'. set m' = set m \<and> distinct (map fst m') \<longrightarrow>
        (\<exists>sets blobs. map_of sets = map_of (scalars msg)
          \<and> distinct blobs \<and> set blobs = wire_names desc (wire msg) - fst ` set (scalars msg)
          \<and> UnmarshalFromMap pf merge desc old m'
            = (case merge old sets (concat (map (\<lambda>n. chunks desc n (wire msg)) blobs)) of
                 (r, ok) \<Rightarrow> Ok (r, if ok then None else Some UnmarshalErr))))"
  using assms by (rule record_read_back)

definition player_desc :: msg_desc where
  "player_desc = \<lparr>d_Name = ''Player'', d_FullName = ''db.Player'',
     d_Fields = [\<lparr>fd_Name = ''uid'', fd_Number = 1, fd_Kind = Uint64Kind, fd_Repeated = False\<rparr>,
       \<lparr>fd_Name = ''name'', fd_Number = 2, fd_Kind = StringKind, fd_Repeated = False\<rparr>,
       \<lparr>fd_Name = ''bag'', fd_Number = 3, fd_Kind = MessageKind, fd_Repeated = True\<rparr>],
     d_PrimaryKey = ''uid''\<rparr>"

definition player :: message where
  "player = \<lparr>scalars = [(''uid'', VUint 7), (''name'', VString ''bo'')],
     wire = [(1, ''uu''), (2, ''nn''), (3, ''x''), (3, ''y'')]\<rparr>"

theorem db_record_round_trip_witness:
  "record_ok Some player_desc player
    \<and> (\<exists>m. MarshalToMap player_desc player [] = Ok m \<and> distinct (map fst m)
    \<and> (\<forall>m'. set m' = set m \<and> distinct (map fst m') \<longrightarrow>
        (\<exists>sets blobs. map_of sets = map_of (scalars player)
          \<and> distinct blobs \<and> set blobs = wire_names player_desc (wire player) - fst ` set (scalars player)
          \<and> UnmarshalFromMap Some (\<lambda>old sets b. (\<lparr>scalars = sets, wire = [(0, b)]\<rparr>, True)) player_desc player m'
            = (case (\<lparr>scalars = sets, wire = [(0, concat (map (\<lambda>n. chunks player_desc n (wire player)) blobs))]\<rparr>, True) of
                 (r, ok) \<Rightarrow> Ok (r, if ok then None else Some UnmarshalErr)))))"
proof -
  have "record_ok Some player_desc player"
    by (simp add: record_ok_def wire_ok_def scalar_ok_def player_desc_def player_def ByName_def
        ByNumber_def IsFdMarshalToBlob_def BlobKind_def)
  with db_record_round_trip [OF this, of "\<lambda>old sets b. (\<lparr>scalars = sets, wire = [(0, b)]\<rparr>, True)" player] show ?thesis by blast
qed

lemma marshal_loop_never_panics [simp]: "marshal_loop desc raw F ws wm \<noteq> Panic"
  by (induction ws arbitrary: wm) (auto simp: Let_def split: option.splits if_splits)

lemma marshal_loop_Ok_nonempty:
  "marshal_loop desc raw None ws wm0 = Ok wm \<Longrightarrow> wm = [] \<longleftrightarrow> ws = [] \<and> wm0 = []"
proof (induction ws arbitrary: wm0)
  case (Cons w ws)
  have "AList.update k v al \<noteq> []" for k v and al :: "(string \<times> string) list"
    by (cases al) auto
  with Cons.prems show ?case
    by (cases w) (auto simp: Let_def split: option.splits dest!: Cons.IH)
qed simp

lemma MarshalToMap_outcome:
  "MarshalToMap desc msg flds \<noteq> Panic"
  "MarshalToMap desc msg [] = Ok m \<Longrightarrow> m = [] \<longleftrightarrow> wire msg = []"
  by (auto simp: MarshalToMap_def DirtyFilter_def marshal_loop_Ok_nonempty)

section \<open>Key values\<close>

text \<open>
  \<open>rf.Get(fd).String()\<close>, with which the plugins print the primary key: the populated value or the
  default of the kind, printed by the library (booleans as words, unlike \<open>marshalScalar\<close>).  The
  text of a message, list or byte string is the library's, the argument \<open>blobStr\<close>.  A key name
  that is no field has a nil descriptor, on which \<open>Get\<close> panics.
\<close>

definition Value_String :: "pvalue \<Rightarrow> string" where
  "Value_String v = (case v of VBool b \<Rightarrow> if b then ''true'' else ''false'' | _ \<Rightarrow> marshalScalar v)"

definition default_String :: "kind \<Rightarrow> string" where
  "default_String k = (case k of BoolKind \<Rightarrow> ''false'' | StringKind \<Rightarrow> [] | _ \<Rightarrow> ''0'')"

definition Get_String :: "(field \<Rightarrow> string) \<Rightarrow> message \<Rightarrow> field \<Rightarrow> string" where
  "Get_String blobStr msg fd =
     (if IsFdMarshalToBlob fd then blobStr fd
      else case map_of (scalars msg) (fd_Name fd) of
             None \<Rightarrow> default_String (fd_Kind fd)
           | Some v \<Rightarrow> Value_String v)"

fun key_values :: "(field \<Rightarrow> string) \<Rightarrow> message \<Rightarrow> field option list \<Rightarrow> ('e, string list) res" where
  "key_values blobStr msg [] = Ok []"
| "key_values blobStr msg (None # fds) = Panic"
| "key_values blobStr msg (Some fd # fds) =
     res_bind (key_values blobStr msg fds) (\<lambda>ps. Ok (Get_String blobStr msg fd # ps))"

lemma key_values_Ok_iff:
  "key_values blobStr msg fds = Ok ps \<longleftrightarrow>
     None \<notin> set fds \<and> ps = map (\<lambda>fd. Get_String blobStr msg (the fd)) fds"
  by (induction blobStr msg fds arbitrary: ps rule: key_values.induct) (auto simp: res_bind_Ok_iff)

lemma key_values_not_Fail [simp]: "key_values blobStr msg fds \<noteq> Fail e"
  by (induction blobStr msg fds arbitrary: e rule: key_values.induct)
    (auto split: res.splits, metis res_bind.simps res.distinct res.exhaust)

lemma length_FindFds [simp]: "length (FindFds desc ks) = length ks"
  by (simp add: FindFds_def)

section \<open>Columns that do not parse\<close>

definition column_ok :: "(string \<Rightarrow> string option) \<Rightarrow> msg_desc \<Rightarrow> string \<times> string \<Rightarrow> bool" where
  "column_ok pf desc ks =
     (take 1 (fst ks) = ''_'' \<or>
       (case ByName desc (fst ks) of
          None \<Rightarrow> True
        | Some fd \<Rightarrow> IsFdMarshalToBlob fd \<or> unmarshalScalarByStr pf (fd_Kind fd) (snd ks) \<noteq> None))"

lemma unmarshal_loop_outcome:
  "unmarshal_loop pf desc m sets buf = Panic \<longleftrightarrow> \<not> list_all (column_ok pf desc) m"
  "unmarshal_loop pf desc m sets buf \<noteq> Fail e"
  by (induction m arbitrary: sets buf)
    (auto simp: column_ok_def split: option.splits if_splits)

text \<open>
  Reading a row never reports a column that does not parse: \<open>UnmarshalFromMap\<close> panics exactly
  when some column of a known scalar field, not hidden by the underscore prefix, has a text its
  kind does not accept -- every enum column is one -- and otherwise returns, with no other error
  than that of the final merge.
\<close>

theorem unmarshal_panics_iff:
  "(UnmarshalFromMap pf merge desc msg m = Panic \<longleftrightarrow>
     (\<exists>k s fd. (k, s) \<in> set m \<and> take 1 k \<noteq> ''_'' \<and> ByName desc k = Some fd \<and> \<not> IsFdMarshalToBlob fd
        \<and> (fd_Kind fd = EnumKind \<or> unmarshalScalarByStr pf (fd_Kind fd) s = None)))
   \<and> (UnmarshalFromMap pf merge desc msg m \<noteq> Panic \<longrightarrow>
     (\<exists>msg' err. UnmarshalFromMap pf merge desc msg m = Ok (msg', err) \<and> err \<in> {None, Some UnmarshalErr}))"
proof -
  have "UnmarshalFromMap pf merge desc msg m = Panic \<longleftrightarrow> \<not> list_all (column_ok pf desc) m"
    using unmarshal_loop_outcome [of pf desc m "[]" "[]"]
    by (cases "unmarshal_loop pf desc m [] []") (auto simp: UnmarshalFromMap_def split: prod.splits)
  also have "\<dots> \<longleftrightarrow>
     (\<exists>k s fd. (k, s) \<in> set m \<and> take 1 k \<noteq> ''_'' \<and> ByName desc k = Some fd \<and> \<not> IsFdMarshalToBlob fd
        \<and> (fd_Kind fd = EnumKind \<or> unmarshalScalarByStr pf (fd_Kind fd) s = None))"
    by (fastforce simp: list_all_iff column_ok_def enum_not_read_back split: option.splits)
  finally show ?thesis
    using unmarshal_loop_outcome(2) [of pf desc m "[]" "[]"]
    by (cases "unmarshal_loop pf desc m [] []") (auto simp: UnmarshalFromMap_def split: prod.splits)
qed

theorem unmarshal_panics_iff_witness:
  "UnmarshalFromMap Some (\<lambda>old sets b. (old, True)) player_desc player [(''uid'', ''seven'')] = Panic
    \<and> (\<exists>msg' err. UnmarshalFromMap Some (\<lambda>old sets b. (old, True)) player_desc player [(''uid'', ''7'')]
          = Ok (msg', err) \<and> err \<in> {None, Some UnmarshalErr})"
proof -
  note iff = conjunct1 [OF unmarshal_panics_iff]
  have "UnmarshalFromMap Some (\<lambda>old sets b. (old, True)) player_desc player [(''uid'', ''seven'')] = Panic"
    unfolding iff
    by (simp add: player_desc_def ByName_def IsFdMarshalToBlob_def BlobKind_def
        unmarshalScalarByStr_def ParseUint_def digit_value_def)
  moreover have "UnmarshalFromMap Some (\<lambda>old sets b. (old, True)) player_desc player [(''uid'', ''7'')] \<noteq> Panic"
    unfolding iff
    by (simp add: player_desc_def ByName_def IsFdMarshalToBlob_def BlobKind_def
        unmarshalScalarByStr_def ParseUint_def digit_value_def)
  ultimately show ?thesis using unmarshal_panics_iff by blast
qed

end
