(* ===== verification/Protolog.thy ===== *)
theory Protolog
  imports Pbsupport
begin

text \<open>
  The text encoder for messages in log lines, \<^verbatim>\<open>src/plugin/log/protolog/encode.go\<close>.  A message is
  the list of its populated fields in the order of \<open>Range\<close>, each with its descriptor; the fields
  that a \<open>oneof\<close> may have are populated one at a time, so that \<open>WhichOneof\<close> gives the field of the
  iteration.  The string builder is passed along.  The slices of path elements share memory in
  the code, but each is used up before the next \<open>append\<close> writes to it; they are lists here.
  \<open>FormatFloat(x, 'f', 10, 64)\<close> is the argument \<open>ff\<close>, on the bits of \<open>x\<close>.
\<close>

section \<open>Model\<close>

datatype cardinality = Singular | Repeated | MapOf kind kind

record log_fd =
  l_Name :: string
  l_Kind :: kind
  l_Card :: cardinality

datatype log_value =
    LBool bool | LString string | LInt int | LUint nat | LFloat u64 | LBytes string | LEnum int
  | LMessage "(log_fd \<times> log_value) list"
  | LList "log_value list"
  | LMap "(log_value \<times> log_value) list"

definition fdNameToStr :: "log_fd \<Rightarrow> string" where
  "fdNameToStr fd =
     (if l_Name fd = ''MsgID'' then ''msg''
      else if l_Name fd = ''Uid'' \<or> l_Name fd = ''UID'' then ''uid''
      else l_Name fd)"

text \<open>The descriptors of the keys and the values of a map field.\<close>

definition MapKey :: "kind \<Rightarrow> log_fd" where
  "MapKey k = \<lparr>l_Name = ''key'', l_Kind = k, l_Card = Singular\<rparr>"

definition MapValue :: "kind \<Rightarrow> log_fd" where
  "MapValue k = \<lparr>l_Name = ''value'', l_Kind = k, l_Card = Singular\<rparr>"

text \<open>
  Reflection hands out values of the type of their field, so that the branches \<open>Panic\<close>, where an
  accessor meets another type, are not taken (only \<open>String\<close> would print such a value); groups have
  a kind that is not in the switch, next to messages, which do not get here.
\<close>

definition valueToString :: "(u64 \<Rightarrow> string) \<Rightarrow> log_value \<Rightarrow> log_fd \<Rightarrow> (unit, string) res" where
  "valueToString ff val fd =
     (case l_Kind fd of
        BoolKind \<Rightarrow> (case val of LBool b \<Rightarrow> Ok (if b then ''true'' else ''false'') | _ \<Rightarrow> Panic)
      | StringKind \<Rightarrow> (case val of LString s \<Rightarrow> Ok s | _ \<Rightarrow> Panic)
      | Int32Kind \<Rightarrow> (case val of LInt i \<Rightarrow> Ok (FormatInt i) | _ \<Rightarrow> Panic)
      | Int64Kind \<Rightarrow> (case val of LInt i \<Rightarrow> Ok (FormatInt i) | _ \<Rightarrow> Panic)
      | Sint32Kind \<Rightarrow> (case val of LInt i \<Rightarrow> Ok (FormatInt i) | _ \<Rightarrow> Panic)
      | Sint64Kind \<Rightarrow> (case val of LInt i \<Rightarrow> Ok (FormatInt i) | _ \<Rightarrow> Panic)
      | Sfixed32Kind \<Rightarrow> (case val of LInt i \<Rightarrow> Ok (FormatInt i) | _ \<Rightarrow> Panic)
      | Sfixed64Kind \<Rightarrow> (case val of LInt i \<Rightarrow> Ok (FormatInt i) | _ \<Rightarrow> Panic)
      | Uint64Kind \<Rightarrow> (case val of LUint n \<Rightarrow> Ok (Itoa n) | _ \<Rightarrow> Panic)
      | Uint32Kind \<Rightarrow> (case val of LUint n \<Rightarrow> Ok (Itoa n) | _ \<Rightarrow> Panic)
      | Fixed32Kind \<Rightarrow> (case val of LUint n \<Rightarrow> Ok (Itoa n) | _ \<Rightarrow> Panic)
      | Fixed64Kind \<Rightarrow> (case val of LUint n \<Rightarrow> Ok (Itoa n) | _ \<Rightarrow> Panic)
      | FloatKind \<Rightarrow> (case val of LFloat x \<Rightarrow> Ok (ff x) | _ \<Rightarrow> Panic)
      | DoubleKind \<Rightarrow> (case val of LFloat x \<Rightarrow> Ok (ff x) | _ \<Rightarrow> Panic)
      | BytesKind \<Rightarrow> (case val of LBytes s \<Rightarrow> Ok s | _ \<Rightarrow> Panic)
      | EnumKind \<Rightarrow> (case val of LEnum i \<Rightarrow> Ok (FormatInt i) | _ \<Rightarrow> Panic)
      | MessageKind \<Rightarrow> Fail ()
      | GroupKind \<Rightarrow> Fail ())"

text \<open>What every part of the encoder returns: its error, and the builder's content.\<close>

type_synonym log_out = "(unit, unit) res \<times> string"

definition write_sep :: "nat \<Rightarrow> string \<Rightarrow> string" where
  "write_sep i sb = (if i > 0 then sb @ '' '' else sb)"

text \<open>The path elements of a list or map entry, with dots between them only.\<close>

fun write_path :: "string list \<Rightarrow> string \<Rightarrow> string" where
  "write_path [] sb = sb"
| "write_path [p] sb = sb @ p"
| "write_path (p # ps) sb = write_path ps (sb @ p @ ''.'')"

text \<open>The path elements of a field, each followed by a dot.\<close>

fun write_prefix :: "string list \<Rightarrow> string \<Rightarrow> string" where
  "write_prefix [] sb = sb"
| "write_prefix (p # ps) sb = write_prefix ps (sb @ p @ ''.'')"

definition write_entry :: "(u64 \<Rightarrow> string) \<Rightarrow> log_value \<Rightarrow> log_fd \<Rightarrow> string list \<Rightarrow> string \<Rightarrow> log_out" where
  "write_entry ff val fd path sb =
     (case valueToString ff val fd of
        Ok retStr \<Rightarrow> (Ok (), write_path path sb @ ''='' @ retStr)
      | Fail err \<Rightarrow> (Fail err, sb)
      | Panic \<Rightarrow> (Panic, sb))"

definition write_field :: "(u64 \<Rightarrow> string) \<Rightarrow> log_value \<Rightarrow> log_fd \<Rightarrow> string list \<Rightarrow> string \<Rightarrow> log_out" where
  "write_field ff val fd path sb =
     (case valueToString ff val fd of
        Ok retStr \<Rightarrow> (Ok (), write_prefix path sb @ fdNameToStr fd @ ''='' @ retStr)
      | Fail err \<Rightarrow> (Fail err, sb)
      | Panic \<Rightarrow> (Panic, sb))"

function (sequential) marshalMessage :: "(u64 \<Rightarrow> string) \<Rightarrow> log_value \<Rightarrow> string list \<Rightarrow> string \<Rightarrow> log_out"
  and marshal_range ::
    "(u64 \<Rightarrow> string) \<Rightarrow> nat \<Rightarrow> (log_fd \<times> log_value) list \<Rightarrow> string list \<Rightarrow> string \<Rightarrow> log_out"
  and marshalField :: "(u64 \<Rightarrow> string) \<Rightarrow> log_value \<Rightarrow> log_fd \<Rightarrow> string list \<Rightarrow> string \<Rightarrow> log_out"
  and marshalList ::
    "(u64 \<Rightarrow> string) \<Rightarrow> nat \<Rightarrow> log_value list \<Rightarrow> log_fd \<Rightarrow> string list \<Rightarrow> string \<Rightarrow> log_out"
  and marshalMap ::
    "(u64 \<Rightarrow> string) \<Rightarrow> nat \<Rightarrow> (log_value \<times> log_value) list \<Rightarrow> kind \<Rightarrow> kind \<Rightarrow> string list \<Rightarrow> string \<Rightarrow> log_out"
  and marshalListOrMapSingular ::
    "(u64 \<Rightarrow> string) \<Rightarrow> log_value \<Rightarrow> log_fd \<Rightarrow> string list \<Rightarrow> string \<Rightarrow> log_out"
  and marshalSingular :: "(u64 \<Rightarrow> string) \<Rightarrow> log_value \<Rightarrow> log_fd \<Rightarrow> string list \<Rightarrow> string \<Rightarrow> log_out"
where
  "marshalMessage ff (LMessage fs) path sb = marshal_range ff 0 fs path sb"
| "marshalMessage ff _ path sb = (Panic, sb)"
| "marshal_range ff i [] path sb = (Ok (), sb)"
| "marshal_range ff i ((fd, v) # fs) path sb =
     (case marshalField ff v fd path (write_sep i sb) of
        (Ok _, sb) \<Rightarrow> marshal_range ff (Suc i) fs path sb
      | (Fail _, sb) \<Rightarrow> (Ok (), sb)
      | (Panic, sb) \<Rightarrow> (Panic, sb))"
| "marshalField ff val fd path sb =
     (case l_Card fd of
        Repeated \<Rightarrow>
          (case val of LList vs \<Rightarrow> marshalList ff 0 vs fd (path @ [fdNameToStr fd]) sb | _ \<Rightarrow> (Panic, sb))
      | MapOf k v \<Rightarrow>
          (case val of LMap m \<Rightarrow> marshalMap ff 0 m k v (path @ [fdNameToStr fd]) sb | _ \<Rightarrow> (Panic, sb))
      | Singular \<Rightarrow> marshalSingular ff val fd path sb)"
| "marshalList ff i [] fd path sb = (Ok (), sb)"
| "marshalList ff i (v # vs) fd path sb =
     (case marshalListOrMapSingular ff v fd (path @ [Itoa i]) (write_sep i sb) of
        (Ok _, sb) \<Rightarrow> marshalList ff (Suc i) vs fd path sb
      | r \<Rightarrow> r)"
| "marshalMap ff i [] kk vk path sb = (Ok (), sb)"
| "marshalMap ff i ((mk, v) # m) kk vk path sb =
     (case valueToString ff mk (MapKey kk) of
        Ok keyStr \<Rightarrow>
          (case marshalListOrMapSingular ff v (MapValue vk) (path @ [keyStr]) (write_sep i sb) of
             (Ok _, sb) \<Rightarrow> marshalMap ff (Suc i) m kk vk path sb
           | r \<Rightarrow> r)
      | Fail err \<Rightarrow> (Fail err, write_sep i sb)
      | Panic \<Rightarrow> (Panic, write_sep i sb))"
| "marshalListOrMapSingular ff val fd path sb =
     (if l_Kind fd = MessageKind then marshalMessage ff val (path @ [fdNameToStr fd]) sb
      else write_entry ff val fd path sb)"
| "marshalSingular ff val fd path sb =
     (if l_Kind fd = MessageKind then marshalMessage ff val (path @ [fdNameToStr fd]) sb
      else write_field ff val fd path sb)"
  by pat_completeness auto
termination
  by (size_change)

definition Marshal :: "(u64 \<Rightarrow> string) \<Rightarrow> log_value \<Rightarrow> (unit, string) res" where
  "Marshal ff m =
     (case marshalMessage ff m [] ''message '' of
        (Ok _, ret) \<Rightarrow> Ok ret
      | (Fail err, _) \<Rightarrow> Fail err
      | (Panic, _) \<Rightarrow> Panic)"

text \<open>A nil message, or an invalid one, is \<open>None\<close>.\<close>

definition Format :: "(u64 \<Rightarrow> string) \<Rightarrow> log_value option \<Rightarrow> (unit, string) res" where
  "Format ff m =
     (case m of
        None \<Rightarrow> Ok ''nil''
      | Some m \<Rightarrow>
          (case Marshal ff m of
             Ok b \<Rightarrow> Ok b
           | Fail _ \<Rightarrow> Ok []
           | Panic \<Rightarrow> Panic))"

section \<open>Typed messages and their leaves\<close>

text \<open>
  The messages that protobuf's reflection can hold: every value fits its field.  A loggable
  message also has no group and no empty message, list or map in it (an empty list or map is
  never populated).
\<close>

fun scalar_fits :: "kind \<Rightarrow> log_value \<Rightarrow> bool" where
  "scalar_fits k (LBool b) = (k = BoolKind)"
| "scalar_fits k (LString s) = (k = StringKind)"
| "scalar_fits k (LInt i) = (k \<in> {Int32Kind, Int64Kind, Sint32Kind, Sint64Kind, Sfixed32Kind, Sfixed64Kind})"
| "scalar_fits k (LUint n) = (k \<in> {Uint64Kind, Uint32Kind, Fixed32Kind, Fixed64Kind})"
| "scalar_fits k (LFloat x) = (k \<in> {FloatKind, DoubleKind})"
| "scalar_fits k (LBytes s) = (k = BytesKind)"
| "scalar_fits k (LEnum i) = (k = EnumKind)"
| "scalar_fits k _ = False"

fun typed_single :: "bool \<Rightarrow> kind \<Rightarrow> log_value \<Rightarrow> bool"
  and typed_fields :: "bool \<Rightarrow> (log_fd \<times> log_value) list \<Rightarrow> bool"
  and typed_list :: "bool \<Rightarrow> kind \<Rightarrow> log_value list \<Rightarrow> bool"
  and typed_map :: "bool \<Rightarrow> kind \<Rightarrow> kind \<Rightarrow> (log_value \<times> log_value) list \<Rightarrow> bool"
where
  "typed_single strict k (LMessage fs) =
     (if k = MessageKind then typed_fields strict fs \<and> (strict \<longrightarrow> fs \<noteq> []) else k = GroupKind \<and> \<not> strict)"
| "typed_single strict k v = scalar_fits k v"
| "typed_fields strict [] = True"
| "typed_fields strict ((fd, v) # fs) =
     ((case l_Card fd of
         Singular \<Rightarrow> typed_single strict (l_Kind fd) v
       | Repeated \<Rightarrow> (case v of LList vs \<Rightarrow> typed_list strict (l_Kind fd) vs \<and> (strict \<longrightarrow> vs \<noteq> []) | _ \<Rightarrow> False)
       | MapOf kk vk \<Rightarrow> (case v of LMap m \<Rightarrow> typed_map strict kk vk m \<and> (strict \<longrightarrow> m \<noteq> []) | _ \<Rightarrow> False))
      \<and> typed_fields strict fs)"
| "typed_list strict k [] = True"
| "typed_list strict k (v # vs) = (typed_single strict k v \<and> typed_list strict k vs)"
| "typed_map strict kk vk [] = True"
| "typed_map strict kk vk ((mk, v) # m) =
     (scalar_fits kk mk \<and> typed_single strict vk v \<and> typed_map strict kk vk m)"

abbreviation typed_message :: "log_value \<Rightarrow> bool" where
  "typed_message \<equiv> typed_single False MessageKind"

abbreviation loggable :: "log_value \<Rightarrow> bool" where
  "loggable \<equiv> typed_single True MessageKind"

lemma valueToString_fits:
  "scalar_fits k v \<Longrightarrow> l_Kind fd = k \<Longrightarrow> \<exists>s. valueToString ff v fd = Ok s"
  by (cases v) (auto simp: valueToString_def)

text \<open>The scalar values in a message, each with the path to it.\<close>

definition value_text :: "(u64 \<Rightarrow> string) \<Rightarrow> log_value \<Rightarrow> log_fd \<Rightarrow> string" where
  "value_text ff v fd = (case valueToString ff v fd of Ok s \<Rightarrow> s | _ \<Rightarrow> [])"

fun leaves_message :: "(u64 \<Rightarrow> string) \<Rightarrow> log_value \<Rightarrow> string list \<Rightarrow> (string list \<times> string) list"
  and leaves_fields ::
    "(u64 \<Rightarrow> string) \<Rightarrow> (log_fd \<times> log_value) list \<Rightarrow> string list \<Rightarrow> (string list \<times> string) list"
  and leaves_list ::
    "(u64 \<Rightarrow> string) \<Rightarrow> nat \<Rightarrow> log_value list \<Rightarrow> log_fd \<Rightarrow> string list \<Rightarrow> (string list \<times> string) list"
  and leaves_map ::
    "(u64 \<Rightarrow> string) \<Rightarrow> (log_value \<times> log_value) list \<Rightarrow> kind \<Rightarrow> kind \<Rightarrow> string list \<Rightarrow> (string list \<times> string) list"
where
  "leaves_message ff (LMessage fs) path = leaves_fields ff fs path"
| "leaves_message ff _ path = []"
| "leaves_fields ff [] path = []"
| "leaves_fields ff ((fd, v) # fs) path =
     (case l_Card fd of
        Singular \<Rightarrow>
          if l_Kind fd = MessageKind then leaves_message ff v (path @ [fdNameToStr fd])
          else [(path @ [fdNameToStr fd], value_text ff v fd)]
      | Repeated \<Rightarrow> (case v of LList vs \<Rightarrow> leaves_list ff 0 vs fd (path @ [fdNameToStr fd]) | _ \<Rightarrow> [])
      | MapOf kk vk \<Rightarrow> (case v of LMap m \<Rightarrow> leaves_map ff m kk vk (path @ [fdNameToStr fd]) | _ \<Rightarrow> []))
     @ leaves_fields ff fs path"
| "leaves_list ff i [] fd path = []"
| "leaves_list ff i (v # vs) fd path =
     (if l_Kind fd = MessageKind then leaves_message ff v (path @ [Itoa i, fdNameToStr fd])
      else [(path @ [Itoa i], value_text ff v fd)])
     @ leaves_list ff (Suc i) vs fd path"
| "leaves_map ff [] kk vk path = []"
| "leaves_map ff ((mk, v) # m) kk vk path =
     (if vk = MessageKind
      then leaves_message ff v (path @ [value_text ff mk (MapKey kk), ''value''])
      else [(path @ [value_text ff mk (MapKey kk)], value_text ff v (MapValue vk))])
     @ leaves_map ff m kk vk path"

definition leaf_text :: "string list \<times> string \<Rightarrow> string" where
  "leaf_text l = join ''.'' (fst l) @ ''='' @ snd l"

definition leaves_text :: "(string list \<times> string) list \<Rightarrow> string" where
  "leaves_text ls = join '' '' (map leaf_text ls)"

section \<open>The encoder writes the leaves\<close>

lemma join_append:
  "xs \<noteq> [] \<Longrightarrow> ys \<noteq> [] \<Longrightarrow> join sep (xs @ ys) = join sep xs @ sep @ join sep ys"
proof (induction sep xs rule: join.induct)
  case (2 sep x)
  then show ?case by (cases ys) auto
qed auto

lemma leaves_text_append:
  "xs \<noteq> [] \<Longrightarrow> ys \<noteq> [] \<Longrightarrow> leaves_text (xs @ ys) = leaves_text xs @ '' '' @ leaves_text ys"
  by (simp add: leaves_text_def join_append)

lemma write_path_join: "write_path path sb = sb @ join ''.'' path"
  by (induction path sb rule: write_path.induct) auto

lemma write_prefix_join: "write_prefix path sb @ n = sb @ join ''.'' (path @ [n])"
proof (induction path arbitrary: sb)
  case (Cons p ps)
  have "join ''.'' (p # ps @ [n]) = p @ ''.'' @ join ''.'' (ps @ [n])" by (cases "ps @ [n]") auto
  with Cons show ?case by simp
qed simp

lemma write_sep_simps [simp]: "write_sep 0 sb = sb" "write_sep (Suc i) sb = sb @ '' ''"
  by (simp_all add: write_sep_def)

lemma leaves_nonempty:
  "loggable v \<Longrightarrow> leaves_message ff v path \<noteq> []"
  "typed_fields True fs \<Longrightarrow> fs \<noteq> [] \<Longrightarrow> leaves_fields ff fs path \<noteq> []"
  "typed_list True (l_Kind fd) vs \<Longrightarrow> vs \<noteq> [] \<Longrightarrow> leaves_list ff i vs fd path \<noteq> []"
  "typed_map True kk vk mm \<Longrightarrow> mm \<noteq> [] \<Longrightarrow> leaves_map ff mm kk vk path \<noteq> []"
proof (induction ff v path and ff fs path and ff i vs fd path and ff mm kk vk path
    rule: leaves_message_leaves_fields_leaves_list_leaves_map.induct)
  case (4 ff fd v fs path)
  then show ?case by (auto split: cardinality.splits log_value.splits)
qed auto

text \<open>What is written for one value with a path of its own.\<close>

definition single_leaves :: "(u64 \<Rightarrow> string) \<Rightarrow> log_value \<Rightarrow> log_fd \<Rightarrow> string list \<Rightarrow> string list \<Rightarrow> (string list \<times> string) list" where
  "single_leaves ff v fd mpath path =
     (if l_Kind fd = MessageKind then leaves_message ff v mpath else [(path, value_text ff v fd)])"

lemma single_leaves_nonempty: "typed_single True (l_Kind fd) v \<Longrightarrow> single_leaves ff v fd mpath path \<noteq> []"
  using leaves_nonempty(1) by (auto simp: single_leaves_def)

lemma leaves_Cons:
  "leaves_list ff i (v # vs) fd path =
     single_leaves ff v fd (path @ [Itoa i, fdNameToStr fd]) (path @ [Itoa i]) @ leaves_list ff (Suc i) vs fd path"
  "leaves_map ff ((mk, v) # m) kk vk path =
     single_leaves ff v (MapValue vk) (path @ [value_text ff mk (MapKey kk), ''value''])
       (path @ [value_text ff mk (MapKey kk)]) @ leaves_map ff m kk vk path"
  by (simp_all add: single_leaves_def MapValue_def)

lemma typed_single_scalar:
  assumes "typed_single True k v" and "k \<noteq> MessageKind" and "l_Kind fd = k"
  shows "valueToString ff v fd = Ok (value_text ff v fd)"
proof -
  have "scalar_fits k v" using assms(1,2) by (cases v) auto
  from valueToString_fits [OF this assms(3), of ff] show ?thesis by (auto simp: value_text_def)
qed

lemma marshal_leaves:
  "loggable m \<Longrightarrow> marshalMessage ff m path sb = (Ok (), sb @ leaves_text (leaves_message ff m path))"
  "typed_fields True fs \<Longrightarrow> marshal_range ff i fs path sb =
     (Ok (), if fs = [] then sb else write_sep i sb @ leaves_text (leaves_fields ff fs path))"
  "typed_fields True [(fd, v)] \<Longrightarrow>
     marshalField ff v fd path sb = (Ok (), sb @ leaves_text (leaves_fields ff [(fd, v)] path))"
  "typed_list True (l_Kind fd) vs \<Longrightarrow> marshalList ff i vs fd path sb =
     (Ok (), if vs = [] then sb else write_sep i sb @ leaves_text (leaves_list ff i vs fd path))"
  "typed_map True kk vk mm \<Longrightarrow> marshalMap ff i mm kk vk path sb =
     (Ok (), if mm = [] then sb else write_sep i sb @ leaves_text (leaves_map ff mm kk vk path))"
  "typed_single True (l_Kind fd) v \<Longrightarrow> marshalListOrMapSingular ff v fd path sb =
     (Ok (), sb @ leaves_text (single_leaves ff v fd (path @ [fdNameToStr fd]) path))"
  "typed_single True (l_Kind fd) v \<Longrightarrow> marshalSingular ff v fd path sb =
     (Ok (), sb @ leaves_text (single_leaves ff v fd (path @ [fdNameToStr fd]) (path @ [fdNameToStr fd])))"
proof (induction ff m path sb and ff i fs path sb and ff v fd path sb and ff i vs fd path sb
    and ff i mm kk vk path sb and ff v fd path sb and ff v fd path sb
    rule: marshalMessage_marshal_range_marshalField_marshalList_marshalMap_marshalListOrMapSingular_marshalSingular.induct)
  case (4 ff i fd v fs path sb)
  have f: "typed_fields True [(fd, v)]" "typed_fields True fs" using 4(3) by simp_all
  have "leaves_fields ff [(fd, v)] path \<noteq> []" using leaves_nonempty(2) [OF f(1)] by simp
  moreover have "leaves_fields ff fs path \<noteq> []" if "fs \<noteq> []" using leaves_nonempty(2) [OF f(2) that] .
  moreover have "leaves_fields ff ((fd, v) # fs) path = leaves_fields ff [(fd, v)] path @ leaves_fields ff fs path"
    by simp
  ultimately show ?case
    using 4(1) [OF f(1)] 4(2) [OF _ _ f(2)] by (simp add: leaves_text_append del: leaves_fields.simps(2) typed_fields.simps)
next
  case (5 ff val fd path sb)
  then show ?case
    by (auto simp: single_leaves_def split: cardinality.splits log_value.splits)
next
  case (7 ff i v vs fd path sb)
  from 7(3) have v: "typed_single True (l_Kind fd) v" and vs: "typed_list True (l_Kind fd) vs" by simp_all
  show ?case using 7(1) [OF v] 7(2) [OF _ _ vs] single_leaves_nonempty [OF v]
      leaves_nonempty(3) [OF vs, of ff "Suc i" path]
    by (simp add: leaves_Cons leaves_text_append del: leaves_list.simps(2) marshalListOrMapSingular.simps)
next
  case (9 ff i mk v m kk vk path sb)
  from 9(3) have v: "typed_single True (l_Kind (MapValue vk)) v" and m: "typed_map True kk vk m"
    and "scalar_fits kk mk" by (simp_all add: MapValue_def)
  then have k: "valueToString ff mk (MapKey kk) = Ok (value_text ff mk (MapKey kk))"
    using valueToString_fits [of kk mk "MapKey kk" ff] by (auto simp: MapKey_def value_text_def)
  have n: "fdNameToStr (MapValue vk) = ''value''" by (simp add: MapValue_def fdNameToStr_def)
  show ?case using 9(1) [OF k v] 9(2) [OF k _ _ m] k n single_leaves_nonempty [OF v]
      leaves_nonempty(4) [OF m, of ff path]
    by (simp add: leaves_Cons leaves_text_append del: leaves_map.simps(2) marshalListOrMapSingular.simps)
next
  case (10 ff val fd path sb)
  then show ?case using typed_single_scalar [OF 10(2), of fd ff]
    by (auto simp: single_leaves_def write_entry_def leaves_text_def leaf_text_def write_path_join)
next
  case (11 ff val fd path sb)
  then show ?case using typed_single_scalar [OF 11(2), of fd ff]
    by (auto simp: single_leaves_def write_field_def leaves_text_def leaf_text_def write_prefix_join
        simp flip: append_assoc)
qed auto

section \<open>Typed messages do not panic\<close>

lemma marshal_range_no_error: "fst (marshal_range ff i fs path sb) \<noteq> Fail e"
proof (induction fs arbitrary: i sb)
  case (Cons f fs)
  then show ?case
    by (cases f; cases "marshalField ff (snd f) (fst f) path (write_sep i sb)")
      (auto simp del: marshalField.simps split: res.split)
qed simp

lemma typed_scalar_no_panic:
  assumes "typed_single False k v" and "k \<noteq> MessageKind" and "l_Kind fd = k"
  shows "valueToString ff v fd \<noteq> Panic"
proof (cases "k = GroupKind")
  case True
  with assms(3) show ?thesis by (simp add: valueToString_def)
next
  case False
  with assms(1,2) have "scalar_fits k v" by (cases v) auto
  from valueToString_fits [OF this assms(3), of ff] show ?thesis by auto
qed

lemma marshal_no_panic:
  "typed_message m \<Longrightarrow> fst (marshalMessage ff m path sb) \<noteq> Panic"
  "typed_fields False fs \<Longrightarrow> fst (marshal_range ff i fs path sb) \<noteq> Panic"
  "typed_fields False [(fd, v)] \<Longrightarrow> fst (marshalField ff v fd path sb) \<noteq> Panic"
  "typed_list False (l_Kind fd) vs \<Longrightarrow> fst (marshalList ff i vs fd path sb) \<noteq> Panic"
  "typed_map False kk vk mm \<Longrightarrow> fst (marshalMap ff i mm kk vk path sb) \<noteq> Panic"
  "typed_single False (l_Kind fd) v \<Longrightarrow> fst (marshalListOrMapSingular ff v fd path sb) \<noteq> Panic"
  "typed_single False (l_Kind fd) v \<Longrightarrow> fst (marshalSingular ff v fd path sb) \<noteq> Panic"
proof (induction ff m path sb and ff i fs path sb and ff v fd path sb and ff i vs fd path sb
    and ff i mm kk vk path sb and ff v fd path sb and ff v fd path sb
    rule: marshalMessage_marshal_range_marshalField_marshalList_marshalMap_marshalListOrMapSingular_marshalSingular.induct)
  case (4 ff i fd v fs path sb)
  have f: "typed_fields False [(fd, v)]" "typed_fields False fs" using 4(3) by simp_all
  with 4(1) [OF f(1)] 4(2) [OF _ _ f(2)] show ?case
    by (auto simp del: marshalField.simps split: prod.split res.split)
next
  case (5 ff val fd path sb)
  then show ?case by (auto split: cardinality.splits log_value.splits)
next
  case (7 ff i v vs fd path sb)
  have f: "typed_single False (l_Kind fd) v" "typed_list False (l_Kind fd) vs" using 7(3) by simp_all
  with 7(1) [OF f(1)] 7(2) [OF _ _ f(2)] show ?case
    by (auto simp del: marshalListOrMapSingular.simps split: prod.split res.split)
next
  case (9 ff i mk v m kk vk path sb)
  have f: "typed_single False (l_Kind (MapValue vk)) v" "typed_map False kk vk m" "scalar_fits kk mk"
    using 9(3) by (simp_all add: MapValue_def)
  obtain k where k: "valueToString ff mk (MapKey kk) = Ok k"
    using valueToString_fits [OF f(3), of "MapKey kk" ff] by (auto simp: MapKey_def)
  from 9(1) [OF k f(1)] 9(2) [OF k _ _ f(2)] k show ?case
    by (auto simp del: marshalListOrMapSingular.simps split: prod.split res.split)
next
  case (10 ff val fd path sb)
  then show ?case using typed_scalar_no_panic [OF 10(2) _ refl, of ff]
    by (auto simp: write_entry_def split: res.split)
next
  case (11 ff val fd path sb)
  then show ?case using typed_scalar_no_panic [OF 11(2) _ refl, of ff]
    by (auto simp: write_field_def split: res.split)
qed auto

lemma split_at_join:
  assumes "\<forall>s\<in>set ss. c \<notin> set s" and "ss \<noteq> []"
  shows "split_at c acc (join [c] ss) = (acc @ hd ss) # tl ss"
proof -
  have one: "c \<notin> set s \<Longrightarrow> split_at c acc (s @ rest) =
      (case rest of [] \<Rightarrow> [acc @ s] | x # xs \<Rightarrow> if x = c then (acc @ s) # split_at c [] xs
        else split_at c (acc @ s) rest)" for s rest acc
    by (induction s arbitrary: acc) (auto split: list.split)
  show ?thesis using assms
  proof (induction "[c]" ss arbitrary: acc rule: join.induct)
    case (3 s s' ss)
    then show ?case using one [of s acc "c # join [c] (s' # ss)"] by simp
  qed (use one [of _ _ "[]"] in auto)
qed

section \<open>Properties\<close>

text \<open>
  C32.  The log text of a message tells its contents: for a message without groups and empty
  parts, in which no name and no value contains a space, splitting the line at its spaces gives
  the word \<open>message\<close> and one \<open>path=value\<close> for each scalar in the message, in order, nested fields,
  list elements and map entries under the path that leads to them.
\<close>

theorem protolog_lists_leaves:
  assumes "loggable m" and "\<forall>l\<in>set (leaves_message ff m []). CHR '' '' \<notin> set (leaf_text l)"
  shows "\<exists>line. Format ff (Some m) = Ok line
    \<and> split_at (CHR '' '') [] line = ''message'' # map leaf_text (leaves_message ff m [])"
proof -
  let ?ls = "map leaf_text (leaves_message ff m [])"
  have ne: "?ls \<noteq> []" using leaves_nonempty(1) [OF assms(1)] by simp
  then have "''message '' @ join '' '' ?ls = join '' '' (''message'' # ?ls)" by (cases ?ls) auto
  with marshal_leaves(1) [OF assms(1), of ff "[]" "''message ''"]
  have "Format ff (Some m) = Ok (join '' '' (''message'' # ?ls))"
    by (simp add: Format_def Marshal_def leaves_text_def)
  with split_at_join [of "''message'' # ?ls" "CHR '' ''" "[]"] assms(2) show ?thesis by auto
qed

definition example_log :: log_value where
  "example_log = LMessage
     [(\<lparr>l_Name = ''UID'', l_Kind = Uint64Kind, l_Card = Singular\<rparr>, LUint 7),
      (\<lparr>l_Name = ''pos'', l_Kind = MessageKind, l_Card = Singular\<rparr>,
        LMessage [(\<lparr>l_Name = ''x'', l_Kind = Sint32Kind, l_Card = Singular\<rparr>, LInt (- 3))]),
      (\<lparr>l_Name = ''bag'', l_Kind = Int32Kind, l_Card = Repeated\<rparr>, LList [LInt 5, LInt 6])]"

theorem protolog_lists_leaves_witness:
  "\<exists>line. Format (\<lambda>x. ''0.5'') (Some example_log) = Ok line \<and> split_at (CHR '' '') [] line
     = [''message'', ''uid=7'', ''pos.x=-3'', ''bag.0=5'', ''bag.1=6'']"
proof -
  have i: "Itoa 0 = ''0''" "Itoa (Suc 0) = ''1''" "Itoa 7 = ''7''" "Itoa 3 = ''3''" "Itoa 5 = ''5''" "Itoa 6 = ''6''"
    by (simp_all add: Itoa.simps digit_char_def char_of_def bit_0)
  have l: "map leaf_text (leaves_message (\<lambda>x. ''0.5'') example_log [])
      = [''uid=7'', ''pos.x=-3'', ''bag.0=5'', ''bag.1=6'']"
    by (simp add: example_log_def value_text_def valueToString_def fdNameToStr_def leaf_text_def
        FormatInt_def i)
  have "\<forall>s\<in>set (map leaf_text (leaves_message (\<lambda>x. ''0.5'') example_log [])). CHR '' '' \<notin> set s"
    unfolding l by simp
  then have "\<forall>l\<in>set (leaves_message (\<lambda>x. ''0.5'') example_log []). CHR '' '' \<notin> set (leaf_text l)"
    by simp
  from protolog_lists_leaves [OF _ this] l show ?thesis by (simp add: example_log_def)
qed

text \<open>
  C33.  Formatting a message that protobuf can hold never panics, and \<open>Marshal\<close> never reports an
  error, although it has an error result.
\<close>

theorem protolog_never_fails:
  assumes "typed_message m"
  shows "\<exists>line. Marshal ff m = Ok line \<and> Format ff (Some m) = Ok line"
proof -
  obtain fs where m: "m = LMessage fs" using assms by (cases m) auto
  have "fst (marshalMessage ff m [] ''message '') \<noteq> Panic" by (rule marshal_no_panic(1) [OF assms])
  moreover have "fst (marshalMessage ff m [] ''message '') \<noteq> Fail ()"
    using marshal_range_no_error [of ff 0 fs "[]" "''message ''"] by (simp add: m)
  ultimately show ?thesis
    by (cases "marshalMessage ff m [] ''message ''"; cases "fst (marshalMessage ff m [] ''message '')")
      (auto simp: Marshal_def Format_def)
qed

theorem protolog_never_fails_witness:
  "\<exists>line. Marshal (\<lambda>x. ''0.5'') example_log = Ok line \<and> Format (\<lambda>x. ''0.5'') (Some example_log) = Ok line"
  by (rule protolog_never_fails) (simp add: example_log_def)

text \<open>
  The error of a field is dropped: a group ends the output of its message without a trace, and
  the fields after it are missing.
\<close>

theorem protolog_drops_after_group:
  assumes "l_Card fd = Singular" and "l_Kind fd = GroupKind" and "typed_fields True fs"
  shows "Format ff (Some (LMessage (fs @ (fd, v) # rest))) = Format ff (Some (LMessage (fs @ [(fd, v)])))"
proof -
  have grp: "marshal_range ff i ((fd, v) # gs) path sb = (Ok (), write_sep i sb)" for i gs path sb
    using assms(1,2) by (simp add: write_field_def valueToString_def)
  have "marshal_range ff i (fs @ (fd, v) # rest) path sb = marshal_range ff i (fs @ [(fd, v)]) path sb"
    for i path sb
    using assms(3)
  proof (induction fs arbitrary: i sb)
    case Nil
    show ?case using grp [of i rest] grp [of i "[]"] by (simp only: append_Nil)
  next
    case (Cons f fs)
    obtain fd' v' where f: "f = (fd', v')" by (cases f)
    with Cons.prems have "typed_fields True [(fd', v')]" "typed_fields True fs" by simp_all
    with marshal_leaves(3) Cons.IH f show ?case by (simp del: marshalField.simps typed_fields.simps)
  qed
  then show ?thesis by (simp add: Format_def Marshal_def)
qed

end
