(* ===== verification/Loggers.thy ===== *)
theory Loggers
  imports Log Protolog
begin

text \<open>
  The logger that the front end has before a plugin sets another one, \<^verbatim>\<open>src/plugin/log/defaultlogger.go\<close>,
  the mock logger of \<^verbatim>\<open>logger_mock.go\<close>, and the calls of the front end that go to whatever logger is
  set: \<^verbatim>\<open>logger.go\<close> composed with an implementation of the interface \<open>Logger\<close> of \<^verbatim>\<open>log.go\<close>.  The standard
  output is the list of the lines printed; the program's name \<open>os.Args[0]\<close> is the argument \<open>arg0\<close>.
  A descriptor is the path it was opened at: nothing in the program moves that file.
\<close>

section \<open>The default logger\<close>

record defaultLogger =
  dl_level :: int
  dl_fileFd :: "string option"

definition newDefaultLogger :: defaultLogger where
  "newDefaultLogger = \<lparr>dl_level = 0, dl_fileFd = None\<rparr>"

definition default_path :: "string \<Rightarrow> string" where
  "default_path arg0 = arg0 @ ''_default.log''"

definition getFileFd ::
  "string \<Rightarrow> int \<Rightarrow> defaultLogger \<Rightarrow> filesys \<Rightarrow> string option \<times> defaultLogger \<times> filesys" where
  "getFileFd arg0 now l fs =
     (case dl_fileFd l of
        Some fd \<Rightarrow> (Some fd, l, fs)
      | None \<Rightarrow>
          let defaultTmpLogFile = default_path arg0 in
          if denied fs defaultTmpLogFile then (None, l, fs)
          else
            let file = (case fs_files fs defaultTmpLogFile of None \<Rightarrow> ([], now) | Some f \<Rightarrow> f)
            in (Some defaultTmpLogFile, l\<lparr>dl_fileFd := Some defaultTmpLogFile\<rparr>,
                fs\<lparr>fs_files := (fs_files fs)(defaultTmpLogFile \<mapsto> file)\<rparr>))"

definition default_Write ::
  "string \<Rightarrow> int \<Rightarrow> string \<Rightarrow> defaultLogger \<Rightarrow> filesys \<Rightarrow> (unit, nat) res \<times> defaultLogger \<times> filesys" where
  "default_Write arg0 now buf l fs =
     (case getFileFd arg0 now l fs of
        (None, l, fs) \<Rightarrow> (Fail (), l, fs)
      | (Some fd, l, fs) \<Rightarrow>
          (Ok (length buf), l,
           fs\<lparr>fs_files := (fs_files fs)(fd \<mapsto> (contents_of fs fd @ buf, now))\<rparr>))"

definition default_line :: "log_time \<Rightarrow> string \<Rightarrow> AcntLogger option \<Rightarrow> string \<Rightarrow> string" where
  "default_line t logType a logContent =
     ''['' @ pad 4 (lt_year t) @ ''-'' @ pad 2 (lt_month t) @ ''-'' @ pad 2 (lt_day t) @ '' ''
      @ pad 2 (lt_hour t) @ '':'' @ pad 2 (lt_min t) @ '':'' @ pad 2 (lt_sec t) @ ''.''
      @ pad 3 (lt_msec t) @ ''] ['' @ logType @ ''] ''
      @ (case a of Some x \<Rightarrow> GetLogStr x @ '' '' @ logContent | None \<Rightarrow> logContent)"

text \<open>The line goes to the file, whatever comes of it, and to the standard output.\<close>

definition default_Output ::
  "string \<Rightarrow> int \<Rightarrow> log_time \<Rightarrow> string \<Rightarrow> AcntLogger option \<Rightarrow> string \<Rightarrow> defaultLogger \<Rightarrow> filesys
    \<Rightarrow> string list \<times> defaultLogger \<times> filesys" where
  "default_Output arg0 now t logType a logContent l fs =
     (let logStr = default_line t logType a logContent;
          (_, l, fs) = default_Write arg0 now (logStr @ [CHR 0x0A]) l fs
      in ([logStr], l, fs))"

definition default_Sync :: "string \<Rightarrow> int \<Rightarrow> defaultLogger \<Rightarrow> filesys \<Rightarrow> defaultLogger \<times> filesys" where
  "default_Sync arg0 now l fs = snd (getFileFd arg0 now l fs)"

definition default_SetLevel :: "int \<Rightarrow> defaultLogger \<Rightarrow> defaultLogger" where
  "default_SetLevel lv l = l\<lparr>dl_level := lv\<rparr>"

definition default_GetLevel :: "defaultLogger \<Rightarrow> int" where
  "default_GetLevel l = dl_level l"

section \<open>The mock logger\<close>

definition mock_Output :: "string \<Rightarrow> string list" where
  "mock_Output msg = [msg]"

definition mock_GetLevel :: int where
  "mock_GetLevel = -1"

definition mock_Write :: "string \<Rightarrow> (unit, nat) res" where
  "mock_Write buf = Ok (length buf)"

section \<open>The interface\<close>

datatype Logger = DefaultL defaultLogger | BingoL BingoLogger | MockL

record log_sys =
  sys_arg0 :: string
  sys_front :: log_front
  sys_logger :: Logger
  sys_fs :: filesys
  stdout :: "string list"

fun Logger_GetLevel :: "Logger \<Rightarrow> int" where
  "Logger_GetLevel (DefaultL l) = default_GetLevel l"
| "Logger_GetLevel (BingoL l) = GetLevel l"
| "Logger_GetLevel MockL = mock_GetLevel"

fun Logger_SetLevel :: "int \<Rightarrow> Logger \<Rightarrow> Logger" where
  "Logger_SetLevel lv (DefaultL l) = DefaultL (default_SetLevel lv l)"
| "Logger_SetLevel lv (BingoL l) = BingoL (SetLevel lv l)"
| "Logger_SetLevel lv MockL = MockL"

definition SetLogger_sys :: "Logger \<Rightarrow> log_sys \<Rightarrow> log_sys" where
  "SetLogger_sys lg s =
     s\<lparr>sys_front := SetLogger (Some (Logger_GetLevel lg)) (sys_front s), sys_logger := lg\<rparr>"

definition MockSetDefaultLogger :: "log_sys \<Rightarrow> log_sys" where
  "MockSetDefaultLogger s = SetLogger_sys MockL s"

text \<open>What the host says at a call: the calendar, the clock, the caller's place.\<close>

record log_env =
  le_date :: "int \<Rightarrow> nat \<times> nat \<times> nat"
  le_now :: int
  le_time :: log_time
  le_at :: "string \<times> nat"

fun Logger_Output ::
  "string \<Rightarrow> log_env \<Rightarrow> string \<times> AcntLogger option \<times> string \<Rightarrow> Logger \<Rightarrow> filesys
    \<Rightarrow> (string list \<times> Logger \<times> filesys) option" where
  "Logger_Output arg0 e (tag, a, msg) (DefaultL l) fs =
     (case default_Output arg0 (le_now e) (le_time e) tag a msg l fs of
        (out, l, fs) \<Rightarrow> Some (out, DefaultL l, fs))"
| "Logger_Output arg0 e (tag, a, msg) (BingoL l) fs =
     (case Output (le_date e) (le_now e) (le_time e) tag (le_at e) a msg l fs of
        None \<Rightarrow> None
      | Some (out, l, fs) \<Rightarrow> Some (out, BingoL l, fs))"
| "Logger_Output arg0 e (tag, a, msg) MockL fs = Some (mock_Output msg, MockL, fs)"

text \<open>One call of the front end: what it lets through goes to the logger's \<open>Output\<close>.\<close>

fun outputs ::
  "log_env \<Rightarrow> (string \<times> AcntLogger option \<times> string) list \<Rightarrow> log_sys \<Rightarrow> log_sys option" where
  "outputs e [] s = Some s"
| "outputs e (x # xs) s =
     (case Logger_Output (sys_arg0 s) e x (sys_logger s) (sys_fs s) of
        None \<Rightarrow> None
      | Some (out, lg, fs) \<Rightarrow>
          outputs e xs (s\<lparr>sys_logger := lg, sys_fs := fs, stdout := stdout s @ out\<rparr>))"

definition sys_call ::
  "log_env \<times> log_level \<times> AcntLogger option \<times> string \<Rightarrow> log_sys \<Rightarrow> log_sys option" where
  "sys_call ec s =
     (let f = log_call (snd ec) (sys_front s)
      in outputs (fst ec) (drop (length (emitted (sys_front s))) (emitted f)) (s\<lparr>sys_front := f\<rparr>))"

text \<open>\<open>None\<close>: the call waits for the write loop of an asynchronous logger.\<close>

definition Log_Sync :: "log_env \<Rightarrow> log_sys \<Rightarrow> log_sys option" where
  "Log_Sync e s =
     (case sys_logger s of
        DefaultL l \<Rightarrow>
          (case default_Sync (sys_arg0 s) (le_now e) l (sys_fs s) of
             (l, fs) \<Rightarrow> Some (s\<lparr>sys_logger := DefaultL l, sys_fs := fs\<rparr>))
      | BingoL l \<Rightarrow>
          (case Sync l of
             None \<Rightarrow> None
           | Some l \<Rightarrow> Some (s\<lparr>sys_logger := BingoL l\<rparr>))
      | MockL \<Rightarrow> Some s)"

definition FormatPB :: "(u64 \<Rightarrow> string) \<Rightarrow> log_value option \<Rightarrow> (unit, string) res" where
  "FormatPB ff m = Format ff m"

section \<open>Sinks\<close>

fun run_opt :: "('e \<Rightarrow> 's \<Rightarrow> 's option) \<Rightarrow> 'e list \<Rightarrow> 's \<Rightarrow> 's option" where
  "run_opt step [] s = Some s"
| "run_opt step (e # es) s = (case step e s of None \<Rightarrow> None | Some s \<Rightarrow> run_opt step es s)"

text \<open>
  A place that log lines go to: in a ready state a step returns, adds its line at the end, and
  the state stays ready.
\<close>

locale line_sink =
  fixes step :: "'e \<Rightarrow> 's \<Rightarrow> 's option"
    and ready :: "'s \<Rightarrow> bool"
    and written :: "'s \<Rightarrow> 'a list"
    and line :: "'e \<Rightarrow> 'a list"
  assumes step_line: "ready s \<Longrightarrow> \<exists>s'. step e s = Some s' \<and> ready s' \<and> written s' = written s @ line e"
begin

lemma run_lines:
  "ready s \<Longrightarrow> \<exists>s'. run_opt step es s = Some s' \<and> ready s' \<and> written s' = written s @ concat (map line es)"
proof (induction es arbitrary: s)
  case (Cons e es)
  obtain s1 where "step e s = Some s1" "ready s1" "written s1 = written s @ line e"
    using step_line [OF Cons.prems] by blast
  with Cons.IH [of s1] show ?case by auto
qed simp

end

text \<open>A call gives the logger nothing or one entry, by the level filter.\<close>

lemma sys_call_passes:
  assumes "globalLogger (sys_front s) = Some lv"
  shows "sys_call (e, k, a, msg) s
    = outputs e (if passes lv (k, a, msg) then [(level_tag k, a, msg)] else [])
        (s\<lparr>sys_front := log_call (k, a, msg) (sys_front s)\<rparr>)"
  using log_call_effect(1) [OF assms, of k a msg] by (simp add: sys_call_def)

lemma outputs_front: "outputs e xs s = Some s' \<Longrightarrow> sys_front s' = sys_front s"
  by (induction e xs s rule: outputs.induct) (auto split: option.splits prod.splits)

lemma run_front:
  "run_opt sys_call cs s = Some s' \<Longrightarrow> sys_front s' = fold log_call (map snd cs) (sys_front s)"
proof (induction cs arbitrary: s)
  case (Cons c cs)
  then obtain s1 where "sys_call c s = Some s1" "run_opt sys_call cs s1 = Some s'"
    by (auto split: option.splits)
  moreover from this(1) have "sys_front s1 = log_call (snd c) (sys_front s)"
    by (auto simp: sys_call_def Let_def dest: outputs_front)
  ultimately show ?case using Cons.IH [of s1] by simp
qed simp

definition with_default :: "int \<Rightarrow> string \<Rightarrow> bool \<Rightarrow> log_sys \<Rightarrow> bool" where
  "with_default lv arg0 file s =
     (case sys_logger s of
        DefaultL l \<Rightarrow> dl_level l = lv \<and> globalLogger (sys_front s) = Some lv \<and> sys_arg0 s = arg0
          \<and> (file \<longrightarrow> (dl_fileFd l = None \<and> \<not> denied (sys_fs s) (default_path arg0))
                \<or> dl_fileFd l = Some (default_path arg0))
      | _ \<Rightarrow> False)"

definition default_lines :: "int \<Rightarrow> log_env \<times> log_level \<times> AcntLogger option \<times> string \<Rightarrow> string list" where
  "default_lines lv ec =
     (case ec of (e, k, a, msg) \<Rightarrow>
        if passes lv (k, a, msg) then [default_line (le_time e) (level_tag k) a msg] else [])"

definition default_bytes :: "int \<Rightarrow> log_env \<times> log_level \<times> AcntLogger option \<times> string \<Rightarrow> string" where
  "default_bytes lv ec = concat (map (\<lambda>x. x @ [CHR 0x0A]) (default_lines lv ec))"

lemma default_Write_file:
  assumes "dl_fileFd l = None \<and> \<not> denied fs (default_path arg0) \<or> dl_fileFd l = Some (default_path arg0)"
  shows "\<exists>fs'. default_Write arg0 now buf l fs = (Ok (length buf), l\<lparr>dl_fileFd := Some (default_path arg0)\<rparr>, fs')
    \<and> contents_of fs' (default_path arg0) = contents_of fs (default_path arg0) @ buf"
proof (cases "dl_fileFd l")
  case None
  with assms show ?thesis
    by (cases "fs_files fs (default_path arg0)")
      (auto simp: default_Write_def getFileFd_def contents_of_def Let_def)
next
  case (Some fd)
  with assms have "l\<lparr>dl_fileFd := Some (default_path arg0)\<rparr> = l" by simp
  with Some assms show ?thesis by (simp add: default_Write_def getFileFd_def contents_of_set)
qed

interpretation default_file:
  line_sink sys_call "with_default lv arg0 True" "\<lambda>s. contents_of (sys_fs s) (default_path arg0)"
    "default_bytes lv" for lv arg0
proof
  fix s :: log_sys and ec :: "log_env \<times> log_level \<times> AcntLogger option \<times> string"
  assume r: "with_default lv arg0 True s"
  obtain e k a msg where ec: "ec = (e, k, a, msg)" by (cases ec) auto
  from r obtain l where l: "sys_logger s = DefaultL l" "dl_level l = lv" "globalLogger (sys_front s) = Some lv"
    "sys_arg0 s = arg0" "dl_fileFd l = None \<and> \<not> denied (sys_fs s) (default_path arg0) \<or> dl_fileFd l = Some (default_path arg0)"
    by (auto simp: with_default_def split: Logger.splits)
  let ?line = "default_line (le_time e) (level_tag k) a msg"
  obtain fs' where w: "default_Write arg0 (le_now e) (?line @ [CHR 0x0A]) l (sys_fs s)
      = (Ok (length (?line @ [CHR 0x0A])), l\<lparr>dl_fileFd := Some (default_path arg0)\<rparr>, fs')"
    "contents_of fs' (default_path arg0) = contents_of (sys_fs s) (default_path arg0) @ ?line @ [CHR 0x0A]"
    using default_Write_file [OF l(5)] by blast
  show "\<exists>s'. sys_call ec s = Some s' \<and> with_default lv arg0 True s'
      \<and> contents_of (sys_fs s') (default_path arg0) = contents_of (sys_fs s) (default_path arg0) @ default_bytes lv ec"
    using l w log_call_effect(3) [OF l(3), of k a msg] ec
    by (simp add: sys_call_passes default_Output_def with_default_def default_bytes_def default_lines_def)
qed

interpretation default_console:
  line_sink sys_call "with_default lv arg0 False" stdout "default_lines lv" for lv arg0
proof
  fix s :: log_sys and ec :: "log_env \<times> log_level \<times> AcntLogger option \<times> string"
  assume r: "with_default lv arg0 False s"
  obtain e k a msg where ec: "ec = (e, k, a, msg)" by (cases ec) auto
  from r obtain l where l: "sys_logger s = DefaultL l" "dl_level l = lv" "globalLogger (sys_front s) = Some lv"
    "sys_arg0 s = arg0"
    by (auto simp: with_default_def split: Logger.splits)
  obtain r l' fs' where w: "default_Write arg0 (le_now e) (default_line (le_time e) (level_tag k) a msg @ [CHR 0x0A]) l (sys_fs s)
      = (r, l', fs')" by (metis prod.exhaust)
  then have "dl_level l' = dl_level l"
    by (auto simp: default_Write_def getFileFd_def Let_def split: option.splits prod.splits if_splits)
  with l w log_call_effect(3) [OF l(3), of k a msg] ec
  show "\<exists>s'. sys_call ec s = Some s' \<and> with_default lv arg0 False s' \<and> stdout s' = stdout s @ default_lines lv ec"
    by (simp add: sys_call_passes default_Output_def with_default_def default_lines_def)
qed

interpretation mock_console:
  line_sink sys_call "\<lambda>s. sys_logger s = MockL \<and> globalLogger (sys_front s) = Some mock_GetLevel" stdout
    "\<lambda>(e, k, a, msg). [msg]"
proof
  fix s :: log_sys and ec :: "log_env \<times> log_level \<times> AcntLogger option \<times> string"
  assume r: "sys_logger s = MockL \<and> globalLogger (sys_front s) = Some mock_GetLevel"
  obtain e k a msg where ec: "ec = (e, k, a, msg)" by (cases ec) auto
  have "passes mock_GetLevel (k, a, msg)" by (cases k) (simp_all add: passes_def mock_GetLevel_def levels)
  with r ec log_call_effect(3) [of "sys_front s" mock_GetLevel k a msg]
  show "\<exists>s'. sys_call ec s = Some s' \<and> (sys_logger s' = MockL \<and> globalLogger (sys_front s') = Some mock_GetLevel)
      \<and> stdout s' = stdout s @ (case ec of (e, k, a, msg) \<Rightarrow> [msg])"
    by (simp add: sys_call_passes mock_Output_def)
qed

section \<open>Every call returns\<close>

abbreviation finite_fs :: "filesys \<Rightarrow> bool" where
  "finite_fs fs \<equiv> finite (dom (fs_files fs))"

text \<open>A logger whose calls do not wait for a write loop.\<close>

definition no_loop :: "Logger \<Rightarrow> bool" where
  "no_loop lg = (case lg of BingoL l \<Rightarrow> \<not> isInited l \<or> \<not> isAsync l | _ \<Rightarrow> True)"

lemma Write_returns:
  assumes "finite_fs fs" and "no_loop (BingoL l)"
  shows "\<exists>err l' fs'. Log.Write date now buf l fs = Some (err, l', fs') \<and> finite_fs fs' \<and> no_loop (BingoL l')"
proof -
  obtain err l1 fs1 where w: "writeSync date now buf l fs = Some (err, l1, fs1)"
    using writeSync_spec [OF assms(1)] by blast
  with writeSync_keeps [OF w] assms show ?thesis by (simp add: Log.Write_def no_loop_def)
qed

lemma Logger_Output_returns:
  assumes "finite_fs fs" and "no_loop lg"
  shows "\<exists>out lg' fs'. Logger_Output arg0 e x lg fs = Some (out, lg', fs') \<and> finite_fs fs' \<and> no_loop lg'"
proof (cases lg)
  case (DefaultL l)
  with assms show ?thesis
    by (cases x) (auto simp: no_loop_def default_Output_def default_Write_def getFileFd_def Let_def split: option.splits prod.splits)
next
  case (BingoL l)
  obtain tag a msg where x: "x = (tag, a, msg)" by (cases x)
  obtain err l' fs' where "Log.Write (le_date e) (le_now e) (log_line (le_time e) tag (le_at e) a msg @ [CHR 0x0A]) l fs
      = Some (err, l', fs')" "finite_fs fs'" "no_loop (BingoL l')"
    using Write_returns assms BingoL by blast
  with BingoL x assms show ?thesis by (simp add: Output_def)
qed (cases x, use assms in simp)

lemma outputs_return:
  "finite_fs (sys_fs s) \<Longrightarrow> no_loop (sys_logger s) \<Longrightarrow>
     \<exists>s'. outputs e xs s = Some s' \<and> finite_fs (sys_fs s') \<and> no_loop (sys_logger s')"
proof (induction xs arbitrary: s)
  case (Cons x xs)
  obtain out lg fs where "Logger_Output (sys_arg0 s) e x (sys_logger s) (sys_fs s) = Some (out, lg, fs)" "finite_fs fs" "no_loop lg"
    using Logger_Output_returns [OF Cons.prems] by blast
  with Cons.IH [of "s\<lparr>sys_logger := lg, sys_fs := fs, stdout := stdout s @ out\<rparr>"] show ?case by simp
qed simp

interpretation log_calls_total: line_sink sys_call "\<lambda>s. finite_fs (sys_fs s) \<and> no_loop (sys_logger s)"
  "\<lambda>_. [] :: unit list" "\<lambda>_. []"
  by unfold_locales (simp add: sys_call_def Let_def outputs_return)

section \<open>Properties\<close>

text \<open>
  C30.  Before a log plugin is set up, when the default log file can be opened, log calls always
  return, and exactly the calls that pass the level filter, in order, are lines at the end of that
  file and lines on the standard output; each counter has grown by the number of lines of its level.
\<close>

theorem default_log_lines:
  assumes "sys_logger s = DefaultL l" and "globalLogger (sys_front s) = Some (dl_level l)"
    and "dl_fileFd l = None" and "\<not> denied (sys_fs s) (default_path (sys_arg0 s))"
  shows "\<exists>s'. run_opt sys_call cs s = Some s'
    \<and> contents_of (sys_fs s') (default_path (sys_arg0 s))
        = contents_of (sys_fs s) (default_path (sys_arg0 s))
          @ concat (map (\<lambda>x. x @ [CHR 0x0A]) (concat (map (default_lines (dl_level l)) cs)))
    \<and> stdout s' = stdout s @ concat (map (default_lines (dl_level l)) cs)
    \<and> counter k (sys_front s')
        = counter k (sys_front s) + of_nat (length (filter (\<lambda>c. passes (dl_level l) c \<and> fst c = k) (map snd cs)))"
proof -
  have r: "with_default (dl_level l) (sys_arg0 s) True s" "with_default (dl_level l) (sys_arg0 s) False s"
    using assms by (simp_all add: with_default_def)
  obtain s' where s': "run_opt sys_call cs s = Some s'"
    "contents_of (sys_fs s') (default_path (sys_arg0 s))
      = contents_of (sys_fs s) (default_path (sys_arg0 s)) @ concat (map (default_bytes (dl_level l)) cs)"
    using default_file.run_lines [OF r(1)] by blast
  have "concat (map (default_bytes lv) cs) = concat (map (\<lambda>x. x @ [CHR 0x0A]) (concat (map (default_lines lv) cs)))" for lv
    by (induction cs) (simp_all add: default_bytes_def)
  moreover have "stdout s' = stdout s @ concat (map (default_lines (dl_level l)) cs)"
    using default_console.run_lines [OF r(2), of cs] s'(1) by auto
  moreover have "sys_front s' = fold log_call (map snd cs) (sys_front s)" by (rule run_front [OF s'(1)])
  ultimately show ?thesis
    using s' log_calls_effect [OF assms(2), of "map snd cs" k] by simp
qed

definition log_sys0 :: log_sys where
  "log_sys0 = \<lparr>sys_arg0 = ''svr'', sys_front = log_front0 0, sys_logger = DefaultL newDefaultLogger,
     sys_fs = \<lparr>fs_files = [''svr_default.log'' \<mapsto> (''old'', 3)], denied = (\<lambda>_. False), no_rename = (\<lambda>_. False)\<rparr>, stdout = []\<rparr>"

definition log_env0 :: log_env where
  "log_env0 = \<lparr>le_date = (\<lambda>_. (2024, 1, 2)), le_now = 9, le_time = \<lparr>lt_year = 2024, lt_month = 1, lt_day = 2,
     lt_hour = 3, lt_min = 4, lt_sec = 5, lt_msec = 6\<rparr>, le_at = (''a/b.go'', 1)\<rparr>"

theorem default_log_lines_witness:
  "\<exists>s'. run_opt sys_call [(log_env0, LInfo, None, ''up'')] log_sys0 = Some s'
     \<and> contents_of (sys_fs s') ''svr_default.log'' = ''old'' @ ''[2024-01-02 03:04:05.006] [INFO] up'' @ [CHR 0x0A]
     \<and> counter LInfo (sys_front s') = 1"
proof -
  define cs :: "(log_env \<times> log_level \<times> AcntLogger option \<times> string) list"
    where "cs = [(log_env0, LInfo, None, ''up'')]"
  have "concat (map (default_lines (dl_level newDefaultLogger)) cs) = [''[2024-01-02 03:04:05.006] [INFO] up'']"
    by (simp add: cs_def default_lines_def passes_def levels default_line_def pad_def log_env0_def newDefaultLogger_def
        Itoa.simps digit_char_def char_of_def bit_0) (simp add: numeral_2_eq_2)
  moreover have "default_path (sys_arg0 log_sys0) = ''svr_default.log''"
    by (simp add: default_path_def log_sys0_def)
  moreover have "contents_of (sys_fs log_sys0) ''svr_default.log'' = ''old''"
    by (simp add: contents_of_def log_sys0_def)
  moreover have "counter LInfo (sys_front log_sys0)
      + of_nat (length (filter (\<lambda>c. passes (dl_level newDefaultLogger) c \<and> fst c = LInfo) (map snd cs))) = 1"
    by (simp add: cs_def log_sys0_def log_front0_def passes_def levels newDefaultLogger_def)
  moreover have "sys_logger log_sys0 = DefaultL newDefaultLogger"
    "globalLogger (sys_front log_sys0) = Some (dl_level newDefaultLogger)"
    "dl_fileFd newDefaultLogger = None" "\<not> denied (sys_fs log_sys0) (default_path (sys_arg0 log_sys0))"
    by (simp_all add: log_sys0_def log_front0_def newDefaultLogger_def)
  ultimately show ?thesis
    using default_log_lines [of log_sys0 newDefaultLogger cs LInfo]
    unfolding cs_def [symmetric] by auto
qed

text \<open>With the mock logger every call prints its text, whatever its level.\<close>

lemma mock_log_lines:
  "\<exists>s'. run_opt sys_call cs (MockSetDefaultLogger s) = Some s' \<and> stdout s' = stdout s @ map (\<lambda>(e, k, a, msg). msg) cs"
proof -
  have "sys_logger (MockSetDefaultLogger s) = MockL \<and> globalLogger (sys_front (MockSetDefaultLogger s)) = Some mock_GetLevel"
    by (simp add: MockSetDefaultLogger_def SetLogger_sys_def SetLogger_def)
  from mock_console.run_lines [OF this, of cs]
  have "\<exists>s'. run_opt sys_call cs (MockSetDefaultLogger s) = Some s'
      \<and> stdout s' = stdout s @ concat (map (\<lambda>(e, k, a, msg). [msg]) cs)"
    by (auto simp: MockSetDefaultLogger_def SetLogger_sys_def)
  moreover have "concat (map (\<lambda>(e, k, a, msg). [msg]) cs) = map (\<lambda>(e, k, a, msg). msg) cs"
    by (induction cs) auto
  ultimately show ?thesis by simp
qed

text \<open>
  With a default, mock or synchronous logger a sequence of log calls returns and so does a flush, as
  long as the file system has finitely many files: the search for a free name in a rotation ends.
  For an asynchronous logger, whose callers wait for its write loop, see theory \<open>Log_Async\<close>.
\<close>

lemma log_calls_return:
  assumes "finite (dom (fs_files (sys_fs s)))" and "no_loop (sys_logger s)"
  shows "\<exists>s'. run_opt sys_call cs s = Some s' \<and> Log_Sync e s' \<noteq> None"
proof -
  obtain s' where s': "run_opt sys_call cs s = Some s'" "no_loop (sys_logger s')"
    using log_calls_total.run_lines [of s cs] assms by blast
  then have "Log_Sync e s' \<noteq> None"
    by (auto simp: Log_Sync_def Sync_def no_loop_def default_Sync_def split: Logger.splits prod.splits)
  with s' show ?thesis by blast
qed

end
