(* ===== verification/Res.thy ===== *)
theory Res
  imports Mango_Prelude
begin

text \<open>
  The resource tables of \<^verbatim>\<open>src/server_data/res\<close>: tables of configuration rows (\<^verbatim>\<open>res.go\<close>), the table
  of all tables (\<^verbatim>\<open>res_mgr.go\<close>) and the loader \<^verbatim>\<open>xres/xres_loader.go\<close>.  Reading a file, decoding
  the protobuf container and a row, and reading a field by reflection are arguments (the record
  \<open>res_env\<close>); \<open>'w\<close> is what the \<open>PostFunc\<close> hooks act on.
\<close>

section \<open>Tables\<close>

record 'msg ResTable =
  items :: "(int \<times> 'msg) list"
  hashCode :: string

definition NewResTable :: "'msg ResTable" where
  "NewResTable = \<lparr>items = [], hashCode = []\<rparr>"

definition Insert :: "int \<Rightarrow> 'msg \<Rightarrow> 'msg ResTable \<Rightarrow> 'msg ResTable" where
  "Insert key item tbl = tbl\<lparr>items := AList.update key item (items tbl)\<rparr>"

definition Find :: "'msg ResTable \<Rightarrow> int \<Rightarrow> 'msg option" where
  "Find tbl key = map_of (items tbl) key"

definition ForEach :: "('msg \<Rightarrow> 's \<Rightarrow> 's) \<Rightarrow> 'msg ResTable \<Rightarrow> 's \<Rightarrow> 's" where
  "ForEach f tbl s = fold (\<lambda>(_, item). f item) (items tbl) s"

definition Count :: "'msg ResTable \<Rightarrow> nat" where
  "Count tbl = length (items tbl)"

definition HashCode :: "'msg ResTable \<Rightarrow> string" where
  "HashCode tbl = hashCode tbl"

interpretation res_items: last_wins_registry Insert Find
  by unfold_locales (auto simp: Insert_def Find_def fun_eq_iff)

section \<open>Loader\<close>

record ('msg, 'ty, 'w) TableConfig =
  ID :: int
  FileName :: string
  FieldName :: string
  Message :: 'ty
  PostFunc :: "(int \<Rightarrow> 'msg ResTable \<Rightarrow> 'w \<Rightarrow> 'w) option"

record ('msg, 'ty, 'w) Config =
  ResPath :: string
  Tables :: "('msg, 'ty, 'w) TableConfig list"

record ('msg, 'ty) res_env =
  has_field :: "'ty \<Rightarrow> string \<Rightarrow> bool"
  ReadFile :: "string \<Rightarrow> byte list option"
  unmarshal_blocks :: "byte list \<Rightarrow> byte list list option"
  unmarshal_item :: "'ty \<Rightarrow> byte list \<Rightarrow> 'msg option"
  field_Int :: "'msg \<Rightarrow> string \<Rightarrow> int option"

datatype res_err =
    InvalidField string | ReadFileErr | UnmarshalErr | UnmarshalItemErr nat | LoaderNil

text \<open>The conversion \<open>int32(x)\<close>.\<close>

definition int32 :: "int \<Rightarrow> int" where "int32 x = signed_take_bit 31 x"

fun insert_blocks ::
  "('msg, 'ty) res_env \<Rightarrow> 'ty \<Rightarrow> string \<Rightarrow> nat \<Rightarrow> byte list list \<Rightarrow> 'msg ResTable
    \<Rightarrow> (res_err, 'msg ResTable) res" where
  "insert_blocks env ty fieldName k [] tbl = Ok tbl"
| "insert_blocks env ty fieldName k (v # vs) tbl =
     (case unmarshal_item env ty v of
        None \<Rightarrow> Fail (UnmarshalItemErr k)
      | Some mc \<Rightarrow>
          (case field_Int env mc fieldName of
             None \<Rightarrow> Panic
           | Some x \<Rightarrow> insert_blocks env ty fieldName (k + 1) vs (Insert (int32 x) mc tbl)))"

definition loadRes ::
  "('msg, 'ty) res_env \<Rightarrow> string \<Rightarrow> string \<Rightarrow> 'ty \<Rightarrow> (res_err, 'msg ResTable) res" where
  "loadRes env fileName fieldName m =
     (if \<not> has_field env m fieldName then Fail (InvalidField fieldName)
      else case ReadFile env fileName of
             None \<Rightarrow> Fail ReadFileErr
           | Some fileData \<Rightarrow>
               (case unmarshal_blocks env fileData of
                  None \<Rightarrow> Fail UnmarshalErr
                | Some blocks \<Rightarrow> insert_blocks env m fieldName 0 blocks NewResTable))"

type_synonym 'msg tables = "int \<rightharpoonup> 'msg ResTable"

fun load_all ::
  "('msg, 'ty) res_env \<Rightarrow> string \<Rightarrow> ('msg, 'ty, 'w) TableConfig list \<Rightarrow> 'msg tables \<Rightarrow> 'w
    \<Rightarrow> (res_err, 'msg tables) res \<times> 'w" where
  "load_all env path [] tmpTables w = (Ok tmpTables, w)"
| "load_all env path (cfg # cfgs) tmpTables w =
     (case loadRes env (path @ ''/'' @ FileName cfg) (FieldName cfg) (Message cfg) of
        Fail err \<Rightarrow> (Fail err, w)
      | Panic \<Rightarrow> (Panic, w)
      | Ok tbl \<Rightarrow>
          load_all env path cfgs (tmpTables(ID cfg \<mapsto> tbl))
            (case PostFunc cfg of None \<Rightarrow> w | Some f \<Rightarrow> f (ID cfg) tbl w))"

definition ReloadTables ::
  "('msg, 'ty) res_env \<Rightarrow> ('msg, 'ty, 'w) Config \<Rightarrow> 'w \<Rightarrow> (res_err, 'msg tables) res \<times> 'w" where
  "ReloadTables env config w = load_all env (ResPath config) (Tables config) Map.empty w"

definition LoadTables ::
  "('msg, 'ty) res_env \<Rightarrow> ('msg, 'ty, 'w) Config \<Rightarrow> 'w \<Rightarrow> (res_err, 'msg tables) res \<times> 'w" where
  "LoadTables env cfg w = ReloadTables env cfg w"

section \<open>Manager\<close>

record ('msg, 'ty, 'w) res_mgr =
  ld :: "(('msg, 'ty, 'w) Config \<Rightarrow> 'w \<Rightarrow> (res_err, 'msg tables) res \<times> 'w) option"
  tables :: "'msg tables"
  res_world :: 'w

definition SetLoader ::
  "(('msg, 'ty, 'w) Config \<Rightarrow> 'w \<Rightarrow> (res_err, 'msg tables) res \<times> 'w)
    \<Rightarrow> ('msg, 'ty, 'w) res_mgr \<Rightarrow> ('msg, 'ty, 'w) res_mgr" where
  "SetLoader l s = s\<lparr>ld := Some l\<rparr>"

definition ReloadRes ::
  "('msg, 'ty, 'w) Config \<Rightarrow> ('msg, 'ty, 'w) res_mgr \<Rightarrow> (res_err, unit) res \<times> ('msg, 'ty, 'w) res_mgr" where
  "ReloadRes cfg s =
     (case ld s of
        None \<Rightarrow> (Fail LoaderNil, s)
      | Some l \<Rightarrow>
          let (r, w) = l cfg (res_world s); s = s\<lparr>res_world := w\<rparr>
          in case r of
               Fail err \<Rightarrow> (Fail err, s)
             | Panic \<Rightarrow> (Panic, s)
             | Ok tb \<Rightarrow> (Ok (), s\<lparr>tables := tb\<rparr>))"

definition LoadRes ::
  "('msg, 'ty, 'w) Config \<Rightarrow> ('msg, 'ty, 'w) res_mgr \<Rightarrow> (res_err, unit) res \<times> ('msg, 'ty, 'w) res_mgr" where
  "LoadRes cfg s = ReloadRes cfg s"

definition FindTable :: "int \<Rightarrow> ('msg, 'ty, 'w) res_mgr \<Rightarrow> 'msg ResTable option" where
  "FindTable tableID s = tables s tableID"

definition FindRes :: "int \<Rightarrow> int \<Rightarrow> ('msg, 'ty, 'w) res_mgr \<Rightarrow> 'msg option" where
  "FindRes tableID key s = (case tables s tableID of None \<Rightarrow> None | Some t \<Rightarrow> Find t key)"

section \<open>What a load promises\<close>

text \<open>The rows of a table file with their keys, in file order.\<close>

fun rows :: "('msg, 'ty) res_env \<Rightarrow> 'ty \<Rightarrow> string \<Rightarrow> byte list list \<Rightarrow> (int \<times> 'msg) list option" where
  "rows env ty fieldName [] = Some []"
| "rows env ty fieldName (v # vs) =
     (case unmarshal_item env ty v of
        None \<Rightarrow> None
      | Some mc \<Rightarrow>
          (case field_Int env mc fieldName of
             None \<Rightarrow> None
           | Some x \<Rightarrow> map_option (Cons (int32 x, mc)) (rows env ty fieldName vs)))"

definition table_rows ::
  "('msg, 'ty) res_env \<Rightarrow> string \<Rightarrow> ('msg, 'ty, 'w) TableConfig \<Rightarrow> (int \<times> 'msg) list option" where
  "table_rows env path cfg =
     (if \<not> has_field env (Message cfg) (FieldName cfg) then None
      else Option.bind (ReadFile env (path @ ''/'' @ FileName cfg)) (\<lambda>fileData.
           Option.bind (unmarshal_blocks env fileData) (rows env (Message cfg) (FieldName cfg))))"

definition table_of :: "(int \<times> 'msg) list \<Rightarrow> 'msg ResTable" where
  "table_of rs = fold (\<lambda>(k, v). Insert k v) rs NewResTable"

lemma Find_table_of: "Find (table_of rs) key = map_of (rev rs) key"
  using res_items.find_fold_put [of rs NewResTable key]
  by (simp add: table_of_def Find_def NewResTable_def split: option.splits)

lemma insert_blocks_rows:
  "insert_blocks env ty fld k vs tbl = Ok tbl' \<longleftrightarrow>
     (\<exists>rs. rows env ty fld vs = Some rs \<and> tbl' = fold (\<lambda>(k, v). Insert k v) rs tbl)"
  by (induction vs arbitrary: k tbl) (auto split: option.split)

lemma loadRes_rows:
  "loadRes env (path @ ''/'' @ FileName cfg) (FieldName cfg) (Message cfg) = Ok tbl \<longleftrightarrow>
     (\<exists>rs. table_rows env path cfg = Some rs \<and> tbl = table_of rs)"
  by (auto simp: loadRes_def table_rows_def insert_blocks_rows table_of_def split: option.split)

lemma load_all_tables:
  "fst (load_all env path cfgs tmp w) = Ok tb \<longleftrightarrow>
     (\<forall>cfg\<in>set cfgs. table_rows env path cfg \<noteq> None)
   \<and> tb = tmp ++ map_of (rev (map (\<lambda>cfg. (ID cfg, table_of (the (table_rows env path cfg)))) cfgs))"
proof (induction cfgs arbitrary: tmp w)
  case (Cons cfg cfgs)
  show ?case
  proof (cases "loadRes env (path @ ''/'' @ FileName cfg) (FieldName cfg) (Message cfg)")
    case (Ok tbl)
    with loadRes_rows [of env path cfg tbl] have tbl: "table_rows env path cfg \<noteq> None"
      "tbl = table_of (the (table_rows env path cfg))"
      by auto
    have upd: "(\<lambda>a. if a = k then Some v else m a) = m(k \<mapsto> v)" for k v and m :: "int \<rightharpoonup> 'a ResTable"
      by (simp add: fun_upd_def)
    from Ok tbl Cons.IH show ?thesis by (simp add: map_add_assoc upd)
  qed (use loadRes_rows [of env path cfg] in auto)
qed auto

section \<open>Properties\<close>

text \<open>
  C24.  Reloading the resource tables is all or nothing: when every table of the configuration
  loads, a lookup afterwards finds exactly the last row of the last configured table with that
  id and key; when the load fails, the tables are the ones from before.
\<close>

theorem reload_all_or_nothing:
  assumes "ld s = Some (LoadTables env)" and "ReloadRes cfg s = (r, s')"
  shows "if r = Ok ()
    then FindRes tableID key s' =
      Option.bind (map_of (rev (map (\<lambda>c. (ID c, table_rows env (ResPath cfg) c)) (Tables cfg))) tableID)
        (\<lambda>rs. map_of (rev (the rs)) key)
    else tables s' = tables s"
proof -
  obtain r0 w where l: "load_all env (ResPath cfg) (Tables cfg) Map.empty (res_world s) = (r0, w)"
    by fastforce
  show ?thesis
  proof (cases r0)
    case (Ok tb)
    let ?tab = "\<lambda>rs. table_of (the rs)"
    have tb: "tb = map_of (rev (map (\<lambda>c. (ID c, ?tab (table_rows env (ResPath cfg) c))) (Tables cfg)))"
      using load_all_tables [of env "ResPath cfg" "Tables cfg" Map.empty "res_world s" tb] Ok l by simp
    have "rev (map (\<lambda>c. (ID c, ?tab (table_rows env (ResPath cfg) c))) (Tables cfg))
      = map (\<lambda>(k, v). (k, ?tab v)) (rev (map (\<lambda>c. (ID c, table_rows env (ResPath cfg) c)) (Tables cfg)))"
      by (simp add: rev_map comp_def)
    then have "tb tableID = map_option ?tab
        (map_of (rev (map (\<lambda>c. (ID c, table_rows env (ResPath cfg) c)) (Tables cfg))) tableID)"
      by (simp add: tb map_of_map)
    then have "FindRes tableID key (s\<lparr>res_world := w, tables := tb\<rparr>) =
      Option.bind (map_of (rev (map (\<lambda>c. (ID c, table_rows env (ResPath cfg) c)) (Tables cfg))) tableID)
        (\<lambda>rs. map_of (rev (the rs)) key)"
      by (simp add: FindRes_def Find_table_of split: option.split)
    with assms l Ok show ?thesis
      by (auto simp: ReloadRes_def LoadTables_def ReloadTables_def)
  qed (use assms l in \<open>auto simp: ReloadRes_def LoadTables_def ReloadTables_def\<close>)
qed

definition demo_res_env :: "(nat, unit) res_env" where
  "demo_res_env = \<lparr>has_field = (\<lambda>_ _. True), ReadFile = (\<lambda>p. if p = ''d/items'' then Some [1, 2, 1] else None),
     unmarshal_blocks = (\<lambda>bs. Some (map (\<lambda>b. [b]) bs)),
     unmarshal_item = (\<lambda>_ bs. case bs of [b] \<Rightarrow> Some (unat b) | _ \<Rightarrow> None),
     field_Int = (\<lambda>m _. Some (int m * 10))\<rparr>"

theorem reload_all_or_nothing_witness:
  "FindRes 7 20 (snd (ReloadRes \<lparr>ResPath = ''d'', Tables = [\<lparr>ID = 7, FileName = ''items'', FieldName = ''id'',
       Message = (), PostFunc = None\<rparr>]\<rparr>
     \<lparr>ld = Some (LoadTables demo_res_env), tables = Map.empty, res_world = ()\<rparr>)) = Some 2"
proof -
  let ?cfg = "\<lparr>ResPath = ''d'', Tables = [\<lparr>ID = 7, FileName = ''items'', FieldName = ''id'',
       Message = (), PostFunc = None\<rparr>]\<rparr>"
  let ?s = "\<lparr>ld = Some (LoadTables demo_res_env), tables = Map.empty, res_world = ()\<rparr>"
  obtain s' where "ReloadRes ?cfg ?s = (Ok (), s')"
    by (simp add: ReloadRes_def LoadTables_def ReloadTables_def loadRes_def demo_res_env_def)
  with reload_all_or_nothing [of ?s demo_res_env ?cfg "Ok ()" s' 7 20] show ?thesis
    by (simp add: table_rows_def demo_res_env_def int32_def)
qed

end
