(* ===== verification/Mq.thy ===== *)
theory Mq
  imports Go_Strconv
begin

text \<open>
  The message queue plugin of \<^verbatim>\<open>src/plugin/mq\<close>: its configuration types, the event bus of
  \<^verbatim>\<open>event.go\<close>, and two mechanisms that the kafka and pulsar clients share line by line: lists of
  pointers to interceptors, and the loops that make a reader or writer for each configuration.
  Pointers are numbers; an allocation takes the next number.
\<close>

section \<open>Configuration and messages\<close>

record ReaderConfig =
  rc_Topic :: "string list"
  AutoCommit :: bool
  TopicPattern :: string
  OffsetReset :: string
  ReaderName :: string
  StartOffset :: int
  SubscriptionType :: int
  rc_Partition :: int
  rc_Properties :: "string \<rightharpoonup> string"

record 'msg WriterConfig =
  WriterName :: string
  wc_Topic :: string
  Balancer :: "('msg \<Rightarrow> int list \<Rightarrow> int) option"
  Batch :: bool
  MaxAttempts :: int
  BatchSize :: nat
  BatchBytes :: nat
  WriteTimeout :: int
  wc_Properties :: "string \<rightharpoonup> string"

record ClientConfig =
  Url :: string
  cc_LogPath :: string

record ReactorConfig =
  re_Url :: string
  ReactorName :: string

record 'msg MQConfig =
  mq_ReaderConfig :: "ReaderConfig list"
  mq_WriterConfig :: "'msg WriterConfig list"
  mq_ClientConfig :: ClientConfig
  mq_ReactorConfig :: ReactorConfig

text \<open>A message as the interface \<open>mq.Message\<close> shows it.\<close>

record Message =
  Key :: string
  MetaInfo :: "(string \<times> string) list"
  PayLoad :: "byte list"
  SeqID :: int
  Topic :: string
  Partition :: int

section \<open>The event bus\<close>

text \<open>
  A channel is a number, \<open>None\<close> is a nil channel; \<open>delivered\<close> lists what each channel's receiver has
  taken.  Sending on a nil channel blocks for ever.
\<close>

record MQEventBus =
  bus_subscribers :: "string \<rightharpoonup> nat option list"
  delivered :: "nat \<Rightarrow> Message list"

definition NewMQEventBus :: MQEventBus where
  "NewMQEventBus = \<lparr>bus_subscribers = Map.empty, delivered = (\<lambda>_. [])\<rparr>"

definition Subscribe :: "string \<Rightarrow> nat \<Rightarrow> MQEventBus \<Rightarrow> MQEventBus" where
  "Subscribe topic messageChan bus =
     (case bus_subscribers bus topic of
        Some msgChanSlice \<Rightarrow>
          bus\<lparr>bus_subscribers := (bus_subscribers bus)(topic \<mapsto> msgChanSlice @ [Some messageChan])\<rparr>
      | None \<Rightarrow>
          bus\<lparr>bus_subscribers := (bus_subscribers bus)(topic \<mapsto> replicate 10 None)\<rparr>)"

fun send_all :: "nat option list \<Rightarrow> Message \<Rightarrow> MQEventBus \<Rightarrow> MQEventBus option" where
  "send_all [] message bus = Some bus"
| "send_all (None # chans) message bus = None"
| "send_all (Some c # chans) message bus =
     send_all chans message (bus\<lparr>delivered := (delivered bus)(c := delivered bus c @ [message])\<rparr>)"

definition Publish :: "string \<Rightarrow> Message \<Rightarrow> MQEventBus \<Rightarrow> MQEventBus option" where
  "Publish topic message bus =
     send_all (case bus_subscribers bus topic of None \<Rightarrow> [] | Some cs \<Rightarrow> cs) message bus"

text \<open>
  The event loop over what \<open>ReadMessage\<close> returns (\<open>None\<close>: an error), until the context is done;
  \<open>None\<close> when it is stuck or still running.
\<close>

datatype poll = ContextDone | Polled "Message option"

fun RunMQEventLoop :: "poll list \<Rightarrow> MQEventBus \<Rightarrow> MQEventBus option" where
  "RunMQEventLoop [] bus = None"
| "RunMQEventLoop (ContextDone # ps) bus = Some bus"
| "RunMQEventLoop (Polled None # ps) bus = RunMQEventLoop ps bus"
| "RunMQEventLoop (Polled (Some message) # ps) bus =
     (case Publish (Topic message) message bus of
        None \<Rightarrow> None
      | Some bus \<Rightarrow> RunMQEventLoop ps bus)"

lemma subscribed_starts_nil:
  "bus_subscribers (fold (\<lambda>(t, c). Subscribe t c) subs NewMQEventBus) topic =
     (if topic \<in> fst ` set subs
      then Some (replicate 10 None @ map Some (tl (map snd (filter (\<lambda>(t, c). t = topic) subs))))
      else None)"
proof (induction subs rule: rev_induct)
  case (snoc tc subs)
  obtain t c where tc: "tc = (t, c)" by (cases tc)
  have some: "filter (\<lambda>(t, c). t = topic) subs \<noteq> []" if "topic \<in> fst ` set subs"
    using that by (auto simp: filter_empty_conv)
  have none: "filter (\<lambda>(t, c). t = topic) subs = []" if "topic \<notin> fst ` set subs"
    using that by (force simp: filter_empty_conv)
  show ?case
    using snoc tc some none
    by (cases "topic \<in> fst ` set subs") (auto simp: Subscribe_def split: option.split)
qed (simp add: NewMQEventBus_def)

section \<open>Lists of interceptors\<close>

text \<open>
  \<open>AddXInterceptor(interceptor)\<close> appends the address of its own parameter, and
  \<open>RemoveXInterceptor(interceptor)\<close> looks for the address of its own parameter: each call has a
  fresh one.  The list holds the addresses with what they point to.
\<close>

record 'i interceptors =
  inter_list :: "(nat \<times> 'i) list"
  next_addr :: nat

definition no_interceptors :: "'i interceptors" where
  "no_interceptors = \<lparr>inter_list = [], next_addr = 0\<rparr>"

definition add_interceptor :: "'i \<Rightarrow> 'i interceptors \<Rightarrow> 'i interceptors" where
  "add_interceptor i l =
     \<lparr>inter_list = inter_list l @ [(next_addr l, i)], next_addr = next_addr l + 1\<rparr>"

definition find_index :: "nat \<Rightarrow> (nat \<times> 'i) list \<Rightarrow> int" where
  "find_index addr is =
     (if addr \<in> set (map fst is) then int (length (takeWhile (\<lambda>a. a \<noteq> addr) (map fst is))) else - 1)"

text \<open>\<open>append(s[:idx], s[idx+1:]...)\<close>; a negative bound panics.\<close>

definition cut_out :: "int \<Rightarrow> 'a list \<Rightarrow> (unit, 'a list) res" where
  "cut_out idx xs =
     (if idx < 0 \<or> int (length xs) < idx + 1 then Panic
      else Ok (take (nat idx) xs @ drop (nat idx + 1) xs))"

text \<open>The kafka version does not test the index, the pulsar version does.\<close>

definition remove_unchecked :: "'i \<Rightarrow> 'i interceptors \<Rightarrow> (unit, 'i interceptors) res" where
  "remove_unchecked i l =
     (let addr = next_addr l; l = l\<lparr>next_addr := addr + 1\<rparr>
      in res_bind (cut_out (find_index addr (inter_list l)) (inter_list l))
           (\<lambda>is. Ok (l\<lparr>inter_list := is\<rparr>)))"

definition remove_checked :: "'i \<Rightarrow> 'i interceptors \<Rightarrow> (unit, 'i interceptors) res" where
  "remove_checked i l =
     (let addr = next_addr l; l = l\<lparr>next_addr := addr + 1\<rparr>; idx = find_index addr (inter_list l)
      in if idx \<noteq> - 1
         then res_bind (cut_out idx (inter_list l)) (\<lambda>is. Ok (l\<lparr>inter_list := is\<rparr>))
         else Ok l)"

definition interceptors_inv :: "'i interceptors \<Rightarrow> bool" where
  "interceptors_inv l \<longleftrightarrow> (\<forall>a\<in>set (map fst (inter_list l)). a < next_addr l)"

datatype 'i interceptor_op = AddOp 'i | RemoveOp 'i

fun checked_step :: "'i interceptor_op \<Rightarrow> 'i interceptors \<Rightarrow> 'i interceptors option" where
  "checked_step (AddOp i) l = Some (add_interceptor i l)"
| "checked_step (RemoveOp i) l = (case remove_checked i l of Ok l \<Rightarrow> Some l | _ \<Rightarrow> None)"

fun unchecked_step :: "'i interceptor_op \<Rightarrow> 'i interceptors \<Rightarrow> 'i interceptors option" where
  "unchecked_step (AddOp i) l = Some (add_interceptor i l)"
| "unchecked_step (RemoveOp i) l = (case remove_unchecked i l of Ok l \<Rightarrow> Some l | _ \<Rightarrow> None)"

lemma fresh_addr_not_found: "interceptors_inv l \<Longrightarrow> find_index (next_addr l) (inter_list l) = - 1"
  by (auto simp: interceptors_inv_def find_index_def)

lemma remove_checked_noop:
  "interceptors_inv l \<Longrightarrow> remove_checked i l = Ok (l\<lparr>next_addr := Suc (next_addr l)\<rparr>)"
  by (simp add: remove_checked_def fresh_addr_not_found)

lemma remove_unchecked_panics: "interceptors_inv l \<Longrightarrow> remove_unchecked i l = Panic"
  by (simp add: remove_unchecked_def fresh_addr_not_found cut_out_def)

lemma add_interceptor_inv: "interceptors_inv l \<Longrightarrow> interceptors_inv (add_interceptor i l)"
  by (auto simp: interceptors_inv_def add_interceptor_def less_Suc_eq)

lemma bump_addr_inv: "interceptors_inv l \<Longrightarrow> interceptors_inv (l\<lparr>next_addr := Suc (next_addr l)\<rparr>)"
  by (auto simp: interceptors_inv_def less_Suc_eq)

interpretation interceptor_sys: invariant_system checked_step interceptors_inv "\<lambda>_. True"
proof
  fix l :: "'a interceptors" and e :: "'a interceptor_op"
  assume "interceptors_inv l"
  then show "\<exists>l'. checked_step e l = Some l' \<and> interceptors_inv l'"
    by (cases e) (simp_all add: remove_checked_noop add_interceptor_inv bump_addr_inv)
qed

text \<open>What stays in the list: everything ever added, in order.\<close>

fun added :: "'i interceptor_op list \<Rightarrow> 'i list" where
  "added [] = []"
| "added (AddOp i # es) = i # added es"
| "added (RemoveOp i # es) = added es"

lemma checked_run_list:
  assumes "interceptors_inv l" and "run_ops checked_step es l = Some l'"
  shows "map snd (inter_list l') = map snd (inter_list l) @ added es"
  using assms
proof (induction es arbitrary: l)
  case (Cons e es)
  show ?case
  proof (cases e)
    case (AddOp i)
    with Cons.prems Cons.IH [OF add_interceptor_inv [OF Cons.prems(1), of i]] show ?thesis
      by (simp add: add_interceptor_def)
  next
    case (RemoveOp i)
    with Cons.prems Cons.IH [OF bump_addr_inv [OF Cons.prems(1)]] show ?thesis
      by (simp add: remove_checked_noop)
  qed
qed simp

section \<open>One reader or writer per configuration\<close>

text \<open>
  \<open>for _, conf := range confs { r := New(&conf); m[conf.Name] = r }\<close>: the loop variable is one
  variable for the whole loop, so every object made in the loop holds its address.  The store has
  the loop variable at address \<open>addr\<close>.
\<close>

fun make_each ::
  "nat \<Rightarrow> ('c \<Rightarrow> string) \<Rightarrow> 'c list \<Rightarrow> (nat \<Rightarrow> 'c) \<Rightarrow> (string \<rightharpoonup> nat)
    \<Rightarrow> (nat \<Rightarrow> 'c) \<times> (string \<rightharpoonup> nat)" where
  "make_each addr name [] store objs = (store, objs)"
| "make_each addr name (conf # confs) store objs =
     make_each addr name confs (store(addr := conf)) (objs(name conf \<mapsto> addr))"

text \<open>The configuration an object of the map works with, after the loop.\<close>

definition config_of :: "(nat \<Rightarrow> 'c) \<times> (string \<rightharpoonup> nat) \<Rightarrow> string \<Rightarrow> 'c option" where
  "config_of so n = map_option (fst so) (snd so n)"

lemma make_each_store:
  "fst (make_each addr name confs store objs) addr = last (store addr # confs)"
  by (induction confs arbitrary: store objs) auto

lemma make_each_objs:
  "snd (make_each addr name confs store objs) n =
     (if n \<in> name ` set confs then Some addr else objs n)"
  by (induction confs arbitrary: store objs) auto

lemma make_each_config:
  assumes "c \<in> set confs"
  shows "config_of (make_each addr name confs store Map.empty) (name c) = Some (last confs)"
proof -
  from assms have "confs \<noteq> []" by auto
  with assms show ?thesis
    by (simp add: config_of_def make_each_store make_each_objs)
qed

section \<open>Properties\<close>

text \<open>
  The event bus loses its subscribers: the first subscription to a topic is replaced by ten
  nil channels, so after any subscriptions of which at least one is for the topic, publishing to
  it blocks for ever.
\<close>

theorem bus_publish_blocks:
  assumes "topic \<in> fst ` set subs"
  shows "Publish topic message (fold (\<lambda>(t, c). Subscribe t c) subs NewMQEventBus) = None"
  using assms subscribed_starts_nil [of subs topic]
  by (simp add: Publish_def replicate_Suc numeral_eq_Suc)

theorem bus_publish_blocks_witness:
  "Publish ''t'' \<lparr>Key = ''k'', MetaInfo = [], PayLoad = [1], SeqID = 0, Topic = ''t'', Partition = 0\<rparr>
     (Subscribe ''t'' 4 NewMQEventBus) = None"
  using bus_publish_blocks [of "''t''" "[(''t'', 4)]"
      "\<lparr>Key = ''k'', MetaInfo = [], PayLoad = [1], SeqID = 0, Topic = ''t'', Partition = 0\<rparr>"]
  by simp

text \<open>
  Interceptors are never removed: in any history of additions and removals the checked
  removal (pulsar) leaves the list of all additions, and the unchecked removal (kafka) panics
  whatever has been added.
\<close>

theorem interceptors_never_removed:
  "\<exists>l. run_ops checked_step es no_interceptors = Some l \<and> map snd (inter_list l) = added es
     \<and> remove_unchecked i (fold add_interceptor xs no_interceptors) = Panic"
proof -
  have inv: "interceptors_inv (no_interceptors :: 'a interceptors)"
    by (simp add: interceptors_inv_def no_interceptors_def)
  have "interceptors_inv (fold add_interceptor xs l)" if "interceptors_inv l" for l :: "'b interceptors"
    using that by (induction xs arbitrary: l) (simp_all add: add_interceptor_inv)
  moreover have "interceptors_inv (no_interceptors :: 'b interceptors)"
    by (simp add: interceptors_inv_def no_interceptors_def)
  ultimately have "remove_unchecked i (fold add_interceptor xs no_interceptors) = Panic"
    by (simp add: remove_unchecked_panics)
  with interceptor_sys.run_returns [OF inv, of es] checked_run_list [OF inv, of es] show ?thesis
    by (auto simp: list_all_iff no_interceptors_def)
qed

end
