(* ===== verification/Kafka.thy ===== *)
theory Kafka
  imports Mq
begin

text \<open>
  The kafka client of \<^verbatim>\<open>src/plugin/mq/kafka\<close>: the settings given to the driver, messages and their
  headers, reader, writer, reactor and client.  The driver (\<^verbatim>\<open>confluent-kafka-go\<close>) is outside: what
  it returns is an argument.  Interceptors run in goroutines of their own; the model lists the
  calls they make.
\<close>

section \<open>Settings\<close>

datatype config_value = CStr string | CBool bool | CInt int

text \<open>A \<open>*kafka.ConfigMap\<close>; \<open>None\<close> is nil.\<close>

type_synonym ConfigMap = "(string \<rightharpoonup> config_value) option"

definition SetKey :: "string \<Rightarrow> config_value \<Rightarrow> ConfigMap \<Rightarrow> ConfigMap" where
  "SetKey k v config = map_option (\<lambda>m. m(k \<mapsto> v)) config"

definition configMap :: "ClientConfig \<Rightarrow> ConfigMap" where
  "configMap config = Some [''bootstrap.servers'' \<mapsto> CStr (Url config)]"

definition withClientConfig :: "ConfigMap \<Rightarrow> ClientConfig \<Rightarrow> ConfigMap" where
  "withClientConfig config clientConfig =
     (if config \<noteq> None then SetKey ''bootstrap.servers'' (CStr (Url clientConfig)) config else config)"

definition withWriterConfig :: "ConfigMap \<Rightarrow> 'msg WriterConfig \<Rightarrow> ConfigMap" where
  "withWriterConfig config writerConfig =
     (if config \<noteq> None
      then let config = (if BatchBytes writerConfig \<noteq> 0
                         then SetKey ''batch.size'' (CInt (int (BatchBytes writerConfig))) config else config);
               config = (if WriteTimeout writerConfig \<noteq> 0
                         then SetKey ''request.timeout.ms'' (CInt (WriteTimeout writerConfig)) config else config)
           in config
      else config)"

definition withReaderConfig :: "ConfigMap \<Rightarrow> ReaderConfig \<Rightarrow> ConfigMap" where
  "withReaderConfig config readerConfig =
     (if config \<noteq> None
      then let config = SetKey ''enable.auto.commit'' (CBool (AutoCommit readerConfig)) config;
               config = SetKey ''group.id'' (CStr (ReaderName readerConfig)) config;
               config = SetKey ''session.timeout.ms'' (CInt 6000) config;
               config = SetKey ''heartbeat.interval.ms'' (CInt 2000) config
           in (if OffsetReset readerConfig \<noteq> []
               then SetKey ''auto.offset.reset'' (CStr (OffsetReset readerConfig)) config else config)
      else config)"

definition withReactorConfig :: "ConfigMap \<Rightarrow> ReactorConfig \<Rightarrow> ConfigMap" where
  "withReactorConfig config reactorConfig =
     (if config \<noteq> None
      then SetKey ''group.id'' (CStr (ReactorName reactorConfig))
             (SetKey ''bootstrap.servers'' (CStr (re_Url reactorConfig)) config)
      else config)"

section \<open>Messages\<close>

record TopicPartition =
  tp_Topic :: string
  tp_Partition :: int
  tp_Offset :: int
  tp_Error :: "string option"

record kafkaMessage =
  TopicPartition :: TopicPartition
  km_Value :: "byte list"
  km_Key :: string
  Headers :: "(string \<times> string) list"

definition kafkaMessage_Partition :: "kafkaMessage \<Rightarrow> int" where
  "kafkaMessage_Partition k = tp_Partition (TopicPartition k)"

definition kafkaMessage_SeqID :: "kafkaMessage \<Rightarrow> int" where
  "kafkaMessage_SeqID k = tp_Offset (TopicPartition k)"

definition kafkaMessage_SetSeqID :: "int \<Rightarrow> kafkaMessage \<Rightarrow> kafkaMessage" where
  "kafkaMessage_SetSeqID seqID k = k\<lparr>TopicPartition := (TopicPartition k)\<lparr>tp_Offset := seqID\<rparr>\<rparr>"

definition metaInfoToHeaderList :: "(string \<times> string) list \<Rightarrow> (string \<times> string) list" where
  "metaInfoToHeaderList metaInfo = map (\<lambda>(k, v). (k, v)) metaInfo"

text \<open>\<open>string(b)\<close> of a byte is the UTF-8 encoding of the code point with that number.\<close>

definition string_of_byte :: "char \<Rightarrow> string" where
  "string_of_byte c =
     (let n = of_char c :: nat
      in if n < 128 then [c] else [char_of (192 + n div 64), char_of (128 + n mod 64)])"

fun header_loop :: "(string \<times> string) list \<Rightarrow> (string \<times> string) list \<Rightarrow> (unit, (string \<times> string) list) res" where
  "header_loop [] m = Ok m"
| "header_loop ((k, v) # header) m =
     (case v of
        [] \<Rightarrow> Panic
      | c # _ \<Rightarrow> header_loop header (AList.update k (string_of_byte c) m))"

definition headerLisToMeatInfo :: "(string \<times> string) list \<Rightarrow> (unit, (string \<times> string) list) res" where
  "headerLisToMeatInfo header = header_loop header []"

definition to_Message :: "kafkaMessage \<Rightarrow> (unit, Message) res" where
  "to_Message k =
     res_bind (headerLisToMeatInfo (Headers k)) (\<lambda>meta.
       Ok \<lparr>Key = km_Key k, MetaInfo = meta, PayLoad = km_Value k, SeqID = kafkaMessage_SeqID k,
          Topic = tp_Topic (TopicPartition k), Partition = kafkaMessage_Partition k\<rparr>)"

section \<open>Reader\<close>

record 'i kafkaReader =
  kr_config :: ReaderConfig
  readInterceptors :: "'i interceptors"
  committed :: "TopicPartition list list"

definition AddReaderInterceptor :: "'i \<Rightarrow> 'i kafkaReader \<Rightarrow> 'i kafkaReader" where
  "AddReaderInterceptor i r = r\<lparr>readInterceptors := add_interceptor i (readInterceptors r)\<rparr>"

definition RemoveReaderInterceptor :: "'i \<Rightarrow> 'i kafkaReader \<Rightarrow> (unit, 'i kafkaReader) res" where
  "RemoveReaderInterceptor i r =
     res_bind (remove_unchecked i (readInterceptors r)) (\<lambda>l. Ok (r\<lparr>readInterceptors := l\<rparr>))"

text \<open>The calls on a list of messages, message by message.\<close>

definition invokeInterceptors :: "'i interceptors \<Rightarrow> 'm list \<Rightarrow> ('i \<times> 'm) list" where
  "invokeInterceptors l messages =
     concat (map (\<lambda>msg. map (\<lambda>inter. (snd inter, msg)) (inter_list l)) messages)"

datatype read_result = Got kafkaMessage | ReadTimedOut | ReadError string

datatype read_err = OperateTimeOut | DriverError string

text \<open>
  What one \<open>ReadMessage\<close> returns, given what the driver answers and whether the context ends: after
  a timeout of the driver the loop only waits for the context.
\<close>

fun read_loop :: "bool \<Rightarrow> read_result list \<Rightarrow> (read_err + kafkaMessage) option" where
  "read_loop ctx [] = None"
| "read_loop ctx (Got m # rs) = Some (Inr m)"
| "read_loop ctx (ReadError e # rs) = Some (Inl (DriverError e))"
| "read_loop ctx (ReadTimedOut # rs) = (if ctx then Some (Inl OperateTimeOut) else None)"

definition ReadMessage ::
  "bool \<Rightarrow> read_result list \<Rightarrow> 'i kafkaReader \<Rightarrow> ((read_err + kafkaMessage) \<times> ('i \<times> kafkaMessage) list) option" where
  "ReadMessage ctx rs r =
     (case read_loop ctx rs of
        None \<Rightarrow> None
      | Some (Inl err) \<Rightarrow> Some (Inl err, [])
      | Some (Inr m) \<Rightarrow> Some (Inr m, invokeInterceptors (readInterceptors r) [m]))"

definition Ack :: "Message list \<Rightarrow> 'i kafkaReader \<Rightarrow> (unit, ('i \<times> Message) list \<times> 'i kafkaReader) res" where
  "Ack messages r =
     (let partitions = map (\<lambda>msg. \<lparr>tp_Topic = Topic msg, tp_Partition = signed_take_bit 31 (Partition msg),
                                  tp_Offset = int64 (SeqID msg + 1), tp_Error = None\<rparr>) messages
      in if \<not> AutoCommit (kr_config r)
         then if partitions = [] then Panic
              else Ok (invokeInterceptors (readInterceptors r) messages,
                       r\<lparr>committed := committed r @ [partitions]\<rparr>)
         else Ok (invokeInterceptors (readInterceptors r) messages, r))"

section \<open>Writer\<close>

record 'i kafkaWriter =
  kw_config :: "Message WriterConfig"
  writeInterceptors :: "'i interceptors"

definition AddWriterInterceptor :: "'i \<Rightarrow> 'i kafkaWriter \<Rightarrow> 'i kafkaWriter" where
  "AddWriterInterceptor i w = w\<lparr>writeInterceptors := add_interceptor i (writeInterceptors w)\<rparr>"

definition RemoveWriterInterceptor :: "'i \<Rightarrow> 'i kafkaWriter \<Rightarrow> (unit, 'i kafkaWriter) res" where
  "RemoveWriterInterceptor i w =
     res_bind (remove_unchecked i (writeInterceptors w)) (\<lambda>l. Ok (w\<lparr>writeInterceptors := l\<rparr>))"

definition PartitionAny :: int where "PartitionAny = - 1"

definition constructMessage :: "'i kafkaWriter \<Rightarrow> Message \<Rightarrow> (unit, kafkaMessage) res" where
  "constructMessage w msg =
     (let prop = (case wc_Properties (kw_config w) ''partition'' of None \<Rightarrow> [] | Some s \<Rightarrow> s) in
      if prop \<noteq> [] \<and> fst (ParseInt64 prop) < 0 then Panic
      else
        let partitions = (if prop \<noteq> [] then Some (map int [0..<nat (fst (ParseInt64 prop))]) else None);
            m = \<lparr>TopicPartition = \<lparr>tp_Topic = Topic msg, tp_Partition = PartitionAny, tp_Offset = 0, tp_Error = None\<rparr>,
                 km_Value = PayLoad msg, km_Key = Key msg, Headers = metaInfoToHeaderList (MetaInfo msg)\<rparr>;
            m = (if SeqID msg > 0 then kafkaMessage_SetSeqID (SeqID msg) m else m)
        in (case (Balancer (kw_config w), partitions) of
              (Some b, Some ps) \<Rightarrow>
                Ok (m\<lparr>TopicPartition := (TopicPartition m)\<lparr>tp_Partition := signed_take_bit 31 (b msg ps)\<rparr>\<rparr>)
            | _ \<Rightarrow> Ok m))"

text \<open>
  What the \<open>select\<close> of \<open>WriteMessage\<close> gets, turn by turn.  The result comes with the number of
  values taken from the delivery channel: for each of them the interceptors are called.
\<close>

datatype write_event = CtxDone | ErrCh "string option" | Delivered kafkaMessage | OtherEvent

datatype write_err = OperateCancel | ProduceErr string

fun write_wait :: "write_event list \<Rightarrow> nat \<Rightarrow> ((write_err + int) \<times> nat) option" where
  "write_wait [] n = None"
| "write_wait (CtxDone # es) n = Some (Inl OperateCancel, n)"
| "write_wait (ErrCh (Some err) # es) n = Some (Inl (ProduceErr err), n)"
| "write_wait (ErrCh None # es) n = write_wait es n"
| "write_wait (Delivered m # es) n = Some (Inr (tp_Offset (TopicPartition m)), n + 1)"
| "write_wait (OtherEvent # es) n = write_wait es (n + 1)"

text \<open>The result, and the calls of \<open>PreWrite\<close> and of \<open>AfterWrite\<close>.\<close>

definition WriteMessage ::
  "'i kafkaWriter \<Rightarrow> Message \<Rightarrow> write_event list
    \<Rightarrow> (unit, (write_err + int) \<times> ('i \<times> Message) list \<times> ('i \<times> Message) list) res option" where
  "WriteMessage w msg es =
     (case constructMessage w msg of
        Ok kafkaMsg \<Rightarrow>
          map_option (\<lambda>(r, n). Ok (r, invokeInterceptors (writeInterceptors w) [msg],
            concat (replicate n (invokeInterceptors (writeInterceptors w) [msg])))) (write_wait es 0)
      | _ \<Rightarrow> Some Panic)"

text \<open>
  \<open>WriteMessageAsync\<close>: \<open>produce\<close> is the answer of \<open>Produce\<close> and \<open>delivery\<close> the value that comes on
  the channel (\<open>None\<close>: neither a message nor an error).  The result is the error, the calls of
  \<open>PreWrite\<close> and \<open>AfterWrite\<close>, and the arguments of the callback.
\<close>

definition WriteMessageAsync ::
  "'i kafkaWriter \<Rightarrow> Message \<Rightarrow> string option \<Rightarrow> (string + kafkaMessage) option
    \<Rightarrow> (unit, string option \<times> ('i \<times> Message) list \<times> ('i \<times> Message) list
          \<times> (int \<times> (Message + kafkaMessage) \<times> string option) option) res" where
  "WriteMessageAsync w msg produce delivery =
     res_bind (constructMessage w msg) (\<lambda>kafkaMsg.
       let calls = invokeInterceptors (writeInterceptors w) [msg]
       in case produce of
            Some err \<Rightarrow> Ok (Some err, calls, [], None)
          | None \<Rightarrow> Ok (None, calls, calls,
              (case delivery of
                 None \<Rightarrow> None
               | Some (Inr i) \<Rightarrow> Some (tp_Offset (TopicPartition i), Inr i, None)
               | Some (Inl err) \<Rightarrow> Some (SeqID msg, Inl msg, Some err))))"

text \<open>The event loop of a writer, over what its \<open>select\<close> gets, until it is closed.\<close>

datatype writer_event = Event "kafkaMessage option" | CloseEvent

fun runAfterInterceptor :: "'i kafkaWriter \<Rightarrow> writer_event list \<Rightarrow> ('i \<times> kafkaMessage) list option" where
  "runAfterInterceptor w [] = None"
| "runAfterInterceptor w (CloseEvent # es) = Some []"
| "runAfterInterceptor w (Event None # es) = runAfterInterceptor w es"
| "runAfterInterceptor w (Event (Some m) # es) =
     map_option (\<lambda>calls. invokeInterceptors (writeInterceptors w) [m] @ calls) (runAfterInterceptor w es)"

section \<open>Reactor and client\<close>

record ('h, 'c) kafkaReactor =
  kx_config :: ReactorConfig
  handlers :: "string \<rightharpoonup> 'h"
  consumer :: "string \<rightharpoonup> 'c"

definition NewReactor :: "ReactorConfig \<Rightarrow> ('h, 'c) kafkaReactor" where
  "NewReactor config = \<lparr>kx_config = config, handlers = Map.empty, consumer = Map.empty\<rparr>"

text \<open>\<open>newConsumer\<close> is \<open>kafka.NewConsumer\<close> followed by \<open>Subscribe\<close>.\<close>

fun Register ::
  "(ConfigMap \<Rightarrow> string \<Rightarrow> 'c option) \<Rightarrow> string list \<Rightarrow> 'h \<Rightarrow> ('h, 'c) kafkaReactor \<Rightarrow> ('h, 'c) kafkaReactor" where
  "Register newConsumer [] handler k = k"
| "Register newConsumer (topic # topics) handler k =
     (let k = k\<lparr>handlers := (handlers k)(topic \<mapsto> handler)\<rparr>;
          k = (if consumer k topic = None
               then case newConsumer (withReactorConfig (Some Map.empty) (kx_config k)) topic of
                      None \<Rightarrow> k
                    | Some c \<Rightarrow> k\<lparr>consumer := (consumer k)(topic \<mapsto> c)\<rparr>
               else k)
      in Register newConsumer topics handler k)"

text \<open>
  \<open>Run\<close>: each round polls every consumer; the answers come with their topics in the order of the
  map.  The result lists the handler calls up to the stop, \<open>None\<close> is a reactor that still runs.
\<close>

datatype round = Stop | Poll "(string \<times> read_result) list"

fun Run :: "('h, 'c) kafkaReactor \<Rightarrow> round list \<Rightarrow> ('h option \<times> kafkaMessage) list option" where
  "Run k [] = None"
| "Run k (Stop # rs) = Some []"
| "Run k (Poll polled # rs) =
     map_option (\<lambda>calls.
       concat (map (\<lambda>(topic, r). case r of Got msg \<Rightarrow> [(handlers k topic, msg)] | _ \<Rightarrow> [])
         (filter (\<lambda>(topic, r). consumer k topic \<noteq> None) polled)) @ calls) (Run k rs)"

text \<open>
  \<open>kafkaContext.Err\<close> and \<open>kafkaContext.Value\<close> call themselves; \<open>None\<close> is the call that never returns.
\<close>

partial_function (option) kafkaContext_Err :: "'ctx \<Rightarrow> string option option" where
  "kafkaContext_Err ctx = kafkaContext_Err ctx"

partial_function (option) kafkaContext_Value :: "'ctx \<Rightarrow> 'key \<Rightarrow> 'v option" where
  "kafkaContext_Value ctx key = kafkaContext_Value ctx key"

record ('h, 'c) KafkaClient =
  mqConfig :: "Message MQConfig"
  mqReactor :: "('h, 'c) kafkaReactor"
  mqReader :: "(nat \<Rightarrow> ReaderConfig) \<times> (string \<rightharpoonup> nat)"
  mqWriter :: "(nat \<Rightarrow> Message WriterConfig) \<times> (string \<rightharpoonup> nat)"

text \<open>
  \<open>reader_ok\<close> and \<open>writer_ok\<close> say for which settings the driver makes a consumer or a producer; the
  first failure ends \<open>NewClient\<close>.
\<close>

definition NewReader :: "(ConfigMap \<Rightarrow> bool) \<Rightarrow> Message MQConfig \<Rightarrow> ReaderConfig \<Rightarrow> bool" where
  "NewReader reader_ok conf rc =
     reader_ok (withReaderConfig (withClientConfig (Some Map.empty) (mq_ClientConfig conf)) rc)"

definition NewWriter :: "(ConfigMap \<Rightarrow> bool) \<Rightarrow> Message MQConfig \<Rightarrow> Message WriterConfig \<Rightarrow> bool" where
  "NewWriter writer_ok conf wc =
     writer_ok (withWriterConfig (withClientConfig (Some Map.empty) (mq_ClientConfig conf)) wc)"

definition NewClient ::
  "(ConfigMap \<Rightarrow> bool) \<Rightarrow> (ConfigMap \<Rightarrow> bool) \<Rightarrow> (nat \<Rightarrow> ReaderConfig) \<Rightarrow> (nat \<Rightarrow> Message WriterConfig)
    \<Rightarrow> Message MQConfig \<Rightarrow> ('h, 'c) KafkaClient option" where
  "NewClient reader_ok writer_ok rstore wstore conf =
     (if list_all (NewReader reader_ok conf) (mq_ReaderConfig conf)
         \<and> list_all (NewWriter writer_ok conf) (mq_WriterConfig conf)
      then Some \<lparr>mqConfig = conf, mqReactor = NewReactor (mq_ReactorConfig conf),
                mqReader = make_each 0 ReaderName (mq_ReaderConfig conf) rstore Map.empty,
                mqWriter = make_each 0 WriterName (mq_WriterConfig conf) wstore Map.empty\<rparr>
      else None)"

text \<open>The configuration that \<open>GetReader(name)\<close> and \<open>GetWriter(name)\<close> work with; \<open>None\<close> is a nil object.\<close>

definition reader_config :: "('h, 'c) KafkaClient \<Rightarrow> string \<Rightarrow> ReaderConfig option" where
  "reader_config p name = config_of (mqReader p) name"

definition writer_config :: "('h, 'c) KafkaClient \<Rightarrow> string \<Rightarrow> Message WriterConfig option" where
  "writer_config p name = config_of (mqWriter p) name"

section \<open>Facts\<close>

lemma header_loop_result:
  "header_loop header m =
     (if [] \<in> snd ` set header then Panic
      else Ok (fold (\<lambda>(k, v). AList.update k (string_of_byte (hd v))) header m))"
  by (induction header m rule: header_loop.induct) (auto split: list.split)

lemma kafkaContext_Err_never_returns: "kafkaContext_Err ctx = None"
proof (rule ccontr)
  assume "kafkaContext_Err ctx \<noteq> None"
  then obtain y where "kafkaContext_Err ctx = Some y" by blast
  then show False by (rule kafkaContext_Err.raw_induct [rotated]) blast
qed

lemma kafkaContext_Value_never_returns: "(kafkaContext_Value ctx key :: 'v option) = None"
proof (rule ccontr)
  assume "(kafkaContext_Value ctx key :: 'v option) \<noteq> None"
  then obtain y :: 'v where "kafkaContext_Value ctx key = Some y" by auto
  then show False by (rule kafkaContext_Value.raw_induct [rotated]) blast
qed

lemma update_fold_fresh:
  assumes "distinct (map fst header)" and "set (map fst header) \<inter> set (map fst m) = {}"
  shows "fold (\<lambda>(k, v). AList.update k (f v)) header m = m @ map (\<lambda>(k, v). (k, f v)) header"
  using assms
proof (induction header arbitrary: m)
  case (Cons kv header)
  obtain k v where kv: "kv = (k, v)" by (cases kv)
  with Cons.prems have "AList.update k (f v) m = m @ [(k, f v)]"
    by (intro AList_update_fresh) auto
  with Cons kv show ?case by simp
qed simp

section \<open>Properties\<close>

text \<open>
  The meta information of a message does not survive kafka: reading back the headers made
  from it panics when some value is empty, and otherwise keeps of every value only its first
  byte.
\<close>

theorem kafka_headers_keep_first_byte:
  assumes "distinct (map fst metaInfo)"
  shows "headerLisToMeatInfo (metaInfoToHeaderList metaInfo) =
    (if [] \<in> snd ` set metaInfo then Panic
     else Ok (map (\<lambda>(k, v). (k, string_of_byte (hd v))) metaInfo))"
proof -
  have "metaInfoToHeaderList metaInfo = metaInfo" by (simp add: metaInfoToHeaderList_def case_prod_beta)
  with update_fold_fresh [of metaInfo "[]" "\<lambda>v. string_of_byte (hd v)"] assms show ?thesis
    by (simp add: headerLisToMeatInfo_def header_loop_result)
qed

theorem kafka_headers_keep_first_byte_witness:
  "headerLisToMeatInfo (metaInfoToHeaderList [(''trace'', ''abc'')]) = Ok [(''trace'', ''a'')]"
  using kafka_headers_keep_first_byte [of "[(''trace'', ''abc'')]"] by (simp add: string_of_byte_def)

text \<open>
  Every reader and every writer that the client makes from its configuration holds the
  address of the one loop variable: afterwards all readers have the last reader configuration
  and all writers the last writer configuration, whatever their names.
\<close>

theorem kafka_readers_share_last_config:
  assumes "NewClient reader_ok writer_ok rstore wstore conf = Some p"
  shows "(\<forall>rc\<in>set (mq_ReaderConfig conf). reader_config p (ReaderName rc) = Some (last (mq_ReaderConfig conf)))
    \<and> (\<forall>wc\<in>set (mq_WriterConfig conf). writer_config p (WriterName wc) = Some (last (mq_WriterConfig conf)))"
proof -
  from assms have "mqReader p = make_each 0 ReaderName (mq_ReaderConfig conf) rstore Map.empty"
    and "mqWriter p = make_each 0 WriterName (mq_WriterConfig conf) wstore Map.empty"
    by (auto simp: NewClient_def split: if_splits)
  then show ?thesis by (simp add: reader_config_def writer_config_def make_each_config)
qed

definition demo_reader :: "string \<Rightarrow> bool \<Rightarrow> ReaderConfig" where
  "demo_reader n auto = \<lparr>rc_Topic = [n], AutoCommit = auto, TopicPattern = [], OffsetReset = [], ReaderName = n,
     StartOffset = 0, SubscriptionType = 0, rc_Partition = 0, rc_Properties = Map.empty\<rparr>"

definition demo_mq :: "Message MQConfig" where
  "demo_mq = \<lparr>mq_ReaderConfig = [demo_reader ''a'' True, demo_reader ''b'' False], mq_WriterConfig = [],
     mq_ClientConfig = \<lparr>Url = ''u'', cc_LogPath = []\<rparr>, mq_ReactorConfig = \<lparr>re_Url = ''u'', ReactorName = ''r''\<rparr>\<rparr>"

theorem kafka_readers_share_last_config_witness:
  "reader_config (the (NewClient (\<lambda>_. True) (\<lambda>_. True) (\<lambda>_. demo_reader [] False) (\<lambda>_. undefined) demo_mq
       :: (unit, unit) KafkaClient option)) ''a'' = Some (demo_reader ''b'' False)"
  using kafka_readers_share_last_config [of "\<lambda>_. True" "\<lambda>_. True" "\<lambda>_. demo_reader [] False" "\<lambda>_. undefined"
      demo_mq "the (NewClient (\<lambda>_. True) (\<lambda>_. True) (\<lambda>_. demo_reader [] False) (\<lambda>_. undefined) demo_mq
       :: (unit, unit) KafkaClient option)"]
  by (simp add: NewClient_def NewReader_def demo_mq_def demo_reader_def)

end
