(* ===== verification/Pulsar.thy ===== *)
theory Pulsar
  imports Mq
begin

text \<open>
  The pulsar client of \<^verbatim>\<open>src/plugin/mq/pulsar\<close>: options given to the driver, messages, the lazily
  opened reader and writer, and the client.  What the driver (\<^verbatim>\<open>pulsar-client-go\<close>) and the file
  system answer is an argument.
\<close>

section \<open>Options\<close>

record ConsumerOptions =
  co_Topic :: string
  Topics :: "string list"
  TopicsPattern :: string
  SubscriptionName :: string
  co_Type :: int
  co_Properties :: "string \<rightharpoonup> string"

definition consumerOptions :: "ReaderConfig \<Rightarrow> ConsumerOptions" where
  "consumerOptions config =
     (let res = \<lparr>co_Topic = [], Topics = [], TopicsPattern = [], SubscriptionName = [], co_Type = 0,
                co_Properties = Map.empty\<rparr>;
          res = (case rc_Topic config of
                   [t] \<Rightarrow> res\<lparr>co_Topic := t\<rparr>
                 | ts \<Rightarrow> res\<lparr>Topics := ts\<rparr>)
      in res\<lparr>TopicsPattern := TopicPattern config, SubscriptionName := ReaderName config,
             co_Type := SubscriptionType config, co_Properties := rc_Properties config\<rparr>)"

record 'msg ProducerOptions =
  po_Topic :: string
  po_Name :: string
  po_Properties :: "string \<rightharpoonup> string"
  BatchingMaxMessages :: nat
  BatchingMaxSize :: nat
  MessageRouter :: "('msg \<Rightarrow> nat \<Rightarrow> int) option"
  SendTimeout :: int
  CompressionType :: int

definition BalancerWrapper :: "('msg \<Rightarrow> int list \<Rightarrow> int) \<Rightarrow> 'msg \<Rightarrow> nat \<Rightarrow> int" where
  "BalancerWrapper balancer message numPartitions = balancer message (map int [0..<numPartitions])"

definition producerOption :: "'msg WriterConfig \<Rightarrow> 'msg ProducerOptions" where
  "producerOption config =
     (let cfg = \<lparr>po_Topic = wc_Topic config, po_Name = WriterName config, po_Properties = wc_Properties config,
                BatchingMaxMessages = 0, BatchingMaxSize = 0, MessageRouter = None, SendTimeout = 0,
                CompressionType = 0\<rparr>;
          cfg = (if BatchSize config > 0 then cfg\<lparr>BatchingMaxMessages := BatchSize config\<rparr> else cfg);
          cfg = (if BatchBytes config > 0 then cfg\<lparr>BatchingMaxSize := BatchBytes config\<rparr> else cfg);
          cfg = (case Balancer config of None \<Rightarrow> cfg
                 | Some b \<Rightarrow> cfg\<lparr>MessageRouter := Some (BalancerWrapper b)\<rparr>);
          cfg = (if WriterName config = [] then cfg\<lparr>po_Name := ''default_producer''\<rparr> else cfg);
          cfg = (if WriteTimeout config \<noteq> 0
                 then cfg\<lparr>SendTimeout := int64 (WriteTimeout config * 1000000000)\<rparr> else cfg);
          ct = (case wc_Properties config ''compression_type'' of None \<Rightarrow> [] | Some s \<Rightarrow> s)
      in if ct \<noteq> [] \<and> snd (ParseInt64 ct) then cfg\<lparr>CompressionType := fst (ParseInt64 ct)\<rparr> else cfg)"

section \<open>Messages\<close>

record pulsarMessage =
  pm_ID :: string
  pm_Key :: string
  pm_Properties :: "(string \<times> string) list"
  pm_Payload :: "byte list"
  pm_Topic :: string

definition pulsarMessage_SeqID :: "pulsarMessage \<Rightarrow> int" where
  "pulsarMessage_SeqID p = 0"

definition pulsarMessage_SetSeqID :: "int \<Rightarrow> pulsarMessage \<Rightarrow> pulsarMessage" where
  "pulsarMessage_SetSeqID seqID p = p"

record ProducerMessage =
  pr_Payload :: "byte list"
  pr_Key :: string
  pr_Properties :: "(string \<times> string) list"
  SequenceID :: "int option"

text \<open>\<open>producerMessage.PayLoad\<close> and \<open>producerMessage.Topic\<close> call themselves.\<close>

partial_function (option) producerMessage_PayLoad :: "ProducerMessage \<Rightarrow> byte list option" where
  "producerMessage_PayLoad p = producerMessage_PayLoad p"

partial_function (option) producerMessage_Topic :: "ProducerMessage \<Rightarrow> string option" where
  "producerMessage_Topic p = producerMessage_Topic p"

definition producerMessage_SeqID :: "ProducerMessage \<Rightarrow> (unit, int) res" where
  "producerMessage_SeqID p = (case SequenceID p of None \<Rightarrow> Panic | Some s \<Rightarrow> Ok s)"

section \<open>Reader\<close>

record 'i pulsarReader =
  rd_consumer :: "(ConsumerOptions \<times> 'i list) option"
  rd_config :: ReaderConfig
  readInterceptor :: "'i interceptors"
  acked :: "string list"
  after_reads :: "'i list list"

definition AddReaderInterceptor :: "'i \<Rightarrow> 'i pulsarReader \<Rightarrow> 'i pulsarReader" where
  "AddReaderInterceptor i p = p\<lparr>readInterceptor := add_interceptor i (readInterceptor p)\<rparr>"

definition RemoveReaderInterceptor :: "'i \<Rightarrow> 'i pulsarReader \<Rightarrow> (unit, 'i pulsarReader) res" where
  "RemoveReaderInterceptor i p =
     res_bind (remove_checked i (readInterceptor p)) (\<lambda>l. Ok (p\<lparr>readInterceptor := l\<rparr>))"

text \<open>
  A message without a driver message inside (\<open>None\<close>) has no id to acknowledge.  \<open>after_reads\<close> lists
  the interceptors called for each acknowledged message.
\<close>

fun Ack :: "pulsarMessage option list \<Rightarrow> 'i pulsarReader \<Rightarrow> (unit, 'i pulsarReader) res" where
  "Ack [] p = Ok p"
| "Ack (None # messages) p = Panic"
| "Ack (Some msg # messages) p = Ack messages (p\<lparr>acked := acked p @ [pm_ID msg],
       after_reads := after_reads p @ (if inter_list (readInterceptor p) = [] then []
         else [map snd (inter_list (readInterceptor p))])\<rparr>)"

definition reader_init ::
  "(ConsumerOptions \<Rightarrow> string option) \<Rightarrow> 'i pulsarReader \<Rightarrow> string option \<times> 'i pulsarReader" where
  "reader_init subscribe p =
     (let cfg = consumerOptions (rd_config p) in
      case subscribe cfg of
        Some err \<Rightarrow> (Some err, p)
      | None \<Rightarrow> (None, p\<lparr>rd_consumer := Some (cfg, map snd (inter_list (readInterceptor p)))\<rparr>))"

text \<open>\<open>received\<close> is what \<open>consumer.Receive\<close> returns.\<close>

definition ReadMessage ::
  "(ConsumerOptions \<Rightarrow> string option) \<Rightarrow> string + pulsarMessage \<Rightarrow> 'i pulsarReader
    \<Rightarrow> (unit, (pulsarMessage option \<times> string option) \<times> 'i pulsarReader) res" where
  "ReadMessage subscribe received p =
     (let (err, p) = (if rd_consumer p = None then reader_init subscribe p else (None, p))
      in case err of
           Some e \<Rightarrow> Ok ((None, Some e), p)
         | None \<Rightarrow>
             let (msg, err) = (case received of Inl e \<Rightarrow> (None, Some e) | Inr m \<Rightarrow> (Some m, None))
             in if AutoCommit (rd_config p)
                then res_bind (Ack [msg] p) (\<lambda>p. Ok ((msg, err), p))
                else Ok ((msg, err), p))"

section \<open>Writer\<close>

record 'i pulsarWriter =
  producer :: "(Message ProducerOptions \<times> 'i list) option"
  wr_config :: "Message WriterConfig"
  writeInterceptor :: "'i interceptors"

definition AddWriterInterceptor :: "'i \<Rightarrow> 'i pulsarWriter \<Rightarrow> 'i pulsarWriter" where
  "AddWriterInterceptor i w = w\<lparr>writeInterceptor := add_interceptor i (writeInterceptor w)\<rparr>"

definition RemoveWriterInterceptor :: "'i \<Rightarrow> 'i pulsarWriter \<Rightarrow> (unit, 'i pulsarWriter) res" where
  "RemoveWriterInterceptor i w =
     res_bind (remove_checked i (writeInterceptor w)) (\<lambda>l. Ok (w\<lparr>writeInterceptor := l\<rparr>))"

definition constructMessage :: "Message \<Rightarrow> ProducerMessage" where
  "constructMessage msg =
     \<lparr>pr_Payload = PayLoad msg, pr_Key = Key msg, pr_Properties = MetaInfo msg,
      SequenceID = (if SeqID msg > 0 then Some (SeqID msg) else None)\<rparr>"

definition writer_init ::
  "(Message ProducerOptions \<Rightarrow> string option) \<Rightarrow> 'i pulsarWriter \<Rightarrow> string option \<times> 'i pulsarWriter" where
  "writer_init create w =
     (let cfg = producerOption (wr_config w) in
      case create cfg of
        Some err \<Rightarrow> (Some err, w)
      | None \<Rightarrow> (None, w\<lparr>producer := Some (cfg, map snd (inter_list (writeInterceptor w)))\<rparr>))"

definition checkProducer ::
  "(Message ProducerOptions \<Rightarrow> string option) \<Rightarrow> 'i pulsarWriter \<Rightarrow> (bool \<times> string option) \<times> 'i pulsarWriter" where
  "checkProducer create w =
     (if producer w = None
      then case writer_init create w of
             (Some err, w) \<Rightarrow> ((False, Some err), w)
           | (None, w) \<Rightarrow> ((True, None), w)
      else ((True, None), w))"

fun split_on :: "char \<Rightarrow> string \<Rightarrow> string \<Rightarrow> string list" where
  "split_on c acc [] = [acc]"
| "split_on c acc (x # xs) = (if x = c then acc # split_on c [] xs else split_on c (acc @ [x]) xs)"

text \<open>What the goroutine puts on the channel; the constant 0 is an \<open>int\<close>, not an \<open>int64\<close>.\<close>

datatype done_value = DoneErr string | DoneInt int | DoneInt64 int

datatype sent = SendFailed string | NilMsgID | MsgID string

definition done_of :: "sent \<Rightarrow> done_value" where
  "done_of r =
     (case r of
        SendFailed e \<Rightarrow> DoneErr e
      | NilMsgID \<Rightarrow> DoneInt 0
      | MsgID s \<Rightarrow>
          let res = split_on (CHR '':'') [] s
          in if length res < 2 then DoneInt 0 else DoneInt64 (fst (ParseInt64 (res ! 1))))"

datatype pulsar_write_err = CheckErr string | CtxErr | SendErr string | UnexpectErr

definition WriteMessage ::
  "(Message ProducerOptions \<Rightarrow> string option) \<Rightarrow> bool \<Rightarrow> sent \<Rightarrow> Message \<Rightarrow> 'i pulsarWriter
    \<Rightarrow> (pulsar_write_err + int) \<times> 'i pulsarWriter" where
  "WriteMessage create ctxDone r msg w =
     (case checkProducer create w of
        ((False, err), w) \<Rightarrow> (Inl (CheckErr (case err of None \<Rightarrow> [] | Some e \<Rightarrow> e)), w)
      | ((True, _), w) \<Rightarrow>
          if ctxDone then (Inl CtxErr, w)
          else (case done_of r of
                  DoneInt64 i \<Rightarrow> (Inr i, w)
                | DoneErr e \<Rightarrow> (Inl (SendErr e), w)
                | DoneInt _ \<Rightarrow> (Inl UnexpectErr, w)))"

definition pulsarCallBackWrapper ::
  "(int \<Rightarrow> ProducerMessage \<Rightarrow> string option \<Rightarrow> 's \<Rightarrow> 's) option \<Rightarrow> ProducerMessage \<Rightarrow> string option \<Rightarrow> 's \<Rightarrow> 's" where
  "pulsarCallBackWrapper callBack message err s =
     (case callBack of
        None \<Rightarrow> s
      | Some f \<Rightarrow> f (case SequenceID message of None \<Rightarrow> 0 | Some q \<Rightarrow> q) message err s)"

text \<open>The error, and what the driver's answer (its error) later does through the callback.\<close>

definition WriteMessageAsync ::
  "(Message ProducerOptions \<Rightarrow> string option) \<Rightarrow> (int \<Rightarrow> ProducerMessage \<Rightarrow> string option \<Rightarrow> 's \<Rightarrow> 's) option
    \<Rightarrow> Message \<Rightarrow> 'i pulsarWriter \<Rightarrow> (string option \<times> (string option \<Rightarrow> 's \<Rightarrow> 's)) \<times> 'i pulsarWriter" where
  "WriteMessageAsync create callBack msg w =
     (case checkProducer create w of
        ((False, err), w) \<Rightarrow> ((err, \<lambda>_ s. s), w)
      | ((True, _), w) \<Rightarrow> ((None, pulsarCallBackWrapper callBack (constructMessage msg)), w))"

section \<open>Client\<close>

record PulsarClient =
  pc_config :: "Message MQConfig"
  pc_Reader :: "(nat \<Rightarrow> ReaderConfig) \<times> (string \<rightharpoonup> nat)"
  pc_Writer :: "(nat \<Rightarrow> Message WriterConfig) \<times> (string \<rightharpoonup> nat)"

text \<open>
  \<open>NewClient\<close>: \<open>create\<close> says which log files \<open>os.Create\<close> can make, \<open>connect\<close> for which url the driver
  gives a client.  The default log path is put in the configuration, but the local copy taken
  before is used.
\<close>

definition NewClient ::
  "(string \<Rightarrow> bool) \<Rightarrow> (string \<Rightarrow> bool) \<Rightarrow> (nat \<Rightarrow> ReaderConfig) \<Rightarrow> (nat \<Rightarrow> Message WriterConfig)
    \<Rightarrow> Message MQConfig \<Rightarrow> PulsarClient option" where
  "NewClient create connect rstore wstore conf =
     (let logPath = cc_LogPath (mq_ClientConfig conf);
          conf = (if logPath = []
                  then conf\<lparr>mq_ClientConfig := (mq_ClientConfig conf)\<lparr>cc_LogPath := ''./log/pulsar-go.log''\<rparr>\<rparr>
                  else conf)
      in if \<not> create logPath then None
         else if \<not> connect (Url (mq_ClientConfig conf)) then None
         else Some \<lparr>pc_config = conf,
                    pc_Reader = make_each 0 ReaderName (mq_ReaderConfig conf) rstore Map.empty,
                    pc_Writer = make_each 0 WriterName (mq_WriterConfig conf) wstore Map.empty\<rparr>)"

definition pulsar_reader_of :: "PulsarClient \<Rightarrow> string \<Rightarrow> 'i pulsarReader option" where
  "pulsar_reader_of c name =
     map_option (\<lambda>cfg. \<lparr>rd_consumer = None, rd_config = cfg, readInterceptor = no_interceptors, acked = [], after_reads = []\<rparr>)
       (config_of (pc_Reader c) name)"

section \<open>Facts\<close>

lemma producerMessage_PayLoad_never_returns: "producerMessage_PayLoad p = None"
proof (rule ccontr)
  assume "producerMessage_PayLoad p \<noteq> None"
  then obtain y where "producerMessage_PayLoad p = Some y" by blast
  then show False by (rule producerMessage_PayLoad.raw_induct [rotated]) blast
qed

text \<open>Without a log path the client is never made, unless a file with an empty name can be created.\<close>

lemma pulsar_default_log_path_fails:
  "cc_LogPath (mq_ClientConfig conf) = [] \<Longrightarrow> \<not> create [] \<Longrightarrow>
     NewClient create connect rstore wstore conf = None"
  by (simp add: NewClient_def)

text \<open>An error of the driver with \<open>AutoCommit\<close> is acknowledged, which panics.\<close>

lemma pulsar_read_error_panics:
  "rd_consumer p \<noteq> None \<Longrightarrow> AutoCommit (rd_config p) \<Longrightarrow> ReadMessage subscribe (Inl e) p = Panic"
  by (auto simp: ReadMessage_def)

section \<open>Properties\<close>

text \<open>
  All readers of a pulsar client subscribe with the last reader configuration: the first
  \<open>ReadMessage\<close> of the reader made for any configured name opens a consumer with the topics and
  the subscription of the last one.
\<close>

theorem pulsar_readers_subscribe_last:
  assumes "NewClient create connect rstore wstore conf = Some c"
    and "rc \<in> set (mq_ReaderConfig conf)" and "\<not> AutoCommit (last (mq_ReaderConfig conf))"
  shows "\<exists>r r' . pulsar_reader_of c (ReaderName rc) = Some r
    \<and> ReadMessage (\<lambda>_. None) (Inr msg) r = Ok ((Some msg, None), r')
    \<and> rd_consumer r' = Some (consumerOptions (last (mq_ReaderConfig conf)), [] :: 'i list)"
proof -
  from assms(1) have "pc_Reader c = make_each 0 ReaderName (mq_ReaderConfig conf) rstore Map.empty"
    by (auto simp: NewClient_def Let_def split: if_splits)
  with make_each_config [OF assms(2)] assms(3) show ?thesis
    by (simp add: pulsar_reader_of_def ReadMessage_def reader_init_def no_interceptors_def)
qed

definition pulsar_demo :: "Message MQConfig" where
  "pulsar_demo = \<lparr>mq_ReaderConfig =
     [\<lparr>rc_Topic = [''a''], AutoCommit = False, TopicPattern = [], OffsetReset = [], ReaderName = ''a'',
       StartOffset = 0, SubscriptionType = 0, rc_Partition = 0, rc_Properties = Map.empty\<rparr>,
      \<lparr>rc_Topic = [''b''], AutoCommit = False, TopicPattern = [], OffsetReset = [], ReaderName = ''b'',
       StartOffset = 0, SubscriptionType = 0, rc_Partition = 0, rc_Properties = Map.empty\<rparr>],
     mq_WriterConfig = [], mq_ClientConfig = \<lparr>Url = ''u'', cc_LogPath = ''p.log''\<rparr>,
     mq_ReactorConfig = \<lparr>re_Url = [], ReactorName = []\<rparr>\<rparr>"

theorem pulsar_readers_subscribe_last_witness:
  "\<exists>r r'. pulsar_reader_of (the (NewClient (\<lambda>_. True) (\<lambda>_. True) (\<lambda>_. undefined) (\<lambda>_. undefined) pulsar_demo)) ''a''
       = Some r
     \<and> ReadMessage (\<lambda>_. None) (Inr \<lparr>pm_ID = ''i'', pm_Key = [], pm_Properties = [], pm_Payload = [], pm_Topic = ''b''\<rparr>) r
         = Ok ((Some \<lparr>pm_ID = ''i'', pm_Key = [], pm_Properties = [], pm_Payload = [], pm_Topic = ''b''\<rparr>, None), r')
     \<and> rd_consumer r' = Some (consumerOptions (last (mq_ReaderConfig pulsar_demo)), [] :: nat list)"
  using pulsar_readers_subscribe_last [of "\<lambda>_. True" "\<lambda>_. True" "\<lambda>_. undefined" "\<lambda>_. undefined" pulsar_demo
      "the (NewClient (\<lambda>_. True) (\<lambda>_. True) (\<lambda>_. undefined) (\<lambda>_. undefined) pulsar_demo)"
      "hd (mq_ReaderConfig pulsar_demo)"]
  by (simp add: NewClient_def pulsar_demo_def)

text \<open>
  A message that was sent without an id, or with one that has no colon, is reported as an unexpected
  error: the zero that stands for its offset is an \<open>int\<close>, and only an \<open>int64\<close> is taken as a result.
\<close>

lemma split_on_without: "c \<notin> set s \<Longrightarrow> length (split_on c acc s) = 1"
  by (induction s arbitrary: acc) auto

lemma pulsar_sent_reported_failed:
  assumes "checkProducer create w = ((True, e), w')"
    and "r = NilMsgID \<or> (\<exists>s. r = MsgID s \<and> CHR '':'' \<notin> set s)"
  shows "WriteMessage create False r msg w = (Inl UnexpectErr, w')"
  using assms split_on_without by (auto simp: WriteMessage_def done_of_def Let_def)

end
