(* ===== verification/Mysql.thy ===== *)
theory Mysql
  imports Pbsupport
begin

text \<open>
  The MySQL plugin \<^verbatim>\<open>src/plugin/db/mysql\<close>: the SQL texts and parameters built from a message
  descriptor (\<^verbatim>\<open>pb2sql.go\<close>), the operations on records (\<^verbatim>\<open>simple.go\<close>), table creation (\<^verbatim>\<open>table.go\<close>)
  and opening the database (\<^verbatim>\<open>mysql.go\<close>).  The SQL driver is an argument (the record
  \<open>sql_driver\<close>); \<open>'s\<close> is the state of the database.  A Go map of columns is an association list in
  its iteration order.
\<close>

section \<open>Table definitions\<close>

definition quoted :: "string \<Rightarrow> string \<Rightarrow> string" where
  "quoted name rest = [CHR 0x60] @ name @ [CHR 0x60] @ rest"

text \<open>The column type of a kind; a kind that the table of the source lacks gives no text.\<close>

fun FdKindToSQLCreate :: "kind \<Rightarrow> string option" where
  "FdKindToSQLCreate BoolKind = Some '' tinyint NOT NULL DEFAULT 0''"
| "FdKindToSQLCreate EnumKind = Some '' int NOT NULL DEFAULT 0''"
| "FdKindToSQLCreate Int32Kind = Some '' int NOT NULL DEFAULT 0''"
| "FdKindToSQLCreate Sint32Kind = Some '' int NOT NULL DEFAULT 0''"
| "FdKindToSQLCreate Uint32Kind = Some '' int UNSIGNED NOT NULL DEFAULT 0''"
| "FdKindToSQLCreate Int64Kind = Some '' bigint NOT NULL DEFAULT 0''"
| "FdKindToSQLCreate Sint64Kind = Some '' bigint NOT NULL DEFAULT 0''"
| "FdKindToSQLCreate Uint64Kind = Some '' bigint UNSIGNED NOT NULL DEFAULT 0''"
| "FdKindToSQLCreate Sfixed32Kind = Some '' int NOT NULL DEFAULT 0''"
| "FdKindToSQLCreate Fixed32Kind = Some '' int NOT NULL DEFAULT 0''"
| "FdKindToSQLCreate FloatKind = Some '' float NOT NULL DEFAULT 0''"
| "FdKindToSQLCreate Sfixed64Kind = Some '' bigint NOT NULL DEFAULT 0''"
| "FdKindToSQLCreate Fixed64Kind = None"
| "FdKindToSQLCreate DoubleKind = Some '' double NOT NULL DEFAULT 0''"
| "FdKindToSQLCreate StringKind = Some '' text''"
| "FdKindToSQLCreate BytesKind = Some '' blob''"
| "FdKindToSQLCreate MessageKind = Some '' blob''"
| "FdKindToSQLCreate GroupKind = Some '' blob''"

record TableInfo =
  TableName :: string
  DescFullName :: string
  PrimaryKeys :: string
  CreateSQLs :: "string list"

datatype db_err =
    NoPrimKey string | MarshalMapFailed | BuildSql string | SqlErr string | ScanErr string
  | RecordNotExist | Affect0 | PbErr pb_err | ConfigErr string

text \<open>
  The text of a column.  An absent format string is the empty format: \<open>Sprintf\<close> then only reports
  the surplus argument.
\<close>

definition columnSQL :: "string set \<Rightarrow> field \<Rightarrow> string" where
  "columnSQL keysMap fd =
     (if IsFdMarshalToBlob fd then quoted (fd_Name fd) '' blob''
      else if fd_Kind fd = StringKind \<and> fd_Name fd \<in> keysMap
      then quoted (fd_Name fd) '' varchar(255) NOT NULL''
      else case FdKindToSQLCreate (fd_Kind fd) of
             Some rest \<Rightarrow> quoted (fd_Name fd) rest
           | None \<Rightarrow> ''%!(EXTRA protoreflect.Name='' @ fd_Name fd @ '')'')"

definition newTableInfo :: "msg_desc \<Rightarrow> (db_err, TableInfo) res" where
  "newTableInfo msgDesc =
     (let primkeys = FindPrimaryKey msgDesc
      in if primkeys = [] then Fail (NoPrimKey (d_FullName msgDesc))
         else Ok \<lparr>TableName = d_Name msgDesc, DescFullName = d_FullName msgDesc,
                PrimaryKeys = join '','' primkeys,
                CreateSQLs = map (columnSQL (BuildKeyFieldsMap msgDesc)) (d_Fields msgDesc)\<rparr>)"

section \<open>Statements\<close>

record sqlPkg =
  str :: string
  params :: "string list"

definition assign :: "string \<Rightarrow> string" where
  "assign k = k @ ''=?''"

definition keyClause :: "msg_desc \<Rightarrow> string" where
  "keyClause desc = join '','' (map assign (FindPrimaryKey desc))"

definition keyParams :: "(field \<Rightarrow> string) \<Rightarrow> msg_desc \<Rightarrow> message \<Rightarrow> (db_err, string list) res" where
  "keyParams blobStr desc rf = key_values blobStr rf (FindFds desc (FindPrimaryKey desc))"

definition SelectFieldsPkg ::
  "(field \<Rightarrow> string) \<Rightarrow> msg_desc \<Rightarrow> message \<Rightarrow> string list \<Rightarrow> (db_err, sqlPkg) res" where
  "SelectFieldsPkg blobStr desc rf flds =
     res_bind (keyParams blobStr desc rf) (\<lambda>ps.
       Ok \<lparr>str = ''select '' @ (if flds \<noteq> [] then join '','' flds else ''*'') @ '' from '' @ d_Name desc
             @ '' where '' @ keyClause desc, params = ps\<rparr>)"

definition ReplacePkg :: "msg_desc \<Rightarrow> (string \<times> string) list \<Rightarrow> sqlPkg option" where
  "ReplacePkg desc m =
     (if m = [] then None
      else Some \<lparr>str = ''replace into '' @ d_Name desc @ '' set '' @ join '','' (map (\<lambda>(k, v). assign k) m),
             params = map snd m\<rparr>)"

definition UpdatePkg ::
  "(field \<Rightarrow> string) \<Rightarrow> msg_desc \<Rightarrow> message \<Rightarrow> (string \<times> string) list \<Rightarrow> (db_err, sqlPkg option) res" where
  "UpdatePkg blobStr desc rf m =
     (if m = [] then Ok None
      else let cols = filter (\<lambda>(k, v). k \<notin> BuildKeyFieldsMap desc) m
           in res_bind (keyParams blobStr desc rf) (\<lambda>ps.
                Ok (Some \<lparr>str = ''update '' @ d_Name desc @ '' set '' @ join '','' (map (\<lambda>(k, v). assign k) cols)
                        @ '' where '' @ keyClause desc,
                      params = map snd cols @ ps\<rparr>)))"

definition IncreasePkg ::
  "(field \<Rightarrow> string) \<Rightarrow> msg_desc \<Rightarrow> message \<Rightarrow> string list \<Rightarrow> (db_err, sqlPkg option) res" where
  "IncreasePkg blobStr desc rf flds =
     (if flds = [] \<or> \<not> list_all (\<lambda>k. k \<in> BuildIncreaseableFieldsMap desc) flds then Ok None
      else res_bind (keyParams blobStr desc rf) (\<lambda>ps.
             Ok (Some \<lparr>str = ''update '' @ d_Name desc @ '' set ''
                     @ join '','' (map (\<lambda>k. k @ ''='' @ k @ ''+1'') flds) @ '' where '' @ keyClause desc,
                   params = ps\<rparr>)))"

definition InsertPkg :: "msg_desc \<Rightarrow> (string \<times> string) list \<Rightarrow> sqlPkg option" where
  "InsertPkg desc m =
     (if m = [] then None
      else let cnt = length m;
               ph = concat (replicate (cnt - 1) ''?,'') @ ''?''
           in Some \<lparr>str = ''insert into '' @ d_Name desc @ '' ('' @ join '','' (map fst m) @ '') values ('' @ ph @ '') '',
                params = map snd m\<rparr>)"

definition DeleteSQLPkg :: "(field \<Rightarrow> string) \<Rightarrow> msg_desc \<Rightarrow> message \<Rightarrow> (db_err, sqlPkg) res" where
  "DeleteSQLPkg blobStr desc rf =
     res_bind (keyParams blobStr desc rf) (\<lambda>ps.
       Ok \<lparr>str = ''delete from '' @ d_Name desc @ '' where '' @ keyClause desc, params = ps\<rparr>)"

text \<open>
  The cache of statement builders by the full name of the message: the builders of a name are
  those of the first descriptor that came under it, which stands for them here.
\<close>

type_synonym metas = "(string \<times> msg_desc) list"

definition GetDBProtoMeta :: "msg_desc \<Rightarrow> metas \<Rightarrow> msg_desc \<times> metas" where
  "GetDBProtoMeta desc metaMap =
     (case map_of metaMap (d_FullName desc) of
        Some meta \<Rightarrow> (meta, metaMap)
      | None \<Rightarrow> (desc, (d_FullName desc, desc) # metaMap))"

section \<open>Operations on records\<close>

text \<open>
  What the driver answers.  A result set has a pending error, its column names, and its first
  row if there is one, whose values may be NULL or fail to scan.
\<close>

record rows =
  rows_Err :: "string option"
  rows_Columns :: "string + string list"
  rows_First :: "(string + string option list) option"

record 's sql_driver =
  QueryContext :: "'s \<Rightarrow> string \<Rightarrow> string list \<Rightarrow> string + rows"
  ExecContext :: "'s \<Rightarrow> string \<Rightarrow> string list \<Rightarrow> (string + (string + nat)) \<times> 's"

record 's mysql_db =
  metaMap :: metas
  server :: 's

definition meta_of :: "msg_desc \<Rightarrow> 's mysql_db \<Rightarrow> msg_desc \<times> 's mysql_db" where
  "meta_of desc t = (case GetDBProtoMeta desc (metaMap t) of (meta, mm) \<Rightarrow> (meta, t\<lparr>metaMap := mm\<rparr>))"

definition exec ::
  "'s sql_driver \<Rightarrow> sqlPkg \<Rightarrow> 's mysql_db \<Rightarrow> (string + (string + nat)) \<times> 's mysql_db" where
  "exec drv pkg t =
     (case ExecContext drv (server t) (str pkg) (params pkg) of (r, s') \<Rightarrow> (r, t\<lparr>server := s'\<rparr>))"

definition retMap :: "string list \<Rightarrow> string option list \<Rightarrow> (string \<times> string) list" where
  "retMap cols values =
     fold (\<lambda>(c, v) m. AList.update c (case v of None \<Rightarrow> [] | Some s \<Rightarrow> s) m) (zip cols values) []"

text \<open>
  \<open>SimpleGet\<close> returns the record as it leaves it beside the error, since a failing merge has
  already changed it; the outcome around both only tells a panic.
\<close>

definition SimpleGet ::
  "'s sql_driver \<Rightarrow> (field \<Rightarrow> string) \<Rightarrow> (string \<Rightarrow> string option) \<Rightarrow> merger \<Rightarrow> msg_desc \<Rightarrow> message
    \<Rightarrow> string list \<Rightarrow> 's mysql_db \<Rightarrow> (db_err, message \<times> db_err option) res \<times> 's mysql_db" where
  "SimpleGet drv blobStr pf merge desc rec flds t =
     (case meta_of desc t of (meta, t) \<Rightarrow>
        (case SelectFieldsPkg blobStr meta rec flds of
           Panic \<Rightarrow> (Panic, t)
         | Fail e \<Rightarrow> (Fail e, t)
         | Ok pkg \<Rightarrow>
             (case QueryContext drv (server t) (str pkg) (params pkg) of
                Inl e \<Rightarrow> (Ok (rec, Some (SqlErr e)), t)
              | Inr rows \<Rightarrow>
                  (case rows_Err rows of
                     Some e \<Rightarrow> (Ok (rec, Some (SqlErr e)), t)
                   | None \<Rightarrow>
                       (case rows_Columns rows of
                          Inl e \<Rightarrow> (Ok (rec, Some (SqlErr e)), t)
                        | Inr cols \<Rightarrow>
                            (case rows_First rows of
                               None \<Rightarrow> (Ok (rec, Some RecordNotExist), t)
                             | Some (Inl e) \<Rightarrow> (Ok (rec, Some (ScanErr e)), t)
                             | Some (Inr values) \<Rightarrow>
                                 (case UnmarshalFromMap pf merge desc rec (retMap cols values) of
                                    Ok (rec', e) \<Rightarrow> (Ok (rec', map_option PbErr e), t)
                                  | _ \<Rightarrow> (Panic, t))))))))"

definition SimpleBatchGet :: "message list \<Rightarrow> 's mysql_db \<Rightarrow> (db_err, unit) res \<times> 's mysql_db" where
  "SimpleBatchGet recs t = (Ok (), t)"

definition SimpleUpdate ::
  "'s sql_driver \<Rightarrow> (field \<Rightarrow> string) \<Rightarrow> msg_desc \<Rightarrow> message \<Rightarrow> string list
    \<Rightarrow> 's mysql_db \<Rightarrow> (db_err, unit) res \<times> 's mysql_db" where
  "SimpleUpdate drv blobStr desc rec flds t =
     (case MarshalToMap desc rec flds of
        Panic \<Rightarrow> (Panic, t)
      | Fail e \<Rightarrow> (Fail MarshalMapFailed, t)
      | Ok m \<Rightarrow>
          (case meta_of desc t of (meta, t) \<Rightarrow>
             (case UpdatePkg blobStr meta rec m of
                Panic \<Rightarrow> (Panic, t)
              | Fail e \<Rightarrow> (Fail e, t)
              | Ok None \<Rightarrow> (Fail (BuildSql (d_FullName desc)), t)
              | Ok (Some pkg) \<Rightarrow>
                  (case exec drv pkg t of
                     (Inl e, t) \<Rightarrow> (Fail (SqlErr e), t)
                   | (Inr (Inl e), t) \<Rightarrow> (Fail (SqlErr e), t)
                   | (Inr (Inr n), t) \<Rightarrow> (if n = 0 then Fail Affect0 else Ok (), t)))))"

definition SimpleInsert ::
  "'s sql_driver \<Rightarrow> msg_desc \<Rightarrow> message \<Rightarrow> 's mysql_db \<Rightarrow> (db_err, unit) res \<times> 's mysql_db" where
  "SimpleInsert drv desc rec t =
     (case MarshalToMap desc rec [] of
        Panic \<Rightarrow> (Panic, t)
      | Fail e \<Rightarrow> (Fail MarshalMapFailed, t)
      | Ok m \<Rightarrow>
          (case meta_of desc t of (meta, t) \<Rightarrow>
             (case InsertPkg meta m of
                None \<Rightarrow> (Fail (BuildSql (d_FullName desc)), t)
              | Some pkg \<Rightarrow>
                  (case exec drv pkg t of
                     (Inl e, t) \<Rightarrow> (Fail (SqlErr e), t)
                   | (Inr _, t) \<Rightarrow> (Ok (), t)))))"

text \<open>\<open>SimpleReplace\<close> does not test for the absent statement of a record without columns.\<close>

definition SimpleReplace ::
  "'s sql_driver \<Rightarrow> msg_desc \<Rightarrow> message \<Rightarrow> 's mysql_db \<Rightarrow> (db_err, unit) res \<times> 's mysql_db" where
  "SimpleReplace drv desc rec t =
     (case MarshalToMap desc rec [] of
        Panic \<Rightarrow> (Panic, t)
      | Fail e \<Rightarrow> (Fail MarshalMapFailed, t)
      | Ok m \<Rightarrow>
          (case meta_of desc t of (meta, t) \<Rightarrow>
             (case ReplacePkg meta m of
                None \<Rightarrow> (Panic, t)
              | Some pkg \<Rightarrow>
                  (case exec drv pkg t of
                     (Inl e, t) \<Rightarrow> (Fail (SqlErr e), t)
                   | (Inr _, t) \<Rightarrow> (Ok (), t)))))"

text \<open>
  \<open>SimpleDelete\<close> reads the record first when \<open>resultFlag\<close> is 3, ignoring the error, and deletes by
  the key of the record as it is then; a panic while reading goes through.
\<close>

definition SimpleDelete ::
  "'s sql_driver \<Rightarrow> (field \<Rightarrow> string) \<Rightarrow> (string \<Rightarrow> string option) \<Rightarrow> merger \<Rightarrow> msg_desc \<Rightarrow> message
    \<Rightarrow> int \<Rightarrow> 's mysql_db \<Rightarrow> (db_err, message \<times> db_err option) res \<times> 's mysql_db" where
  "SimpleDelete drv blobStr pf merge desc rec resultFlag t =
     (case (if resultFlag = 3 then SimpleGet drv blobStr pf merge desc rec [] t else (Ok (rec, None), t)) of
        (Ok (rec, _), t) \<Rightarrow>
          (case meta_of desc t of (meta, t) \<Rightarrow>
             (case DeleteSQLPkg blobStr meta rec of
                Panic \<Rightarrow> (Panic, t)
              | Fail e \<Rightarrow> (Fail e, t)
              | Ok pkg \<Rightarrow>
                  (case exec drv pkg t of
                     (Inl e, t) \<Rightarrow> (Ok (rec, Some (SqlErr e)), t)
                   | (Inr _, t) \<Rightarrow> (Ok (rec, None), t))))
      | (r, t) \<Rightarrow> (r, t))"

definition SimpleIncrease ::
  "'s sql_driver \<Rightarrow> (field \<Rightarrow> string) \<Rightarrow> msg_desc \<Rightarrow> message \<Rightarrow> string list
    \<Rightarrow> 's mysql_db \<Rightarrow> (db_err, unit) res \<times> 's mysql_db" where
  "SimpleIncrease drv blobStr desc rec flds t =
     (case meta_of desc t of (meta, t) \<Rightarrow>
        (case IncreasePkg blobStr meta rec flds of
           Panic \<Rightarrow> (Panic, t)
         | Fail e \<Rightarrow> (Fail e, t)
         | Ok None \<Rightarrow> (Fail (BuildSql (d_FullName desc)), t)
         | Ok (Some pkg) \<Rightarrow>
             (case exec drv pkg t of
                (Inl e, t) \<Rightarrow> (Fail (SqlErr e), t)
              | (Inr _, t) \<Rightarrow> (Ok (), t))))"

section \<open>Tables and opening\<close>

text \<open>The template of \<open>CreateTable\<close>, with its line breaks and tabs.\<close>

definition CreateTableText :: "TableInfo \<Rightarrow> string" where
  "CreateTableText ti =
     ''CREATE TABLE IF NOT EXISTS '' @ TableName ti @ '' ('' @ [CHR 0x0A, CHR 0x09]
     @ concat (map (\<lambda>c. [CHR 0x0A, CHR 0x09, CHR 0x09] @ c @ '' ,'' @ [CHR 0x0A, CHR 0x09]) (CreateSQLs ti))
     @ [CHR 0x0A, CHR 0x09] @ ''PRIMARY KEY ( '' @ PrimaryKeys ti @ '' )'' @ [CHR 0x0A, CHR 0x09]
     @ '') ENGINE=InnoDB DEFAULT CHARSET=utf8mb4 COMMENT='' @ [CHR 0x27] @ DescFullName ti @ [CHR 0x27]"

definition exec_text :: "'s sql_driver \<Rightarrow> string \<Rightarrow> 's mysql_db \<Rightarrow> (db_err, unit) res \<times> 's mysql_db" where
  "exec_text drv sqlText t =
     (case exec drv \<lparr>str = sqlText, params = []\<rparr> t of
        (Inl e, t) \<Rightarrow> (Fail (SqlErr e), t)
      | (Inr _, t) \<Rightarrow> (Ok (), t))"

definition CreateTable :: "'s sql_driver \<Rightarrow> msg_desc \<Rightarrow> 's mysql_db \<Rightarrow> (db_err, unit) res \<times> 's mysql_db" where
  "CreateTable drv desc t =
     (case newTableInfo desc of
        Ok ti \<Rightarrow> exec_text drv (CreateTableText ti) t
      | Fail e \<Rightarrow> (Fail e, t)
      | Panic \<Rightarrow> (Panic, t))"

definition DropTable :: "'s sql_driver \<Rightarrow> msg_desc \<Rightarrow> 's mysql_db \<Rightarrow> (db_err, unit) res \<times> 's mysql_db" where
  "DropTable drv desc t = exec_text drv (''drop table if exists '' @ d_Name desc) t"

definition ExistTable :: "'s sql_driver \<Rightarrow> msg_desc \<Rightarrow> 's mysql_db \<Rightarrow> bool \<times> 's mysql_db" where
  "ExistTable drv desc t =
     (case exec_text drv (''desc '' @ d_Name desc) t of (r, t) \<Rightarrow> (r = Ok (), t))"

record dbCfg =
  DataSource :: string
  IdleConns :: int
  MaxLifeTime :: u32

text \<open>
  \<open>Open\<close>: \<open>sqlOpen\<close> is \<open>sql.Open\<close> with the idle bound and the life time (in nanoseconds) then set on the
  handle, and \<open>ping\<close> its \<open>Ping\<close>; the statement cache \<open>mm\<close> is global.
\<close>

definition Open ::
  "(string \<Rightarrow> string + (int \<Rightarrow> int \<Rightarrow> 's)) \<Rightarrow> ('s \<Rightarrow> bool) \<Rightarrow> dbCfg \<Rightarrow> metas \<Rightarrow> (db_err, 's mysql_db) res" where
  "Open sqlOpen ping cfg mm =
     (case sqlOpen (DataSource cfg) of
        Inl e \<Rightarrow> Fail (SqlErr e)
      | Inr handle \<Rightarrow>
          let dbsql = handle (IdleConns cfg) (int64 (uint (MaxLifeTime cfg) * 1000000000))
          in if \<not> ping dbsql then Fail (ConfigErr (DataSource cfg))
             else Ok \<lparr>metaMap = mm, server = dbsql\<rparr>)"

text \<open>\<open>Setup\<close> of the plugin factory: decoding the configuration, then opening.\<close>

definition Setup ::
  "(string \<Rightarrow> string + (int \<Rightarrow> int \<Rightarrow> 's)) \<Rightarrow> ('s \<Rightarrow> bool) \<Rightarrow> dbCfg option \<Rightarrow> metas \<Rightarrow> (db_err, 's mysql_db) res" where
  "Setup sqlOpen ping unmarshalled mm =
     (case unmarshalled of None \<Rightarrow> Fail (ConfigErr []) | Some cfg \<Rightarrow> Open sqlOpen ping cfg mm)"

section \<open>Placeholders\<close>

definition marks :: "string \<Rightarrow> nat" where
  "marks s = length (filter (\<lambda>c. c = CHR ''?'') s)"

definition plain :: "string \<Rightarrow> bool" where
  "plain s = (CHR ''?'' \<notin> set s)"

lemma marks_simps [simp]:
  "marks [] = 0" "marks (c # s) = (if c = CHR ''?'' then 1 else 0) + marks s"
  "marks (s @ t) = marks s + marks t"
  by (simp_all add: marks_def)

lemma marks_plain: "plain s \<Longrightarrow> marks s = 0"
  by (auto simp: marks_def plain_def filter_empty_conv)

lemma marks_join: "plain sep \<Longrightarrow> marks (join sep ss) = sum_list (map marks ss)"
  by (induction sep ss rule: join.induct) (auto simp: marks_plain)

lemma marks_commas [simp]: "marks (join '','' ss) = sum_list (map marks ss)"
  by (simp add: marks_join plain_def)

lemma marks_assign [simp]: "marks (assign k) = marks k + 1"
  by (simp add: assign_def)

lemma marks_assigns: "list_all plain ks \<Longrightarrow> (\<Sum>k\<leftarrow>ks. Suc (marks k)) = length ks"
  by (induction ks) (auto simp: marks_plain)

lemma marks_columns:
  "list_all (\<lambda>(k, v). plain k) m \<Longrightarrow> marks (join '','' (map (\<lambda>(k, v). assign k) m)) = length m"
  by (induction m) (auto simp: marks_plain)

lemma split_at_chars: "p \<in> set (split_at c acc s) \<Longrightarrow> set p \<subseteq> set acc \<union> set s"
  by (induction c acc s rule: split_at.induct) (auto split: if_splits)

lemma keys_plain: "plain (d_PrimaryKey desc) \<Longrightarrow> list_all plain (FindPrimaryKey desc)"
  using split_at_chars [where acc = "[]" and s = "d_PrimaryKey desc"]
  by (fastforce simp: FindPrimaryKey_def plain_def list_all_iff)

lemma marks_keyClause:
  "plain (d_PrimaryKey desc) \<Longrightarrow> marks (keyClause desc) = length (FindPrimaryKey desc)"
  by (simp add: keyClause_def marks_assigns keys_plain comp_def)

lemma length_keyParams: "keyParams blobStr desc rf = Ok ps \<Longrightarrow> length ps = length (FindPrimaryKey desc)"
  by (simp add: keyParams_def key_values_Ok_iff)

lemma marks_placeholders: "marks (concat (replicate n ''?,'')) = n"
  by (induction n) simp_all

text \<open>The statements the builders give for a record, a map of columns and a list of fields.\<close>

definition built ::
  "(field \<Rightarrow> string) \<Rightarrow> msg_desc \<Rightarrow> message \<Rightarrow> (string \<times> string) list \<Rightarrow> string list \<Rightarrow> sqlPkg \<Rightarrow> bool" where
  "built blobStr desc rf m flds pkg =
     (SelectFieldsPkg blobStr desc rf flds = Ok pkg \<or> ReplacePkg desc m = Some pkg
      \<or> InsertPkg desc m = Some pkg \<or> UpdatePkg blobStr desc rf m = Ok (Some pkg)
      \<or> IncreasePkg blobStr desc rf flds = Ok (Some pkg) \<or> DeleteSQLPkg blobStr desc rf = Ok pkg)"

lemma marks_flds:
  assumes "list_all plain flds"
  shows "sum_list (map marks flds) = 0"
    and "sum_list (map marks (map (\<lambda>k. k @ ''='' @ k @ ''+1'') flds)) = 0"
  using assms by (induction flds) (auto simp: marks_plain plain_def)

lemma marks_names: "list_all (\<lambda>(k, v). plain k) m \<Longrightarrow> sum_list (map marks (map fst m)) = 0"
  by (induction m) (auto simp: marks_plain)

lemma keyed_placeholders:
  assumes "plain (d_Name desc)" and "plain (d_PrimaryKey desc)" and "list_all plain flds"
  shows "SelectFieldsPkg blobStr desc rf flds = Ok pkg \<Longrightarrow> marks (str pkg) = length (params pkg)"
    and "IncreasePkg blobStr desc rf flds = Ok (Some pkg) \<Longrightarrow> marks (str pkg) = length (params pkg)"
    and "DeleteSQLPkg blobStr desc rf = Ok pkg \<Longrightarrow> marks (str pkg) = length (params pkg)"
  using marks_flds [OF assms(3)] marks_plain [OF assms(1)] marks_keyClause [OF assms(2)]
  by (auto simp: SelectFieldsPkg_def IncreasePkg_def DeleteSQLPkg_def res_bind_Ok_iff length_keyParams
      split: if_splits)

lemma column_placeholders:
  assumes "plain (d_Name desc)" and "plain (d_PrimaryKey desc)" and "list_all (\<lambda>(k, v). plain k) m"
  shows "ReplacePkg desc m = Some pkg \<Longrightarrow> marks (str pkg) = length (params pkg)"
    and "InsertPkg desc m = Some pkg \<Longrightarrow> marks (str pkg) = length (params pkg)"
    and "UpdatePkg blobStr desc rf m = Ok (Some pkg) \<Longrightarrow> marks (str pkg) = length (params pkg)"
proof -
  note base = marks_plain [OF assms(1)] marks_keyClause [OF assms(2)]
  have cols: "list_all (\<lambda>(k, v). plain k) (filter (\<lambda>(k, v). k \<notin> BuildKeyFieldsMap desc) m)"
    using assms(3) by (auto simp: list_all_iff)
  show "ReplacePkg desc m = Some pkg \<Longrightarrow> marks (str pkg) = length (params pkg)"
    using marks_columns [OF assms(3)] by (auto simp: ReplacePkg_def base split: if_splits)
  show "InsertPkg desc m = Some pkg \<Longrightarrow> marks (str pkg) = length (params pkg)"
    using marks_names [OF assms(3)]
    by (cases m) (auto simp: InsertPkg_def base marks_placeholders Let_def split: if_splits)
  show "UpdatePkg blobStr desc rf m = Ok (Some pkg) \<Longrightarrow> marks (str pkg) = length (params pkg)"
    using marks_columns [OF cols]
    by (auto simp: UpdatePkg_def res_bind_Ok_iff base length_keyParams Let_def split: if_splits)
qed

text \<open>
  Every statement the MySQL plugin builds -- select, replace, insert, update, increase,
  delete -- has exactly as many parameters as placeholders, whatever columns, fields and keys it
  is built from.
\<close>

theorem sql_placeholders_match:
  assumes "plain (d_Name desc)" and "plain (d_PrimaryKey desc)"
    and "list_all (\<lambda>(k, v). plain k) m" and "list_all plain flds"
    and "built blobStr desc rf m flds pkg"
  shows "marks (str pkg) = length (params pkg)"
  using assms(5) keyed_placeholders [OF assms(1,2,4)] column_placeholders [OF assms(1,2,3)]
  unfolding built_def by blast

definition update_pkg :: sqlPkg where
  "update_pkg = \<lparr>str = ''update Player set name=? where uid=?'', params = [''bo'', ''7'']\<rparr>"

theorem sql_placeholders_match_witness:
  "built (\<lambda>_. []) player_desc player [(''uid'', ''7''), (''name'', ''bo'')] [''name''] update_pkg
    \<and> marks (str update_pkg) = length (params update_pkg)"
proof -
  have "UpdatePkg (\<lambda>_. []) player_desc player [(''uid'', ''7''), (''name'', ''bo'')] = Ok (Some update_pkg)"
    by (simp add: UpdatePkg_def keyParams_def keyClause_def FindPrimaryKey_def FindFds_def
        BuildKeyFieldsMap_def player_desc_def player_def ByName_def Get_String_def IsFdMarshalToBlob_def
        BlobKind_def Value_String_def marshalScalar_def assign_def update_pkg_def Itoa.simps digit_char_def
        char_of_def bit_0)
  then have "built (\<lambda>_. []) player_desc player [(''uid'', ''7''), (''name'', ''bo'')] [''name''] update_pkg"
    by (simp add: built_def)
  moreover from this have "marks (str update_pkg) = length (params update_pkg)"
    by (rule sql_placeholders_match [rotated 4]) (simp_all add: player_desc_def plain_def)
  ultimately show ?thesis by simp
qed

section \<open>Composite keys\<close>

text \<open>
  The clauses of a composite key are separated by commas, as if they were assignments, in every
  select, update, increase and delete.
\<close>

lemma composite_key_clause:
  "d_PrimaryKey desc = a @ '','' @ b \<Longrightarrow> CHR '','' \<notin> set a \<Longrightarrow> CHR '','' \<notin> set b \<Longrightarrow>
    keyClause desc = a @ ''=?,'' @ b @ ''=?''"
proof -
  assume "d_PrimaryKey desc = a @ '','' @ b" and "CHR '','' \<notin> set a" and b: "CHR '','' \<notin> set b"
  moreover have "split_at c acc s = [acc @ s]" if "c \<notin> set s" for c acc s
    using that by (induction s arbitrary: acc) auto
  note whole = this
  have "split_at c acc (s @ c # t) = (acc @ s) # split_at c [] t" if "c \<notin> set s" for c acc s t
    using that by (induction s arbitrary: acc) auto
  ultimately show ?thesis
    by (simp add: keyClause_def FindPrimaryKey_def assign_def whole [OF b])
qed

section \<open>Records without columns\<close>

text \<open>
  What the writing operations do with a record that has no populated field: \<open>SimpleReplace\<close>
  dereferences the missing statement and panics, for no other record and whatever the database
  answers, while \<open>SimpleInsert\<close> reports an error, sends nothing to the database and never panics.
\<close>

theorem mysql_empty_record:
  "(fst (SimpleReplace drv desc rec t) = Panic \<longleftrightarrow> wire rec = [])
    \<and> fst (SimpleInsert drv desc rec t) \<noteq> Panic
    \<and> (wire rec = [] \<longrightarrow> fst (SimpleInsert drv desc rec t) = Fail (BuildSql (d_FullName desc))
         \<and> server (snd (SimpleInsert drv desc rec t)) = server t)"
proof (cases "MarshalToMap desc rec []")
  case (Ok m)
  then have "m = [] \<longleftrightarrow> wire rec = []" by (rule MarshalToMap_outcome)
  with Ok show ?thesis
    by (auto simp: SimpleReplace_def SimpleInsert_def meta_of_def ReplacePkg_def InsertPkg_def Let_def
        split: prod.splits sum.splits)
next
  case (Fail e)
  then have "wire rec \<noteq> []" by (auto simp: MarshalToMap_def)
  with Fail show ?thesis by (simp add: SimpleReplace_def SimpleInsert_def)
qed (simp add: MarshalToMap_outcome)

theorem mysql_empty_record_witness:
  "fst (SimpleReplace \<lparr>QueryContext = \<lambda>s q ps. Inl [], ExecContext = \<lambda>s q ps. (Inr (Inr 1), s)\<rparr>
      player_desc \<lparr>scalars = [], wire = []\<rparr> \<lparr>metaMap = [], server = ()\<rparr>) = Panic
    \<and> fst (SimpleInsert \<lparr>QueryContext = \<lambda>s q ps. Inl [], ExecContext = \<lambda>s q ps. (Inr (Inr 1), s)\<rparr>
      player_desc \<lparr>scalars = [], wire = []\<rparr> \<lparr>metaMap = [], server = ()\<rparr>) = Fail (BuildSql ''db.Player'')"
  using mysql_empty_record [of "\<lparr>QueryContext = \<lambda>s q ps. Inl [], ExecContext = \<lambda>s q ps. (Inr (Inr 1), s)\<rparr>"
      player_desc "\<lparr>scalars = [], wire = []\<rparr>" "\<lparr>metaMap = [], server = ()\<rparr>"]
  by (simp add: player_desc_def)

end
