(* ===== verification/Redis.thy ===== *)
theory Redis
  imports Pbsupport
begin

text \<open>
  The Redis plugin \<^verbatim>\<open>src/plugin/db/redis\<close>: the key of a record (\<^verbatim>\<open>pb2redis.go\<close>), the operations on
  records including the two Lua scripts they send (\<^verbatim>\<open>simple.go\<close>), and opening the client
  (\<^verbatim>\<open>redis.go\<close>).  The server and its client library are an argument (the record \<open>redis\<close>); what
  the theorems rely on of them is the predicate \<open>hash_server\<close>.  A record is one hash, its columns
  the fields of the hash.
\<close>

section \<open>Keys\<close>

type_synonym metas = "(string \<times> msg_desc) list"

datatype redis_err =
    RedisErr string | RecordNotExist | ResultType string | MarshalMapFailed | NotString
  | UpdateRet string | InsertRet string | RetFalse | CannotIncrease "string list" | PbErr pb_err
  | PoolMustBePositive | NewClientNil | UnmarshalCfg

text \<open>The cached entry of a name is built from the first descriptor that came under it.\<close>

definition GetDBProtoMeta :: "msg_desc \<Rightarrow> metas \<Rightarrow> msg_desc \<times> metas" where
  "GetDBProtoMeta desc metaMap =
     (case map_of metaMap (d_FullName desc) of
        Some meta \<Rightarrow> (meta, metaMap)
      | None \<Rightarrow> (desc, (d_FullName desc, desc) # metaMap))"

definition keyStrings :: "(field \<Rightarrow> string) \<Rightarrow> msg_desc \<Rightarrow> message \<Rightarrow> (redis_err, string list) res" where
  "keyStrings blobStr meta rf = key_values blobStr rf (FindFds meta (FindPrimaryKey meta))"

text \<open>Without a primary key the function of the entry stays nil and the call panics.\<close>

definition BuildKey :: "(field \<Rightarrow> string) \<Rightarrow> msg_desc \<Rightarrow> message \<Rightarrow> (redis_err, string) res" where
  "BuildKey blobStr meta rf =
     (if FindFds meta (FindPrimaryKey meta) = [] then Panic
      else res_bind (keyStrings blobStr meta rf) (\<lambda>s. Ok (d_Name meta @ '':{'' @ join ''-'' s @ ''}'')))"

definition IncreaseAble :: "msg_desc \<Rightarrow> string list \<Rightarrow> bool" where
  "IncreaseAble meta flds =
     (flds \<noteq> [] \<and> list_all (\<lambda>fs. case ByName meta fs of
        None \<Rightarrow> False | Some fd \<Rightarrow> fd_Name fd \<in> BuildIncreaseableFieldsMap meta) flds)"

section \<open>Server and client\<close>

text \<open>
  A reply of the server, and the commands the plugin uses.  \<open>Exists\<close> and \<open>Hmset\<close> are the commands
  as the scripts call them, \<open>Eval\<close> runs a script; a client call gives an error or its result.
\<close>

datatype reply = Str string | Other | Err string

record 's redis =
  Exists :: "'s \<Rightarrow> string \<Rightarrow> bool"
  Hmset :: "'s \<Rightarrow> string \<Rightarrow> (string \<times> string) list \<Rightarrow> reply \<times> 's"
  Eval :: "('s \<Rightarrow> reply \<times> 's) \<Rightarrow> 's \<Rightarrow> (string + reply) \<times> 's"
  HGetAll :: "'s \<Rightarrow> string \<Rightarrow> string + (string \<times> string) list"
  HMGet :: "'s \<Rightarrow> string \<Rightarrow> string list \<Rightarrow> string + string option list"
  HMSet :: "'s \<Rightarrow> string \<Rightarrow> (string \<times> string) list \<Rightarrow> (string + bool) \<times> 's"
  Del :: "'s \<Rightarrow> string \<Rightarrow> string option \<times> 's"
  HIncrBy :: "'s \<Rightarrow> string \<Rightarrow> string \<Rightarrow> int \<Rightarrow> string option \<times> 's"
  Pipeline_Exec :: "'s \<Rightarrow> (string \<times> string \<times> int) list \<Rightarrow> string option \<times> 's"

record 's redis_db =
  metaMap :: metas
  client :: 's

definition key_of ::
  "(field \<Rightarrow> string) \<Rightarrow> msg_desc \<Rightarrow> message \<Rightarrow> 's redis_db \<Rightarrow> (redis_err, string) res \<times> 's redis_db" where
  "key_of blobStr desc rec t =
     (case GetDBProtoMeta desc (metaMap t) of
        (meta, mm) \<Rightarrow> (BuildKey blobStr meta rec, t\<lparr>metaMap := mm\<rparr>))"

definition update_script :: "'s redis \<Rightarrow> string \<Rightarrow> (string \<times> string) list \<Rightarrow> 's \<Rightarrow> reply \<times> 's" where
  "update_script srv k args s =
     (if \<not> Exists srv s k then (Str ''NotExist'', s) else Hmset srv s k args)"

definition insert_script :: "'s redis \<Rightarrow> string \<Rightarrow> (string \<times> string) list \<Rightarrow> 's \<Rightarrow> reply \<times> 's" where
  "insert_script srv k args s =
     (if Exists srv s k then (Str ''AlreadyExists'', s) else Hmset srv s k args)"

section \<open>Operations on records\<close>

text \<open>
  \<open>SimpleGet\<close> returns the record as it leaves it beside the error; the outcome around both only
  tells a panic.
\<close>

definition unmarshal_into ::
  "(string \<Rightarrow> string option) \<Rightarrow> merger \<Rightarrow> msg_desc \<Rightarrow> message \<Rightarrow> (string \<times> string) list
    \<Rightarrow> (redis_err, message \<times> redis_err option) res" where
  "unmarshal_into pf merge desc rec m =
     (case UnmarshalFromMap pf merge desc rec m of
        Ok (rec', e) \<Rightarrow> Ok (rec', map_option PbErr e) | _ \<Rightarrow> Panic)"

fun field_map :: "string list \<Rightarrow> string option list \<Rightarrow> (string \<times> string) list
    \<Rightarrow> (redis_err, (string \<times> string) list) res" where
  "field_map (f # fs) (Some s # ret) m = field_map fs ret (AList.update f s m)"
| "field_map (f # fs) (None # ret) m = Fail (ResultType f)"
| "field_map fs ret m = Ok m"

definition SimpleGet ::
  "'s redis \<Rightarrow> (field \<Rightarrow> string) \<Rightarrow> (string \<Rightarrow> string option) \<Rightarrow> merger \<Rightarrow> msg_desc \<Rightarrow> message
    \<Rightarrow> string list \<Rightarrow> 's redis_db \<Rightarrow> (redis_err, message \<times> redis_err option) res \<times> 's redis_db" where
  "SimpleGet srv blobStr pf merge desc rec flds t =
     (case key_of blobStr desc rec t of
        (Ok k, t) \<Rightarrow>
          (if flds = []
           then (case HGetAll srv (client t) k of
                   Inl e \<Rightarrow> Ok (rec, Some (RedisErr e))
                 | Inr ret \<Rightarrow>
                     if ret = [] then Ok (rec, Some RecordNotExist)
                     else unmarshal_into pf merge desc rec ret)
           else (case HMGet srv (client t) k flds of
                   Inl e \<Rightarrow> Ok (rec, Some (RedisErr e))
                 | Inr ret \<Rightarrow>
                     if length ret \<noteq> length flds then Ok (rec, Some (RedisErr []))
                     else (case field_map flds ret [] of
                             Ok m \<Rightarrow> unmarshal_into pf merge desc rec m
                           | Fail e \<Rightarrow> Ok (rec, Some e)
                           | Panic \<Rightarrow> Panic)), t)
      | (r, t) \<Rightarrow> (Panic, t))"

definition SimpleBatchGet :: "message list \<Rightarrow> 's redis_db \<Rightarrow> (redis_err, unit) res \<times> 's redis_db" where
  "SimpleBatchGet recs t = (Ok (), t)"

text \<open>Sending a script and reading its answer.\<close>

definition run_script ::
  "'s redis \<Rightarrow> ('s \<Rightarrow> reply \<times> 's) \<Rightarrow> (string \<Rightarrow> redis_err) \<Rightarrow> 's redis_db
    \<Rightarrow> (redis_err, unit) res \<times> 's redis_db" where
  "run_script srv script ret t =
     (case Eval srv script (client t) of
        (Inl e, s') \<Rightarrow> (Fail (RedisErr e), t\<lparr>client := s'\<rparr>)
      | (Inr (Str r), s') \<Rightarrow> (if r = ''OK'' then Ok () else Fail (ret r), t\<lparr>client := s'\<rparr>)
      | (Inr _, s') \<Rightarrow> (Fail NotString, t\<lparr>client := s'\<rparr>))"

definition SimpleUpdate ::
  "'s redis \<Rightarrow> (field \<Rightarrow> string) \<Rightarrow> msg_desc \<Rightarrow> message \<Rightarrow> string list
    \<Rightarrow> 's redis_db \<Rightarrow> (redis_err, unit) res \<times> 's redis_db" where
  "SimpleUpdate srv blobStr desc rec flds t =
     (case MarshalToMap desc rec flds of
        Panic \<Rightarrow> (Panic, t)
      | Fail e \<Rightarrow> (Fail MarshalMapFailed, t)
      | Ok m \<Rightarrow>
          (case key_of blobStr desc rec t of
             (Ok k, t) \<Rightarrow> run_script srv (update_script srv k m) UpdateRet t
           | (r, t) \<Rightarrow> (Panic, t)))"

definition SimpleInsert ::
  "'s redis \<Rightarrow> (field \<Rightarrow> string) \<Rightarrow> msg_desc \<Rightarrow> message
    \<Rightarrow> 's redis_db \<Rightarrow> (redis_err, unit) res \<times> 's redis_db" where
  "SimpleInsert srv blobStr desc rec t =
     (case MarshalToMap desc rec [] of
        Panic \<Rightarrow> (Panic, t)
      | Fail e \<Rightarrow> (Fail MarshalMapFailed, t)
      | Ok m \<Rightarrow>
          (case key_of blobStr desc rec t of
             (Ok k, t) \<Rightarrow> run_script srv (insert_script srv k m) InsertRet t
           | (r, t) \<Rightarrow> (Panic, t)))"

definition SimpleReplace ::
  "'s redis \<Rightarrow> (field \<Rightarrow> string) \<Rightarrow> msg_desc \<Rightarrow> message
    \<Rightarrow> 's redis_db \<Rightarrow> (redis_err, unit) res \<times> 's redis_db" where
  "SimpleReplace srv blobStr desc rec t =
     (case MarshalToMap desc rec [] of
        Panic \<Rightarrow> (Panic, t)
      | Fail e \<Rightarrow> (Fail MarshalMapFailed, t)
      | Ok m \<Rightarrow>
          (case key_of blobStr desc rec t of
             (Ok k, t) \<Rightarrow>
               (case HMSet srv (client t) k m of
                  (Inl e, s') \<Rightarrow> (Fail (RedisErr e), t\<lparr>client := s'\<rparr>)
                | (Inr ret, s') \<Rightarrow> (if ret then Ok () else Fail RetFalse, t\<lparr>client := s'\<rparr>))
           | (r, t) \<Rightarrow> (Panic, t)))"

definition SimpleDelete ::
  "'s redis \<Rightarrow> (field \<Rightarrow> string) \<Rightarrow> (string \<Rightarrow> string option) \<Rightarrow> merger \<Rightarrow> msg_desc \<Rightarrow> message
    \<Rightarrow> int \<Rightarrow> 's redis_db \<Rightarrow> (redis_err, message \<times> redis_err option) res \<times> 's redis_db" where
  "SimpleDelete srv blobStr pf merge desc rec resultFlag t =
     (case (if resultFlag = 3 then SimpleGet srv blobStr pf merge desc rec [] t else (Ok (rec, None), t)) of
        (Ok (rec, _), t) \<Rightarrow>
          (case key_of blobStr desc rec t of
             (Ok k, t) \<Rightarrow>
               (case Del srv (client t) k of
                  (e, s') \<Rightarrow> (Ok (rec, map_option RedisErr e), t\<lparr>client := s'\<rparr>))
           | (r, t) \<Rightarrow> (Panic, t))
      | (r, t) \<Rightarrow> (r, t))"

definition SimpleIncrease ::
  "'s redis \<Rightarrow> (field \<Rightarrow> string) \<Rightarrow> msg_desc \<Rightarrow> message \<Rightarrow> string list
    \<Rightarrow> 's redis_db \<Rightarrow> (redis_err, unit) res \<times> 's redis_db" where
  "SimpleIncrease srv blobStr desc rec flds t =
     (case GetDBProtoMeta desc (metaMap t) of
        (meta, mm) \<Rightarrow>
          (if \<not> IncreaseAble meta flds then (Fail (CannotIncrease flds), t\<lparr>metaMap := mm\<rparr>)
           else case key_of blobStr desc rec (t\<lparr>metaMap := mm\<rparr>) of
                  (Ok k, t) \<Rightarrow>
                    (case (if length flds = 1 then HIncrBy srv (client t) k (hd flds) 1
                           else Pipeline_Exec srv (client t) (map (\<lambda>f. (k, f, 1)) flds)) of
                       (e, s') \<Rightarrow>
                         (case e of None \<Rightarrow> Ok () | Some e \<Rightarrow> Fail (RedisErr e), t\<lparr>client := s'\<rparr>))
                | (r, t) \<Rightarrow> (Panic, t)))"

section \<open>Opening\<close>

record dbCfg =
  Addr :: string
  PoolSize :: int
  ConnTimeout :: u32
  Password :: string

text \<open>The client options; durations in nanoseconds.\<close>

record redis_options =
  opt_Addr :: string
  opt_Password :: string
  DialTimeout :: int
  ReadTimeout :: int
  WriteTimeout :: int
  PoolTimeout :: int
  IdleTimeout :: int
  MaxRetries :: int
  opt_PoolSize :: int
  IdleCheckFrequency :: int

text \<open>\<open>NewClient\<close> of the client library is an argument; \<open>None\<close> is a nil client.\<close>

definition Open ::
  "(redis_options \<Rightarrow> 's option) \<Rightarrow> dbCfg \<Rightarrow> metas \<Rightarrow> (redis_err, 's redis_db) res" where
  "Open NewClient cfg mm =
     (if PoolSize cfg = 0 then Fail PoolMustBePositive
      else let defaultTimeout = int64 (1000000000 * uint (ConnTimeout cfg));
               opt = \<lparr>opt_Addr = Addr cfg, opt_Password = Password cfg, DialTimeout = defaultTimeout,
                 ReadTimeout = defaultTimeout, WriteTimeout = defaultTimeout,
                 PoolTimeout = 30 * 1000000000, IdleTimeout = 60 * 1000000000, MaxRetries = - 1,
                 opt_PoolSize = PoolSize cfg, IdleCheckFrequency = 100 * 1000000\<rparr>
           in case NewClient opt of None \<Rightarrow> Fail NewClientNil | Some c \<Rightarrow> Ok \<lparr>metaMap = mm, client = c\<rparr>)"

definition Setup ::
  "(redis_options \<Rightarrow> 's option) \<Rightarrow> dbCfg option \<Rightarrow> metas \<Rightarrow> (redis_err, 's redis_db) res" where
  "Setup NewClient unmarshalled mm =
     (case unmarshalled of None \<Rightarrow> Fail UnmarshalCfg | Some cfg \<Rightarrow> Open NewClient cfg mm)"

section \<open>Different records, different keys\<close>

lemma append_sep_inject:
  assumes "c \<notin> set a" and "c \<notin> set b"
  shows "a @ c # x = b @ c # y \<longleftrightarrow> a = b \<and> x = y"
proof
  assume eq: "a @ c # x = b @ c # y"
  from assms have "takeWhile (\<lambda>d. d \<noteq> c) (a @ c # x) = a" "takeWhile (\<lambda>d. d \<noteq> c) (b @ c # y) = b"
    by (auto simp: takeWhile_append takeWhile_eq_all_conv split: if_splits)
  with eq have "a = b" by simp
  with eq show "a = b \<and> x = y" by simp
qed simp

lemma join_Cons: "join sep (s # ss) = (if ss = [] then s else s @ sep @ join sep ss)"
  by (cases ss) auto

lemma join_inject:
  assumes "\<forall>s\<in>set xs. c \<notin> set s" and "\<forall>s\<in>set ys. c \<notin> set s" and "xs \<noteq> []" and "ys \<noteq> []"
    and "join [c] xs = join [c] ys"
  shows "xs = ys"
  using assms
proof (induction xs arbitrary: ys)
  case (Cons x xs)
  then obtain y ys' where ys: "ys = y # ys'" by (cases ys) auto
  from Cons.prems ys have c: "c \<notin> set x" "c \<notin> set y" by auto
  show ?case
  proof (cases "xs = [] \<or> ys' = []")
    case True
    with Cons.prems(5) have "xs = [] \<and> ys' = []"
      by (rule_tac ccontr) (use c in \<open>auto simp: ys join_Cons split: if_splits\<close>)
    with Cons.prems(5) show ?thesis by (simp add: ys)
  next
    case False
    with Cons.prems(5) have "x = y" and "join [c] xs = join [c] ys'"
      by (simp_all add: ys join_Cons append_sep_inject [OF c])
    with Cons.IH [of ys'] Cons.prems False show ?thesis by (simp add: ys)
  qed
qed simp

lemma BuildKey_Ok_iff:
  "BuildKey blobStr meta rf = Ok k \<longleftrightarrow>
     (\<exists>vs. keyStrings blobStr meta rf = Ok vs \<and> vs \<noteq> []
        \<and> k = d_Name meta @ '':{'' @ join ''-'' vs @ ''}'')"
  by (auto simp: BuildKey_def keyStrings_def res_bind_Ok_iff key_values_Ok_iff)

text \<open>
  The key under which a record is stored identifies it: for message names without a colon
  and key values without a dash, two records have the same key exactly when their messages have
  the same (short) name and their primary keys the same values.
\<close>

theorem redis_key_injective:
  assumes "BuildKey blobStr d1 r1 = Ok k1" and "BuildKey blobStr d2 r2 = Ok k2"
    and "CHR '':'' \<notin> set (d_Name d1)" and "CHR '':'' \<notin> set (d_Name d2)"
    and "keyStrings blobStr d1 r1 = Ok vs1"
    and "keyStrings blobStr d2 r2 = Ok vs2"
    and "\<forall>v\<in>set vs1 \<union> set vs2. CHR ''-'' \<notin> set v"
  shows "k1 = k2 \<longleftrightarrow> d_Name d1 = d_Name d2 \<and> vs1 = vs2"
proof -
  from assms(1,5) have k1: "k1 = d_Name d1 @ CHR '':'' # ''{'' @ join ''-'' vs1 @ ''}''" "vs1 \<noteq> []"
    by (auto simp: BuildKey_Ok_iff)
  from assms(2,6) have k2: "k2 = d_Name d2 @ CHR '':'' # ''{'' @ join ''-'' vs2 @ ''}''" "vs2 \<noteq> []"
    by (auto simp: BuildKey_Ok_iff)
  have "k1 = k2 \<longleftrightarrow> d_Name d1 = d_Name d2 \<and> join ''-'' vs1 = join ''-'' vs2"
    by (simp add: k1 k2 append_sep_inject assms(3,4))
  with join_inject [of vs1 "CHR ''-''" vs2, OF _ _ k1(2) k2(2)] assms(7) show ?thesis by blast
qed

definition player2 :: message where
  "player2 = \<lparr>scalars = [(''uid'', VUint 8)], wire = [(1, ''u8'')]\<rparr>"

lemma player_keys:
  "keyStrings (\<lambda>_. []) player_desc player = Ok [''7'']"
  "keyStrings (\<lambda>_. []) player_desc player2 = Ok [''8'']"
  by (simp_all add: keyStrings_def FindPrimaryKey_def FindFds_def player_desc_def player_def player2_def ByName_def
      Get_String_def IsFdMarshalToBlob_def BlobKind_def Value_String_def marshalScalar_def
      Itoa.simps digit_char_def char_of_def bit_0)

lemma player_BuildKey:
  "BuildKey (\<lambda>_. []) player_desc player = Ok ''Player:{7}''"
  "BuildKey (\<lambda>_. []) player_desc player2 = Ok ''Player:{8}''"
  by (simp_all add: BuildKey_Ok_iff player_keys) (simp_all add: player_desc_def)

theorem redis_key_injective_witness:
  "BuildKey (\<lambda>_. []) player_desc player = Ok ''Player:{7}''
    \<and> (''Player:{7}'' = ''Player:{8}'' \<longleftrightarrow> d_Name player_desc = d_Name player_desc \<and> [''7''] = [''8''])"
proof -
  have "CHR '':'' \<notin> set (d_Name player_desc)" by (simp add: player_desc_def)
  with redis_key_injective [OF player_BuildKey this this player_keys] player_BuildKey show ?thesis
    by simp
qed

text \<open>A dash in a key value may make two records share a key.\<close>

lemma redis_key_collision:
  "join ''-'' [''a-b'', ''c''] = join ''-'' [''a'', ''b-c'']"
  by simp

section \<open>Storing and reading\<close>

text \<open>
  A server that works: \<open>H s k\<close> is the hash stored under \<open>k\<close>, which exists when it has a field;
  \<open>hmset\<close> with at least one pair sets the given fields and keeps the others, without one it is an
  error, a script runs as a whole, \<open>hgetall\<close> returns every field once, in some order, and \<open>del\<close> removes the hash.
\<close>

definition hash_server :: "'s redis \<Rightarrow> ('s \<Rightarrow> string \<Rightarrow> string \<rightharpoonup> string) \<Rightarrow> bool" where
  "hash_server srv H \<longleftrightarrow>
     (\<forall>s k. Exists srv s k \<longleftrightarrow> H s k \<noteq> Map.empty)
     \<and> (\<forall>s k m. m \<noteq> [] \<and> distinct (map fst m) \<longrightarrow>
          (\<exists>s'. Hmset srv s k m = (Str ''OK'', s') \<and> H s' = (H s)(k := H s k ++ map_of m)))
     \<and> (\<forall>s k. \<exists>e. Hmset srv s k [] = (Err e, s))
     \<and> (\<forall>f s. Eval srv f s = (case f s of (Err e, s') \<Rightarrow> (Inl e, s') | (r, s') \<Rightarrow> (Inr r, s')))
     \<and> (\<forall>s k. \<exists>m. HGetAll srv s k = Inr m \<and> distinct (map fst m) \<and> map_of m = H s k)
     \<and> (\<forall>s k m. m \<noteq> [] \<and> distinct (map fst m) \<longrightarrow>
          (\<exists>s'. HMSet srv s k m = (Inr True, s') \<and> H s' = (H s)(k := H s k ++ map_of m)))
     \<and> (\<forall>s k. \<exists>s'. Del srv s k = (None, s') \<and> H s' = (H s)(k := Map.empty))"

lemma hash_server_laws:
  assumes "hash_server srv H"
  shows hash_Exists: "Exists srv s k \<longleftrightarrow> H s k \<noteq> Map.empty"
    and hash_Hmset: "m \<noteq> [] \<Longrightarrow> distinct (map fst m) \<Longrightarrow>
      \<exists>s'. Hmset srv s k m = (Str ''OK'', s') \<and> H s' = (H s)(k := H s k ++ map_of m)"
    and hash_Hmset_Nil: "\<exists>e. Hmset srv s k [] = (Err e, s)"
    and hash_Eval: "Eval srv f s = (case f s of (Err e, s') \<Rightarrow> (Inl e, s') | (r, s') \<Rightarrow> (Inr r, s'))"
    and hash_HGetAll: "\<exists>m. HGetAll srv s k = Inr m \<and> distinct (map fst m) \<and> map_of m = H s k"
    and hash_HMSet: "m \<noteq> [] \<Longrightarrow> distinct (map fst m) \<Longrightarrow>
      \<exists>s'. HMSet srv s k m = (Inr True, s') \<and> H s' = (H s)(k := H s k ++ map_of m)"
    and hash_Del: "\<exists>s'. Del srv s k = (None, s') \<and> H s' = (H s)(k := Map.empty)"
  using assms unfolding hash_server_def by simp_all

text \<open>The cache holds the entry of this descriptor or none under its name.\<close>

definition own_meta :: "msg_desc \<Rightarrow> 's redis_db \<Rightarrow> bool" where
  "own_meta desc t = (map_of (metaMap t) (d_FullName desc) \<in> {None, Some desc})"

lemma key_of_own:
  assumes "own_meta desc t"
  obtains t' where "\<And>rec. key_of blobStr desc rec t = (BuildKey blobStr desc rec, t')"
    and "own_meta desc t'" and "client t' = client t"
  using assms
  by (auto simp: own_meta_def key_of_def GetDBProtoMeta_def intro: that)

lemma same_map_same_set:
  assumes "distinct (map fst m)" and "distinct (map fst m')" and "map_of m = map_of m'"
  shows "set m = set m'"
  using assms by (metis map_of_inject_set)

lemma read_back_hash:
  assumes "record_ok pf desc rec" and "hash_server srv H" and "own_meta desc t"
    and "MarshalToMap desc rec [] = Ok m" and "wire rec \<noteq> []"
    and "H (client t) k = map_of m" and "BuildKey blobStr desc old = Ok k"
  shows "\<exists>sets blobs. map_of sets = map_of (scalars rec)
    \<and> distinct blobs \<and> set blobs = wire_names desc (wire rec) - fst ` set (scalars rec)
    \<and> fst (SimpleGet srv blobStr pf merge desc old [] t)
      = (case merge old sets (concat (map (\<lambda>n. chunks desc n (wire rec)) blobs)) of
           (r, ok) \<Rightarrow> Ok (r, if ok then None else Some (PbErr UnmarshalErr)))"
proof -
  obtain t' where t': "\<And>rec. key_of blobStr desc rec t = (BuildKey blobStr desc rec, t')" "client t' = client t"
    using key_of_own [OF assms(3)] by metis
  obtain m' where m': "HGetAll srv (client t) k = Inr m'" "distinct (map fst m')"
    "map_of m' = map_of m"
    using hash_HGetAll [OF assms(2), of "client t" k] assms(6) by metis
  from record_read_back [OF assms(1), of merge old] assms(4) have md: "distinct (map fst m)"
    and reads: "\<And>m'. set m' = set m \<and> distinct (map fst m') \<Longrightarrow>
        \<exists>sets blobs. map_of sets = map_of (scalars rec)
          \<and> distinct blobs \<and> set blobs = wire_names desc (wire rec) - fst ` set (scalars rec)
          \<and> UnmarshalFromMap pf merge desc old m'
            = (case merge old sets (concat (map (\<lambda>n. chunks desc n (wire rec)) blobs)) of
                 (r, ok) \<Rightarrow> Ok (r, if ok then None else Some UnmarshalErr))"
    by auto
  note sets_eq = same_map_same_set [OF m'(2) md m'(3)]
  with MarshalToMap_outcome(2) [OF assms(4)] assms(5) have "m' \<noteq> []" by auto
  with t' m'(1) have get: "fst (SimpleGet srv blobStr pf merge desc old [] t) = unmarshal_into pf merge desc old m'"
    by (simp add: SimpleGet_def assms(7))
  from sets_eq m'(2) reads [of m'] obtain sets blobs where
    "map_of sets = map_of (scalars rec)" "distinct blobs"
    "set blobs = wire_names desc (wire rec) - fst ` set (scalars rec)"
    and un: "UnmarshalFromMap pf merge desc old m'
            = (case merge old sets (concat (map (\<lambda>n. chunks desc n (wire rec)) blobs)) of
                 (r, ok) \<Rightarrow> Ok (r, if ok then None else Some UnmarshalErr))"
    by blast
  with get show ?thesis
    by (intro exI [of _ sets] exI [of _ blobs])
      (simp add: unmarshal_into_def split: prod.splits)
qed

text \<open>
  Insert then get: on a working server \<open>SimpleInsert\<close> of a record succeeds exactly when
  nothing is stored under its key, and changes nothing otherwise; after it succeeded, a
  \<open>SimpleGet\<close> of any record with that key sets exactly the scalar fields of the inserted record and
  merges exactly the bytes of its other fields.
\<close>

theorem redis_insert_get:
  assumes "hash_server srv H" and "record_ok pf desc rec" and "wire rec \<noteq> []" and "own_meta desc t"
    and "BuildKey blobStr desc rec = Ok k" and "BuildKey blobStr desc old = Ok k"
    and "SimpleInsert srv blobStr desc rec t = (r, t')"
  shows "(r = Ok () \<longleftrightarrow> H (client t) k = Map.empty)
    \<and> (r \<noteq> Ok () \<longrightarrow> r = Fail (InsertRet ''AlreadyExists'') \<and> client t' = client t)
    \<and> (r = Ok () \<longrightarrow> (\<exists>sets blobs. map_of sets = map_of (scalars rec)
        \<and> distinct blobs \<and> set blobs = wire_names desc (wire rec) - fst ` set (scalars rec)
        \<and> fst (SimpleGet srv blobStr pf merge desc old [] t')
          = (case merge old sets (concat (map (\<lambda>n. chunks desc n (wire rec)) blobs)) of
               (m, ok) \<Rightarrow> Ok (m, if ok then None else Some (PbErr UnmarshalErr)))))"
proof -
  obtain m where m: "MarshalToMap desc rec [] = Ok m" "distinct (map fst m)"
    using marshal_record_columns [OF assms(2)] by metis
  with MarshalToMap_outcome(2) assms(3) have "m \<noteq> []" by blast
  obtain t1 where t1: "\<And>rec. key_of blobStr desc rec t = (BuildKey blobStr desc rec, t1)"
    "own_meta desc t1" "client t1 = client t"
    using key_of_own [OF assms(4)] by metis
  have ins: "SimpleInsert srv blobStr desc rec t = run_script srv (insert_script srv k m) InsertRet t1"
    by (simp add: SimpleInsert_def m t1 assms(5))
  have ev: "Eval srv f s = (case f s of (Err e, s') \<Rightarrow> (Inl e, s') | (r, s') \<Rightarrow> (Inr r, s'))" for f s
    by (rule hash_Eval [OF assms(1)])
  have ex: "Exists srv (client t) k \<longleftrightarrow> H (client t) k \<noteq> Map.empty"
    by (rule hash_Exists [OF assms(1)])
  obtain s' where
    set: "Hmset srv (client t) k m = (Str ''OK'', s')" "H s' = (H (client t))(k := H (client t) k ++ map_of m)"
    using hash_Hmset [OF assms(1) \<open>m \<noteq> []\<close> m(2)] by metis
  show ?thesis
  proof (cases "H (client t) k = Map.empty")
    case True
    with ins ex ev set t1 assms(7) have r: "r = Ok ()" "t' = t1\<lparr>client := s'\<rparr>"
      by (simp_all add: run_script_def insert_script_def)
    from t1(2) have "own_meta desc t'" by (simp add: r own_meta_def)
    moreover from True set(2) have "H (client t') k = map_of m" by (simp add: r)
    ultimately show ?thesis
      using read_back_hash [OF assms(2,1) _ m(1) assms(3) _ assms(6)] True r by simp
  next
    case False
    with ins ex ev t1 assms(7) show ?thesis
      by (auto simp: run_script_def insert_script_def)
  qed
qed

text \<open>A concrete server: every hash is the list of the pairs set so far, the latest first.\<close>

definition log_server :: "(string \<Rightarrow> (string \<times> string) list) redis" where
  "log_server = \<lparr>Exists = (\<lambda>s k. s k \<noteq> []),
     Hmset = (\<lambda>s k m. if m = [] then (Err ''wrong number of arguments'', s) else (Str ''OK'', s(k := m @ s k))),
     Eval = (\<lambda>f s. case f s of (Err e, s') \<Rightarrow> (Inl e, s') | (r, s') \<Rightarrow> (Inr r, s')),
     HGetAll = (\<lambda>s k. Inr (AList.clearjunk (s k))),
     HMGet = (\<lambda>s k fs. Inr (map (map_of (s k)) fs)),
     HMSet = (\<lambda>s k m. (Inr True, s(k := m @ s k))),
     Del = (\<lambda>s k. (None, s(k := []))),
     HIncrBy = (\<lambda>s k f n. (Some ''unsupported'', s)),
     Pipeline_Exec = (\<lambda>s cmds. (Some ''unsupported'', s))\<rparr>"

lemma log_server_ok: "hash_server log_server (\<lambda>s k. map_of (s k))"
proof -
  have "xs \<noteq> [] \<longleftrightarrow> map_of xs \<noteq> Map.empty" for xs :: "(string \<times> string) list"
    by (cases xs) (auto simp: fun_eq_iff)
  moreover have "(\<lambda>k'. map_of ((s(k := m @ s k)) k')) = (\<lambda>k'. map_of (s k'))(k := map_of (s k) ++ map_of m)"
    for s :: "string \<Rightarrow> (string \<times> string) list" and k m
    by (simp add: fun_eq_iff)
  moreover have "(\<lambda>k'. map_of ((s(k := [])) k')) = (\<lambda>k'. map_of (s k'))(k := Map.empty)"
    for s :: "string \<Rightarrow> (string \<times> string) list" and k
    by (simp add: fun_eq_iff)
  ultimately show ?thesis
    unfolding hash_server_def log_server_def
    by (simp add: map_of_clearjunk distinct_clearjunk)
qed

lemma player_record_ok: "record_ok Some player_desc player"
  by (simp add: record_ok_def wire_ok_def scalar_ok_def player_desc_def player_def ByName_def
      ByNumber_def IsFdMarshalToBlob_def BlobKind_def)

theorem redis_insert_get_witness:
  "\<exists>t'. SimpleInsert log_server (\<lambda>_. []) player_desc player \<lparr>metaMap = [], client = \<lambda>k. []\<rparr> = (Ok (), t')
    \<and> (\<exists>sets blobs. map_of sets = map_of (scalars player)
        \<and> distinct blobs \<and> set blobs = wire_names player_desc (wire player) - fst ` set (scalars player)
        \<and> fst (SimpleGet log_server (\<lambda>_. []) Some (\<lambda>old sets b. (\<lparr>scalars = sets, wire = [(0, b)]\<rparr>, True))
              player_desc player [] t')
          = Ok (\<lparr>scalars = sets, wire = [(0, concat (map (\<lambda>n. chunks player_desc n (wire player)) blobs))]\<rparr>, None))"
proof -
  obtain r t' where ins: "SimpleInsert log_server (\<lambda>_. []) player_desc player
      \<lparr>metaMap = [], client = \<lambda>k. []\<rparr> = (r, t')"
    by (cases "SimpleInsert log_server (\<lambda>_. []) player_desc player \<lparr>metaMap = [], client = \<lambda>k. []\<rparr>")
  have "wire player \<noteq> []" "own_meta player_desc \<lparr>metaMap = [], client = \<lambda>k. []\<rparr>"
    by (simp_all add: player_def own_meta_def)
  from redis_insert_get [OF log_server_ok player_record_ok this player_BuildKey(1,1) ins,
      of "\<lambda>old sets b. (\<lparr>scalars = sets, wire = [(0, b)]\<rparr>, True)"] ins
  show ?thesis by auto
qed

text \<open>
  \<open>SimpleReplace\<close> updates rather than replaces: on a working server it succeeds, stores the
  columns of the fields the record has populated, and leaves the column of every other field as
  it was -- so a field that was reset to its default keeps its old value.
\<close>

theorem redis_replace_keeps_cleared:
  assumes "hash_server srv H" and "record_ok pf desc rec" and "wire rec \<noteq> []" and "own_meta desc t"
    and "BuildKey blobStr desc rec = Ok k" and "SimpleReplace srv blobStr desc rec t = (r, t')"
  shows "r = Ok () \<and> H (client t') k n =
    (if n \<in> wire_names desc (wire rec)
     then (case map_of (scalars rec) n of
             Some v \<Rightarrow> Some (marshalScalar v) | None \<Rightarrow> Some (chunks desc n (wire rec)))
     else H (client t) k n)"
proof -
  obtain m where m: "MarshalToMap desc rec [] = Ok m" "distinct (map fst m)"
    "map_of m n = (if n \<in> wire_names desc (wire rec)
      then (case map_of (scalars rec) n of Some v \<Rightarrow> Some (marshalScalar v)
            | None \<Rightarrow> Some (chunks desc n (wire rec))) else None)"
    using marshal_record_columns [OF assms(2)] by metis
  with MarshalToMap_outcome(2) assms(3) have "m \<noteq> []" by blast
  obtain t1 where t1: "\<And>rec. key_of blobStr desc rec t = (BuildKey blobStr desc rec, t1)" "client t1 = client t"
    using key_of_own [OF assms(4)] by metis
  obtain s' where
    set: "HMSet srv (client t) k m = (Inr True, s')" "H s' = (H (client t))(k := H (client t) k ++ map_of m)"
    using hash_HMSet [OF assms(1) \<open>m \<noteq> []\<close> m(2)] by metis
  from assms(6) have "r = Ok ()" and "client t' = s'"
    by (auto simp: SimpleReplace_def m t1 assms(5) set)
  with set(2) m(3) show ?thesis
    by (auto simp: map_add_def split: option.splits)
qed

theorem redis_replace_keeps_cleared_witness:
  "\<exists>t'. SimpleReplace log_server (\<lambda>_. []) player_desc player
      \<lparr>metaMap = [], client = \<lambda>k. [(''level'', ''9'')]\<rparr> = (Ok (), t')
    \<and> map_of (client t' ''Player:{7}'') ''level'' = Some ''9''"
proof -
  let ?t = "\<lparr>metaMap = [], client = \<lambda>k. [(''level'', ''9'')]\<rparr> :: (string \<Rightarrow> (string \<times> string) list) redis_db"
  obtain r t' where rep: "SimpleReplace log_server (\<lambda>_. []) player_desc player ?t = (r, t')"
    by (cases "SimpleReplace log_server (\<lambda>_. []) player_desc player ?t")
  have "wire player \<noteq> []" "own_meta player_desc ?t"
    by (simp_all add: player_def own_meta_def)
  from redis_replace_keeps_cleared [OF log_server_ok player_record_ok this player_BuildKey(1) rep, of "''level''"] rep
  show ?thesis
    by (auto simp: wire_names_def player_def player_desc_def ByNumber_def split: if_splits)
qed

end
