(* ===== verification/Record_Store.thy ===== *)
theory Record_Store
  imports Pbsupport
begin

text \<open>
  The contract of the record interface \<open>IDBSimpleExecutor\<close> of \<^verbatim>\<open>src/plugin/db/db.go\<close>, as its comments
  state it (a specification; the interface has no code): an insert fails when the record exists, an update fails when it does not, a replace
  updates or creates, a delete removes.  A database plugin implements it when its operations
  act on the stored columns like the operations of a specification on a table; what a caller can
  rely on follows for every implementation.
\<close>

section \<open>Tables\<close>

text \<open>A table maps a key to the columns stored under it; no column means no record.\<close>

type_synonym table = "string \<Rightarrow> string \<rightharpoonup> string"

datatype 'r store_op = InsertOp 'r | UpdateOp 'r "string list" | ReplaceOp 'r | DeleteOp 'r

primrec op_record :: "'r store_op \<Rightarrow> 'r" where
  "op_record (InsertOp r) = r"
| "op_record (UpdateOp r flds) = r"
| "op_record (ReplaceOp r) = r"
| "op_record (DeleteOp r) = r"

text \<open>An update writes the columns of the listed fields, of all fields for the empty list, if there are any.\<close>

fun table_op ::
  "('r \<Rightarrow> string) \<Rightarrow> ('r \<Rightarrow> string list \<Rightarrow> string \<rightharpoonup> string) \<Rightarrow> 'r store_op \<Rightarrow> table \<Rightarrow> bool \<times> table" where
  "table_op key cols (InsertOp r) T =
     (if T (key r) = Map.empty then (True, T(key r := cols r [])) else (False, T))"
| "table_op key cols (UpdateOp r flds) T =
     (if T (key r) = Map.empty \<or> cols r flds = Map.empty then (False, T)
      else (True, T(key r := T (key r) ++ cols r flds)))"
| "table_op key cols (ReplaceOp r) T = (True, T(key r := T (key r) ++ cols r []))"
| "table_op key cols (DeleteOp r) T = (True, T(key r := Map.empty))"

text \<open>The columns of a record, or of some of its fields.\<close>

definition record_cols :: "msg_desc \<Rightarrow> message \<Rightarrow> string list \<Rightarrow> string \<rightharpoonup> string" where
  "record_cols desc rec flds = (case MarshalToMap desc rec flds of Ok m \<Rightarrow> map_of m | _ \<Rightarrow> Map.empty)"

text \<open>A filter on the fields leaves out the parts of the wire form that are not listed.\<close>

definition listed :: "msg_desc \<Rightarrow> string list \<Rightarrow> string set" where
  "listed desc flds = (case DirtyFilter desc flds of None \<Rightarrow> UNIV | Some F \<Rightarrow> F)"

lemma listed_all [simp]: "listed desc [] = UNIV"
  by (simp add: listed_def DirtyFilter_def)

definition wire_part :: "msg_desc \<Rightarrow> string set \<Rightarrow> (nat \<times> string) list \<Rightarrow> (nat \<times> string) list" where
  "wire_part desc F ws = filter (\<lambda>(num, _). case ByNumber desc num of None \<Rightarrow> True | Some fd \<Rightarrow> fd_Name fd \<in> F) ws"

lemma wire_part_all: "wire_part desc UNIV ws = ws"
  by (auto simp: wire_part_def filter_id_conv split: option.split)

lemma marshal_loop_listed: "marshal_loop desc raw (Some F) ws wm = marshal_loop desc raw None (wire_part desc F ws) wm"
proof (induction ws arbitrary: wm)
  case (Cons w ws)
  obtain num chunk where w: "w = (num, chunk)" by (cases w)
  have part: "wire_part desc F (w # ws) = (case ByNumber desc num of
      Some fd \<Rightarrow> if fd_Name fd \<in> F then w # wire_part desc F ws else wire_part desc F ws
    | None \<Rightarrow> w # wire_part desc F ws)"
    by (simp add: w wire_part_def split: option.split)
  show ?case
    unfolding part unfolding w by (simp add: Let_def Cons.IH split: option.split)
qed (simp add: wire_part_def)

lemma marshal_loop_part:
  "marshal_loop desc raw filt ws wm
    = marshal_loop desc raw None (wire_part desc (case filt of None \<Rightarrow> UNIV | Some F \<Rightarrow> F) ws) wm"
  by (cases filt) (simp_all add: wire_part_all marshal_loop_listed)

lemma wire_part_names:
  "wire_names desc (wire_part desc F ws) = wire_names desc ws \<inter> F"
  "n \<in> F \<Longrightarrow> chunks desc n (wire_part desc F ws) = chunks desc n ws"
proof -
  show "wire_names desc (wire_part desc F ws) = wire_names desc ws \<inter> F"
    by (fastforce simp: wire_names_def wire_part_def)
  show "chunks desc n (wire_part desc F ws) = chunks desc n ws" if "n \<in> F"
  proof -
    have "filter (\<lambda>(num, _). map_option fd_Name (ByNumber desc num) = Some n) (wire_part desc F ws)
        = filter (\<lambda>(num, _). map_option fd_Name (ByNumber desc num) = Some n) ws"
      using that by (auto simp: wire_part_def intro!: filter_cong)
    then show ?thesis by (simp add: chunks_def)
  qed
qed

lemma record_columns:
  assumes "record_ok pf desc rec"
  obtains m where "MarshalToMap desc rec flds = Ok m" and "distinct (map fst m)" and "record_cols desc rec flds = map_of m"
    and "\<And>n. record_cols desc rec flds n = (if n \<in> wire_names desc (wire rec) \<inter> listed desc flds
      then (case map_of (scalars rec) n of Some v \<Rightarrow> Some (marshalScalar v)
            | None \<Rightarrow> Some (chunks desc n (wire rec))) else None)"
proof -
  let ?ws = "wire_part desc (listed desc flds) (wire rec)"
  have "\<forall>(num, chunk)\<in>set ?ws. ByNumber desc num \<noteq> None"
    using assms by (auto simp: record_ok_def list_all_iff wire_ok_def wire_part_def split: option.splits)
  from marshal_loop_columns [OF this, of "map_of (map (\<lambda>(n, v). (n, marshalScalar v)) (scalars rec))" "[]"]
  obtain m where m: "MarshalToMap desc rec flds = Ok m" "distinct (map fst m)"
    and cols: "\<And>n. map_of m n = (if n \<in> wire_names desc ?ws
      then (case map_option marshalScalar (map_of (scalars rec) n) of Some r \<Rightarrow> Some r
            | None \<Rightarrow> Some (chunks desc n ?ws)) else None)"
    unfolding MarshalToMap_def marshal_loop_part [of desc _ "DirtyFilter desc flds"] listed_def
    by (auto simp: map_of_map cong: if_cong option.case_cong)
  from m(1) have "record_cols desc rec flds = map_of m" by (simp add: record_cols_def)
  with m show ?thesis
    by (intro that) (auto simp: cols wire_part_names split: option.splits)
qed

lemma record_cols_value:
  assumes "record_ok pf desc rec"
  shows "record_cols desc rec flds n = (if n \<in> wire_names desc (wire rec) \<inter> listed desc flds
    then (case map_of (scalars rec) n of Some v \<Rightarrow> Some (marshalScalar v)
          | None \<Rightarrow> Some (chunks desc n (wire rec))) else None)"
  by (rule record_columns [OF assms, of flds]) simp

text \<open>An update of listed fields writes a part of the columns of the record.\<close>

lemma record_cols_listed: "record_ok pf desc rec \<Longrightarrow> record_cols desc rec flds = record_cols desc rec [] |` listed desc flds"
  by (auto simp: record_cols_value restrict_map_def fun_eq_iff)

lemma record_cols_nonempty:
  assumes "record_ok pf desc rec" and "wire rec \<noteq> []"
  shows "record_cols desc rec [] \<noteq> Map.empty"
proof -
  obtain m where m: "MarshalToMap desc rec [] = Ok m" "record_cols desc rec [] = map_of m"
    using record_columns [OF assms(1)] by metis
  with MarshalToMap_outcome(2) assms(2) have "m \<noteq> []" by blast
  with m(2) show ?thesis by simp
qed

text \<open>Writing operations and increases of counters.\<close>

datatype 'r row_action = Write "'r store_op" | Increase 'r "string list"

text \<open>Which of the operations of a run succeed, and the state after it.\<close>

fun run_store :: "('o \<Rightarrow> 's \<Rightarrow> bool \<times> 's) \<Rightarrow> 'o list \<Rightarrow> 's \<Rightarrow> bool list \<times> 's" where
  "run_store step [] s = ([], s)"
| "run_store step (a # as) s =
     (case step a s of (b, s) \<Rightarrow> case run_store step as s of (bs, s) \<Rightarrow> (b # bs, s))"

section \<open>The interface\<close>

text \<open>
  Operations \<open>step\<close> on a database act as the operations \<open>spec\<close> on the table that it stores; then so
  do sequences of them.
\<close>

locale table_refinement =
  fixes step :: "'o \<Rightarrow> 's \<Rightarrow> bool \<times> 's"
    and spec :: "'o \<Rightarrow> table \<Rightarrow> bool \<times> table"
    and stored :: "'s \<Rightarrow> table"
    and valid_op :: "'o \<Rightarrow> bool"
    and inv :: "'s \<Rightarrow> bool"
  assumes step_inv: "inv s \<Longrightarrow> valid_op a \<Longrightarrow> inv (snd (step a s))"
    and step_table: "inv s \<Longrightarrow> valid_op a \<Longrightarrow> spec a (stored s) = (fst (step a s), stored (snd (step a s)))"
begin

lemma run_inv:
  "inv s \<Longrightarrow> \<forall>a\<in>set as. valid_op a \<Longrightarrow> inv (snd (run_store step as s))"
proof (induction as arbitrary: s)
  case (Cons a as)
  from Cons.prems step_inv have "inv (snd (step a s))" by simp
  with Cons show ?case by (simp add: split_beta)
qed simp

lemma run_table:
  assumes "inv s" and "\<forall>a\<in>set as. valid_op a"
  shows "run_store spec as (stored s) = (fst (run_store step as s), stored (snd (run_store step as s)))"
  using assms
proof (induction as arbitrary: s)
  case (Cons a as)
  obtain b s1 where s1: "step a s = (b, s1)" by fastforce
  with Cons.prems step_inv [of s a] step_table [of s a]
  have "inv s1" "spec a (stored s) = (b, stored s1)" by simp_all
  with Cons.IH [of s1] Cons.prems s1 show ?case by (simp split: prod.split)
qed simp

end

text \<open>
  The interface of records.  Whatever a specification makes of updates and replaces, an insert
  stores the columns of a record unless there is one, and only a delete makes a record go away.
\<close>

locale simple_executor = table_refinement step spec stored "\<lambda>a. valid (op_record a)" inv
  for step :: "'r store_op \<Rightarrow> 's \<Rightarrow> bool \<times> 's"
    and spec :: "'r store_op \<Rightarrow> table \<Rightarrow> bool \<times> table"
    and stored :: "'s \<Rightarrow> table"
    and valid :: "'r \<Rightarrow> bool"
    and inv :: "'s \<Rightarrow> bool" +
  fixes key :: "'r \<Rightarrow> string"
    and cols :: "'r \<Rightarrow> string list \<Rightarrow> string \<rightharpoonup> string"
  assumes spec_insert: "valid r \<Longrightarrow>
      spec (InsertOp r) T = (if T (key r) = Map.empty then (True, T(key r := cols r [])) else (False, T))"
    and spec_present: "valid (op_record a) \<Longrightarrow> T k \<noteq> Map.empty \<Longrightarrow> \<forall>r. a = DeleteOp r \<longrightarrow> key r \<noteq> k \<Longrightarrow>
      snd (spec a T) k \<noteq> Map.empty"
    and cols_nonempty: "valid r \<Longrightarrow> cols r [] \<noteq> Map.empty"
begin

lemma present_until_deleted:
  assumes "inv s" and "\<forall>a\<in>set as. valid (op_record a)" and "stored s k \<noteq> Map.empty"
    and "\<forall>r. DeleteOp r \<in> set as \<longrightarrow> key r \<noteq> k"
  shows "inv (snd (run_store step as s)) \<and> stored (snd (run_store step as s)) k \<noteq> Map.empty"
  using assms
proof (induction as arbitrary: s)
  case (Cons a as)
  obtain b s1 where s1: "step a s = (b, s1)" by fastforce
  with Cons.prems step_inv [of s a] step_table [of s a]
  have inv: "inv s1" and tb: "stored s1 = snd (spec a (stored s))" by simp_all
  have "stored s1 k \<noteq> Map.empty"
    unfolding tb using Cons.prems by (intro spec_present) auto
  with Cons.IH [of s1] inv Cons.prems s1 show ?case by (simp add: split_beta)
qed simp

text \<open>A record that was inserted or written cannot be inserted again before it is deleted.\<close>

lemma insert_exclusive:
  assumes "inv s" and "\<forall>a\<in>set as. valid (op_record a)" and "valid r" and "valid r'" and "key r' = key r"
    and "step (InsertOp r) s = (True, s1)"
    and "\<forall>q. DeleteOp q \<in> set as \<longrightarrow> key q \<noteq> key r"
  shows "fst (step (InsertOp r') (snd (run_store step as s1))) = False
    \<and> stored (snd (step (InsertOp r') (snd (run_store step as s1)))) = stored (snd (run_store step as s1))"
proof -
  have "inv s1" using step_inv [OF assms(1), of "InsertOp r"] assms(3,6) by simp
  moreover have "spec (InsertOp r) (stored s) = (True, stored s1)"
    using step_table [OF assms(1), of "InsertOp r"] assms(3,6) by simp
  then have "stored s1 = (stored s)(key r := cols r [])"
    by (simp add: spec_insert [OF assms(3)] split: if_splits)
  then have "stored s1 (key r) \<noteq> Map.empty" using cols_nonempty [OF assms(3)] by simp
  ultimately have e: "inv (snd (run_store step as s1))" "stored (snd (run_store step as s1)) (key r) \<noteq> Map.empty"
    using present_until_deleted [OF _ assms(2) _ assms(7)] by simp_all
  from step_table [OF e(1), of "InsertOp r'"] assms(4,5) e(2) spec_insert [OF assms(4)] show ?thesis by simp
qed

end

text \<open>The table operations of the documented contract only lose a record by deleting it.\<close>

lemma table_op_present:
  "cols (op_record a) [] \<noteq> Map.empty \<Longrightarrow> T k \<noteq> Map.empty \<Longrightarrow> \<forall>r. a = DeleteOp r \<longrightarrow> key r \<noteq> k \<Longrightarrow>
    snd (table_op key cols a T) k \<noteq> Map.empty"
  by (cases a) (auto simp: map_add_eq_empty_iff)

section \<open>Columns that can be read\<close>

text \<open>The bytes of a field that is not kept as text, and the names of these fields.\<close>

definition row_bytes :: "(string \<rightharpoonup> string) \<Rightarrow> string \<Rightarrow> string" where
  "row_bytes row n = (case row n of None \<Rightarrow> [] | Some b \<Rightarrow> b)"

definition blob_names :: "msg_desc \<Rightarrow> string set" where
  "blob_names desc = set (map fd_Name (filter IsFdMarshalToBlob (d_Fields desc)))"

text \<open>A row that parses, and a message type whose rows can be read.\<close>

definition readable :: "(string \<Rightarrow> string option) \<Rightarrow> msg_desc \<Rightarrow> (string \<rightharpoonup> string) \<Rightarrow> bool" where
  "readable pf desc row = list_all (\<lambda>fd. IsFdMarshalToBlob fd \<or>
     (case row (fd_Name fd) of None \<Rightarrow> True | Some s \<Rightarrow> unmarshalScalarByStr pf (fd_Kind fd) s \<noteq> None))
     (d_Fields desc)"

definition readable_desc :: "msg_desc \<Rightarrow> bool" where
  "readable_desc desc =
     (distinct (map fd_Name (d_Fields desc))
      \<and> list_all (\<lambda>fd. take 1 (fd_Name fd) \<noteq> ''_''
          \<and> (IsFdMarshalToBlob fd \<or> fd_Kind fd \<notin> {EnumKind, Fixed64Kind})) (d_Fields desc))"

lemma ByName_distinct:
  assumes "distinct (map fd_Name (d_Fields desc))" and "fd \<in> set (d_Fields desc)"
  shows "ByName desc (fd_Name fd) = Some fd"
proof -
  have "List.find (\<lambda>f. fd_Name f = fd_Name fd) fds = Some fd"
    if "distinct (map fd_Name fds)" "fd \<in> set fds" for fds
    using that by (induction fds) force+
  with assms show ?thesis by (simp add: ByName_def)
qed

lemma ByName_SomeD: "ByName desc n = Some fd \<Longrightarrow> fd \<in> set (d_Fields desc) \<and> fd_Name fd = n"
  by (auto simp: ByName_def find_Some_iff)

lemma record_readable:
  assumes "record_ok pf desc rec" and "readable_desc desc"
  shows "readable pf desc (record_cols desc rec flds)"
  unfolding readable_def list_all_iff
proof
  fix fd
  assume fd: "fd \<in> set (d_Fields desc)"
  then have n: "ByName desc (fd_Name fd) = Some fd" using assms(2) by (simp add: readable_desc_def ByName_distinct)
  show "IsFdMarshalToBlob fd \<or> (case record_cols desc rec flds (fd_Name fd) of None \<Rightarrow> True
      | Some s \<Rightarrow> unmarshalScalarByStr pf (fd_Kind fd) s \<noteq> None)"
    using record_ok_wire_name [OF assms(1), of "fd_Name fd"] record_ok_scalar_reads [OF assms(1) _ n]
    by (auto simp: record_cols_value [OF assms(1)] n split: option.splits)
qed

lemma readable_add:
  "readable pf desc row \<Longrightarrow> readable pf desc row' \<Longrightarrow> readable pf desc (row ++ row')"
  "readable pf desc row \<Longrightarrow> readable pf desc (row(c := None))"
  "readable pf desc Map.empty"
  by (auto simp: readable_def list_all_iff map_add_def split: option.splits)

section \<open>An example\<close>

text \<open>A message type with a text as its key, a counter and bytes.\<close>

definition hero_desc :: msg_desc where
  "hero_desc = \<lparr>d_Name = ''Hero'', d_FullName = ''db.Hero'',
     d_Fields = [\<lparr>fd_Name = ''id'', fd_Number = 1, fd_Kind = StringKind, fd_Repeated = False\<rparr>,
       \<lparr>fd_Name = ''level'', fd_Number = 2, fd_Kind = Int32Kind, fd_Repeated = False\<rparr>,
       \<lparr>fd_Name = ''bag'', fd_Number = 3, fd_Kind = BytesKind, fd_Repeated = False\<rparr>],
     d_PrimaryKey = ''id''\<rparr>"

definition hero :: message where
  "hero = \<lparr>scalars = [(''id'', VString ''bo'')], wire = [(1, ''i''), (3, ''b'')]\<rparr>"

lemmas hero_eval = hero_desc_def hero_def ByName_def ByNumber_def IsFdMarshalToBlob_def BlobKind_def
  marshalScalar_def


end
