(* ===== verification/Redis_Store.thy ===== *)
theory Redis_Store
  imports Redis Record_Store
begin

text \<open>
  The Redis plugin as an implementation of the record interface: each of its operations acts on
  the hashes of the server like the operation on a table, for records that can be stored.
\<close>

section \<open>Operations as steps\<close>

definition redis_key :: "(field \<Rightarrow> string) \<Rightarrow> msg_desc \<Rightarrow> message \<Rightarrow> string" where
  "redis_key blobStr desc rec = (case BuildKey blobStr desc rec of Ok k \<Rightarrow> k | _ \<Rightarrow> [])"

definition storable :: "(field \<Rightarrow> string) \<Rightarrow> (string \<Rightarrow> string option) \<Rightarrow> msg_desc \<Rightarrow> message \<Rightarrow> bool" where
  "storable blobStr pf desc rec \<longleftrightarrow> record_ok pf desc rec \<and> wire rec \<noteq> []
     \<and> BuildKey blobStr desc rec = Ok (redis_key blobStr desc rec)"

text \<open>One call of the interface: whether it reports success.  \<open>pf\<close> and \<open>merge\<close> serve reading, which a delete without result does not do.\<close>

fun redis_step ::
  "'s redis \<Rightarrow> (field \<Rightarrow> string) \<Rightarrow> (string \<Rightarrow> string option) \<Rightarrow> merger \<Rightarrow> msg_desc
    \<Rightarrow> message store_op \<Rightarrow> 's redis_db \<Rightarrow> bool \<times> 's redis_db" where
  "redis_step srv blobStr pf merge desc (InsertOp rec) t =
     (case SimpleInsert srv blobStr desc rec t of (r, t) \<Rightarrow> (r = Ok (), t))"
| "redis_step srv blobStr pf merge desc (UpdateOp rec flds) t =
     (case SimpleUpdate srv blobStr desc rec flds t of (r, t) \<Rightarrow> (r = Ok (), t))"
| "redis_step srv blobStr pf merge desc (ReplaceOp rec) t =
     (case SimpleReplace srv blobStr desc rec t of (r, t) \<Rightarrow> (r = Ok (), t))"
| "redis_step srv blobStr pf merge desc (DeleteOp rec) t =
     (case SimpleDelete srv blobStr pf merge desc rec 0 t of (r, t) \<Rightarrow> (r = Ok (rec, None), t))"

lemma storable_columns:
  assumes "storable blobStr pf desc rec"
  obtains m where "MarshalToMap desc rec flds = Ok m" and "flds = [] \<Longrightarrow> m \<noteq> []" and "distinct (map fst m)"
    and "record_cols desc rec flds = map_of m"
proof -
  obtain m where m: "MarshalToMap desc rec flds = Ok m" "distinct (map fst m)" "record_cols desc rec flds = map_of m"
    using assms record_columns [of pf desc rec flds thesis] by (auto simp: storable_def intro: record_columns)
  moreover have "m \<noteq> []" if "flds = []"
    using m(3) that record_cols_nonempty [of pf desc rec] assms by (auto simp: storable_def)
  ultimately show ?thesis by (intro that)
qed

lemma own_meta_client [simp]: "own_meta desc (t\<lparr>client := s\<rparr>) = own_meta desc t"
  by (simp add: own_meta_def)

lemma redis_step_table:
  assumes "hash_server srv H" and "own_meta desc t" and "storable blobStr pf desc (op_record a)"
  shows "own_meta desc (snd (redis_step srv blobStr pf merge desc a t))"
    and "table_op (redis_key blobStr desc) (record_cols desc) a (H (client t))
      = (fst (redis_step srv blobStr pf merge desc a t),
         H (client (snd (redis_step srv blobStr pf merge desc a t))))"
proof -
  let ?rec = "op_record a"
  let ?k = "redis_key blobStr desc ?rec"
  obtain m where m: "MarshalToMap desc ?rec [] = Ok m" "m \<noteq> []" "distinct (map fst m)"
    "record_cols desc ?rec [] = map_of m" by (rule storable_columns [OF assms(3), of "[]"]) simp
  have k: "BuildKey blobStr desc ?rec = Ok ?k" using assms(3) by (simp add: storable_def)
  obtain t1 where t1: "key_of blobStr desc ?rec t = (Ok ?k, t1)" "own_meta desc t1" "client t1 = client t"
    using key_of_own [OF assms(2), of blobStr] k by metis
  have hm: "m \<noteq> [] \<Longrightarrow> distinct (map fst m) \<Longrightarrow> \<exists>s1. Hmset srv (client t) ?k m = (Str ''OK'', s1)
    \<and> H s1 = (H (client t))(?k := H (client t) ?k ++ map_of m)" for m
    by (rule hash_Hmset [OF assms(1)])
  obtain e where no: "Hmset srv (client t) ?k [] = (Err e, client t)"
    using hash_Hmset_Nil [OF assms(1)] by metis
  obtain s2 where hs: "HMSet srv (client t) ?k m = (Inr True, s2)"
    "H s2 = (H (client t))(?k := H (client t) ?k ++ map_of m)"
    using hash_HMSet [OF assms(1) m(2,3)] by metis
  obtain s3 where del: "Del srv (client t) ?k = (None, s3)" "H s3 = (H (client t))(?k := Map.empty)"
    using hash_Del [OF assms(1)] by metis
  note ev = hash_Eval [OF assms(1)] and ex = hash_Exists [OF assms(1)]
  have "own_meta desc (snd (redis_step srv blobStr pf merge desc a t))
    \<and> table_op (redis_key blobStr desc) (record_cols desc) a (H (client t))
      = (fst (redis_step srv blobStr pf merge desc a t),
         H (client (snd (redis_step srv blobStr pf merge desc a t))))"
  proof (cases a)
    case (InsertOp r)
    with m k t1 hm [OF m(2,3)] ev ex show ?thesis
      by (auto simp: SimpleInsert_def run_script_def insert_script_def)
  next
    case (UpdateOp r flds)
    obtain mf where mf: "MarshalToMap desc ?rec flds = Ok mf" "distinct (map fst mf)"
      "record_cols desc ?rec flds = map_of mf" by (rule storable_columns [OF assms(3), of flds]) simp
    show ?thesis
    proof (cases "mf = []")
      case True
      with UpdateOp mf k t1 no ev ex show ?thesis
        by (auto simp: SimpleUpdate_def run_script_def update_script_def)
    next
      case False
      with UpdateOp mf k t1 hm [OF False mf(2)] ev ex show ?thesis
        by (auto simp: SimpleUpdate_def run_script_def update_script_def)
    qed
  next
    case (ReplaceOp r)
    with m k t1 hs show ?thesis by (auto simp: SimpleReplace_def)
  next
    case (DeleteOp r)
    with k t1 del show ?thesis by (auto simp: SimpleDelete_def)
  qed
  then show "own_meta desc (snd (redis_step srv blobStr pf merge desc a t))"
    and "table_op (redis_key blobStr desc) (record_cols desc) a (H (client t))
      = (fst (redis_step srv blobStr pf merge desc a t),
         H (client (snd (redis_step srv blobStr pf merge desc a t))))"
    by simp_all
qed

section \<open>The plugin implements the interface\<close>

text \<open>A plugin in front of a server that works.\<close>

locale redis_plugin =
  fixes srv :: "'s redis" and H :: "'s \<Rightarrow> table"
    and blobStr :: "field \<Rightarrow> string" and pf :: "string \<Rightarrow> string option" and merge :: merger
    and desc :: msg_desc
  assumes server_works: "hash_server srv H"

sublocale redis_plugin \<subseteq> simple_executor "redis_step srv blobStr pf merge desc"
  "table_op (redis_key blobStr desc) (record_cols desc)" "\<lambda>t. H (client t)"
  "storable blobStr pf desc" "own_meta desc" "redis_key blobStr desc" "record_cols desc"
  by unfold_locales
    (auto simp: redis_step_table [OF server_works] storable_def record_cols_nonempty table_op_present)

context redis_plugin
begin

lemmas plugin_run_table = run_table
lemmas plugin_insert_exclusive = insert_exclusive

end

interpretation log_redis: redis_plugin log_server "\<lambda>s k. map_of (s k)" blobStr pf merge desc
  for blobStr pf merge desc
  by unfold_locales (rule log_server_ok)

section \<open>Properties\<close>

text \<open>
  The Redis plugin refines a table: for any sequence of inserts, updates, replaces and
  deletes of storable records on a working server, exactly those calls succeed that succeed on
  a table of records, as the interface documents them, and the hashes of the server afterwards
  are the table.
\<close>

theorem redis_refines_table:
  assumes "hash_server srv H" and "own_meta desc t"
    and "\<forall>a\<in>set as. storable blobStr pf desc (op_record a)"
  shows "run_store (table_op (redis_key blobStr desc) (record_cols desc)) as (H (client t))
    = (fst (run_store (redis_step srv blobStr pf merge desc) as t),
       H (client (snd (run_store (redis_step srv blobStr pf merge desc) as t))))"
  using redis_plugin.plugin_run_table [OF redis_plugin.intro [OF assms(1)] assms(2,3)] .

lemma players_storable:
  "storable (\<lambda>_. []) Some player_desc player" "own_meta player_desc \<lparr>metaMap = [], client = \<lambda>k. []\<rparr>"
  using player_record_ok player_BuildKey(1)
  by (simp_all add: storable_def redis_key_def player_def own_meta_def)

theorem redis_refines_table_witness:
  "fst (run_store (redis_step log_server (\<lambda>_. []) Some (\<lambda>old sets b. (old, True)) player_desc)
     [UpdateOp player [], InsertOp player, InsertOp player, UpdateOp player [], DeleteOp player, InsertOp player]
     \<lparr>metaMap = [], client = \<lambda>k. []\<rparr>) = [False, True, False, True, True, True]"
proof -
  have ne: "record_cols player_desc player [] \<noteq> Map.empty"
    by (rule record_cols_nonempty [OF player_record_ok]) (simp add: player_def)
  have "\<forall>a\<in>set [UpdateOp player [], InsertOp player, InsertOp player, UpdateOp player [], DeleteOp player, InsertOp player].
      storable (\<lambda>_. []) Some player_desc (op_record a)"
    using players_storable(1) by simp
  from redis_refines_table [OF log_server_ok players_storable(2) this, of "\<lambda>old sets b. (old, True)"]
  have "[False, True, False, True, True, True] = fst (run_store
     (redis_step log_server (\<lambda>_. []) Some (\<lambda>old sets b. (old, True)) player_desc)
     [UpdateOp player [], InsertOp player, InsertOp player, UpdateOp player [], DeleteOp player, InsertOp player]
     \<lparr>metaMap = [], client = \<lambda>k. []\<rparr>)"
    using ne by (simp add: map_add_eq_empty_iff del: redis_step.simps)
  then show ?thesis by simp
qed

text \<open>
  An inserted record cannot be inserted again by anyone before it is deleted: whatever other
  calls come between, a second insert under its key fails and changes nothing.
\<close>

theorem redis_insert_exclusive:
  assumes "hash_server srv H" and "own_meta desc t"
    and "\<forall>a\<in>set as. storable blobStr pf desc (op_record a)"
    and "storable blobStr pf desc r" and "storable blobStr pf desc r'"
    and "redis_key blobStr desc r' = redis_key blobStr desc r"
    and "redis_step srv blobStr pf merge desc (InsertOp r) t = (True, t1)"
    and "\<forall>q. DeleteOp q \<in> set as \<longrightarrow> redis_key blobStr desc q \<noteq> redis_key blobStr desc r"
    and "snd (run_store (redis_step srv blobStr pf merge desc) as t1) = t2"
  shows "fst (redis_step srv blobStr pf merge desc (InsertOp r') t2) = False
    \<and> H (client (snd (redis_step srv blobStr pf merge desc (InsertOp r') t2))) = H (client t2)"
  using redis_plugin.plugin_insert_exclusive [OF redis_plugin.intro [OF assms(1)] assms(2-8)] assms(9) by blast

theorem redis_insert_exclusive_witness:
  "fst (redis_step log_server (\<lambda>_. []) Some (\<lambda>old sets b. (old, True)) player_desc (InsertOp player)
     (snd (run_store (redis_step log_server (\<lambda>_. []) Some (\<lambda>old sets b. (old, True)) player_desc)
        [UpdateOp player []]
        (snd (redis_step log_server (\<lambda>_. []) Some (\<lambda>old sets b. (old, True)) player_desc (InsertOp player)
           \<lparr>metaMap = [], client = \<lambda>k. []\<rparr>))))) = False"
proof -
  let ?step = "redis_step log_server (\<lambda>_. []) Some (\<lambda>old sets b. (old, True)) player_desc"
  let ?t = "\<lparr>metaMap = [], client = \<lambda>k. []\<rparr> :: (string \<Rightarrow> (string \<times> string) list) redis_db"
  obtain b t1 where t1: "?step (InsertOp player) ?t = (b, t1)" by fastforce
  with redis_step_table(2) [OF log_server_ok players_storable(2), of "\<lambda>_. []" Some "InsertOp player"
      "\<lambda>old sets b. (old, True)"] players_storable(1) have "b" by simp
  with t1 redis_insert_exclusive [OF log_server_ok players_storable(2) _ players_storable(1,1) refl _ _ refl,
      of "[UpdateOp player []]" "\<lambda>old sets b. (old, True)" t1] players_storable(1)
  show ?thesis by simp
qed

end
