(* ===== verification/Mysql_Store.thy ===== *)
theory Mysql_Store
  imports Mysql Record_Store
begin

text \<open>
  The MySQL plugin as an implementation of the record interface.  Its operations reach the
  database as text: that the texts of \<open>Mysql\<close> are the statements that were meant, with their
  parameters at the right places, is what makes them operations on a table of rows.  Two of them
  differ from the documented contract and from the Redis plugin: a replace drops the columns that
  the new record leaves out, and an update that changes nothing reports a failure.
\<close>

section \<open>The database\<close>

text \<open>
  What a statement does to a table \<open>name\<close> with the primary key \<open>pk\<close>, as MySQL documents it: an insert
  fails for a key that is there, a replace sets the whole row, an update without assignments is no
  statement, an update affects the rows that it changes.  It is asked for identifiers as column
  names and for values that \<open>fits\<close> says a column keeps as they are and tells from its default
  (integers in their range and not zero, texts short enough).  A row without columns is no row.
\<close>

definition ident :: "string \<Rightarrow> bool" where
  "ident c = (c \<noteq> [] \<and> list_all (\<lambda>x. x \<notin> set '', ()=?*'') c)"

definition insert_stmt :: "string \<Rightarrow> string list \<Rightarrow> string" where
  "insert_stmt name cs = ''insert into '' @ name @ '' ('' @ join '','' cs @ '') values (''
     @ join '','' (replicate (length cs) ''?'') @ '') ''"

definition set_list :: "string list \<Rightarrow> string" where
  "set_list cs = join '','' (map (\<lambda>c. c @ ''=?'') cs)"

definition replace_stmt :: "string \<Rightarrow> string list \<Rightarrow> string" where
  "replace_stmt name cs = ''replace into '' @ name @ '' set '' @ set_list cs"

definition update_stmt :: "string \<Rightarrow> string \<Rightarrow> string list \<Rightarrow> string" where
  "update_stmt name pk cs = ''update '' @ name @ '' set '' @ set_list cs @ '' where '' @ pk @ ''=?''"

definition delete_stmt :: "string \<Rightarrow> string \<Rightarrow> string" where
  "delete_stmt name pk = ''delete from '' @ name @ '' where '' @ pk @ ''=?''"

definition assignable :: "(string \<Rightarrow> string \<Rightarrow> bool) \<Rightarrow> (string \<times> string) list \<Rightarrow> bool" where
  "assignable fits m = (distinct (map fst m) \<and> list_all (\<lambda>(c, v). ident c \<and> fits c v) m)"

locale sql_server =
  fixes drv :: "'s sql_driver" and name pk :: string and fits :: "string \<Rightarrow> string \<Rightarrow> bool"
    and T :: "'s \<Rightarrow> table"
  assumes sql_insert: "m \<noteq> [] \<Longrightarrow> assignable fits m \<Longrightarrow> map_of m pk = Some k \<Longrightarrow>
      ExecContext drv s (insert_stmt name (map fst m)) (map snd m) = (r, s') \<Longrightarrow>
      if T s k = Map.empty then (\<exists>n. r = Inr n) \<and> T s' = (T s)(k := map_of m)
      else (\<exists>e. r = Inl e) \<and> T s' = T s"
    and sql_replace: "m \<noteq> [] \<Longrightarrow> assignable fits m \<Longrightarrow> map_of m pk = Some k \<Longrightarrow>
      ExecContext drv s (replace_stmt name (map fst m)) (map snd m) = (r, s') \<Longrightarrow>
      (\<exists>n. r = Inr n) \<and> T s' = (T s)(k := map_of m)"
    and sql_update: "assignable fits m \<Longrightarrow> map_of m pk = None \<Longrightarrow> fits pk k \<Longrightarrow>
      ExecContext drv s (update_stmt name pk (map fst m)) (map snd m @ [k]) = (r, s') \<Longrightarrow>
      if m = [] then (\<exists>e. r = Inl e) \<and> T s' = T s
      else if T s k = Map.empty \<or> T s k ++ map_of m = T s k then r = Inr (Inr 0) \<and> T s' = T s
      else (\<exists>n. r = Inr (Inr (Suc n))) \<and> T s' = (T s)(k := T s k ++ map_of m)"
    and sql_delete: "fits pk k \<Longrightarrow> ExecContext drv s (delete_stmt name pk) [k] = (r, s') \<Longrightarrow>
      (\<exists>n. r = Inr n) \<and> T s' = (T s)(k := Map.empty)"

section \<open>Operations as steps\<close>

fun mysql_step ::
  "'s sql_driver \<Rightarrow> (field \<Rightarrow> string) \<Rightarrow> (string \<Rightarrow> string option) \<Rightarrow> merger \<Rightarrow> msg_desc
    \<Rightarrow> message store_op \<Rightarrow> 's mysql_db \<Rightarrow> bool \<times> 's mysql_db" where
  "mysql_step drv blobStr pf merge desc (InsertOp rec) t =
     (case SimpleInsert drv desc rec t of (r, t) \<Rightarrow> (r = Ok (), t))"
| "mysql_step drv blobStr pf merge desc (UpdateOp rec flds) t =
     (case SimpleUpdate drv blobStr desc rec flds t of (r, t) \<Rightarrow> (r = Ok (), t))"
| "mysql_step drv blobStr pf merge desc (ReplaceOp rec) t =
     (case SimpleReplace drv desc rec t of (r, t) \<Rightarrow> (r = Ok (), t))"
| "mysql_step drv blobStr pf merge desc (DeleteOp rec) t =
     (case SimpleDelete drv blobStr pf merge desc rec 0 t of (r, t) \<Rightarrow> (r = Ok (rec, None), t))"

text \<open>The table of rows that they implement.\<close>

fun row_op ::
  "('r \<Rightarrow> string) \<Rightarrow> ('r \<Rightarrow> string list \<Rightarrow> string \<rightharpoonup> string) \<Rightarrow> string \<Rightarrow> 'r store_op \<Rightarrow> table \<Rightarrow> bool \<times> table" where
  "row_op key cols pk (InsertOp r) T =
     (if T (key r) = Map.empty then (True, T(key r := cols r [])) else (False, T))"
| "row_op key cols pk (UpdateOp r flds) T =
     (let row = T (key r); row' = row ++ (cols r flds)(pk := None)
      in if row = Map.empty \<or> row' = row then (False, T) else (True, T(key r := row')))"
| "row_op key cols pk (ReplaceOp r) T = (True, T(key r := cols r []))"
| "row_op key cols pk (DeleteOp r) T = (True, T(key r := Map.empty))"

definition row_key :: "(field \<Rightarrow> string) \<Rightarrow> msg_desc \<Rightarrow> message \<Rightarrow> string" where
  "row_key blobStr desc rec = (case keyParams blobStr desc rec of Ok [k] \<Rightarrow> k | _ \<Rightarrow> [])"

text \<open>
  A record that can be a row: its message has one key field, which is populated, and its columns
  fit.
\<close>

definition row_storable ::
  "(string \<Rightarrow> string \<Rightarrow> bool) \<Rightarrow> string \<Rightarrow> (field \<Rightarrow> string) \<Rightarrow> (string \<Rightarrow> string option) \<Rightarrow> msg_desc \<Rightarrow> message \<Rightarrow> bool" where
  "row_storable fits pk blobStr pf desc rec \<longleftrightarrow> record_ok pf desc rec \<and> wire rec \<noteq> []
     \<and> FindPrimaryKey desc = [pk] \<and> keyParams blobStr desc rec = Ok [row_key blobStr desc rec]
     \<and> record_cols desc rec [] pk = Some (row_key blobStr desc rec)
     \<and> (case MarshalToMap desc rec [] of Ok m \<Rightarrow> assignable fits m | _ \<Rightarrow> False)"

definition mysql_meta :: "msg_desc \<Rightarrow> 's mysql_db \<Rightarrow> bool" where
  "mysql_meta desc t = (map_of (metaMap t) (d_FullName desc) \<in> {None, Some desc})"

section \<open>The statements are the ones meant\<close>

lemma placeholders: "join '','' (replicate (Suc n) ''?'') = concat (replicate n ''?,'') @ ''?''"
  by (induction n) simp_all

lemma InsertPkg_stmt:
  "m \<noteq> [] \<Longrightarrow> InsertPkg desc m = Some \<lparr>str = insert_stmt (d_Name desc) (map fst m), params = map snd m\<rparr>"
  using placeholders [of "length m - 1"]
  by (simp add: InsertPkg_def insert_stmt_def Let_def)

lemma set_list_pairs: "join '','' (map (\<lambda>(k, v). assign k) m) = set_list (map fst m)"
  by (simp add: set_list_def assign_def comp_def case_prod_unfold)

lemma ReplacePkg_stmt:
  "m \<noteq> [] \<Longrightarrow> ReplacePkg desc m = Some \<lparr>str = replace_stmt (d_Name desc) (map fst m), params = map snd m\<rparr>"
  by (simp add: ReplacePkg_def replace_stmt_def set_list_pairs)

lemma single_keyClause: "FindPrimaryKey desc = [pk] \<Longrightarrow> keyClause desc = pk @ ''=?''"
  by (simp add: keyClause_def assign_def)

lemma UpdatePkg_stmt:
  assumes "m \<noteq> []" and "FindPrimaryKey desc = [pk]" and "keyParams blobStr desc rec = Ok [k]"
  shows "UpdatePkg blobStr desc rec m = Ok (Some
    \<lparr>str = update_stmt (d_Name desc) pk (map fst (filter (\<lambda>(c, v). c \<noteq> pk) m)),
     params = map snd (filter (\<lambda>(c, v). c \<noteq> pk) m) @ [k]\<rparr>)"
proof -
  have f: "filter (\<lambda>(c, v). c \<notin> BuildKeyFieldsMap desc) m = filter (\<lambda>(c, v). c \<noteq> pk) m"
    using assms(2) by (simp add: BuildKeyFieldsMap_def)
  show ?thesis
    using assms(1,3) unfolding UpdatePkg_def update_stmt_def Let_def f set_list_pairs
    by (simp add: single_keyClause [OF assms(2)])
qed

lemma DeleteSQLPkg_stmt:
  assumes "FindPrimaryKey desc = [pk]" and "keyParams blobStr desc rec = Ok [k]"
  shows "DeleteSQLPkg blobStr desc rec = Ok \<lparr>str = delete_stmt (d_Name desc) pk, params = [k]\<rparr>"
  using assms(2) by (simp add: DeleteSQLPkg_def delete_stmt_def single_keyClause [OF assms(1)])

lemma map_of_without: "distinct (map fst m) \<Longrightarrow> map_of (filter (\<lambda>(c, v). c \<noteq> pk) m) = (map_of m)(pk := None)"
  by (induction m) (auto simp: fun_eq_iff map_of_eq_None_iff)

lemma assignable_filter: "assignable fits m \<Longrightarrow> assignable fits (filter P m)"
  by (auto simp: assignable_def list_all_iff intro: distinct_map_filter)

section \<open>The plugin implements the table\<close>

lemma meta_of_own:
  assumes "mysql_meta desc t"
  obtains t1 where "meta_of desc t = (desc, t1)" and "mysql_meta desc t1" and "server t1 = server t"
  using assms by (auto simp: mysql_meta_def meta_of_def GetDBProtoMeta_def intro: that split: option.splits)

lemma mysql_meta_server [simp]: "mysql_meta desc (t\<lparr>server := s\<rparr>) = mysql_meta desc t"
  by (simp add: mysql_meta_def)

lemma row_storable_columns:
  assumes "row_storable fits pk blobStr pf desc rec"
  obtains m where "MarshalToMap desc rec [] = Ok m" and "m \<noteq> []" and "assignable fits m"
    and "record_cols desc rec [] = map_of m" and "map_of m pk = Some (row_key blobStr desc rec)"
    and "fits pk (row_key blobStr desc rec)"
proof -
  obtain m where m: "MarshalToMap desc rec [] = Ok m" "record_cols desc rec [] = map_of m"
    using assms record_columns [of pf desc rec "[]"] by (metis row_storable_def)
  with assms have a: "assignable fits m" "map_of m pk = Some (row_key blobStr desc rec)"
    by (simp_all add: row_storable_def)
  from a(2) have "(pk, row_key blobStr desc rec) \<in> set m" by (rule map_of_SomeD)
  with a(1) have "fits pk (row_key blobStr desc rec)" by (auto simp: assignable_def list_all_iff)
  with m a show ?thesis by (intro that) auto
qed

lemma row_storable_part:
  assumes "row_storable fits pk blobStr pf desc rec"
  obtains m where "MarshalToMap desc rec flds = Ok m" and "assignable fits m" and "record_cols desc rec flds = map_of m"
proof -
  have ok: "record_ok pf desc rec" using assms by (simp add: row_storable_def)
  obtain m where m: "MarshalToMap desc rec flds = Ok m" "distinct (map fst m)" "record_cols desc rec flds = map_of m"
    using record_columns [OF ok, of flds] by metis
  obtain m0 where m0: "assignable fits m0" "record_cols desc rec [] = map_of m0"
    by (rule row_storable_columns [OF assms])
  have "(c, v) \<in> set m0" if "(c, v) \<in> set m" for c v
  proof -
    from that m have "record_cols desc rec flds c = Some v" by simp
    with m0(2) have "map_of m0 c = Some v"
      by (simp add: record_cols_listed [OF ok, of flds] restrict_map_def split: if_splits)
    then show ?thesis by (rule map_of_SomeD)
  qed
  with m0(1) m(2) have "assignable fits m" by (fastforce simp: assignable_def list_all_iff)
  with m(1,3) show ?thesis by (intro that)
qed

context sql_server
begin

lemma insert_step:
  assumes "name = d_Name desc" and "mysql_meta desc t" and "row_storable fits pk blobStr pf desc rec"
  shows "mysql_meta desc (snd (SimpleInsert drv desc rec t))
    \<and> row_op (row_key blobStr desc) (record_cols desc) pk (InsertOp rec) (T (server t))
      = (fst (SimpleInsert drv desc rec t) = Ok (), T (server (snd (SimpleInsert drv desc rec t))))"
proof -
  obtain m where m: "MarshalToMap desc rec [] = Ok m" "m \<noteq> []" "assignable fits m"
    "record_cols desc rec [] = map_of m" "map_of m pk = Some (row_key blobStr desc rec)"
    by (rule row_storable_columns [OF assms(3)])
  obtain t1 where t1: "meta_of desc t = (desc, t1)" "mysql_meta desc t1" "server t1 = server t"
    by (rule meta_of_own [OF assms(2)])
  obtain r s' where e: "ExecContext drv (server t) (insert_stmt name (map fst m)) (map snd m) = (r, s')" by fastforce
  from sql_insert [OF m(2,3,5) this] m(4) show ?thesis
    by (auto simp: SimpleInsert_def m(1) t1 InsertPkg_stmt [OF m(2)] exec_def e assms(1) [symmetric] split: if_splits)
qed

lemma replace_step:
  assumes "name = d_Name desc" and "mysql_meta desc t" and "row_storable fits pk blobStr pf desc rec"
  shows "mysql_meta desc (snd (SimpleReplace drv desc rec t))
    \<and> row_op (row_key blobStr desc) (record_cols desc) pk (ReplaceOp rec) (T (server t))
      = (fst (SimpleReplace drv desc rec t) = Ok (), T (server (snd (SimpleReplace drv desc rec t))))"
proof -
  obtain m where m: "MarshalToMap desc rec [] = Ok m" "m \<noteq> []" "assignable fits m"
    "record_cols desc rec [] = map_of m" "map_of m pk = Some (row_key blobStr desc rec)"
    by (rule row_storable_columns [OF assms(3)])
  obtain t1 where t1: "meta_of desc t = (desc, t1)" "mysql_meta desc t1" "server t1 = server t"
    by (rule meta_of_own [OF assms(2)])
  obtain r s' where e: "ExecContext drv (server t) (replace_stmt name (map fst m)) (map snd m) = (r, s')" by fastforce
  from sql_replace [OF m(2,3,5) this] m(4) show ?thesis
    by (auto simp: SimpleReplace_def m(1) t1 ReplacePkg_stmt [OF m(2)] exec_def e assms(1) [symmetric])
qed

lemma update_step:
  assumes "name = d_Name desc" and "mysql_meta desc t" and "row_storable fits pk blobStr pf desc rec"
  shows "mysql_meta desc (snd (SimpleUpdate drv blobStr desc rec flds t))
    \<and> row_op (row_key blobStr desc) (record_cols desc) pk (UpdateOp rec flds) (T (server t))
      = (fst (SimpleUpdate drv blobStr desc rec flds t) = Ok (), T (server (snd (SimpleUpdate drv blobStr desc rec flds t))))"
proof -
  let ?k = "row_key blobStr desc rec"
  obtain m where m: "MarshalToMap desc rec flds = Ok m" "assignable fits m" "record_cols desc rec flds = map_of m"
    by (rule row_storable_part [OF assms(3)])
  have fk: "fits pk ?k" by (rule row_storable_columns [OF assms(3)])
  let ?m = "filter (\<lambda>(c, v). c \<noteq> pk) m"
  have up: "map_of ?m = (map_of m)(pk := None)" using m(2) by (simp add: map_of_without assignable_def)
  have "?m = [] \<longleftrightarrow> map_of ?m = Map.empty" by (metis map_of_eq_empty_iff)
  then have nil: "?m = [] \<longleftrightarrow> (map_of m)(pk := None) = Map.empty" by (simp only: up)
  obtain t1 where t1: "meta_of desc t = (desc, t1)" "mysql_meta desc t1" "server t1 = server t"
    by (rule meta_of_own [OF assms(2)])
  show ?thesis
  proof (cases "m = []")
    case True
    with m t1 show ?thesis by (auto simp: SimpleUpdate_def UpdatePkg_def Let_def)
  next
    case False
    have pkg: "UpdatePkg blobStr desc rec m = Ok (Some \<lparr>str = update_stmt name pk (map fst ?m), params = map snd ?m @ [?k]\<rparr>)"
      using UpdatePkg_stmt [OF False] assms(1,3) by (simp add: row_storable_def)
    obtain r s' where e: "ExecContext drv (server t) (update_stmt name pk (map fst ?m)) (map snd ?m @ [?k]) = (r, s')" by fastforce
    have "map_of ?m pk = None" by (simp add: up)
    from sql_update [OF assignable_filter [OF m(2)] this fk e] m(3) show ?thesis
      unfolding up nil
      by (auto simp: SimpleUpdate_def m(1) t1 pkg exec_def e Let_def split: if_splits)
  qed
qed

lemma delete_step:
  assumes "name = d_Name desc" and "mysql_meta desc t" and "row_storable fits pk blobStr pf desc rec"
  shows "mysql_meta desc (snd (SimpleDelete drv blobStr pf' merge desc rec 0 t))
    \<and> row_op (row_key blobStr desc) (record_cols desc) pk (DeleteOp rec) (T (server t))
      = (fst (SimpleDelete drv blobStr pf' merge desc rec 0 t) = Ok (rec, None),
         T (server (snd (SimpleDelete drv blobStr pf' merge desc rec 0 t))))"
proof -
  let ?k = "row_key blobStr desc rec"
  obtain m where fk: "fits pk ?k" by (rule row_storable_columns [OF assms(3)])
  obtain t1 where t1: "meta_of desc t = (desc, t1)" "mysql_meta desc t1" "server t1 = server t"
    by (rule meta_of_own [OF assms(2)])
  have pkg: "DeleteSQLPkg blobStr desc rec = Ok \<lparr>str = delete_stmt name pk, params = [?k]\<rparr>"
    using DeleteSQLPkg_stmt assms(1,3) by (simp add: row_storable_def)
  obtain r s' where e: "ExecContext drv (server t) (delete_stmt name pk) [?k] = (r, s')" by fastforce
  from sql_delete [OF fk e] show ?thesis
    by (auto simp: SimpleDelete_def t1 pkg exec_def e)
qed

end

text \<open>A plugin for messages of one type in front of a database that works.\<close>

locale mysql_plugin = sql_server drv "d_Name desc" pk fits T
  for drv :: "'s sql_driver" and desc :: msg_desc and pk :: string and fits :: "string \<Rightarrow> string \<Rightarrow> bool"
    and T :: "'s \<Rightarrow> table" +
  fixes blobStr :: "field \<Rightarrow> string" and pf :: "string \<Rightarrow> string option" and merge :: merger

lemma row_op_present:
  "cols (op_record a) [] \<noteq> Map.empty \<Longrightarrow> T k \<noteq> Map.empty \<Longrightarrow> \<forall>r. a = DeleteOp r \<longrightarrow> key r \<noteq> k \<Longrightarrow>
    snd (row_op key cols pk a T) k \<noteq> Map.empty"
  by (cases a) (auto simp: map_add_eq_empty_iff Let_def)

context mysql_plugin
begin

lemma step_row:
  assumes "mysql_meta desc t" and "row_storable fits pk blobStr pf desc (op_record a)"
  shows "mysql_meta desc (snd (mysql_step drv blobStr pf merge desc a t))
    \<and> row_op (row_key blobStr desc) (record_cols desc) pk a (T (server t))
      = (fst (mysql_step drv blobStr pf merge desc a t), T (server (snd (mysql_step drv blobStr pf merge desc a t))))"
proof (cases a)
  case (InsertOp rec)
  then show ?thesis using insert_step [OF refl assms(1)] assms(2) by (simp add: split_beta)
next
  case (UpdateOp rec flds)
  then show ?thesis using update_step [OF refl assms(1)] assms(2) by (simp add: split_beta del: row_op.simps)
next
  case (ReplaceOp rec)
  then show ?thesis using replace_step [OF refl assms(1)] assms(2) by (simp add: split_beta)
next
  case (DeleteOp rec)
  then show ?thesis using delete_step [OF refl assms(1)] assms(2) by (simp add: split_beta)
qed

end

sublocale mysql_plugin \<subseteq> simple_executor "mysql_step drv blobStr pf merge desc"
  "row_op (row_key blobStr desc) (record_cols desc) pk" "\<lambda>t. T (server t)"
  "row_storable fits pk blobStr pf desc" "mysql_meta desc" "row_key blobStr desc" "record_cols desc"
  by unfold_locales
    (auto simp: step_row record_cols_nonempty row_op_present row_storable_def simp del: row_op.simps(2))

context mysql_plugin
begin

lemmas plugin_run_rows = run_table
lemmas plugin_run_meta = run_inv
lemmas plugin_insert_exclusive = insert_exclusive

end

section \<open>A database\<close>

text \<open>
  A database of one table that reads the four statements: the first letter tells them apart, the
  columns are cut out of the text.
\<close>

definition set_columns :: "string \<Rightarrow> string list" where
  "set_columns body = map (\<lambda>c. take (length c - 2) c) (split_at (CHR '','') [] body)"

definition list_exec ::
  "string \<Rightarrow> string \<Rightarrow> (string \<Rightarrow> (string \<times> string) list) \<Rightarrow> string \<Rightarrow> string list
    \<Rightarrow> (string + (string + nat)) \<times> (string \<Rightarrow> (string \<times> string) list)" where
  "list_exec name pk s q ps =
     (if take 1 q = ''i'' then
        let body = takeWhile (\<lambda>c. c \<noteq> CHR '')'') (drop (length (''insert into '' @ name @ '' ('')) q);
            row = zip (split_at (CHR '','') [] body) ps
        in case map_of row pk of
             None \<Rightarrow> (Inl ''no key'', s)
           | Some k \<Rightarrow> if s k \<noteq> [] then (Inl ''duplicate'', s) else (Inr (Inr 1), s(k := row))
      else if take 1 q = ''r'' then
        let row = zip (set_columns (drop (length (''replace into '' @ name @ '' set '')) q)) ps
        in case map_of row pk of
             None \<Rightarrow> (Inl ''no key'', s)
           | Some k \<Rightarrow> (Inr (Inr 1), s(k := row))
      else if take 1 q = ''u'' then
        let body = takeWhile (\<lambda>c. c \<noteq> CHR '' '') (drop (length (''update '' @ name @ '' set '')) q);
            row = zip (set_columns body) (butlast ps); k = last ps
        in if body = [] then (Inl ''syntax'', s)
           else if s k = [] \<or> list_all (\<lambda>(c, v). map_of (s k) c = Some v) row then (Inr (Inr 0), s)
           else (Inr (Inr 1), s(k := row @ s k))
      else (Inr (Inr 1), s(last ps := [])))"

definition list_sql :: "string \<Rightarrow> string \<Rightarrow> (string \<Rightarrow> (string \<times> string) list) sql_driver" where
  "list_sql name pk = \<lparr>QueryContext = (\<lambda>s q ps. Inl ''unsupported''), ExecContext = list_exec name pk\<rparr>"

lemma split_join:
  "ch \<notin> set c \<Longrightarrow> list_all (\<lambda>c. ch \<notin> set c) cs \<Longrightarrow> split_at ch acc (join [ch] (c # cs)) = (acc @ c) # cs"
proof -
  have step: "split_at ch acc (x @ ch # y) = (acc @ x) # split_at ch [] y" if "ch \<notin> set x" for acc x y
    using that by (induction x arbitrary: acc) auto
  have whole: "split_at ch acc x = [acc @ x]" if "ch \<notin> set x" for acc x
    using that by (induction x arbitrary: acc) auto
  show "ch \<notin> set c \<Longrightarrow> list_all (\<lambda>c. ch \<notin> set c) cs \<Longrightarrow> split_at ch acc (join [ch] (c # cs)) = (acc @ c) # cs"
    by (induction cs arbitrary: c acc) (simp_all add: step whole)
qed

lemma ident_chars: "ident c \<Longrightarrow> CHR '','' \<notin> set c \<and> CHR '' '' \<notin> set c \<and> CHR '')'' \<notin> set c"
  by (auto simp: ident_def list_all_iff)

lemma split_columns:
  assumes "cs \<noteq> []" and "list_all ident cs"
  shows "split_at (CHR '','') [] (join '','' cs) = cs" and "set_columns (set_list cs) = cs"
proof -
  obtain c cs' where cs: "cs = c # cs'" using assms(1) by (cases cs) auto
  have "list_all (\<lambda>c. CHR '','' \<notin> set c) cs" using assms(2) ident_chars by (auto simp: list_all_iff)
  with cs show "split_at (CHR '','') [] (join '','' cs) = cs"
    using split_join [of "CHR '',''" c cs' "[]"] by simp
  have "list_all (\<lambda>c. CHR '','' \<notin> set c) (map (\<lambda>c. c @ ''=?'') cs)"
    using assms(2) ident_chars by (auto simp: list_all_iff)
  with cs have "split_at (CHR '','') [] (set_list cs) = map (\<lambda>c. c @ ''=?'') cs"
    using split_join [of "CHR '',''" "c @ ''=?''" "map (\<lambda>c. c @ ''=?'') cs'" "[]"] by (simp add: set_list_def)
  then show "set_columns (set_list cs) = cs" by (simp add: set_columns_def comp_def)
qed

lemma join_chars: "set (join sep cs) \<subseteq> set sep \<union> \<Union> (set ` set cs)"
  by (induction sep cs rule: join.induct) auto

lemma takeWhile_join:
  assumes "list_all ident cs"
  shows "takeWhile (\<lambda>c. c \<noteq> CHR '')'') (join '','' cs @ CHR '')'' # x) = join '','' cs"
    and "takeWhile (\<lambda>c. c \<noteq> CHR '' '') (set_list cs @ CHR '' '' # x) = set_list cs"
proof -
  have "CHR '')'' \<notin> set (join '','' cs)"
    using assms join_chars [of "'',''" cs] ident_chars by (fastforce simp: list_all_iff)
  then show "takeWhile (\<lambda>c. c \<noteq> CHR '')'') (join '','' cs @ CHR '')'' # x) = join '','' cs"
    by (subst takeWhile_append2) auto
  have "CHR '' '' \<notin> set (set_list cs)"
    using assms join_chars [of "'',''" "map (\<lambda>c. c @ ''=?'') cs"] ident_chars
    unfolding set_list_def by (fastforce simp: list_all_iff)
  then show "takeWhile (\<lambda>c. c \<noteq> CHR '' '') (set_list cs @ CHR '' '' # x) = set_list cs"
    by (subst takeWhile_append2) auto
qed

lemma drop_prefix: "q = p @ x \<Longrightarrow> drop (length p) q = x"
  by simp

lemma list_exec_insert:
  assumes "m \<noteq> []" and "assignable fits m" and "map_of m pk = Some k"
  shows "list_exec name pk s (insert_stmt name (map fst m)) (map snd m)
    = (if s k \<noteq> [] then (Inl ''duplicate'', s) else (Inr (Inr 1), s(k := m)))"
proof -
  let ?cs = "map fst m" and ?q = "insert_stmt name (map fst m)"
  have ok: "list_all ident ?cs" "?cs \<noteq> []" using assms(1,2) by (auto simp: assignable_def list_all_iff)
  have "?q = (''insert into '' @ name @ '' ('') @ join '','' ?cs @ CHR '')'' # '' values (''
      @ join '','' (replicate (length ?cs) ''?'') @ '') ''"
    by (simp add: insert_stmt_def)
  note d = drop_prefix [OF this]
  have "take 1 ?q = ''i''" by (simp add: insert_stmt_def)
  then show ?thesis
    unfolding list_exec_def Let_def d takeWhile_join(1) [OF ok(1)] split_columns(1) [OF ok(2,1)] zip_map_fst_snd
    by (simp add: assms(3))
qed

lemma list_exec_replace:
  assumes "m \<noteq> []" and "assignable fits m" and "map_of m pk = Some k"
  shows "list_exec name pk s (replace_stmt name (map fst m)) (map snd m) = (Inr (Inr 1), s(k := m))"
proof -
  let ?cs = "map fst m" and ?q = "replace_stmt name (map fst m)"
  have ok: "list_all ident ?cs" "?cs \<noteq> []" using assms(1,2) by (auto simp: assignable_def list_all_iff)
  have "?q = (''replace into '' @ name @ '' set '') @ set_list ?cs"
    by (simp add: replace_stmt_def)
  note d = drop_prefix [OF this]
  have "take 1 ?q = ''r''" by (simp add: replace_stmt_def)
  then show ?thesis
    unfolding list_exec_def Let_def d split_columns(2) [OF ok(2,1)] zip_map_fst_snd
    by (simp add: assms(3))
qed

lemma list_exec_update:
  assumes "assignable fits m"
  shows "list_exec name pk s (update_stmt name pk (map fst m)) (map snd m @ [k])
    = (if m = [] then (Inl ''syntax'', s)
       else if s k = [] \<or> list_all (\<lambda>(c, v). map_of (s k) c = Some v) m then (Inr (Inr 0), s)
       else (Inr (Inr 1), s(k := m @ s k)))"
proof -
  let ?cs = "map fst m" and ?q = "update_stmt name pk (map fst m)"
  have ok: "list_all ident ?cs" using assms by (auto simp: assignable_def list_all_iff)
  have "?q = (''update '' @ name @ '' set '') @ set_list ?cs @ CHR '' '' # ''where '' @ pk @ ''=?''"
    by (simp add: update_stmt_def)
  note d = drop_prefix [OF this]
  have t: "take 1 ?q = ''u''" by (simp add: update_stmt_def)
  have e: "set_list ?cs = [] \<longleftrightarrow> m = []"
    by (cases m rule: remdups_adj.cases) (auto simp: set_list_def)
  show ?thesis
  proof (cases "m = []")
    case True
    with t e show ?thesis unfolding list_exec_def Let_def d takeWhile_join(2) [OF ok] by simp
  next
    case False
    then have "?cs \<noteq> []" by simp
    from split_columns(2) [OF this ok] False t e show ?thesis
      unfolding list_exec_def Let_def d takeWhile_join(2) [OF ok] by (simp add: zip_map_fst_snd)
  qed
qed

lemma list_exec_delete: "list_exec name pk s (delete_stmt name pk) [k] = (Inr (Inr 1), s(k := []))"
  by (simp add: list_exec_def delete_stmt_def)

lemma map_of_upd_row: "(\<lambda>k'. map_of ((s(k := row)) k')) = (\<lambda>k'. map_of (s k'))(k := map_of row)"
  by (auto simp: fun_eq_iff)

lemma unchanged_row:
  "distinct (map fst m) \<Longrightarrow> f ++ map_of m = f \<longleftrightarrow> list_all (\<lambda>(c, v). f c = Some v) m"
  by (auto simp: list_all_iff fun_eq_iff map_add_def split: option.splits)

interpretation list_sql: sql_server "list_sql name pk" name pk fits "\<lambda>s k. map_of (s k)" for name pk fits
proof
  fix m :: "(string \<times> string) list" and k s r s'
  show "if map_of (s k) = Map.empty then (\<exists>n. r = Inr n) \<and> (\<lambda>k. map_of (s' k)) = (\<lambda>k. map_of (s k))(k := map_of m)
      else (\<exists>e. r = Inl e) \<and> (\<lambda>k. map_of (s' k)) = (\<lambda>k. map_of (s k))"
    if "m \<noteq> []" "assignable fits m" "map_of m pk = Some k"
      "ExecContext (list_sql name pk) s (insert_stmt name (map fst m)) (map snd m) = (r, s')"
    using list_exec_insert [OF that(1-3), of name s] that(4)
    by (auto simp: list_sql_def map_of_upd_row split: if_splits)
  show "(\<exists>n. r = Inr n) \<and> (\<lambda>k. map_of (s' k)) = (\<lambda>k. map_of (s k))(k := map_of m)"
    if "m \<noteq> []" "assignable fits m" "map_of m pk = Some k"
      "ExecContext (list_sql name pk) s (replace_stmt name (map fst m)) (map snd m) = (r, s')"
    using list_exec_replace [OF that(1-3), of name s] that(4) by (auto simp: list_sql_def map_of_upd_row)
  show "if m = [] then (\<exists>e. r = Inl e) \<and> (\<lambda>k. map_of (s' k)) = (\<lambda>k. map_of (s k))
      else if map_of (s k) = Map.empty \<or> map_of (s k) ++ map_of m = map_of (s k)
      then r = Inr (Inr 0) \<and> (\<lambda>k. map_of (s' k)) = (\<lambda>k. map_of (s k))
      else (\<exists>n. r = Inr (Inr (Suc n))) \<and> (\<lambda>k. map_of (s' k)) = (\<lambda>k. map_of (s k))(k := map_of (s k) ++ map_of m)"
    if "assignable fits m" "map_of m pk = None" "fits pk k"
      "ExecContext (list_sql name pk) s (update_stmt name pk (map fst m)) (map snd m @ [k]) = (r, s')"
    using list_exec_update [OF that(1), of name pk s k] that(1,4) unchanged_row [of m "map_of (s k)"]
    by (auto simp: list_sql_def map_of_upd_row assignable_def split: if_splits)
  show "(\<exists>n. r = Inr n) \<and> (\<lambda>k. map_of (s' k)) = (\<lambda>k. map_of (s k))(k := Map.empty)"
    if "fits pk k" "ExecContext (list_sql name pk) s (delete_stmt name pk) [k] = (r, s')"
    using that(2) by (auto simp: list_sql_def list_exec_delete map_of_upd_row)
qed

interpretation list_mysql:
  mysql_plugin "list_sql (d_Name desc) pk" desc pk fits "\<lambda>s k. map_of (s k)" blobStr pf merge
  for desc pk fits blobStr pf merge
  by (intro mysql_plugin.intro) (rule list_sql.sql_server_axioms)

section \<open>Properties\<close>

text \<open>
  The MySQL plugin refines a table of rows: for any sequence of inserts, updates, replaces and
  deletes of records with one key field, on a database that does what the statements say, exactly
  those calls succeed that succeed on the table, and the rows of the database afterwards are the
  table.  The statement texts and the order of their parameters are the code's.
\<close>

theorem mysql_refines_rows:
  assumes "sql_server drv (d_Name desc) pk fits T" and "mysql_meta desc t"
    and "\<forall>a\<in>set as. row_storable fits pk blobStr pf desc (op_record a)"
  shows "run_store (row_op (row_key blobStr desc) (record_cols desc) pk) as (T (server t))
    = (fst (run_store (mysql_step drv blobStr pf merge desc) as t),
       T (server (snd (run_store (mysql_step drv blobStr pf merge desc) as t))))"
  using mysql_plugin.plugin_run_rows [OF mysql_plugin.intro [OF assms(1)] assms(2,3)] .

text \<open>Where this differs from the documented contract: exactly in updates without a change and in replaces.\<close>

lemma mysql_contract_differs:
  assumes "T (row_key blobStr desc rec) = row" and "row \<noteq> Map.empty"
    and "record_cols desc rec flds pk \<in> {None, row pk}"
  shows "fst (row_op (row_key blobStr desc) (record_cols desc) pk (UpdateOp rec flds) T)
      \<longleftrightarrow> fst (table_op (row_key blobStr desc) (record_cols desc) (UpdateOp rec flds) T)
        \<and> row ++ record_cols desc rec flds \<noteq> row"
    and "snd (row_op (row_key blobStr desc) (record_cols desc) pk (UpdateOp rec flds) T)
      = snd (table_op (row_key blobStr desc) (record_cols desc) (UpdateOp rec flds) T)"
    and "snd (row_op (row_key blobStr desc) (record_cols desc) pk (ReplaceOp rec) T)
      = snd (table_op (row_key blobStr desc) (record_cols desc) (ReplaceOp rec) T)
      \<longleftrightarrow> dom row \<subseteq> dom (record_cols desc rec [])"
proof -
  have u: "row ++ (record_cols desc rec flds)(pk := None) = row ++ record_cols desc rec flds"
    using assms(3) by (auto simp: fun_eq_iff map_add_def split: option.splits)
  show "fst (row_op (row_key blobStr desc) (record_cols desc) pk (UpdateOp rec flds) T)
      \<longleftrightarrow> fst (table_op (row_key blobStr desc) (record_cols desc) (UpdateOp rec flds) T)
        \<and> row ++ record_cols desc rec flds \<noteq> row"
    and "snd (row_op (row_key blobStr desc) (record_cols desc) pk (UpdateOp rec flds) T)
      = snd (table_op (row_key blobStr desc) (record_cols desc) (UpdateOp rec flds) T)"
    using assms(1,2) by (auto simp: u Let_def)
  have "f = g ++ f \<longleftrightarrow> dom g \<subseteq> dom f" for f g :: "string \<rightharpoonup> string"
  proof
    assume "f = g ++ f"
    then show "dom g \<subseteq> dom f" by (metis Un_upper2 dom_map_add)
  next
    assume "dom g \<subseteq> dom f"
    then have "f x = (g ++ f) x" for x
      by (cases "g x"; cases "f x") (auto simp: map_add_def subset_iff)
    then show "f = g ++ f" by (rule ext)
  qed
  note eq = this
  show "snd (row_op (row_key blobStr desc) (record_cols desc) pk (ReplaceOp rec) T)
      = snd (table_op (row_key blobStr desc) (record_cols desc) (ReplaceOp rec) T)
      \<longleftrightarrow> dom row \<subseteq> dom (record_cols desc rec [])"
    using assms(1) by (auto simp: eq [symmetric] dest: fun_upd_eqD)
qed

lemma player_columns:
  "MarshalToMap player_desc player [] = Ok [(''uid'', ''7''), (''name'', ''bo''), (''bag'', ''xy'')]"
  by (simp add: MarshalToMap_def DirtyFilter_def player_desc_def player_def ByNumber_def marshalScalar_def
      Itoa.simps digit_char_def char_of_def bit_0)

lemma player_row:
  "row_storable (\<lambda>c v. True) ''uid'' (\<lambda>_. []) Some player_desc player"
  "row_key (\<lambda>_. []) player_desc player = ''7''"
  "mysql_meta player_desc \<lparr>metaMap = [], server = \<lambda>k. []\<rparr>"
proof -
  have k: "keyParams (\<lambda>_. []) player_desc player = Ok [''7'']" "FindPrimaryKey player_desc = [''uid'']"
    by (simp_all add: keyParams_def FindPrimaryKey_def FindFds_def player_desc_def player_def ByName_def
        Get_String_def IsFdMarshalToBlob_def BlobKind_def Value_String_def marshalScalar_def Itoa.simps
        digit_char_def char_of_def bit_0)
  moreover have "record_ok Some player_desc player" "wire player \<noteq> []"
    by (simp_all add: record_ok_def wire_ok_def scalar_ok_def player_desc_def player_def ByName_def
        ByNumber_def IsFdMarshalToBlob_def BlobKind_def)
  ultimately show "row_storable (\<lambda>c v. True) ''uid'' (\<lambda>_. []) Some player_desc player"
    by (simp add: row_storable_def row_key_def record_cols_def player_columns assignable_def ident_def)
  show "row_key (\<lambda>_. []) player_desc player = ''7''" by (simp add: row_key_def k)
  show "mysql_meta player_desc \<lparr>metaMap = [], server = \<lambda>k. []\<rparr>" by (simp add: mysql_meta_def)
qed

theorem mysql_refines_rows_witness:
  "fst (run_store (mysql_step (list_sql ''Player'' ''uid'') (\<lambda>_. []) Some (\<lambda>old sets b. (old, True)) player_desc)
     [UpdateOp player [], InsertOp player, InsertOp player, UpdateOp player [], ReplaceOp player, DeleteOp player]
     \<lparr>metaMap = [], server = \<lambda>k. []\<rparr>) = [False, True, False, False, True, True]"
proof -
  let ?as = "[UpdateOp player [], InsertOp player, InsertOp player, UpdateOp player [], ReplaceOp player, DeleteOp player]"
  have n: "d_Name player_desc = ''Player''" by (simp add: player_desc_def)
  have c: "record_cols player_desc player [] = [''uid'' \<mapsto> ''7'', ''name'' \<mapsto> ''bo'', ''bag'' \<mapsto> ''xy'']"
    by (auto simp: record_cols_def player_columns fun_eq_iff)
  have "\<forall>a\<in>set ?as. row_storable (\<lambda>c v. True) ''uid'' (\<lambda>_. []) Some player_desc (op_record a)"
    using player_row(1) by simp
  from mysql_refines_rows [OF list_sql.sql_server_axioms player_row(3) this, of "\<lambda>old sets b. (old, True)"]
  have "fst (run_store (mysql_step (list_sql ''Player'' ''uid'') (\<lambda>_. []) Some (\<lambda>old sets b. (old, True)) player_desc)
      ?as \<lparr>metaMap = [], server = \<lambda>k. []\<rparr>)
    = fst (run_store (row_op (row_key (\<lambda>_. []) player_desc) (record_cols player_desc) ''uid'') ?as (\<lambda>k. Map.empty))"
    unfolding n by simp
  also have "\<dots> = [False, True, False, False, True, True]"
    by (simp add: player_row(2) c Let_def fun_eq_iff) blast
  finally show ?thesis .
qed

end
