(* ===== verification/Mysql_Read.thy ===== *)
theory Mysql_Read
  imports Mysql_Store "HOL-Library.Sublist"
begin

text \<open>
  Reading and counting with the MySQL plugin: what \<open>SimpleIncrease\<close> and \<open>SimpleGet\<close> of \<^verbatim>\<open>src/plugin/db/mysql/simple.go\<close> make of the
  table that the writing operations of \<open>Mysql_Store\<close> keep.  A select gives every column of the table,
  also those that a record left out when it was written: these come back with the default of the
  column type of \<^verbatim>\<open>src/plugin/db/mysql/pb2sql.go\<close>, a zero or NULL, and have to parse as well.
\<close>

section \<open>What a select gives\<close>

text \<open>
  The statement, and the value of a column that was never set: the column types either end in the
  default zero or allow NULL.
\<close>

definition select_stmt :: "string \<Rightarrow> string \<Rightarrow> string list \<Rightarrow> string" where
  "select_stmt name pk flds =
     ''select '' @ (if flds = [] then ''*'' else join '','' flds) @ '' from '' @ name @ '' where '' @ pk @ ''=?''"

definition column_default :: "msg_desc \<Rightarrow> field \<Rightarrow> string option" where
  "column_default desc fd =
     (if suffix '' NOT NULL DEFAULT 0'' (columnSQL (BuildKeyFieldsMap desc) fd) then Some ''0'' else None)"

definition row_values :: "msg_desc \<Rightarrow> (string \<rightharpoonup> string) \<Rightarrow> string list \<Rightarrow> string option list" where
  "row_values desc row cols = map (\<lambda>c.
     case row c of Some v \<Rightarrow> Some v
     | None \<Rightarrow> (case ByName desc c of None \<Rightarrow> None | Some fd \<Rightarrow> column_default desc fd)) cols"

text \<open>
  \<open>c=c+1\<close> for each listed column in turn, starting from zero where a column was never set.  A value
  that leaves the range of the column, which is that of its kind, makes the statement fail.
\<close>

definition increase_stmt :: "string \<Rightarrow> string \<Rightarrow> string list \<Rightarrow> string" where
  "increase_stmt name pk cs =
     ''update '' @ name @ '' set '' @ join '','' (map (\<lambda>c. c @ ''='' @ c @ ''+1'') cs) @ '' where '' @ pk @ ''=?''"

definition succ_value :: "pvalue \<Rightarrow> pvalue" where
  "succ_value v = (case v of VInt i \<Rightarrow> VInt (i + 1) | VUint n \<Rightarrow> VUint (n + 1) | _ \<Rightarrow> v)"

definition increment :: "kind \<Rightarrow> string \<Rightarrow> string option" where
  "increment k s =
     (case unmarshalScalarByStr (\<lambda>_. None) k s of
        None \<Rightarrow> None
      | Some v \<Rightarrow> if value_ok k (succ_value v) then Some (marshalScalar (succ_value v)) else None)"

fun increase_row :: "msg_desc \<Rightarrow> (string \<rightharpoonup> string) \<Rightarrow> string list \<Rightarrow> (string \<rightharpoonup> string) option" where
  "increase_row desc row [] = Some row"
| "increase_row desc row (c # cs) =
     (case ByName desc c of
        None \<Rightarrow> None
      | Some fd \<Rightarrow>
          (case increment (fd_Kind fd) (case row c of None \<Rightarrow> ''0'' | Some s \<Rightarrow> s) of
             None \<Rightarrow> None
           | Some s \<Rightarrow> increase_row desc (row(c \<mapsto> s)) cs))"

text \<open>
  A database with the table that \<open>CreateTable\<close> makes for a message type.  In which order it gives
  all the columns, and Go iterates over the map of them, is left open.
\<close>

locale sql_table = sql_server drv "d_Name desc" pk fits T
  for drv :: "'s sql_driver" and desc :: msg_desc and pk :: string and fits :: "string \<Rightarrow> string \<Rightarrow> bool"
    and T :: "'s \<Rightarrow> table" +
  assumes sql_select: "fits pk k \<Longrightarrow> distinct flds \<Longrightarrow> set flds \<subseteq> fd_Name ` set (d_Fields desc) \<Longrightarrow>
    \<exists>cols. distinct cols \<and> set cols = (if flds = [] then fd_Name ` set (d_Fields desc) else set flds)
    \<and> QueryContext drv s (select_stmt (d_Name desc) pk flds) [k]
      = Inr \<lparr>rows_Err = None, rows_Columns = Inr cols,
          rows_First = if T s k = Map.empty then None else Some (Inr (row_values desc (T s k) cols))\<rparr>"
    and sql_increase: "cs \<noteq> [] \<Longrightarrow> set cs \<subseteq> BuildIncreaseableFieldsMap desc \<Longrightarrow> fits pk k \<Longrightarrow>
      ExecContext drv s (increase_stmt (d_Name desc) pk cs) [k] = (r, s') \<Longrightarrow>
      if T s k = Map.empty then (\<exists>n. r = Inr n) \<and> T s' = T s
      else (case increase_row desc (T s k) cs of
              None \<Rightarrow> (\<exists>e. r = Inl e) \<and> T s' = T s
            | Some row \<Rightarrow> (\<exists>n. r = Inr n) \<and> T s' = (T s)(k := row))"

section \<open>What a row means\<close>

definition zero_value :: "kind \<Rightarrow> pvalue" where
  "zero_value k =
     (if k = BoolKind then VBool False else if k = StringKind then VString []
      else if k \<in> {FloatKind, DoubleKind} then VFloat ''0''
      else if k \<in> {Uint32Kind, Fixed32Kind, Uint64Kind, Fixed64Kind} then VUint 0
      else if k = EnumKind then VEnum 0 else VInt 0)"

text \<open>The value of a scalar field.\<close>

definition row_sets :: "(string \<Rightarrow> string option) \<Rightarrow> msg_desc \<Rightarrow> (string \<rightharpoonup> string) \<Rightarrow> string \<Rightarrow> pvalue option" where
  "row_sets pf desc row n =
     (case ByName desc n of
        None \<Rightarrow> None
      | Some fd \<Rightarrow>
          if IsFdMarshalToBlob fd then None
          else (case row n of
                  Some s \<Rightarrow> unmarshalScalarByStr pf (fd_Kind fd) s
                | None \<Rightarrow> Some (zero_value (fd_Kind fd))))"

text \<open>What reading a row answers, for some order \<open>blobs\<close> of the fields that are kept as bytes.\<close>

definition read_answer ::
  "merger \<Rightarrow> message \<Rightarrow> (string \<rightharpoonup> string) \<Rightarrow> (string \<times> pvalue) list \<Rightarrow> string list
    \<Rightarrow> (db_err, message \<times> db_err option) res" where
  "read_answer merge probe row sets blobs =
     (if row = Map.empty then Ok (probe, Some RecordNotExist)
      else case merge probe sets (concat (map (row_bytes row) blobs)) of
             (m, ok) \<Rightarrow> Ok (m, if ok then None else Some (PbErr UnmarshalErr)))"

text \<open>The default of a column parses to the zero of its field, whatever the kind.\<close>

lemma column_default_kind:
  assumes "\<not> IsFdMarshalToBlob fd" and "fd_Kind fd \<noteq> Fixed64Kind"
  shows "column_default desc fd = (if fd_Kind fd = StringKind then None else Some ''0'')"
proof -
  have yes: "suffix '' NOT NULL DEFAULT 0'' (quoted n (t @ '' NOT NULL DEFAULT 0''))" for n t
    by (rule suffixI [of _ "CHR 0x60 # n @ CHR 0x60 # t"]) (simp add: quoted_def)
  have no: "\<not> suffix '' NOT NULL DEFAULT 0'' (quoted n (t @ [c]))" if "c \<noteq> CHR ''0''" for n t c
    using that by (auto simp: suffix_def quoted_def dest!: arg_cong [where f = last])
  note yes [where t = "'' tinyint''", simplified] yes [where t = "'' int''", simplified]
    yes [where t = "'' int UNSIGNED''", simplified] yes [where t = "'' bigint''", simplified]
    yes [where t = "'' bigint UNSIGNED''", simplified] yes [where t = "'' float''", simplified]
    yes [where t = "'' double''", simplified] no [where t = "'' tex''" and c = "CHR ''t''", simplified]
    no [where t = "'' varchar(255) NOT NUL''" and c = "CHR ''L''", simplified]
  with assms show ?thesis
    by (cases "fd_Kind fd") (simp_all add: column_default_def columnSQL_def IsFdMarshalToBlob_def BlobKind_def
        split: if_splits)
qed

lemma no_blob_default: "IsFdMarshalToBlob fd \<Longrightarrow> column_default desc fd = None"
  by (auto simp: column_default_def columnSQL_def suffix_def quoted_def dest!: arg_cong [where f = last])

lemma default_reads:
  assumes "\<not> IsFdMarshalToBlob fd" and "fd_Kind fd \<notin> {EnumKind, Fixed64Kind}" and "pf ''0'' = Some ''0''"
  shows "unmarshalScalarByStr pf (fd_Kind fd) (case column_default desc fd of None \<Rightarrow> [] | Some s \<Rightarrow> s)
    = Some (zero_value (fd_Kind fd))"
  using assms column_default_kind [OF assms(1), of desc]
  by (cases "fd_Kind fd")
    (simp_all add: unmarshalScalarByStr_def zero_value_def ParseInt_def ParseInt64_def ParseUint_def
      digit_value_def IsFdMarshalToBlob_def BlobKind_def split: if_splits)

section \<open>Reading a row\<close>

lemma AList_update_new: "k \<notin> fst ` set al \<Longrightarrow> AList.update k v al = al @ [(k, v)]"
  by (induction al) auto

lemma retMap_columns:
  assumes "distinct cols"
  shows "retMap cols (map f cols) = map (\<lambda>c. (c, case f c of None \<Rightarrow> [] | Some s \<Rightarrow> s)) cols"
proof -
  have "fold (\<lambda>(c, v) m. AList.update c (case v of None \<Rightarrow> [] | Some s \<Rightarrow> s) m) (zip cols (map f cols)) al
      = al @ map (\<lambda>c. (c, case f c of None \<Rightarrow> [] | Some s \<Rightarrow> s)) cols"
    if "distinct cols" "fst ` set al \<inter> set cols = {}" for al
    using that by (induction cols arbitrary: al) (auto simp: AList_update_new)
  from this [OF assms, of "[]"] show ?thesis by (simp add: retMap_def)
qed

lemma row_unmarshals:
  assumes "readable_desc desc" and "readable pf desc row" and "pf ''0'' = Some ''0''"
    and "distinct cols" and "set cols \<subseteq> fd_Name ` set (d_Fields desc)"
  obtains sets where "map_of sets = row_sets pf desc row |` set cols"
    and "unmarshal_loop pf desc (retMap cols (row_values desc row cols)) [] []
      = Ok (sets, concat (map (row_bytes row) (filter (\<lambda>c. row_sets pf desc row c = None) cols)))"
proof -
  define cell where "cell = (\<lambda>c. case (case row c of Some v \<Rightarrow> Some v
     | None \<Rightarrow> (case ByName desc c of None \<Rightarrow> None | Some fd \<Rightarrow> column_default desc fd)) of
       None \<Rightarrow> [] | Some s \<Rightarrow> s)"
  have m: "retMap cols (row_values desc row cols) = map (\<lambda>c. (c, cell c)) cols"
    unfolding row_values_def cell_def by (rule retMap_columns [OF assms(4)])
  have blob: "cell (fd_Name fd) = row_bytes row (fd_Name fd) \<and> row_sets pf desc row (fd_Name fd) = None"
    if "fd \<in> set (d_Fields desc)" "IsFdMarshalToBlob fd" for fd
    using that ByName_distinct [of desc fd] assms(1) no_blob_default [OF that(2)]
    by (auto simp: readable_desc_def cell_def row_bytes_def row_sets_def split: option.splits)
  have scalar: "unmarshalScalarByStr pf (fd_Kind fd) (cell (fd_Name fd)) = row_sets pf desc row (fd_Name fd)
      \<and> row_sets pf desc row (fd_Name fd) \<noteq> None"
    if "fd \<in> set (d_Fields desc)" "\<not> IsFdMarshalToBlob fd" for fd
    using that ByName_distinct [of desc fd] assms(1,2) default_reads [where fd = fd and desc = desc and pf = pf, OF that(2) _ assms(3)]
    by (auto simp: readable_desc_def readable_def list_all_iff cell_def row_sets_def split: option.splits)
  have "\<forall>(k, s)\<in>set (map (\<lambda>c. (c, cell c)) cols). take 1 k \<noteq> ''_'' \<and> (\<exists>fd. ByName desc k = Some fd
      \<and> (IsFdMarshalToBlob fd \<and> row_sets pf desc row k = None
         \<or> \<not> IsFdMarshalToBlob fd \<and> row_sets pf desc row k \<noteq> None
           \<and> unmarshalScalarByStr pf (fd_Kind fd) s = row_sets pf desc row k))"
  proof clarify
    fix k s
    assume "(k, s) \<in> set (map (\<lambda>c. (c, cell c)) cols)"
    with assms(5) obtain fd where fd: "fd \<in> set (d_Fields desc)" "k = fd_Name fd" "s = cell k" by auto
    with assms(1) have "take 1 k \<noteq> ''_''" "ByName desc k = Some fd"
      by (auto simp: readable_desc_def list_all_iff ByName_distinct)
    with fd blob scalar show "take 1 k \<noteq> ''_'' \<and> (\<exists>fd. ByName desc k = Some fd
      \<and> (IsFdMarshalToBlob fd \<and> row_sets pf desc row k = None
         \<or> \<not> IsFdMarshalToBlob fd \<and> row_sets pf desc row k \<noteq> None
           \<and> unmarshalScalarByStr pf (fd_Kind fd) s = row_sets pf desc row k))"
      by (cases "IsFdMarshalToBlob fd") simp_all
  qed
  from unmarshal_loop_reads [OF this, of "[]" "[]"] obtain sets where sets:
    "unmarshal_loop pf desc (map (\<lambda>c. (c, cell c)) cols) [] []
      = Ok (sets, concat (map snd (filter (\<lambda>(k, s). row_sets pf desc row k = None) (map (\<lambda>c. (c, cell c)) cols))))"
    "map_of sets = (\<lambda>k. if k \<in> set cols \<and> row_sets pf desc row k \<noteq> None then row_sets pf desc row k else None)"
    by (auto simp: image_image cong: if_cong)
  have bytes: "cell c = row_bytes row c" if "row_sets pf desc row c = None" "c \<in> set cols" for c
  proof -
    from that(2) assms(5) obtain fd where fd: "fd \<in> set (d_Fields desc)" "c = fd_Name fd" by auto
    with that(1) scalar have "IsFdMarshalToBlob fd" by blast
    with fd blob show ?thesis by simp
  qed
  have "map snd (filter (\<lambda>(k, s). row_sets pf desc row k = None) (map (\<lambda>c. (c, cell c)) cols))
      = map (row_bytes row) (filter (\<lambda>c. row_sets pf desc row c = None) cols)"
    using bytes by (auto simp: filter_map comp_def)
  moreover have "map_of sets = row_sets pf desc row |` set cols"
    using sets(2) by (auto simp: fun_eq_iff restrict_map_def)
  ultimately show ?thesis using sets(1) m by (intro that) simp_all
qed


lemma row_blobs:
  assumes "readable_desc desc" and "readable pf desc row" and "set cols \<subseteq> fd_Name ` set (d_Fields desc)"
  shows "set (filter (\<lambda>c. row_sets pf desc row c = None) cols) = blob_names desc \<inter> set cols"
proof -
  have "row_sets pf desc row (fd_Name fd) = None \<longleftrightarrow> IsFdMarshalToBlob fd" if "fd \<in> set (d_Fields desc)" for fd
    using that assms(1,2) ByName_distinct [of desc fd]
    by (auto simp: readable_desc_def readable_def list_all_iff row_sets_def split: option.splits)
  moreover have "IsFdMarshalToBlob fd \<longleftrightarrow> fd_Name fd \<in> blob_names desc" if "fd \<in> set (d_Fields desc)" for fd
    using that assms(1) by (auto simp: blob_names_def readable_desc_def dest: inj_onD [OF _ _ that] simp: distinct_map)
  ultimately show ?thesis using assms(3) by auto
qed

text \<open>The fields that a list of fields asks for, all of them for the empty list.\<close>

definition asked :: "msg_desc \<Rightarrow> string list \<Rightarrow> string set" where
  "asked desc flds = (if flds = [] then fd_Name ` set (d_Fields desc) else set flds)"

definition askable :: "msg_desc \<Rightarrow> string list \<Rightarrow> bool" where
  "askable desc flds = (distinct flds \<and> set flds \<subseteq> fd_Name ` set (d_Fields desc))"

context sql_table
begin

lemma get_row:
  assumes "mysql_meta desc t" and "FindPrimaryKey desc = [pk]" and "keyParams blobStr desc probe = Ok [k]"
    and "fits pk k" and "readable_desc desc" and "readable pf desc (T (server t) k)" and "pf ''0'' = Some ''0''"
    and "askable desc flds"
  shows "\<exists>sets blobs. map_of sets = row_sets pf desc (T (server t) k) |` asked desc flds
    \<and> distinct blobs \<and> set blobs = blob_names desc \<inter> asked desc flds
    \<and> fst (SimpleGet drv blobStr pf merge desc probe flds t) = read_answer merge probe (T (server t) k) sets blobs
    \<and> server (snd (SimpleGet drv blobStr pf merge desc probe flds t)) = server t"
proof -
  let ?row = "T (server t) k"
  obtain t1 where t1: "meta_of desc t = (desc, t1)" "server t1 = server t"
    using meta_of_own [OF assms(1)] by metis
  have pkg: "SelectFieldsPkg blobStr desc probe flds = Ok \<lparr>str = select_stmt (d_Name desc) pk flds, params = [k]\<rparr>"
    using assms(3) by (simp add: SelectFieldsPkg_def select_stmt_def single_keyClause [OF assms(2)])
  obtain cols where cols: "distinct cols" "set cols = asked desc flds"
    "QueryContext drv (server t) (select_stmt (d_Name desc) pk flds) [k]
      = Inr \<lparr>rows_Err = None, rows_Columns = Inr cols,
          rows_First = if ?row = Map.empty then None else Some (Inr (row_values desc ?row cols))\<rparr>"
    using sql_select [OF assms(4), of flds] assms(8) unfolding asked_def askable_def by metis
  then have names: "set cols \<subseteq> fd_Name ` set (d_Fields desc)" using assms(8) by (simp add: asked_def askable_def)
  obtain sets where sets: "map_of sets = row_sets pf desc ?row |` set cols"
    "unmarshal_loop pf desc (retMap cols (row_values desc ?row cols)) [] []
      = Ok (sets, concat (map (row_bytes ?row) (filter (\<lambda>c. row_sets pf desc ?row c = None) cols)))"
    using row_unmarshals [OF assms(5-7) cols(1) names] by metis
  let ?blobs = "filter (\<lambda>c. row_sets pf desc ?row c = None) cols"
  have "fst (SimpleGet drv blobStr pf merge desc probe flds t) = read_answer merge probe ?row sets ?blobs
    \<and> server (snd (SimpleGet drv blobStr pf merge desc probe flds t)) = server t"
    by (simp add: SimpleGet_def t1 pkg cols(3) UnmarshalFromMap_def sets(2) read_answer_def split: prod.split)
  with sets(1) cols(1,2) row_blobs [OF assms(5,6) names] show ?thesis
    by (intro exI [of _ sets] exI [of _ ?blobs]) simp
qed

end

section \<open>Rows stay readable\<close>

lemma row_op_readable:
  assumes "\<forall>k. readable pf desc (T k)" and "record_ok pf desc (op_record a)" and "readable_desc desc"
  shows "\<forall>k. readable pf desc (snd (row_op key (record_cols desc) pk a T) k)"
  using assms record_readable [OF assms(2,3)] by (cases a) (auto simp: readable_add Let_def)

text \<open>A row written from a record reads as the record, with zeros for the fields it left out.\<close>

lemma record_row_sets:
  assumes "record_ok pf desc rec" and "ByName desc n = Some fd"
  shows "\<not> IsFdMarshalToBlob fd \<Longrightarrow> row_sets pf desc (record_cols desc rec []) n
      = Some (case map_of (scalars rec) n of Some v \<Rightarrow> v | None \<Rightarrow> zero_value (fd_Kind fd))"
    and "IsFdMarshalToBlob fd \<Longrightarrow> row_bytes (record_cols desc rec []) n = chunks desc n (wire rec)"
proof -
  have val: "n \<notin> wire_names desc (wire rec)" if "map_of (scalars rec) n = None" "\<not> IsFdMarshalToBlob fd"
    using that record_ok_wire_name [OF assms(1), of n] assms(2) by auto
  show "row_sets pf desc (record_cols desc rec []) n
      = Some (case map_of (scalars rec) n of Some v \<Rightarrow> v | None \<Rightarrow> zero_value (fd_Kind fd))"
    if "\<not> IsFdMarshalToBlob fd"
    using that val record_ok_scalar_name(1) [OF assms(1), of n] record_ok_scalar_reads [OF assms(1) _ assms(2)]
    by (cases "map_of (scalars rec) n") (simp_all add: row_sets_def assms(2) record_cols_value [OF assms(1)])
  have "map_of (scalars rec) n = None" if "IsFdMarshalToBlob fd"
    using that record_ok_scalar_name(2) [OF assms(1), of n] assms(2)
    by (cases "map_of (scalars rec) n") (auto simp: scalar_ok_def)
  moreover have "chunks desc n (wire rec) = []" if "n \<notin> wire_names desc (wire rec)"
    using that by (force simp: wire_names_def chunks_def)
  ultimately show "row_bytes (record_cols desc rec []) n = chunks desc n (wire rec)" if "IsFdMarshalToBlob fd"
    using that by (simp add: row_bytes_def record_cols_value [OF assms(1)])
qed

section \<open>Increases\<close>

fun mysql_act ::
  "'s sql_driver \<Rightarrow> (field \<Rightarrow> string) \<Rightarrow> (string \<Rightarrow> string option) \<Rightarrow> merger \<Rightarrow> msg_desc
    \<Rightarrow> message row_action \<Rightarrow> 's mysql_db \<Rightarrow> bool \<times> 's mysql_db" where
  "mysql_act drv blobStr pf merge desc (Write a) t = mysql_step drv blobStr pf merge desc a t"
| "mysql_act drv blobStr pf merge desc (Increase rec flds) t =
     (case SimpleIncrease drv blobStr desc rec flds t of (r, t) \<Rightarrow> (r = Ok (), t))"

text \<open>On the table: an increase of a record that is not there succeeds and does nothing.\<close>

fun row_act ::
  "('r \<Rightarrow> string) \<Rightarrow> ('r \<Rightarrow> string list \<Rightarrow> string \<rightharpoonup> string) \<Rightarrow> string \<Rightarrow> msg_desc \<Rightarrow> 'r row_action \<Rightarrow> table \<Rightarrow> bool \<times> table" where
  "row_act key cols pk desc (Write a) T = row_op key cols pk a T"
| "row_act key cols pk desc (Increase r flds) T =
     (if flds = [] \<or> \<not> set flds \<subseteq> BuildIncreaseableFieldsMap desc then (False, T)
      else if T (key r) = Map.empty then (True, T)
      else case increase_row desc (T (key r)) flds of
             None \<Rightarrow> (False, T)
           | Some row \<Rightarrow> (True, T(key r := row)))"

fun action_ok ::
  "(string \<Rightarrow> string \<Rightarrow> bool) \<Rightarrow> string \<Rightarrow> (field \<Rightarrow> string) \<Rightarrow> (string \<Rightarrow> string option) \<Rightarrow> msg_desc
    \<Rightarrow> message row_action \<Rightarrow> bool" where
  "action_ok fits pk blobStr pf desc (Write a) = row_storable fits pk blobStr pf desc (op_record a)"
| "action_ok fits pk blobStr pf desc (Increase rec flds) =
     (FindPrimaryKey desc = [pk] \<and> keyParams blobStr desc rec = Ok [row_key blobStr desc rec]
      \<and> fits pk (row_key blobStr desc rec))"

lemma IncreasePkg_stmt:
  assumes "FindPrimaryKey desc = [pk]" and "keyParams blobStr desc rec = Ok [k]"
  shows "IncreasePkg blobStr desc rec flds =
    (if flds = [] \<or> \<not> set flds \<subseteq> BuildIncreaseableFieldsMap desc then Ok None
     else Ok (Some \<lparr>str = increase_stmt (d_Name desc) pk flds, params = [k]\<rparr>))"
  using assms(2)
  by (auto simp: IncreasePkg_def increase_stmt_def list_all_iff subset_iff single_keyClause [OF assms(1)])

lemma increase_row_readable:
  assumes "increase_row desc row cs = Some row'" and "readable pf desc row" and "set cs \<subseteq> BuildIncreaseableFieldsMap desc"
    and "readable_desc desc"
  shows "readable pf desc row'"
  using assms(1-3)
proof (induction cs arbitrary: row)
  case (Cons c cs)
  then obtain fd v s where fd: "ByName desc c = Some fd"
    and v: "unmarshalScalarByStr (\<lambda>_. None) (fd_Kind fd) (case row c of None \<Rightarrow> ''0'' | Some s \<Rightarrow> s) = Some v"
      "value_ok (fd_Kind fd) (succ_value v)" "s = marshalScalar (succ_value v)"
      "increase_row desc (row(c \<mapsto> s)) cs = Some row'"
    by (auto simp: increment_def split: option.splits if_splits)
  from Cons.prems(3) obtain fd' where fd': "fd' \<in> set (d_Fields desc)" "fd_Name fd' = c" "fd_Kind fd' \<in> IncreaseAbleKind"
    by (auto simp: BuildIncreaseableFieldsMap_def)
  with fd ByName_distinct [OF _ fd'(1)] assms(4) have "fd_Kind fd \<in> IncreaseAbleKind"
    by (simp add: readable_desc_def)
  with v(2) have "unmarshalScalarByStr pf (fd_Kind fd) s = Some (succ_value v)"
    unfolding v(3) by (intro scalar_round_trip) (auto simp: IncreaseAbleKind_def)
  moreover have "f = fd" if "f \<in> set (d_Fields desc)" "fd_Name f = c" for f
    using ByName_distinct [OF _ that(1)] that(2) fd assms(4) by (simp add: readable_desc_def)
  ultimately have "readable pf desc (row(c \<mapsto> s))"
    using Cons.prems(2) by (auto simp: readable_def list_all_iff)
  from Cons.IH [OF v(4) this] Cons.prems(3) show ?case by simp
qed simp

lemma row_act_readable:
  assumes "\<forall>k. readable pf desc (T k)" and "action_ok fits pk blobStr pf desc a" and "readable_desc desc"
  shows "\<forall>k. readable pf desc (snd (row_act key (record_cols desc) pk desc a T) k)"
proof (cases a)
  case (Write b)
  with assms show ?thesis using row_op_readable [of pf desc T b key pk] by (simp add: row_storable_def)
next
  case (Increase rec flds)
  with assms(1,3) show ?thesis by (auto split: option.splits intro: increase_row_readable)
qed

lemma rows_stay_readable:
  assumes "\<forall>k. readable pf desc (T k)" and "\<forall>a\<in>set as. action_ok fits pk blobStr pf desc a" and "readable_desc desc"
  shows "\<forall>k. readable pf desc (snd (run_store (row_act key (record_cols desc) pk desc) as T) k)"
  using assms(1,2)
proof (induction as arbitrary: T)
  case (Cons a as)
  obtain b T1 where T1: "row_act key (record_cols desc) pk desc a T = (b, T1)" by fastforce
  with row_act_readable [OF Cons.prems(1) _ assms(3), of fits pk blobStr a key] Cons.prems(2)
  have "\<forall>k. readable pf desc (T1 k)" by simp
  with Cons.IH [OF this] Cons.prems(2) T1 show ?case by (simp add: split_beta)
qed simp

text \<open>A plugin in front of a database with the table of its message type.\<close>

locale mysql_table = sql_table drv desc pk fits T
  for drv :: "'s sql_driver" and desc :: msg_desc and pk :: string and fits :: "string \<Rightarrow> string \<Rightarrow> bool"
    and T :: "'s \<Rightarrow> table" +
  fixes blobStr :: "field \<Rightarrow> string" and pf :: "string \<Rightarrow> string option" and merge :: merger

sublocale mysql_table \<subseteq> mysql_plugin drv desc pk fits T blobStr pf merge ..

context mysql_table
begin

lemma increase_step:
  assumes "mysql_meta desc t" and "action_ok fits pk blobStr pf desc (Increase rec flds)"
  shows "mysql_meta desc (snd (SimpleIncrease drv blobStr desc rec flds t))
    \<and> row_act (row_key blobStr desc) (record_cols desc) pk desc (Increase rec flds) (T (server t))
      = (fst (SimpleIncrease drv blobStr desc rec flds t) = Ok (), T (server (snd (SimpleIncrease drv blobStr desc rec flds t))))"
proof -
  let ?k = "row_key blobStr desc rec"
  obtain t1 where t1: "meta_of desc t = (desc, t1)" "mysql_meta desc t1" "server t1 = server t"
    by (rule meta_of_own [OF assms(1)])
  have pkg: "IncreasePkg blobStr desc rec flds =
    (if flds = [] \<or> \<not> set flds \<subseteq> BuildIncreaseableFieldsMap desc then Ok None
     else Ok (Some \<lparr>str = increase_stmt (d_Name desc) pk flds, params = [?k]\<rparr>))"
    using assms(2) by (intro IncreasePkg_stmt) simp_all
  obtain r s' where e: "ExecContext drv (server t) (increase_stmt (d_Name desc) pk flds) [?k] = (r, s')" by fastforce
  show ?thesis
  proof (cases "flds = [] \<or> \<not> set flds \<subseteq> BuildIncreaseableFieldsMap desc")
    case True
    then show ?thesis by (auto simp: SimpleIncrease_def t1 pkg)
  next
    case False
    then show ?thesis using sql_increase [OF _ _ _ e] assms(2)
      by (auto simp: SimpleIncrease_def t1 pkg exec_def e split: if_splits option.splits)
  qed
qed

end

sublocale mysql_table \<subseteq> acts: table_refinement "mysql_act drv blobStr pf merge desc"
  "row_act (row_key blobStr desc) (record_cols desc) pk desc" "\<lambda>t. T (server t)"
  "action_ok fits pk blobStr pf desc" "mysql_meta desc"
proof
  fix s :: "'s mysql_db" and a
  assume "mysql_meta desc s" "action_ok fits pk blobStr pf desc a"
  then have "mysql_meta desc (snd (mysql_act drv blobStr pf merge desc a s))
    \<and> row_act (row_key blobStr desc) (record_cols desc) pk desc a (T (server s))
      = (fst (mysql_act drv blobStr pf merge desc a s), T (server (snd (mysql_act drv blobStr pf merge desc a s))))"
    using step_row [of s] increase_step [of s]
    by (cases a) (simp_all add: split_beta del: row_act.simps(2))
  then show "mysql_meta desc (snd (mysql_act drv blobStr pf merge desc a s))"
    and "row_act (row_key blobStr desc) (record_cols desc) pk desc a (T (server s))
      = (fst (mysql_act drv blobStr pf merge desc a s), T (server (snd (mysql_act drv blobStr pf merge desc a s))))"
    by simp_all
qed

context mysql_table
begin

lemma reads_after_run:
  assumes "mysql_meta desc t" and "\<forall>k. readable pf desc (T (server t) k)"
    and "\<forall>a\<in>set as. action_ok fits pk blobStr pf desc a"
    and "FindPrimaryKey desc = [pk]" and "keyParams blobStr desc probe = Ok [k]" and "fits pk k"
    and "readable_desc desc" and "pf ''0'' = Some ''0''" and "askable desc flds"
    and "run_store (row_act (row_key blobStr desc) (record_cols desc) pk desc) as (T (server t)) = (oks, R)"
  shows "fst (run_store (mysql_act drv blobStr pf merge desc) as t) = oks"
    and "\<exists>sets blobs. map_of sets = row_sets pf desc (R k) |` asked desc flds
    \<and> distinct blobs \<and> set blobs = blob_names desc \<inter> asked desc flds
    \<and> fst (SimpleGet drv blobStr pf merge desc probe flds (snd (run_store (mysql_act drv blobStr pf merge desc) as t)))
      = read_answer merge probe (R k) sets blobs"
proof -
  let ?t = "snd (run_store (mysql_act drv blobStr pf merge desc) as t)"
  have run: "fst (run_store (mysql_act drv blobStr pf merge desc) as t) = oks" "T (server ?t) = R"
    using acts.run_table [OF assms(1,3)] assms(10) by simp_all
  then show "fst (run_store (mysql_act drv blobStr pf merge desc) as t) = oks" by simp
  have "readable pf desc (T (server ?t) k)"
    using rows_stay_readable [OF assms(2,3,7), of "row_key blobStr desc"] assms(10) run(2) by simp
  from get_row [OF acts.run_inv [OF assms(1,3)] assms(4-7) this assms(8,9)] run(2)
  show "\<exists>sets blobs. map_of sets = row_sets pf desc (R k) |` asked desc flds
    \<and> distinct blobs \<and> set blobs = blob_names desc \<inter> asked desc flds
    \<and> fst (SimpleGet drv blobStr pf merge desc probe flds ?t) = read_answer merge probe (R k) sets blobs"
    by metis
qed

end

section \<open>A database\<close>

text \<open>
  The database of \<open>Mysql_Store\<close>, which also reads increases -- the updates with the key as their only
  parameter -- and selects.
\<close>

definition table_exec ::
  "msg_desc \<Rightarrow> string \<Rightarrow> (string \<Rightarrow> (string \<times> string) list) \<Rightarrow> string \<Rightarrow> string list
    \<Rightarrow> (string + (string + nat)) \<times> (string \<Rightarrow> (string \<times> string) list)" where
  "table_exec desc pk s q ps =
     (let body = takeWhile (\<lambda>c. c \<noteq> CHR '' '') (drop (length (''update '' @ d_Name desc @ '' set '')) q)
      in if take 1 q = ''u'' \<and> length ps = 1 \<and> body \<noteq> [] then
           let cs = map (takeWhile (\<lambda>c. c \<noteq> CHR ''='')) (split_at (CHR '','') [] body); k = hd ps
           in if s k = [] then (Inr (Inr 0), s)
              else (case increase_row desc (map_of (s k)) cs of
                      None \<Rightarrow> (Inl ''out of range'', s)
                    | Some row \<Rightarrow> (Inr (Inr 1), s(k := map (\<lambda>c. (c, the (row c))) cs @ s k)))
         else list_exec (d_Name desc) pk s q ps)"

definition table_sql :: "msg_desc \<Rightarrow> string \<Rightarrow> (string \<Rightarrow> (string \<times> string) list) sql_driver" where
  "table_sql desc pk =
     \<lparr>QueryContext = (\<lambda>s q ps.
        let body = takeWhile (\<lambda>c. c \<noteq> CHR '' '') (drop (length ''select '') q);
            cols = (if body = ''*'' then map fd_Name (d_Fields desc) else split_at (CHR '','') [] body);
            row = s (hd ps)
        in if q = select_stmt (d_Name desc) pk (if body = ''*'' then [] else cols)
           then Inr \<lparr>rows_Err = None, rows_Columns = Inr cols,
                  rows_First = if row = [] then None else Some (Inr (row_values desc (map_of row) cols))\<rparr>
           else Inl ''unsupported''),
      ExecContext = table_exec desc pk\<rparr>"

lemma table_exec_writes:
  "table_exec desc pk s (insert_stmt (d_Name desc) cs) ps = list_exec (d_Name desc) pk s (insert_stmt (d_Name desc) cs) ps"
  "table_exec desc pk s (replace_stmt (d_Name desc) cs) ps = list_exec (d_Name desc) pk s (replace_stmt (d_Name desc) cs) ps"
  "table_exec desc pk s (delete_stmt (d_Name desc) pk) ps = list_exec (d_Name desc) pk s (delete_stmt (d_Name desc) pk) ps"
  "table_exec desc pk s (update_stmt (d_Name desc) pk (map fst m)) (map snd m @ [k])
    = list_exec (d_Name desc) pk s (update_stmt (d_Name desc) pk (map fst m)) (map snd m @ [k])"
  by (simp_all add: table_exec_def insert_stmt_def replace_stmt_def delete_stmt_def)
    (cases m, simp_all add: table_exec_def update_stmt_def set_list_def)

lemma increase_row_frame:
  "increase_row desc row cs = Some row' \<Longrightarrow>
    (\<forall>c. c \<notin> set cs \<longrightarrow> row' c = row c) \<and> (\<forall>c\<in>set cs. row' c \<noteq> None)"
proof (induction cs arbitrary: row)
  case (Cons c cs)
  then obtain s where "increase_row desc (row(c \<mapsto> s)) cs = Some row'" by (auto split: option.splits)
  from Cons.IH [OF this] show ?case by (cases "c \<in> set cs") auto
qed simp

lemma map_of_listed:
  "(\<forall>c. c \<notin> set cs \<longrightarrow> row' c = row c) \<and> (\<forall>c\<in>set cs. row' c \<noteq> None) \<Longrightarrow>
    map_of (map (\<lambda>c. (c, the (row' c))) cs @ xs) = row'" if "map_of xs = row"
proof
  fix c
  assume "(\<forall>c. c \<notin> set cs \<longrightarrow> row' c = row c) \<and> (\<forall>c\<in>set cs. row' c \<noteq> None)"
  then show "map_of (map (\<lambda>c. (c, the (row' c))) cs @ xs) c = row' c"
    using that by (cases "c \<in> set cs") (auto simp: map_add_def map_of_map_restrict)
qed

lemma sql_server_exec_cong:
  assumes "sql_server drv name pk fits T"
    and "\<And>s cs ps. ExecContext drv' s (insert_stmt name cs) ps = ExecContext drv s (insert_stmt name cs) ps"
    and "\<And>s cs ps. ExecContext drv' s (replace_stmt name cs) ps = ExecContext drv s (replace_stmt name cs) ps"
    and "\<And>s m k. ExecContext drv' s (update_stmt name pk (map fst m)) (map snd m @ [k])
      = ExecContext drv s (update_stmt name pk (map fst m)) (map snd m @ [k])"
    and "\<And>s ps. ExecContext drv' s (delete_stmt name pk) ps = ExecContext drv s (delete_stmt name pk) ps"
  shows "sql_server drv' name pk fits T"
  using assms(1) unfolding sql_server_def assms(2-5) .

lemma takeWhile_increase:
  assumes "cs \<noteq> []" and "list_all ident cs"
  shows "takeWhile (\<lambda>c. c \<noteq> CHR '' '') (join '','' (map (\<lambda>c. c @ ''='' @ c @ ''+1'') cs) @ CHR '' '' # x)
      = join '','' (map (\<lambda>c. c @ ''='' @ c @ ''+1'') cs)"
    and "map (takeWhile (\<lambda>c. c \<noteq> CHR ''='')) (split_at (CHR '','') [] (join '','' (map (\<lambda>c. c @ ''='' @ c @ ''+1'') cs))) = cs"
proof -
  let ?cs = "map (\<lambda>c. c @ ''='' @ c @ ''+1'') cs"
  have "CHR '' '' \<notin> set (join '','' ?cs)"
    using assms(2) join_chars [of "'',''" ?cs] ident_chars by (fastforce simp: list_all_iff)
  then show "takeWhile (\<lambda>c. c \<noteq> CHR '' '') (join '','' ?cs @ CHR '' '' # x) = join '','' ?cs"
    by (subst takeWhile_append2) auto
  obtain c cs' where cs: "cs = c # cs'" using assms(1) by (cases cs) auto
  have "list_all (\<lambda>c. CHR '','' \<notin> set c) ?cs" using assms(2) ident_chars by (auto simp: list_all_iff)
  with cs have "split_at (CHR '','') [] (join '','' ?cs) = ?cs"
    using split_join [of "CHR '',''" "c @ ''='' @ c @ ''+1''" "map (\<lambda>c. c @ ''='' @ c @ ''+1'') cs'" "[]"] by simp
  moreover have "takeWhile (\<lambda>c. c \<noteq> CHR ''='') (c @ CHR ''='' # x) = c" if "ident c" for c x
    using that by (subst takeWhile_append2) (auto simp: ident_def list_all_iff)
  ultimately show "map (takeWhile (\<lambda>c. c \<noteq> CHR ''='')) (split_at (CHR '','') [] (join '','' ?cs)) = cs"
    using assms(2) by (auto simp: list_all_iff intro: map_idI)
qed

lemma table_exec_increase:
  assumes "cs \<noteq> []" and "list_all ident cs"
  shows "table_exec desc pk s (increase_stmt (d_Name desc) pk cs) [k]
    = (if s k = [] then (Inr (Inr 0), s)
       else (case increase_row desc (map_of (s k)) cs of
               None \<Rightarrow> (Inl ''out of range'', s)
             | Some row \<Rightarrow> (Inr (Inr 1), s(k := map (\<lambda>c. (c, the (row c))) cs @ s k))))"
proof -
  let ?body = "join '','' (map (\<lambda>c. c @ ''='' @ c @ ''+1'') cs)"
  have q: "increase_stmt (d_Name desc) pk cs = (''update '' @ d_Name desc @ '' set '') @ ?body @ CHR '' '' # ''where '' @ pk @ ''=?''"
    by (simp add: increase_stmt_def)
  have "?body \<noteq> []" using assms(1) by (cases cs rule: remdups_adj.cases) auto
  moreover have "take 1 (increase_stmt (d_Name desc) pk cs) = ''u''" by (simp add: increase_stmt_def)
  ultimately show ?thesis
    unfolding table_exec_def Let_def drop_prefix [OF q] takeWhile_increase(1) [OF assms] takeWhile_increase(2) [OF assms]
    by (simp split: option.split)
qed

lemma table_sql_select:
  assumes "list_all ident flds" and "cols = (if flds = [] then map fd_Name (d_Fields desc) else flds)"
  shows "QueryContext (table_sql desc pk) s (select_stmt (d_Name desc) pk flds) [k]
    = Inr \<lparr>rows_Err = None, rows_Columns = Inr cols,
        rows_First = if s k = [] then None else Some (Inr (row_values desc (map_of (s k)) cols))\<rparr>"
proof -
  let ?q = "select_stmt (d_Name desc) pk flds"
  let ?body = "if flds = [] then ''*'' else join '','' flds"
  have "?q = ''select '' @ ?body @ CHR '' '' # ''from '' @ d_Name desc @ '' where '' @ pk @ ''=?''"
    by (simp add: select_stmt_def)
  note d = drop_prefix [OF this]
  have chars: "CHR '' '' \<notin> set ?body" "flds \<noteq> [] \<Longrightarrow> CHR ''*'' \<notin> set ?body"
    using assms(1) join_chars [of "'',''" flds] by (auto simp: list_all_iff ident_def dest!: subsetD)
  then have body: "takeWhile (\<lambda>c. c \<noteq> CHR '' '') (drop (length ''select '') ?q) = ?body"
    unfolding d by (subst takeWhile_append2) auto
  have "?body = ''*'' \<longleftrightarrow> flds = []" using chars(2) by (cases "flds = []") auto
  with split_columns(1) [OF _ assms(1)] show ?thesis
    unfolding table_sql_def sql_driver.simps body by (cases "flds = []") (simp_all add: Let_def assms(2))
qed

theorem table_sql_works:
  assumes "list_all (\<lambda>fd. ident (fd_Name fd)) (d_Fields desc)" and "distinct (map fd_Name (d_Fields desc))"
  shows "sql_table (table_sql desc pk) desc pk fits (\<lambda>s k. map_of (s k))"
proof (intro sql_table.intro sql_table_axioms.intro)
  show "sql_server (table_sql desc pk) (d_Name desc) pk fits (\<lambda>s k. map_of (s k))"
    by (rule sql_server_exec_cong [OF list_sql.sql_server_axioms])
      (simp_all add: table_sql_def list_sql_def table_exec_writes)
next
  fix k flds and s :: "string \<Rightarrow> (string \<times> string) list"
  assume flds: "distinct flds" "set flds \<subseteq> fd_Name ` set (d_Fields desc)"
  with assms(1) have "list_all ident flds" by (auto simp: list_all_iff)
  with flds show "\<exists>cols. distinct cols \<and> set cols = (if flds = [] then fd_Name ` set (d_Fields desc) else set flds)
    \<and> QueryContext (table_sql desc pk) s (select_stmt (d_Name desc) pk flds) [k]
      = Inr \<lparr>rows_Err = None, rows_Columns = Inr cols, rows_First = if map_of (s k) = Map.empty then None
          else Some (Inr (row_values desc (map_of (s k)) cols))\<rparr>"
    by (intro exI [of _ "if flds = [] then map fd_Name (d_Fields desc) else flds"]) (simp add: assms(2) table_sql_select)
next
  fix cs k and s s' :: "string \<Rightarrow> (string \<times> string) list" and r
  assume cs: "cs \<noteq> []" "set cs \<subseteq> BuildIncreaseableFieldsMap desc"
    and e: "ExecContext (table_sql desc pk) s (increase_stmt (d_Name desc) pk cs) [k] = (r, s')"
  from cs(2) assms(1) have "list_all ident cs" by (fastforce simp: BuildIncreaseableFieldsMap_def list_all_iff)
  note ex = table_exec_increase [OF cs(1) this, of desc pk s k]
  show "if map_of (s k) = Map.empty then (\<exists>n. r = Inr n) \<and> (\<lambda>k. map_of (s' k)) = (\<lambda>k. map_of (s k))
    else (case increase_row desc (map_of (s k)) cs of
            None \<Rightarrow> (\<exists>e. r = Inl e) \<and> (\<lambda>k. map_of (s' k)) = (\<lambda>k. map_of (s k))
          | Some row \<Rightarrow> (\<exists>n. r = Inr n) \<and> (\<lambda>k. map_of (s' k)) = (\<lambda>k. map_of (s k))(k := row))"
    using e ex map_of_listed [OF refl increase_row_frame, of desc _ cs]
    by (auto simp: table_sql_def map_of_upd_row simp del: map_of_append split: if_splits option.splits)
qed

section \<open>Properties\<close>

text \<open>
  C27.  What the MySQL plugin reads is what it wrote, for message types with exactly one key field,
  distinct field names that do not start with an underscore, and no scalar field of an enum or
  fixed64 type (with an enum field every read of a whole record panics, and with several key fields
  the statements are not SQL: neither is covered).  After any sequence of inserts, updates of all or
  of listed fields, replaces, deletes and increases of records that have some field and their key
  set, hold no enum, and fit the columns, on a database with the table of the message type whose
  rows parse, exactly those calls have succeeded that succeed on a table of rows, and \<open>SimpleGet\<close> of
  all or of listed fields of the type does not panic.  It reports a missing record exactly when the
  sequence leaves no row under the key, and otherwise sets every scalar field that was asked for to
  the value that the sequence leaves in the row -- zero where no write set it -- and merges the bytes
  of every other such field once.
\<close>

theorem mysql_reads_rows:
  assumes "sql_table drv desc pk fits T" and "mysql_meta desc t" and "\<forall>k. readable pf desc (T (server t) k)"
    and "\<forall>a\<in>set as. action_ok fits pk blobStr pf desc a"
    and "FindPrimaryKey desc = [pk]" and "keyParams blobStr desc probe = Ok [k]" and "fits pk k"
    and "readable_desc desc" and "pf ''0'' = Some ''0''" and "askable desc flds"
    and "run_store (row_act (row_key blobStr desc) (record_cols desc) pk desc) as (T (server t)) = (oks, R)"
    and "run_store (mysql_act drv blobStr pf merge desc) as t = (oks', t')"
  shows "oks' = oks \<and> (\<exists>sets blobs. map_of sets = row_sets pf desc (R k) |` asked desc flds
    \<and> distinct blobs \<and> set blobs = blob_names desc \<inter> asked desc flds
    \<and> fst (SimpleGet drv blobStr pf merge desc probe flds t') = read_answer merge probe (R k) sets blobs)"
  using mysql_table.reads_after_run [OF mysql_table.intro [OF assms(1)] assms(2-11), of merge] unfolding assms(12) by simp

lemma hero_table: "sql_table (table_sql hero_desc ''id'') hero_desc ''id'' fits (\<lambda>s k. map_of (s k))"
  by (rule table_sql_works) (simp_all add: hero_desc_def ident_def)

interpretation hero: mysql_table "table_sql hero_desc ''id''" hero_desc "''id''" fits "\<lambda>s k. map_of (s k)" blobStr pf merge
  for fits blobStr pf merge
  by (intro mysql_table.intro hero_table)

lemma hero_keys:
  "FindPrimaryKey hero_desc = [''id'']" "keyParams (\<lambda>_. []) hero_desc hero = Ok [''bo'']"
  "row_key (\<lambda>_. []) hero_desc hero = ''bo''" "readable_desc hero_desc"
  "MarshalToMap hero_desc hero [] = Ok [(''id'', ''bo''), (''bag'', ''b'')]"
  "BuildIncreaseableFieldsMap hero_desc = {''level''}"
proof -
  show pk: "FindPrimaryKey hero_desc = [''id'']" by (simp add: FindPrimaryKey_def hero_desc_def)
  show k: "keyParams (\<lambda>_. []) hero_desc hero = Ok [''bo'']"
    unfolding keyParams_def pk by (simp add: FindFds_def Get_String_def Value_String_def hero_eval)
  then show "row_key (\<lambda>_. []) hero_desc hero = ''bo''" by (simp add: row_key_def)
  show "readable_desc hero_desc" by (simp add: readable_desc_def hero_eval)
  show "MarshalToMap hero_desc hero [] = Ok [(''id'', ''bo''), (''bag'', ''b'')]"
    by (simp add: MarshalToMap_def DirtyFilter_def hero_eval)
  show "BuildIncreaseableFieldsMap hero_desc = {''level''}"
    unfolding BuildIncreaseableFieldsMap_def BuildKeyFieldsMap_def pk
    by (simp add: hero_desc_def IncreaseAbleKind_def)
qed

lemma hero_ok:
  "action_ok (\<lambda>c v. True) ''id'' (\<lambda>_. []) Some hero_desc (Write (InsertOp hero))"
  "action_ok (\<lambda>c v. True) ''id'' (\<lambda>_. []) Some hero_desc (Increase hero flds)"
proof -
  have "record_ok Some hero_desc hero" by (simp add: record_ok_def wire_ok_def scalar_ok_def hero_eval)
  then show "action_ok (\<lambda>c v. True) ''id'' (\<lambda>_. []) Some hero_desc (Write (InsertOp hero))"
    by (simp add: row_storable_def hero_keys record_cols_def assignable_def ident_def) (simp add: hero_def)
qed (simp add: hero_keys)

lemma hero_levels:
  "increment Int32Kind ''0'' = Some ''1''" "increment Int32Kind ''1'' = Some ''2''"
  "ByName hero_desc ''level'' = Some \<lparr>fd_Name = ''level'', fd_Number = 2, fd_Kind = Int32Kind, fd_Repeated = False\<rparr>"
  by (simp_all add: increment_def unmarshalScalarByStr_def ParseInt_def ParseInt64_def digit_value_def
      succ_value_def marshalScalar_def FormatInt_def Itoa.simps digit_char_def char_of_def bit_0 hero_desc_def ByName_def)

lemma hero_run:
  "snd (run_store (row_act (row_key (\<lambda>_. []) hero_desc) (record_cols hero_desc) ''id'' hero_desc)
     [Write (InsertOp hero), Increase hero [''level''], Increase hero [''level'']] (\<lambda>k. Map.empty)) ''bo''
   = [''id'' \<mapsto> ''bo'', ''bag'' \<mapsto> ''b'', ''level'' \<mapsto> ''2'']"
  by (simp add: hero_keys record_cols_def hero_levels fun_upd_twist)

theorem mysql_reads_rows_witness:
  "\<exists>sets. map_of sets = [''level'' \<mapsto> VInt 2]
    \<and> fst (SimpleGet (table_sql hero_desc ''id'') (\<lambda>_. []) Some (\<lambda>old sets b. (\<lparr>scalars = sets, wire = [(0, b)]\<rparr>, True))
        hero_desc hero [''bag'', ''level''] (snd (run_store (mysql_act (table_sql hero_desc ''id'') (\<lambda>_. []) Some
          (\<lambda>old sets b. (\<lparr>scalars = sets, wire = [(0, b)]\<rparr>, True)) hero_desc)
          [Write (InsertOp hero), Increase hero [''level''], Increase hero [''level'']] \<lparr>metaMap = [], server = \<lambda>k. []\<rparr>)))
      = Ok (\<lparr>scalars = sets, wire = [(0, ''b'')]\<rparr>, None)"
proof -
  let ?merge = "\<lambda>old sets b. (\<lparr>scalars = sets, wire = [(0, b)]\<rparr>, True) :: message \<times> bool"
  let ?as = "[Write (InsertOp hero), Increase hero [''level''], Increase hero [''level'']]"
  let ?row = "[''id'' \<mapsto> ''bo'', ''bag'' \<mapsto> ''b'', ''level'' \<mapsto> ''2'']"
  let ?flds = "[''bag'', ''level'']"
  let ?t = "\<lparr>metaMap = [], server = \<lambda>k. []\<rparr> :: (string \<Rightarrow> (string \<times> string) list) mysql_db"
  have "mysql_meta hero_desc ?t" "\<forall>k. readable Some hero_desc (map_of (server ?t k))"
    by (simp_all add: mysql_meta_def readable_add(3))
  moreover have "\<forall>a\<in>set ?as. action_ok (\<lambda>c v. True) ''id'' (\<lambda>_. []) Some hero_desc a" using hero_ok by simp
  moreover have "askable hero_desc ?flds" by (simp add: askable_def hero_desc_def)
  moreover obtain oks R where R: "run_store (row_act (row_key (\<lambda>_. []) hero_desc) (record_cols hero_desc) ''id'' hero_desc)
      ?as (\<lambda>k. map_of (server ?t k)) = (oks, R)" by fastforce
  moreover obtain oks' t' where t': "run_store (mysql_act (table_sql hero_desc ''id'') (\<lambda>_. []) Some ?merge hero_desc) ?as ?t = (oks', t')"
    by fastforce
  ultimately obtain sets blobs where r: "map_of sets = row_sets Some hero_desc (R ''bo'') |` set ?flds" "distinct blobs"
    "set blobs = blob_names hero_desc \<inter> set ?flds"
    "fst (SimpleGet (table_sql hero_desc ''id'') (\<lambda>_. []) Some ?merge hero_desc hero ?flds t')
      = read_answer ?merge hero (R ''bo'') sets blobs"
    using mysql_reads_rows [where fits = "\<lambda>c v. True" and t = ?t and pf = Some and as = ?as and merge = ?merge and flds = ?flds,
        OF hero_table _ _ _ hero_keys(1,2) _ hero_keys(4) _ _ _ t'] by (auto simp: asked_def)
  have row: "R ''bo'' = ?row" using hero_run R by simp
  have "set blobs = {''bag''}" by (simp add: r(3) blob_names_def hero_eval)
  with r(2) have "blobs = [''bag'']" by (cases blobs; cases "tl blobs") auto
  moreover have "map_of sets = [''level'' \<mapsto> VInt 2]"
    unfolding r(1) row
    by (auto simp: fun_eq_iff restrict_map_def row_sets_def hero_eval unmarshalScalarByStr_def ParseInt_def ParseInt64_def digit_value_def)
  ultimately show ?thesis
    using r(4) unfolding t' row by (intro exI [of _ sets]) (simp add: read_answer_def row_bytes_def)
qed

end
