(* ===== verification/Redis_Count.thy ===== *)
theory Redis_Count
  imports Redis_Store
begin

text \<open>
  Counting with the Redis plugin, \<open>SimpleIncrease\<close> of \<^verbatim>\<open>src/plugin/db/redis/simple.go\<close>.  The server counts
  in 64 bits and knows no table, so that the operation differs from that of MySQL in three ways: it
  makes a record of the counted field where there was none, it counts a field of 32 bits past what
  can be read again, and an increase of several fields may fail for some of them only.
\<close>

section \<open>A counting server\<close>

text \<open>
  What \<open>HINCRBY\<close> by one does to the text of a field: a missing field counts as zero; a value that is
  at the end of 64 bits, beyond it or no number is an error.  A pipeline runs its commands one after the
  other and reports the first error.
\<close>

definition counted :: "string option \<Rightarrow> int" where
  "counted v = (case v of None \<Rightarrow> 0 | Some s \<Rightarrow> (case ParseInt 64 s of None \<Rightarrow> 2 ^ 63 | Some i \<Rightarrow> i))"

definition counter_text :: "string option \<Rightarrow> bool" where
  "counter_text v = (case v of None \<Rightarrow> True | Some s \<Rightarrow> ParseInt 64 s = None \<or> s = FormatInt (counted v))"

locale counting_server =
  fixes srv :: "'s redis" and H :: "'s \<Rightarrow> string \<Rightarrow> string \<rightharpoonup> string"
  assumes works: "hash_server srv H"
    and hincrby: "counter_text (H s k f) \<Longrightarrow> HIncrBy srv s k f 1 = (r, s') \<Longrightarrow>
      if counted (H s k f) + 1 < 2 ^ 63
      then r = None \<and> H s' = (H s)(k := (H s k)(f \<mapsto> FormatInt (counted (H s k f) + 1)))
      else r \<noteq> None \<and> H s' = H s"
    and pipeline_Nil: "Pipeline_Exec srv s [] = (None, s)"
    and pipeline_Cons: "Pipeline_Exec srv s ((k, f, n) # cmds) =
      (case HIncrBy srv s k f n of (r, s1) \<Rightarrow>
         case Pipeline_Exec srv s1 cmds of (r', s2) \<Rightarrow> (case r of None \<Rightarrow> r' | Some e \<Rightarrow> Some e, s2))"

text \<open>The fields of a hash after an increase, and whether each was counted.\<close>

fun count_fields :: "string list \<Rightarrow> (string \<rightharpoonup> string) \<Rightarrow> bool \<times> (string \<rightharpoonup> string)" where
  "count_fields [] row = (True, row)"
| "count_fields (f # fs) row =
     (let ok = counted (row f) + 1 < 2 ^ 63;
          row' = (if ok then row(f \<mapsto> FormatInt (counted (row f) + 1)) else row)
      in case count_fields fs row' of (ok', row'') \<Rightarrow> (ok \<and> ok', row''))"

lemma counted_FormatInt:
  "- (2 ^ 63) \<le> i \<Longrightarrow> i < 2 ^ 63 \<Longrightarrow> counted (Some (FormatInt i)) = i"
  by (simp add: counted_def ParseInt_FormatInt)

lemma counted_lower: "- (2 ^ 63) \<le> counted v"
  by (auto simp: counted_def ParseInt_def split: option.splits prod.splits if_splits)

lemma counter_text_step:
  assumes "counted v + 1 < 2 ^ 63"
  shows "counter_text (Some (FormatInt (counted v + 1)))"
  using counted_FormatInt [of "counted v + 1"] counted_lower [of v] assms by (simp add: counter_text_def)

context counting_server
begin

lemma pipeline_counts:
  assumes "\<forall>f\<in>set fs. counter_text (H s k f)"
  shows "(fst (Pipeline_Exec srv s (map (\<lambda>f. (k, f, 1)) fs)) = None \<longleftrightarrow> fst (count_fields fs (H s k)))
    \<and> H (snd (Pipeline_Exec srv s (map (\<lambda>f. (k, f, 1)) fs))) = (H s)(k := snd (count_fields fs (H s k)))"
  using assms
proof (induction fs arbitrary: s)
  case Nil
  then show ?case by (simp add: pipeline_Nil)
next
  case (Cons f fs)
  obtain r s1 where s1: "HIncrBy srv s k f 1 = (r, s1)" by fastforce
  with Cons.prems hincrby [OF _ s1]
  have h: "if counted (H s k f) + 1 < 2 ^ 63
      then r = None \<and> H s1 = (H s)(k := (H s k)(f \<mapsto> FormatInt (counted (H s k f) + 1)))
      else r \<noteq> None \<and> H s1 = H s" by simp
  have "\<forall>f\<in>set fs. counter_text (H s1 k f)"
    using h Cons.prems counter_text_step by (auto split: if_splits)
  note IH = Cons.IH [OF this]
  define row where "row = (if counted (H s k f) + 1 < 2 ^ 63 then (H s k)(f \<mapsto> FormatInt (counted (H s k f) + 1)) else H s k)"
  have "H s1 = (H s)(k := row)" using h by (auto simp: row_def split: if_splits)
  then have "H s1 k = row" and upd: "(H s1)(k := x) = (H s)(k := x)" for x by simp_all
  with IH have "(fst (Pipeline_Exec srv s1 (map (\<lambda>f. (k, f, 1)) fs)) = None \<longleftrightarrow> fst (count_fields fs row))"
    "H (snd (Pipeline_Exec srv s1 (map (\<lambda>f. (k, f, 1)) fs))) = (H s)(k := snd (count_fields fs row))"
    by (simp_all only: upd)
  moreover have "r = None \<longleftrightarrow> counted (H s k f) + 1 < 2 ^ 63" using h by (simp split: if_splits)
  moreover have "count_fields (f # fs) (H s k) = (counted (H s k f) + 1 < 2 ^ 63 \<and> fst (count_fields fs row), snd (count_fields fs row))"
    by (simp add: row_def Let_def split_beta)
  moreover have "Pipeline_Exec srv s (map (\<lambda>f. (k, f, 1)) (f # fs)) =
      (case r of None \<Rightarrow> fst (Pipeline_Exec srv s1 (map (\<lambda>f. (k, f, 1)) fs)) | Some e \<Rightarrow> Some e,
       snd (Pipeline_Exec srv s1 (map (\<lambda>f. (k, f, 1)) fs)))"
    by (simp add: pipeline_Cons s1 split_beta)
  ultimately show ?case by (cases r) simp_all
qed

lemma increase_counts:
  assumes "own_meta desc t" and "BuildKey blobStr desc rec = Ok k" and "IncreaseAble desc flds"
    and "\<forall>f\<in>set flds. counter_text (H (client t) k f)"
    and "SimpleIncrease srv blobStr desc rec flds t = (r, t')"
  shows "own_meta desc t' \<and> (r = Ok () \<longleftrightarrow> fst (count_fields flds (H (client t) k)))
    \<and> H (client t') = (H (client t))(k := snd (count_fields flds (H (client t) k)))"
proof -
  obtain t1 where t1: "key_of blobStr desc rec t = (Ok k, t1)" "own_meta desc t1" "client t1 = client t"
    using key_of_own [OF assms(1), of blobStr] assms(2) by metis
  obtain mm where mm: "GetDBProtoMeta desc (metaMap t) = (desc, mm)" "map_of mm (d_FullName desc) = Some desc"
    using assms(1) by (auto simp: own_meta_def GetDBProtoMeta_def split: option.splits)
  have one: "fst (HIncrBy srv (client t) k f 1) = fst (Pipeline_Exec srv (client t) [(k, f, 1)])"
    "snd (HIncrBy srv (client t) k f 1) = snd (Pipeline_Exec srv (client t) [(k, f, 1)])" for f
    by (simp_all add: pipeline_Cons pipeline_Nil split_beta split: option.split)
  have "length flds = Suc 0 \<Longrightarrow>
      HIncrBy srv (client t) k (hd flds) 1 = Pipeline_Exec srv (client t) (map (\<lambda>f. (k, f, 1)) flds)"
    by (auto simp: length_Suc_conv prod_eq_iff one)
  moreover have "key_of blobStr desc rec (t\<lparr>metaMap := mm\<rparr>) = (Ok k, t\<lparr>metaMap := mm\<rparr>)"
    using mm(2) assms(2) by (simp add: key_of_def GetDBProtoMeta_def)
  ultimately have "SimpleIncrease srv blobStr desc rec flds t =
    (case fst (Pipeline_Exec srv (client t) (map (\<lambda>f. (k, f, 1)) flds)) of None \<Rightarrow> Ok () | Some e \<Rightarrow> Fail (RedisErr e),
     t\<lparr>metaMap := mm, client := snd (Pipeline_Exec srv (client t) (map (\<lambda>f. (k, f, 1)) flds))\<rparr>)"
    using assms(3) by (simp add: SimpleIncrease_def mm(1) split_beta)
  with assms(5) pipeline_counts [OF assms(4)] mm(2) show ?thesis
    by (auto simp: own_meta_def split: option.splits)
qed

end

section \<open>A server\<close>

text \<open>The server of \<open>Redis\<close>, counting.\<close>

definition count_field ::
  "(string \<Rightarrow> (string \<times> string) list) \<Rightarrow> string \<Rightarrow> string \<Rightarrow> int \<Rightarrow> string option \<times> (string \<Rightarrow> (string \<times> string) list)" where
  "count_field s k f n =
     (let i = counted (map_of (s k) f) + n
      in if i < 2 ^ 63 then (None, s(k := (f, FormatInt i) # s k)) else (Some ''overflow'', s))"

fun count_all ::
  "(string \<Rightarrow> (string \<times> string) list) \<Rightarrow> (string \<times> string \<times> int) list
    \<Rightarrow> string option \<times> (string \<Rightarrow> (string \<times> string) list)" where
  "count_all s [] = (None, s)"
| "count_all s ((k, f, n) # cmds) =
     (case count_field s k f n of (r, s1) \<Rightarrow>
        case count_all s1 cmds of (r', s2) \<Rightarrow> (case r of None \<Rightarrow> r' | Some e \<Rightarrow> Some e, s2))"

definition counter_server :: "(string \<Rightarrow> (string \<times> string) list) redis" where
  "counter_server = log_server\<lparr>HIncrBy := count_field, Pipeline_Exec := count_all\<rparr>"

interpretation counters: counting_server counter_server "\<lambda>s k. map_of (s k)"
proof
  show "hash_server counter_server (\<lambda>s k. map_of (s k))"
    using log_server_ok by (simp add: hash_server_def counter_server_def)
  show "if counted (map_of (s k) f) + 1 < 2 ^ 63
      then r = None \<and> (\<lambda>k. map_of (s' k)) = (\<lambda>k. map_of (s k))(k := (map_of (s k))(f \<mapsto> FormatInt (counted (map_of (s k) f) + 1)))
      else r \<noteq> None \<and> (\<lambda>k. map_of (s' k)) = (\<lambda>k. map_of (s k))"
    if "HIncrBy counter_server s k f 1 = (r, s')" for s k f r s'
  proof -
    have "map_of (((s :: string \<Rightarrow> (string \<times> string) list)(k := (f, v) # s k)) k') = ((\<lambda>k. map_of (s k))(k := (map_of (s k))(f \<mapsto> v))) k'"
      for v k' by simp
    with that show ?thesis
      by (auto simp: counter_server_def count_field_def Let_def simp del: fun_upd_apply split: if_splits)
  qed
qed (simp_all add: counter_server_def)

section \<open>What an increase does\<close>

text \<open>
  On a counting server: \<open>SimpleIncrease\<close> of counters counts each of the fields that is not at the end of
  64 bits, succeeds if all were counted, and makes a record of the counted fields where there was
  none.
\<close>

theorem redis_increase_counts:
  assumes "counting_server srv H" and "own_meta desc t" and "BuildKey blobStr desc rec = Ok k" and "IncreaseAble desc flds"
    and "\<forall>f\<in>set flds. counter_text (H (client t) k f)"
    and "SimpleIncrease srv blobStr desc rec flds t = (r, t')"
  shows "(r = Ok () \<longleftrightarrow> fst (count_fields flds (H (client t) k)))
    \<and> H (client t') = (H (client t))(k := snd (count_fields flds (H (client t) k)))"
  using counting_server.increase_counts [OF assms] by simp

lemma increase_creates_record:
  assumes "counting_server srv H" and "own_meta desc t" and "BuildKey blobStr desc rec = Ok k" and "IncreaseAble desc [f]"
    and "H (client t) k = Map.empty" and "SimpleIncrease srv blobStr desc rec [f] t = (r, t')"
  shows "r = Ok () \<and> H (client t') k = [f \<mapsto> ''1'']"
  using redis_increase_counts [OF assms(1-4) _ assms(6)] assms(5)
  by (simp add: counted_def counter_text_def FormatInt_def Itoa.simps digit_char_def char_of_def bit_0)

text \<open>
  A field of 32 bits at its largest value: the increase succeeds, and from then on every \<open>SimpleGet\<close> of
  the record panics.
\<close>

theorem increase_past_32_bits:
  assumes "counting_server srv H" and "own_meta desc t" and "BuildKey blobStr desc rec = Ok k" and "IncreaseAble desc [f]"
    and "ByName desc f = Some fd" and "fd_Kind fd = Int32Kind" and "\<not> fd_Repeated fd" and "take 1 f \<noteq> ''_''"
    and "H (client t) k f = Some (FormatInt (2 ^ 31 - 1))"
    and "SimpleIncrease srv blobStr desc rec [f] t = (r, t')"
    and "BuildKey blobStr desc probe = Ok k"
  shows "r = Ok () \<and> fst (SimpleGet srv blobStr pf merge desc probe [] t') = Panic"
proof -
  have c: "counted (H (client t) k f) = 2 ^ 31 - 1"
    unfolding assms(9) by (rule counted_FormatInt) simp_all
  then have "\<forall>f\<in>set [f]. counter_text (H (client t) k f)" using assms(9) by (simp add: counter_text_def)
  from counting_server.increase_counts [OF assms(1-4) this assms(10)] c
  have r: "r = Ok ()" "own_meta desc t'" "H (client t') k f = Some (FormatInt (2 ^ 31))" by simp_all
  obtain t1 where t1: "key_of blobStr desc probe t' = (Ok k, t1)" "client t1 = client t'"
    using key_of_own [OF r(2), of blobStr] assms(11) by metis
  obtain m where m: "HGetAll srv (client t') k = Inr m" "map_of m = H (client t') k"
    using hash_HGetAll [OF counting_server.works [OF assms(1)]] by metis
  with r(3) have "(f, FormatInt (2 ^ 31)) \<in> set m" by (metis map_of_SomeD)
  moreover have "unmarshalScalarByStr pf (fd_Kind fd) (FormatInt (2 ^ 31)) = None"
    using ParseInt64_FormatInt [of "2 ^ 31"] assms(6) by (simp add: unmarshalScalarByStr_def ParseInt_def)
  moreover have "\<not> IsFdMarshalToBlob fd" using assms(6,7) by (simp add: IsFdMarshalToBlob_def BlobKind_def)
  ultimately have "m \<noteq> []" "UnmarshalFromMap pf merge desc probe m = Panic"
    using conjunct1 [OF unmarshal_panics_iff, of pf merge desc probe m] assms(5,8) by auto
  with t1 m(1) r(1) show ?thesis by (simp add: SimpleGet_def unmarshal_into_def)
qed

theorem increase_past_32_bits_witness:
  "\<exists>r t'. SimpleIncrease counter_server (\<lambda>_. []) hero_desc hero [''level'']
      \<lparr>metaMap = [], client = \<lambda>k. [(''level'', FormatInt (2 ^ 31 - 1))]\<rparr> = (r, t')
    \<and> r = Ok () \<and> fst (SimpleGet counter_server (\<lambda>_. []) Some (\<lambda>old sets b. (old, True)) hero_desc hero [] t') = Panic"
proof -
  obtain r t' where i: "SimpleIncrease counter_server (\<lambda>_. []) hero_desc hero [''level'']
      \<lparr>metaMap = [], client = \<lambda>k. [(''level'', FormatInt (2 ^ 31 - 1))]\<rparr> = (r, t')" by fastforce
  have pk: "FindPrimaryKey hero_desc = [''id'']" by (simp add: FindPrimaryKey_def hero_desc_def)
  have k: "BuildKey (\<lambda>_. []) hero_desc hero = Ok ''Hero:{bo}''"
    unfolding BuildKey_def keyStrings_def pk by (simp add: FindFds_def Get_String_def Value_String_def hero_eval)
  have "IncreaseAble hero_desc [''level'']"
    unfolding IncreaseAble_def BuildIncreaseableFieldsMap_def BuildKeyFieldsMap_def pk
    by (simp add: IncreaseAbleKind_def hero_eval)
  moreover have "ByName hero_desc ''level'' = Some \<lparr>fd_Name = ''level'', fd_Number = 2, fd_Kind = Int32Kind, fd_Repeated = False\<rparr>"
    by (simp add: hero_eval)
  ultimately show ?thesis
    using increase_past_32_bits [OF counters.counting_server_axioms _ k _ _ _ _ _ _ i k, of _ Some "\<lambda>old sets b. (old, True)"] i
    by (simp add: own_meta_def)
qed

end
