(* ===== verification/Redis_Read.thy ===== *)
theory Redis_Read
  imports Redis_Count
begin

text \<open>
  Reading with the Redis plugin, \<open>SimpleGet\<close> of \<^verbatim>\<open>src/plugin/db/redis/simple.go\<close>, after any sequence of the
  other operations: a hash has the columns that were written and no others, so that a whole record
  comes back with the fields it has, while a list of fields can only be read if every one of them
  was written.
\<close>

section \<open>What a hash means\<close>

text \<open>
  A column of a known scalar field sets the field, a column of another known field is merged; names
  with an underscore and unknown names are skipped.
\<close>

definition col_value :: "(string \<Rightarrow> string option) \<Rightarrow> msg_desc \<Rightarrow> string \<Rightarrow> string \<Rightarrow> pvalue option" where
  "col_value pf desc n s =
     (if take 1 n = ''_'' then None
      else case ByName desc n of
             None \<Rightarrow> None
           | Some fd \<Rightarrow> if IsFdMarshalToBlob fd then None else unmarshalScalarByStr pf (fd_Kind fd) s)"

definition col_blob :: "msg_desc \<Rightarrow> string \<Rightarrow> bool" where
  "col_blob desc n = (take 1 n \<noteq> ''_'' \<and> (case ByName desc n of None \<Rightarrow> False | Some fd \<Rightarrow> IsFdMarshalToBlob fd))"

definition hash_sets :: "(string \<Rightarrow> string option) \<Rightarrow> msg_desc \<Rightarrow> (string \<rightharpoonup> string) \<Rightarrow> string \<Rightarrow> pvalue option" where
  "hash_sets pf desc row n = Option.bind (row n) (col_value pf desc n)"

definition parses :: "(string \<Rightarrow> string option) \<Rightarrow> msg_desc \<Rightarrow> (string \<rightharpoonup> string) \<Rightarrow> bool" where
  "parses pf desc row = list_all (\<lambda>fd. case row (fd_Name fd) of
     None \<Rightarrow> True | Some s \<Rightarrow> column_ok pf desc (fd_Name fd, s)) (d_Fields desc)"

text \<open>
  What reading the fields \<open>flds\<close> of a row, or all of it, may answer; in which order the columns come
  back, and with them the bytes that are merged, is left open.
\<close>

definition hash_answer ::
  "(string \<Rightarrow> string option) \<Rightarrow> merger \<Rightarrow> msg_desc \<Rightarrow> message \<Rightarrow> (string \<rightharpoonup> string)
    \<Rightarrow> (redis_err, message \<times> redis_err option) res \<Rightarrow> bool" where
  "hash_answer pf merge desc probe row ans =
     (if \<not> parses pf desc row then ans = Panic
      else \<exists>sets blobs. map_of sets = hash_sets pf desc row
        \<and> distinct blobs \<and> set blobs = {n \<in> dom row. col_blob desc n}
        \<and> ans = (case merge probe sets (concat (map (row_bytes row) blobs)) of
                   (m, ok) \<Rightarrow> Ok (m, if ok then None else Some (PbErr UnmarshalErr))))"

definition hash_reads ::
  "(string \<Rightarrow> string option) \<Rightarrow> merger \<Rightarrow> msg_desc \<Rightarrow> message \<Rightarrow> string list \<Rightarrow> (string \<rightharpoonup> string)
    \<Rightarrow> (redis_err, message \<times> redis_err option) res \<Rightarrow> bool" where
  "hash_reads pf merge desc probe flds row ans =
     (if flds = []
      then if row = Map.empty then ans = Ok (probe, Some RecordNotExist)
           else hash_answer pf merge desc probe row ans
      else case List.find (\<lambda>f. row f = None) flds of
             Some f \<Rightarrow> ans = Ok (probe, Some (ResultType f))
           | None \<Rightarrow> hash_answer pf merge desc probe (row |` set flds) ans)"

lemma unmarshal_loop_exact:
  assumes "list_all (column_ok pf desc) m" and "distinct (map fst m)" and "fst ` set m \<inter> fst ` set sets = {}"
  shows "\<exists>sets'. unmarshal_loop pf desc m sets buf
      = Ok (sets', buf @ concat (map snd (filter (\<lambda>(k, s). col_blob desc k) m)))
    \<and> map_of sets' = map_of sets ++ (\<lambda>k. Option.bind (map_of m k) (col_value pf desc k))"
  using assms
proof (induction m arbitrary: sets buf)
  case (Cons ks m)
  obtain k s where ks: "ks = (k, s)" by (cases ks)
  from Cons.prems ks have prems: "list_all (column_ok pf desc) m" "distinct (map fst m)" "column_ok pf desc (k, s)"
    "k \<notin> fst ` set m" "k \<notin> fst ` set sets" "fst ` set m \<inter> fst ` set sets = {}" by auto
  then have k: "map_of m k = None" "map_of sets k = None" by (simp_all add: map_of_eq_None_iff)
  show ?case
  proof (cases "col_value pf desc k s")
    case None
    with prems(3) have "unmarshal_loop pf desc (ks # m) sets buf
        = unmarshal_loop pf desc m sets (buf @ (if col_blob desc k then s else []))"
      by (auto simp: ks col_value_def col_blob_def column_ok_def split: option.splits if_splits)
    moreover have "(\<lambda>n. Option.bind (map_of (ks # m) n) (col_value pf desc n)) = (\<lambda>n. Option.bind (map_of m n) (col_value pf desc n))"
      using None k by (auto simp: ks fun_eq_iff)
    ultimately show ?thesis
      using Cons.IH [OF prems(1,2,6), of "buf @ (if col_blob desc k then s else [])"] by (auto simp: ks)
  next
    case (Some v)
    then have step: "unmarshal_loop pf desc (ks # m) sets buf = unmarshal_loop pf desc m (AList.update k v sets) buf"
      and "\<not> col_blob desc k"
      by (auto simp: ks col_value_def col_blob_def split: option.splits if_splits)
    then have blobs: "filter (\<lambda>(k, s). col_blob desc k) (ks # m) = filter (\<lambda>(k, s). col_blob desc k) m" by (simp add: ks)
    have vals: "map_of sets ++ (\<lambda>n. Option.bind (map_of (ks # m) n) (col_value pf desc n))
        = map_of (AList.update k v sets) ++ (\<lambda>n. Option.bind (map_of m n) (col_value pf desc n))"
      using Some k by (auto simp: ks fun_eq_iff map_add_def split: option.splits)
    have "fst ` set m \<inter> fst ` set (AList.update k v sets) = {}"
      using prems(4,6) by (simp add: dom_update)
    from Cons.IH [OF prems(1,2) this, of buf] show ?thesis unfolding step blobs vals .
  qed
qed simp

lemma parses_columns:
  assumes "distinct (map fst m)" and "map_of m = row"
  shows "parses pf desc row \<longleftrightarrow> list_all (column_ok pf desc) m"
proof
  assume p: "parses pf desc row"
  show "list_all (column_ok pf desc) m"
    unfolding list_all_iff
  proof clarify
    fix k s
    assume "(k, s) \<in> set m"
    with assms have row: "row k = Some s" by auto
    show "column_ok pf desc (k, s)"
    proof (cases "ByName desc k")
      case None
      then show ?thesis by (simp add: column_ok_def)
    next
      case (Some fd)
      from ByName_SomeD [OF this] p row show ?thesis by (auto simp: parses_def list_all_iff)
    qed
  qed
next
  assume "list_all (column_ok pf desc) m"
  with assms show "parses pf desc row"
    by (auto simp: parses_def list_all_iff dest!: map_of_SomeD split: option.splits)
qed

text \<open>The columns of a row, in any order, are read as the row.\<close>

lemma unmarshal_into_hash:
  assumes "distinct (map fst m)" and "map_of m = row"
  shows "hash_answer pf merge desc probe row (unmarshal_into pf merge desc probe m)"
proof (cases "parses pf desc row")
  case True
  then have "list_all (column_ok pf desc) m" by (simp add: parses_columns [OF assms])
  from unmarshal_loop_exact [OF this assms(1), of "[]" "[]"] obtain sets where
    sets: "unmarshal_loop pf desc m [] [] = Ok (sets, concat (map snd (filter (\<lambda>(k, s). col_blob desc k) m)))"
      "map_of sets = hash_sets pf desc row"
    by (auto simp: assms(2) hash_sets_def [abs_def])
  let ?blobs = "map fst (filter (\<lambda>(k, s). col_blob desc k) m)"
  have bytes: "map snd (filter (\<lambda>(k, s). col_blob desc k) m) = map (row_bytes row) ?blobs"
    using assms by (auto simp: row_bytes_def)
  have "unmarshal_into pf merge desc probe m = (case merge probe sets (concat (map (row_bytes row) ?blobs)) of
      (m, ok) \<Rightarrow> Ok (m, if ok then None else Some (PbErr UnmarshalErr)))"
    unfolding unmarshal_into_def UnmarshalFromMap_def sets(1) bytes by (simp split: prod.split)
  moreover have "set ?blobs = {n \<in> dom row. col_blob desc n}"
    using assms(2) by (force simp: dom_map_of_conv_image_fst)
  moreover have "distinct ?blobs" using assms(1) by (simp add: distinct_map_filter)
  ultimately show ?thesis
    unfolding hash_answer_def using True sets(2) by (simp only: not_True_eq_False if_False) blast
next
  case False
  then have "unmarshal_loop pf desc m [] [] = Panic"
    by (simp add: parses_columns [OF assms] unmarshal_loop_outcome(1))
  with False show ?thesis by (simp add: hash_answer_def unmarshal_into_def UnmarshalFromMap_def)
qed

section \<open>Reading\<close>

text \<open>A working server that also counts and returns listed fields, a missing one as nil.\<close>

locale reading_server = counting_server srv H
  for srv :: "'s redis" and H :: "'s \<Rightarrow> string \<Rightarrow> string \<rightharpoonup> string" +
  assumes hmget: "HMGet srv s k fs = Inr (map (H s k) fs)"

lemma field_map_row:
  "distinct (map fst m) \<Longrightarrow>
    (case List.find (\<lambda>f. row f = None) fs of
       Some f \<Rightarrow> field_map fs (map row fs) m = Fail (ResultType f)
     | None \<Rightarrow> \<exists>m'. field_map fs (map row fs) m = Ok m' \<and> distinct (map fst m') \<and> map_of m' = map_of m ++ row |` set fs)"
proof (induction fs arbitrary: m)
  case (Cons f fs)
  show ?case
  proof (cases "row f")
    case (Some s)
    have "map_of (AList.update f s m) ++ row |` set fs = map_of m ++ row |` set (f # fs)"
      using Some by (auto simp: fun_eq_iff map_add_def restrict_map_def split: option.splits)
    moreover have "distinct (map fst (AList.update f s m))" using Cons.prems by (rule distinct_update)
    ultimately show ?thesis using Cons.IH [of "AList.update f s m"] Some by (simp split: option.splits)
  qed simp
qed simp

context reading_server
begin

lemma get_reads:
  assumes "own_meta desc t" and "BuildKey blobStr desc probe = Ok k"
  shows "hash_reads pf merge desc probe flds (H (client t) k) (fst (SimpleGet srv blobStr pf merge desc probe flds t))
    \<and> client (snd (SimpleGet srv blobStr pf merge desc probe flds t)) = client t"
proof -
  obtain t1 where t1: "key_of blobStr desc probe t = (Ok k, t1)" "client t1 = client t"
    using key_of_own [OF assms(1), of blobStr] assms(2) by metis
  show ?thesis
  proof (cases "flds = []")
    case True
    obtain m where m: "HGetAll srv (client t) k = Inr m" "distinct (map fst m)" "map_of m = H (client t) k"
      using hash_HGetAll [OF works] by metis
    then have "m = [] \<longleftrightarrow> H (client t) k = Map.empty" by (metis map_of_eq_empty_iff)
    with True t1 m(1) unmarshal_into_hash [OF m(2,3)] show ?thesis
      by (simp add: SimpleGet_def hash_reads_def)
  next
    case False
    have "field_map flds (map (H (client t) k) flds) [] = Fail (ResultType f)"
      if "List.find (\<lambda>f. H (client t) k f = None) flds = Some f" for f
      using that field_map_row [where m = "[]" and row = "H (client t) k" and fs = flds] by simp
    moreover have "\<exists>m. field_map flds (map (H (client t) k) flds) [] = Ok m \<and> distinct (map fst m)
        \<and> map_of m = H (client t) k |` set flds"
      if "List.find (\<lambda>f. H (client t) k f = None) flds = None"
      using that field_map_row [where m = "[]" and row = "H (client t) k" and fs = flds] by simp
    ultimately show ?thesis
      using False t1 unmarshal_into_hash [of _ "H (client t) k |` set flds"]
      by (cases "List.find (\<lambda>f. H (client t) k f = None) flds") (auto simp: SimpleGet_def hash_reads_def hmget)
  qed
qed

end

section \<open>Writes and increases\<close>

fun redis_act ::
  "'s redis \<Rightarrow> (field \<Rightarrow> string) \<Rightarrow> (string \<Rightarrow> string option) \<Rightarrow> merger \<Rightarrow> msg_desc
    \<Rightarrow> message row_action \<Rightarrow> 's redis_db \<Rightarrow> bool \<times> 's redis_db" where
  "redis_act srv blobStr pf merge desc (Write a) t = redis_step srv blobStr pf merge desc a t"
| "redis_act srv blobStr pf merge desc (Increase rec flds) t =
     (case SimpleIncrease srv blobStr desc rec flds t of (r, t) \<Rightarrow> (r = Ok (), t))"

fun hash_act ::
  "('r \<Rightarrow> string) \<Rightarrow> ('r \<Rightarrow> string list \<Rightarrow> string \<rightharpoonup> string) \<Rightarrow> msg_desc \<Rightarrow> 'r row_action \<Rightarrow> table \<Rightarrow> bool \<times> table" where
  "hash_act key cols desc (Write a) T = table_op key cols a T"
| "hash_act key cols desc (Increase r flds) T =
     (if \<not> IncreaseAble desc flds then (False, T)
      else case count_fields flds (T (key r)) of (ok, row) \<Rightarrow> (ok, T(key r := row)))"

fun hash_action_ok ::
  "(field \<Rightarrow> string) \<Rightarrow> (string \<Rightarrow> string option) \<Rightarrow> msg_desc \<Rightarrow> message row_action \<Rightarrow> bool" where
  "hash_action_ok blobStr pf desc (Write a) = storable blobStr pf desc (op_record a)"
| "hash_action_ok blobStr pf desc (Increase rec flds) = (BuildKey blobStr desc rec = Ok (redis_key blobStr desc rec))"

text \<open>The columns of the counters hold numbers as the server and the plugin print them.\<close>

definition counters_ok :: "msg_desc \<Rightarrow> (string \<rightharpoonup> string) \<Rightarrow> bool" where
  "counters_ok desc row = list_all (\<lambda>fd. fd_Name fd \<in> BuildIncreaseableFieldsMap desc \<longrightarrow> counter_text (row (fd_Name fd))) (d_Fields desc)"

lemma counters_ok_iff: "counters_ok desc row \<longleftrightarrow> (\<forall>f\<in>BuildIncreaseableFieldsMap desc. counter_text (row f))"
  by (auto simp: counters_ok_def list_all_iff BuildIncreaseableFieldsMap_def)

lemma counter_text_printed:
  "counter_text None" "counter_text (Some (FormatInt i))" "counter_text (Some (Itoa n))"
proof -
  show any: "counter_text (Some (FormatInt i))" for i
    by (auto simp: counter_text_def counted_def ParseInt_def dest: ParseInt64_FormatInt_range split: prod.splits)
  show "counter_text (Some (Itoa n))" using any [of "int n"] by (simp add: FormatInt_def)
qed (simp add: counter_text_def)

lemma record_counters:
  assumes "record_ok pf desc rec" and "distinct (map fd_Name (d_Fields desc))"
  shows "counters_ok desc (record_cols desc rec flds)"
  unfolding counters_ok_iff
proof
  fix f
  assume "f \<in> BuildIncreaseableFieldsMap desc"
  then obtain fd where fd: "fd \<in> set (d_Fields desc)" "fd_Name fd = f" "\<not> fd_Repeated fd" "fd_Kind fd \<in> IncreaseAbleKind"
    by (auto simp: BuildIncreaseableFieldsMap_def)
  then have n: "ByName desc f = Some fd" using ByName_distinct [OF assms(2)] by blast
  have scalar: "\<not> IsFdMarshalToBlob fd" using fd(3,4) by (auto simp: IsFdMarshalToBlob_def IncreaseAbleKind_def BlobKind_def)
  show "counter_text (record_cols desc rec flds f)"
  proof (cases "f \<in> wire_names desc (wire rec) \<inter> listed desc flds")
    case True
    with record_ok_wire_name [OF assms(1), of f] n scalar obtain v where v: "map_of (scalars rec) f = Some v" by auto
    from record_ok_scalar_name(2) [OF assms(1) v] n have "value_ok (fd_Kind fd) v" by (simp add: scalar_ok_def)
    with fd(4) have "(\<exists>i. v = VInt i) \<or> (\<exists>n. v = VUint n)" by (auto simp: IncreaseAbleKind_def)
    with True v show ?thesis
      by (auto simp: record_cols_value [OF assms(1)] marshalScalar_def counter_text_printed)
  qed (auto simp: record_cols_value [OF assms(1)] counter_text_printed)
qed

lemma counters_add:
  "counters_ok desc row \<Longrightarrow> counters_ok desc row' \<Longrightarrow> counters_ok desc (row ++ row')"
  "counters_ok desc Map.empty"
  by (auto simp: counters_ok_def list_all_iff map_add_def counter_text_printed split: option.splits)

lemma count_fields_counters: "counters_ok desc row \<Longrightarrow> counters_ok desc (snd (count_fields fs row))"
proof (induction fs arbitrary: row)
  case (Cons f fs)
  let ?row = "if counted (row f) + 1 < 2 ^ 63 then row(f \<mapsto> FormatInt (counted (row f) + 1)) else row"
  have "counters_ok desc ?row" using Cons.prems by (auto simp: counters_ok_def list_all_iff counter_text_printed)
  from Cons.IH [OF this] show ?case by (simp add: Let_def split_beta)
qed simp

lemma hash_act_counters:
  assumes "\<forall>k. counters_ok desc (T k)" and "hash_action_ok blobStr pf desc a" and "distinct (map fd_Name (d_Fields desc))"
  shows "\<forall>k. counters_ok desc (snd (hash_act key (record_cols desc) desc a T) k)"
proof (cases a)
  case (Write b)
  with assms(2) have "record_ok pf desc (op_record b)" by (simp add: storable_def)
  note cols = record_counters [OF this assms(3)]
  with assms(1) Write show ?thesis by (cases b) (auto simp: counters_add)
next
  case (Increase rec flds)
  with assms(1) count_fields_counters show ?thesis by (auto simp: split_beta)
qed

lemma IncreaseAble_counters: "IncreaseAble desc flds \<Longrightarrow> f \<in> set flds \<Longrightarrow> f \<in> BuildIncreaseableFieldsMap desc"
  using ByName_SomeD [of desc f] by (fastforce simp: IncreaseAble_def list_all_iff split: option.splits)

text \<open>A plugin for messages of one type in front of such a server.\<close>

locale redis_table = reading_server srv H
  for srv :: "'s redis" and H :: "'s \<Rightarrow> table" +
  fixes blobStr :: "field \<Rightarrow> string" and pf :: "string \<Rightarrow> string option" and merge :: merger and desc :: msg_desc
  assumes names: "distinct (map fd_Name (d_Fields desc))"

context redis_table
begin

lemma act_table:
  assumes "own_meta desc t" and "\<forall>k. counters_ok desc (H (client t) k)" and "hash_action_ok blobStr pf desc a"
  shows "own_meta desc (snd (redis_act srv blobStr pf merge desc a t))"
    and "hash_act (redis_key blobStr desc) (record_cols desc) desc a (H (client t))
      = (fst (redis_act srv blobStr pf merge desc a t), H (client (snd (redis_act srv blobStr pf merge desc a t))))"
proof -
  have "own_meta desc (snd (redis_act srv blobStr pf merge desc a t))
    \<and> hash_act (redis_key blobStr desc) (record_cols desc) desc a (H (client t))
      = (fst (redis_act srv blobStr pf merge desc a t), H (client (snd (redis_act srv blobStr pf merge desc a t))))"
  proof (cases a)
    case (Write b)
    with assms(3) redis_step_table [OF works assms(1), of blobStr pf b merge] show ?thesis by simp
  next
    case (Increase rec flds)
    obtain r t' where i: "SimpleIncrease srv blobStr desc rec flds t = (r, t')" by fastforce
    show ?thesis
    proof (cases "IncreaseAble desc flds")
      case True
      with assms(2) have "\<forall>f\<in>set flds. counter_text (H (client t) (redis_key blobStr desc rec) f)"
        using IncreaseAble_counters by (auto simp: counters_ok_iff)
      from increase_counts [OF assms(1) _ True this i] assms(3) Increase i True show ?thesis
        by (simp add: split_beta)
    next
      case False
      obtain mm where "GetDBProtoMeta desc (metaMap t) = (desc, mm)" "map_of mm (d_FullName desc) = Some desc"
        using assms(1) by (auto simp: own_meta_def GetDBProtoMeta_def split: option.splits)
      with False Increase show ?thesis by (simp add: SimpleIncrease_def own_meta_def)
    qed
  qed
  then show "own_meta desc (snd (redis_act srv blobStr pf merge desc a t))"
    and "hash_act (redis_key blobStr desc) (record_cols desc) desc a (H (client t))
      = (fst (redis_act srv blobStr pf merge desc a t), H (client (snd (redis_act srv blobStr pf merge desc a t))))"
    by simp_all
qed

end

sublocale redis_table \<subseteq> acts: table_refinement "redis_act srv blobStr pf merge desc"
  "hash_act (redis_key blobStr desc) (record_cols desc) desc" "\<lambda>t. H (client t)"
  "hash_action_ok blobStr pf desc" "\<lambda>t. own_meta desc t \<and> (\<forall>k. counters_ok desc (H (client t) k))"
proof
  fix t :: "'s redis_db" and a
  assume t: "own_meta desc t \<and> (\<forall>k. counters_ok desc (H (client t) k))" and a: "hash_action_ok blobStr pf desc a"
  note act = act_table [OF conjunct1 [OF t] conjunct2 [OF t] a]
  show "hash_act (redis_key blobStr desc) (record_cols desc) desc a (H (client t))
      = (fst (redis_act srv blobStr pf merge desc a t), H (client (snd (redis_act srv blobStr pf merge desc a t))))"
    by (rule act(2))
  with hash_act_counters [OF conjunct2 [OF t] a names, of "redis_key blobStr desc"] act(1)
  show "own_meta desc (snd (redis_act srv blobStr pf merge desc a t))
    \<and> (\<forall>k. counters_ok desc (H (client (snd (redis_act srv blobStr pf merge desc a t))) k))" by simp
qed

context redis_table
begin

lemma reads_after_run:
  assumes "own_meta desc t" and "\<forall>k. counters_ok desc (H (client t) k)" and "\<forall>a\<in>set as. hash_action_ok blobStr pf desc a"
    and "BuildKey blobStr desc probe = Ok k"
    and "run_store (hash_act (redis_key blobStr desc) (record_cols desc) desc) as (H (client t)) = (oks, T)"
  shows "fst (run_store (redis_act srv blobStr pf merge desc) as t) = oks
    \<and> hash_reads pf merge desc probe flds (T k)
        (fst (SimpleGet srv blobStr pf merge desc probe flds (snd (run_store (redis_act srv blobStr pf merge desc) as t))))"
proof -
  let ?t = "snd (run_store (redis_act srv blobStr pf merge desc) as t)"
  have run: "fst (run_store (redis_act srv blobStr pf merge desc) as t) = oks" "H (client ?t) = T"
    using acts.run_table [OF conjI [OF assms(1,2)] assms(3)] assms(5) by simp_all
  have "own_meta desc ?t" using acts.run_inv [OF conjI [OF assms(1,2)] assms(3)] by simp
  from get_reads [OF this assms(4), of pf merge flds] run show ?thesis by simp
qed

end

text \<open>The counting server returns fields too.\<close>

interpretation counter_table: redis_table counter_server "\<lambda>s k. map_of (s k)" blobStr pf merge hero_desc
  for blobStr pf merge
  by unfold_locales (simp_all add: counter_server_def log_server_def hero_desc_def)

section \<open>Properties\<close>

text \<open>
  C26.  What the Redis plugin reads is what it wrote: after any sequence of inserts, updates of all or
  of listed fields, replaces, deletes and increases on a working server, of records that have some
  field and a key set and hold no enum, starting from rows whose counters are numbers, exactly those
  calls have succeeded that succeed on a table of columns, and \<open>SimpleGet\<close> answers from the row that
  the sequence leaves under the key.  For a whole record it reports a missing record exactly when
  there is no row, and otherwise sets exactly the scalar fields that the row has and merges the
  bytes of every other field of it once; for listed fields it reads these columns alone and fails at
  the first one that the row does not have.  It panics exactly when a column does not parse.
\<close>

theorem redis_reads_table:
  assumes "redis_table srv H desc" and "own_meta desc t" and "\<forall>k. counters_ok desc (H (client t) k)"
    and "\<forall>a\<in>set as. hash_action_ok blobStr pf desc a" and "BuildKey blobStr desc probe = Ok k"
    and "run_store (hash_act (redis_key blobStr desc) (record_cols desc) desc) as (H (client t)) = (oks, T)"
    and "run_store (redis_act srv blobStr pf merge desc) as t = (oks', t')"
  shows "oks' = oks \<and> hash_reads pf merge desc probe flds (T k) (fst (SimpleGet srv blobStr pf merge desc probe flds t'))"
  using redis_table.reads_after_run [OF assms(1-6), of merge flds] assms(7) by simp

text \<open>Without increases, every column parses, so that no read panics.\<close>

lemma record_parses:
  assumes "record_ok pf desc rec"
  shows "parses pf desc (record_cols desc rec flds)"
proof -
  have "column_ok pf desc (n, s)" if "record_cols desc rec flds n = Some s" for n s
    using that record_ok_wire_name [OF assms, of n] record_ok_scalar_reads [OF assms, of n]
    by (auto simp: record_cols_value [OF assms] column_ok_def split: if_splits option.splits)
  then show ?thesis by (auto simp: parses_def list_all_iff split: option.splits)
qed

lemma parses_add:
  "parses pf desc row \<Longrightarrow> parses pf desc row' \<Longrightarrow> parses pf desc (row ++ row')"
  "parses pf desc Map.empty" "parses pf desc row \<Longrightarrow> parses pf desc (row |` F)"
  by (auto simp: parses_def list_all_iff map_add_def restrict_map_def split: option.splits)

lemma writes_parse:
  assumes "\<forall>k. parses pf desc (T k)" and "\<forall>a\<in>set as. \<exists>b. a = Write b \<and> record_ok pf desc (op_record b)"
  shows "\<forall>k. parses pf desc (snd (run_store (hash_act key (record_cols desc) desc) as T) k)"
  using assms
proof (induction as arbitrary: T)
  case (Cons a as)
  then obtain b where b: "a = Write b" "record_ok pf desc (op_record b)" by auto
  from Cons.prems(1) record_parses [OF b(2)] have "\<forall>k. parses pf desc (snd (table_op key (record_cols desc) b T) k)"
    by (cases b) (auto simp: parses_add)
  from Cons.IH [OF this] Cons.prems(2) b(1) show ?case by (simp add: split_beta)
qed simp

lemma hash_answer_returns: "parses pf desc row \<Longrightarrow> hash_answer pf merge desc probe row ans \<Longrightarrow> ans \<noteq> Panic"
  by (auto simp: hash_answer_def split_beta)

lemma redis_writes_never_panic:
  assumes "redis_table srv H desc" and "own_meta desc t" and "\<forall>k. counters_ok desc (H (client t) k)"
    and "\<forall>a\<in>set as. \<exists>b. a = Write b \<and> storable blobStr pf desc (op_record b)" and "BuildKey blobStr desc probe = Ok k"
    and "\<forall>k. parses pf desc (H (client t) k)"
  shows "fst (SimpleGet srv blobStr pf merge desc probe flds (snd (run_store (redis_act srv blobStr pf merge desc) as t))) \<noteq> Panic"
proof -
  obtain oks T where T: "run_store (hash_act (redis_key blobStr desc) (record_cols desc) desc) as (H (client t)) = (oks, T)"
    by fastforce
  have "parses pf desc (T k)"
    using writes_parse [OF assms(6), of as "redis_key blobStr desc"] assms(4) T by (force simp: storable_def)
  moreover have "\<forall>a\<in>set as. hash_action_ok blobStr pf desc a" using assms(4) by force
  ultimately show ?thesis
    using redis_table.reads_after_run [OF assms(1-3) _ assms(5) T, of pf merge flds]
    by (auto simp: hash_reads_def parses_add dest!: hash_answer_returns [rotated] split: if_splits option.splits)
qed

lemma hero_hash:
  "BuildKey (\<lambda>_. []) hero_desc hero = Ok ''Hero:{bo}''" "redis_key (\<lambda>_. []) hero_desc hero = ''Hero:{bo}''"
  "storable (\<lambda>_. []) Some hero_desc hero" "IncreaseAble hero_desc [''level'']"
  "record_cols hero_desc hero [] = [''id'' \<mapsto> ''bo'', ''bag'' \<mapsto> ''b'']"
  "record_cols hero_desc hero [''bag''] = [''bag'' \<mapsto> ''b'']"
proof -
  have pk: "FindPrimaryKey hero_desc = [''id'']" by (simp add: FindPrimaryKey_def hero_desc_def)
  show k: "BuildKey (\<lambda>_. []) hero_desc hero = Ok ''Hero:{bo}''"
    unfolding BuildKey_def keyStrings_def pk by (simp add: FindFds_def Get_String_def Value_String_def hero_eval)
  then show "redis_key (\<lambda>_. []) hero_desc hero = ''Hero:{bo}''" by (simp add: redis_key_def)
  have "record_ok Some hero_desc hero" by (simp add: record_ok_def wire_ok_def scalar_ok_def hero_eval)
  with k show "storable (\<lambda>_. []) Some hero_desc hero" by (simp add: storable_def redis_key_def) (simp add: hero_def)
  show "IncreaseAble hero_desc [''level'']"
    unfolding IncreaseAble_def BuildIncreaseableFieldsMap_def BuildKeyFieldsMap_def pk
    by (simp add: IncreaseAbleKind_def hero_eval)
  show "record_cols hero_desc hero [] = [''id'' \<mapsto> ''bo'', ''bag'' \<mapsto> ''b'']"
    "record_cols hero_desc hero [''bag''] = [''bag'' \<mapsto> ''b'']"
    by (auto simp: record_cols_def MarshalToMap_def DirtyFilter_def hero_eval fun_eq_iff)
qed

lemma hero_level_read:
  assumes "hash_reads Some (\<lambda>old sets b. (\<lparr>scalars = sets, wire = [(0, b)]\<rparr>, True)) hero_desc hero [''level''] row ans"
    and "row ''level'' = Some ''1''"
  shows "\<exists>sets. map_of sets = [''level'' \<mapsto> VInt 1] \<and> ans = Ok (\<lparr>scalars = sets, wire = [(0, [])]\<rparr>, None)"
proof -
  have row: "row |` {''level''} = [''level'' \<mapsto> ''1'']" using assms(2) by (auto simp: restrict_map_def)
  have "unmarshalScalarByStr Some Int32Kind ''1'' = Some (VInt 1)"
    by (simp add: unmarshalScalarByStr_def ParseInt_def ParseInt64_def digit_value_def)
  then have level: "parses Some hero_desc [''level'' \<mapsto> ''1'']" "hash_sets Some hero_desc [''level'' \<mapsto> ''1''] = [''level'' \<mapsto> VInt 1]"
    by (auto simp: parses_def column_ok_def hash_sets_def col_value_def hero_eval fun_eq_iff)
  have "\<not> col_blob hero_desc ''level''" by (simp add: col_blob_def hero_eval)
  then have none: "{n \<in> dom [''level'' \<mapsto> ''1'']. col_blob hero_desc n} = {}" by auto
  from assms have "hash_answer Some (\<lambda>old sets b. (\<lparr>scalars = sets, wire = [(0, b)]\<rparr>, True)) hero_desc hero [''level'' \<mapsto> ''1''] ans"
    by (simp add: hash_reads_def row)
  then show ?thesis unfolding hash_answer_def none by (auto simp: level)
qed

text \<open>A level that was never set cannot be read alone; after an increase it can.\<close>

theorem redis_reads_table_witness:
  "let merge = (\<lambda>old sets b. (\<lparr>scalars = sets, wire = [(0, b)]\<rparr>, True));
       get = (\<lambda>as. fst (SimpleGet counter_server (\<lambda>_. []) Some merge hero_desc hero [''level'']
         (snd (run_store (redis_act counter_server (\<lambda>_. []) Some merge hero_desc) as \<lparr>metaMap = [], client = \<lambda>k. []\<rparr>))))
   in get [Write (InsertOp hero), Write (UpdateOp hero [''bag''])] = Ok (hero, Some (ResultType ''level''))
     \<and> (\<exists>sets. map_of sets = [''level'' \<mapsto> VInt 1]
         \<and> get [Write (InsertOp hero), Increase hero [''level'']] = Ok (\<lparr>scalars = sets, wire = [(0, [])]\<rparr>, None))"
proof -
  let ?merge = "\<lambda>old sets b. (\<lparr>scalars = sets, wire = [(0, b)]\<rparr>, True) :: message \<times> bool"
  let ?t = "\<lparr>metaMap = [], client = \<lambda>k. []\<rparr> :: (string \<Rightarrow> (string \<times> string) list) redis_db"
  let ?run = "\<lambda>as. run_store (redis_act counter_server (\<lambda>_. []) Some ?merge hero_desc) as ?t"
  let ?spec = "\<lambda>as. run_store (hash_act (redis_key (\<lambda>_. []) hero_desc) (record_cols hero_desc) hero_desc) as (\<lambda>k. Map.empty)"
  let ?get = "\<lambda>as. fst (SimpleGet counter_server (\<lambda>_. []) Some ?merge hero_desc hero [''level''] (snd (?run as)))"
  have t: "own_meta hero_desc ?t" "\<forall>k. counters_ok hero_desc (map_of (client ?t k))"
    by (simp_all add: own_meta_def counters_add(2))
  have reads: "hash_reads Some ?merge hero_desc hero [''level''] (snd (?spec as) ''Hero:{bo}'') (?get as)"
    if "\<forall>a\<in>set as. hash_action_ok (\<lambda>_. []) Some hero_desc a" for as
  proof -
    obtain oks T where "?spec as = (oks, T)" by fastforce
    moreover obtain oks' t' where "?run as = (oks', t')" by fastforce
    ultimately show ?thesis
      using redis_reads_table [OF counter_table.redis_table_axioms t(1) _ that hero_hash(1), of oks T ?merge oks' t' "[''level'']"] t(2)
      by simp
  qed
  have "?get [Write (InsertOp hero), Write (UpdateOp hero [''bag''])] = Ok (hero, Some (ResultType ''level''))"
    using reads [of "[Write (InsertOp hero), Write (UpdateOp hero [''bag''])]"]
    by (simp add: hero_hash hash_reads_def)
  moreover have "\<exists>sets. map_of sets = [''level'' \<mapsto> VInt 1]
      \<and> ?get [Write (InsertOp hero), Increase hero [''level'']] = Ok (\<lparr>scalars = sets, wire = [(0, [])]\<rparr>, None)"
  proof -
    have "snd (?spec [Write (InsertOp hero), Increase hero [''level'']]) ''Hero:{bo}'' ''level'' = Some ''1''"
      by (simp add: hero_hash counted_def FormatInt_def Itoa.simps digit_char_def char_of_def bit_0)
    moreover have "\<forall>a\<in>set [Write (InsertOp hero), Increase hero [''level'']]. hash_action_ok (\<lambda>_. []) Some hero_desc a"
      by (simp add: hero_hash)
    ultimately show ?thesis using hero_level_read [OF reads] by blast
  qed
  ultimately show ?thesis by (simp only: Let_def)
qed

end
