(* ===== verification/Factories.thy ===== *)
theory Factories
  imports App Tcp Kafka Pulsar Mysql Redis Log
begin

text \<open>
  The plugin factories that the server is linked with, as instances of the factory interface of
  \<open>Plugin\<close>: \<^verbatim>\<open>src/plugin/transport/tcp/plugin.go\<close>, \<^verbatim>\<open>mq/kafka/plugin.go\<close>, \<^verbatim>\<open>mq/pulsar/plugin.go\<close>,
  \<^verbatim>\<open>db/mysql/mysql.go\<close>, \<^verbatim>\<open>db/redis/redis.go\<close> and \<^verbatim>\<open>rpc/trpc\<close>, with their \<open>Reload\<close> methods, and what
  the application's start does with them.  The decoding of a configuration subtree by viper and
  mapstructure, and the drivers, are the arguments of \<open>drivers\<close>.  The file logger's factory is
  \<open>Log_Setup\<close> and \<open>Log_Destroy\<close>, on the file system of theory \<open>Log\<close>; among the server's factories it
  stands with the result of its \<open>Setup\<close> as an argument, since the world here has no files.  (A \<open>Setup\<close>
  of an asynchronous logger does not return, see \<open>Log\<close>; then the start does not return either.)
\<close>

section \<open>Instances and the world\<close>

text \<open>
  What the plugin table holds: pointers to the objects.  The transport and the trpc servers are
  global state, so they are in the world; the trpc library is outside, a server of it is a
  number, and what the code does with it is recorded.  A server adds the state of its modules.
\<close>

record TrpcServer =
  ts_s :: nat

datatype ('h, 'c, 'q, 'r) inst =
    TcpInst
  | KafkaInst "('h, 'c) KafkaClient"
  | PulsarInst PulsarClient
  | MysqlInst "'q mysql_db"
  | RedisInst "'r redis_db"
  | TrpcInst TrpcServer
  | LogInst

record 's world =
  transInst :: "'s TcpTransport option"
  ServerConfigPath :: string
  trpc_servers :: nat
  trpc_serving :: "nat list"
  trpc_closed :: "nat list"

record ('v, 'q, 'r) drivers =
  um_tcp :: "'v \<Rightarrow> TcpTransportCfg option"
  um_mq :: "'v \<Rightarrow> Message MQConfig option"
  um_mysql :: "'v \<Rightarrow> Mysql.dbCfg option"
  um_redis :: "'v \<Rightarrow> Redis.dbCfg option"
  um_trpc :: "'v \<Rightarrow> string option"
  log_setup :: "'v \<Rightarrow> (unit, unit) res"
  kafka_consumer_ok :: "ConfigMap \<Rightarrow> bool"
  kafka_producer_ok :: "ConfigMap \<Rightarrow> bool"
  pulsar_create_log :: "string \<Rightarrow> bool"
  pulsar_connect :: "string \<Rightarrow> bool"
  sql_open :: "string \<Rightarrow> string + (int \<Rightarrow> int \<Rightarrow> 'q)"
  sql_ping :: "'q \<Rightarrow> bool"
  redis_new :: "redis_options \<Rightarrow> 'r option"
  reader_memory :: "nat \<Rightarrow> ReaderConfig"
  writer_memory :: "nat \<Rightarrow> Message WriterConfig"

type_synonym ('v, 'h, 'c, 'q, 'r, 's, 'z) server_factory =
  "('v, ('h, 'c, 'q, 'r) inst, ('s, 'z) world_scheme) PluginFactory"

section \<open>Setup, Destroy and Mainloop\<close>

definition tcp_Setup ::
  "('v, 'q, 'r) drivers \<Rightarrow> 'v \<Rightarrow> ('s, 'z) world_scheme \<Rightarrow> (unit, ('h, 'c, 'q, 'r) inst) res \<times> ('s, 'z) world_scheme" where
  "tcp_Setup d v w =
     (case um_tcp d v of
        None \<Rightarrow> (Fail (), w)
      | Some newcfg \<Rightarrow> (Ok TcpInst, w\<lparr>transInst := Some (NewTcpTransport newcfg)\<rparr>))"

definition transport_factory :: "('v, 'q, 'r) drivers \<Rightarrow> ('v, 'h, 'c, 'q, 'r, 's, 'z) server_factory" where
  "transport_factory d = \<lparr>f_Type = ''transport'', f_Name = ''tcp'', f_Setup = tcp_Setup d,
     f_Destroy = (\<lambda>i w. w), f_Mainloop = (\<lambda>i w. w)\<rparr>"

definition kafka_Setup ::
  "('v, 'q, 'r) drivers \<Rightarrow> 'v \<Rightarrow> ('s, 'z) world_scheme \<Rightarrow> (unit, ('h, 'c, 'q, 'r) inst) res \<times> ('s, 'z) world_scheme" where
  "kafka_Setup d v w =
     (case um_mq d v of
        None \<Rightarrow> (Fail (), w)
      | Some newcfg \<Rightarrow>
          (case Kafka.NewClient (kafka_consumer_ok d) (kafka_producer_ok d) (reader_memory d)
                  (writer_memory d) newcfg of
             None \<Rightarrow> (Fail (), w)
           | Some cli \<Rightarrow> (Ok (KafkaInst cli), w)))"

definition kafka_factory :: "('v, 'q, 'r) drivers \<Rightarrow> ('v, 'h, 'c, 'q, 'r, 's, 'z) server_factory" where
  "kafka_factory d = \<lparr>f_Type = ''mq'', f_Name = ''kafka'', f_Setup = kafka_Setup d,
     f_Destroy = (\<lambda>i w. w), f_Mainloop = (\<lambda>i w. w)\<rparr>"

definition pulsar_Setup ::
  "('v, 'q, 'r) drivers \<Rightarrow> 'v \<Rightarrow> ('s, 'z) world_scheme \<Rightarrow> (unit, ('h, 'c, 'q, 'r) inst) res \<times> ('s, 'z) world_scheme" where
  "pulsar_Setup d v w =
     (case um_mq d v of
        None \<Rightarrow> (Fail (), w)
      | Some newcfg \<Rightarrow>
          (case Pulsar.NewClient (pulsar_create_log d) (pulsar_connect d) (reader_memory d)
                  (writer_memory d) newcfg of
             None \<Rightarrow> (Fail (), w)
           | Some cli \<Rightarrow> (Ok (PulsarInst cli), w)))"

definition pulsar_factory :: "('v, 'q, 'r) drivers \<Rightarrow> ('v, 'h, 'c, 'q, 'r, 's, 'z) server_factory" where
  "pulsar_factory d = \<lparr>f_Type = ''mq'', f_Name = ''pulsar'', f_Setup = pulsar_Setup d,
     f_Destroy = (\<lambda>i w. w), f_Mainloop = (\<lambda>i w. w)\<rparr>"

text \<open>The statement caches of the database plugins are empty at the start.\<close>

definition mysql_Setup ::
  "('v, 'q, 'r) drivers \<Rightarrow> 'v \<Rightarrow> ('s, 'z) world_scheme \<Rightarrow> (unit, ('h, 'c, 'q, 'r) inst) res \<times> ('s, 'z) world_scheme" where
  "mysql_Setup d v w =
     (case Mysql.Setup (sql_open d) (sql_ping d) (um_mysql d v) [] of
        Ok ins \<Rightarrow> (Ok (MysqlInst ins), w)
      | Fail _ \<Rightarrow> (Fail (), w)
      | Panic \<Rightarrow> (Panic, w))"

definition mysql_factory :: "('v, 'q, 'r) drivers \<Rightarrow> ('v, 'h, 'c, 'q, 'r, 's, 'z) server_factory" where
  "mysql_factory d = \<lparr>f_Type = ''db'', f_Name = ''mysql'', f_Setup = mysql_Setup d,
     f_Destroy = (\<lambda>i w. w), f_Mainloop = (\<lambda>i w. w)\<rparr>"

definition redis_Setup ::
  "('v, 'q, 'r) drivers \<Rightarrow> 'v \<Rightarrow> ('s, 'z) world_scheme \<Rightarrow> (unit, ('h, 'c, 'q, 'r) inst) res \<times> ('s, 'z) world_scheme" where
  "redis_Setup d v w =
     (case Redis.Setup (redis_new d) (um_redis d v) [] of
        Ok ins \<Rightarrow> (Ok (RedisInst ins), w)
      | Fail _ \<Rightarrow> (Fail (), w)
      | Panic \<Rightarrow> (Panic, w))"

definition redis_factory :: "('v, 'q, 'r) drivers \<Rightarrow> ('v, 'h, 'c, 'q, 'r, 's, 'z) server_factory" where
  "redis_factory d = \<lparr>f_Type = ''db'', f_Name = ''redis'', f_Setup = redis_Setup d,
     f_Destroy = (\<lambda>i w. w), f_Mainloop = (\<lambda>i w. w)\<rparr>"

text \<open>\<open>NewTrpcServer\<close>: the path goes to a global variable of the library, then \<open>trpc.NewServer\<close>.\<close>

definition NewTrpcServer :: "string \<Rightarrow> ('s, 'z) world_scheme \<Rightarrow> TrpcServer \<times> ('s, 'z) world_scheme" where
  "NewTrpcServer path w =
     (\<lparr>ts_s = trpc_servers w\<rparr>, w\<lparr>ServerConfigPath := path, trpc_servers := trpc_servers w + 1\<rparr>)"

definition TrpcServer_Init :: "TrpcServer \<Rightarrow> ('s, 'z) world_scheme \<Rightarrow> (unit, unit) res \<times> ('s, 'z) world_scheme" where
  "TrpcServer_Init ts w = (Ok (), w)"

definition GetServer :: "TrpcServer \<Rightarrow> nat" where
  "GetServer ts = ts_s ts"

text \<open>\<open>Serve\<close> and \<open>Close\<close> of the library are recorded; \<open>Mainloop\<close> serves in the caller, \<open>factory.Mainloop\<close> in a goroutine.\<close>

definition Serve :: "nat \<Rightarrow> ('s, 'z) world_scheme \<Rightarrow> ('s, 'z) world_scheme" where
  "Serve s w = w\<lparr>trpc_serving := trpc_serving w @ [s]\<rparr>"

definition TrpcServer_Mainloop :: "TrpcServer \<Rightarrow> ('s, 'z) world_scheme \<Rightarrow> ('s, 'z) world_scheme" where
  "TrpcServer_Mainloop ts w = Serve (ts_s ts) w"

definition TrpcServer_UnInit :: "TrpcServer \<Rightarrow> ('s, 'z) world_scheme \<Rightarrow> (unit, unit) res \<times> ('s, 'z) world_scheme" where
  "TrpcServer_UnInit ts w = (Ok (), w\<lparr>trpc_closed := trpc_closed w @ [ts_s ts]\<rparr>)"

definition trpc_Setup ::
  "('v, 'q, 'r) drivers \<Rightarrow> 'v \<Rightarrow> ('s, 'z) world_scheme \<Rightarrow> (unit, ('h, 'c, 'q, 'r) inst) res \<times> ('s, 'z) world_scheme" where
  "trpc_Setup d v w =
     (case um_trpc d v of
        None \<Rightarrow> (Fail (), w)
      | Some path \<Rightarrow>
          (case NewTrpcServer path w of (ts, w) \<Rightarrow>
             (case TrpcServer_Init ts w of
                (Ok _, w) \<Rightarrow> (Ok (TrpcInst ts), w)
              | (Fail e, w) \<Rightarrow> (Fail e, w)
              | (Panic, w) \<Rightarrow> (Panic, w))))"

text \<open>An instance of another plugin is an error, which the plugin manager drops.\<close>

definition trpc_Destroy ::
  "('h, 'c, 'q, 'r) inst \<Rightarrow> ('s, 'z) world_scheme \<Rightarrow> (unit, unit) res \<times> ('s, 'z) world_scheme" where
  "trpc_Destroy i w = (case i of TrpcInst ts \<Rightarrow> TrpcServer_UnInit ts w | _ \<Rightarrow> (Fail (), w))"

definition trpc_Mainloop :: "('h, 'c, 'q, 'r) inst \<Rightarrow> ('s, 'z) world_scheme \<Rightarrow> ('s, 'z) world_scheme" where
  "trpc_Mainloop i w = (case i of TrpcInst ts \<Rightarrow> Serve (GetServer ts) w | _ \<Rightarrow> w)"

definition trpc_factory :: "('v, 'q, 'r) drivers \<Rightarrow> ('v, 'h, 'c, 'q, 'r, 's, 'z) server_factory" where
  "trpc_factory d = \<lparr>f_Type = ''rpc'', f_Name = ''trpc'', f_Setup = trpc_Setup d,
     f_Destroy = (\<lambda>i w. snd (trpc_Destroy i w)), f_Mainloop = trpc_Mainloop\<rparr>"

section \<open>Reload\<close>

text \<open>
  The \<open>Reload\<close> methods on a configuration that \<open>mapstructure.Decode\<close> has decoded, or not.  The kafka and
  pulsar methods assert that the instance is a struct; the table holds pointers, so that the
  assertion panics whatever the instance is.
\<close>

definition tcp_Reload ::
  "('h, 'c, 'q, 'r) inst \<Rightarrow> TcpTransportCfg option \<Rightarrow> ('s, 'z) world_scheme \<Rightarrow> (unit, unit) res \<times> ('s, 'z) world_scheme" where
  "tcp_Reload i conf w =
     (case conf of
        None \<Rightarrow> (Fail (), w)
      | Some newcfg \<Rightarrow>
          (case i of
             TcpInst \<Rightarrow> (Ok (), w\<lparr>transInst := map_option (SetConfig newcfg) (transInst w)\<rparr>)
           | _ \<Rightarrow> (Panic, w)))"

definition kafka_Reload ::
  "('h, 'c, 'q, 'r) inst \<Rightarrow> Message MQConfig option \<Rightarrow> ('s, 'z) world_scheme \<Rightarrow> (unit, unit) res \<times> ('s, 'z) world_scheme" where
  "kafka_Reload i conf w = (case conf of None \<Rightarrow> (Fail (), w) | Some newcfg \<Rightarrow> (Panic, w))"

definition pulsar_Reload ::
  "('h, 'c, 'q, 'r) inst \<Rightarrow> Message MQConfig option \<Rightarrow> ('s, 'z) world_scheme \<Rightarrow> (unit, unit) res \<times> ('s, 'z) world_scheme" where
  "pulsar_Reload i conf w = (case conf of None \<Rightarrow> (Fail (), w) | Some newcfg \<Rightarrow> (Panic, w))"

text \<open>The database and trpc plugins reload nothing.\<close>

definition trpc_Reload ::
  "('h, 'c, 'q, 'r) inst \<Rightarrow> 'v \<Rightarrow> ('s, 'z) world_scheme \<Rightarrow> (unit, unit) res \<times> ('s, 'z) world_scheme" where
  "trpc_Reload i conf w = (Ok (), w)"

definition mysql_Reload ::
  "('h, 'c, 'q, 'r) inst \<Rightarrow> 'v \<Rightarrow> ('s, 'z) world_scheme \<Rightarrow> (unit, unit) res \<times> ('s, 'z) world_scheme" where
  "mysql_Reload i conf w = (Ok (), w)"

definition redis_Reload ::
  "('h, 'c, 'q, 'r) inst \<Rightarrow> 'v \<Rightarrow> ('s, 'z) world_scheme \<Rightarrow> (unit, unit) res \<times> ('s, 'z) world_scheme" where
  "redis_Reload i conf w = (Ok (), w)"

section \<open>The file logger as a plugin\<close>

text \<open>\<open>SetLogger\<close> makes the new logger the global one, here by its level.\<close>

definition Log_Setup ::
  "(int \<Rightarrow> nat \<times> nat \<times> nat) \<Rightarrow> (int \<times> select_event) list \<Rightarrow> LogCfg option \<Rightarrow> log_front \<Rightarrow> filesys
    \<Rightarrow> ((log_err option, BingoLogger) res \<times> log_front \<times> filesys) option" where
  "Log_Setup date es unmarshalled front fs =
     (case unmarshalled of
        None \<Rightarrow> Some (Fail None, front, fs)
      | Some logcfg \<Rightarrow>
          (case BingoLogger_Init date es logcfg newLogger fs of
             None \<Rightarrow> None
           | Some (Some err, l, fs) \<Rightarrow> Some (Fail (Some err), front, fs)
           | Some (None, l, fs) \<Rightarrow> Some (Ok l, SetLogger (Some (GetLevel l)) front, fs)))"

definition Log_Destroy :: "BingoLogger option \<Rightarrow> ((unit, unit) res \<times> BingoLogger option) option" where
  "Log_Destroy i =
     (case i of
        None \<Rightarrow> Some (Fail (), None)
      | Some logger \<Rightarrow>
          (case Sync logger of
             None \<Rightarrow> None
           | Some l \<Rightarrow> Some (Ok (), Some l)))"

definition log_factory :: "('v, 'q, 'r) drivers \<Rightarrow> ('v, 'h, 'c, 'q, 'r, 's, 'z) server_factory" where
  "log_factory d = \<lparr>f_Type = ''log'', f_Name = ''bingologger'',
     f_Setup = (\<lambda>v w. (res_bind (log_setup d v) (\<lambda>_. Ok LogInst), w)),
     f_Destroy = (\<lambda>i w. w), f_Mainloop = (\<lambda>i w. w)\<rparr>"

section \<open>The server's plugins\<close>

text \<open>
  The factories of the repository.  A binary is linked with some of them: the application's package
  links the file logger, the tcp transport, kafka and pulsar, the example server trpc.
\<close>

definition server_factories :: "('v, 'q, 'r) drivers \<Rightarrow> ('v, 'h, 'c, 'q, 'r, 's, 'z) server_factory list" where
  "server_factories d = [transport_factory d, kafka_factory d, pulsar_factory d, mysql_factory d,
     redis_factory d, trpc_factory d, log_factory d]"

text \<open>The \<open>init\<close> functions of the packages register their factories, in some order.\<close>

definition linked ::
  "('v, 'h, 'c, 'q, 'r, 's, 'z) server_factory list \<Rightarrow> ('s, 'z) world_scheme \<Rightarrow> ('v, ('h, 'c, 'q, 'r) inst, ('s, 'z) world_scheme) plugins" where
  "linked fs w = fold RegisterPluginFactory fs (no_plugins w)"

text \<open>\<open>tcpIns.Init\<close> of the application, whose error is dropped.\<close>

definition start_transport ::
  "(string \<Rightarrow> 'addr option) \<Rightarrow> ('addr \<Rightarrow> bool) \<Rightarrow> 's EventHandler \<Rightarrow> ('s, 'z) world_scheme \<Rightarrow> ('s, 'z) world_scheme" where
  "start_transport resolve listen h w =
     w\<lparr>transInst := map_option (\<lambda>t. snd (TcpTransport_Init resolve listen h t)) (transInst w)\<rparr>"

section \<open>Facts\<close>

lemmas factory_defs = transport_factory_def kafka_factory_def pulsar_factory_def mysql_factory_def
  redis_factory_def trpc_factory_def log_factory_def

lemma key_transport_tcp:
  "constructPluginKey t n = ''transport_tcp'' \<longleftrightarrow> t = ''transport'' \<and> n = ''tcp''"
proof
  assume eq: "constructPluginKey t n = ''transport_tcp''"
  have "length (filter (\<lambda>c. c = CHR ''_'') (constructPluginKey t n)) = 1" by (simp add: eq)
  then have "CHR ''_'' \<notin> set t" by (auto simp: constructPluginKey_def filter_empty_conv)
  with constructPluginKey_inj [of t n "''transport''" "''tcp''"] eq
  show "t = ''transport'' \<and> n = ''tcp''" by (simp add: constructPluginKey_def)
qed (simp add: constructPluginKey_def)

lemma fold_register_world: "plugin_world (fold RegisterPluginFactory fs m) = plugin_world m"
  by (induction fs arbitrary: m) (simp_all add: RegisterPluginFactory_def)

lemma linked_world: "plugin_world (linked fs w) = w"
  by (simp add: linked_def fold_register_world no_plugins_def)

text \<open>In whatever order the packages are initialised, the table holds their factories.\<close>

lemma fold_register:
  assumes "getPluginFactoryByKey k (fold RegisterPluginFactory fs m) = Some f"
  shows "getPluginFactoryByKey k m = Some f \<or> f \<in> set fs \<and> k = constructPluginKey (f_Type f) (f_Name f)"
  using assms
proof (induction fs arbitrary: m)
  case (Cons g fs)
  from Cons.prems have "getPluginFactoryByKey k (fold RegisterPluginFactory fs (RegisterPluginFactory g m)) = Some f"
    by simp
  from Cons.IH [OF this] show ?case
    by (auto simp: getPluginFactoryByKey_def RegisterPluginFactory_def split: if_splits)
qed simp

lemma linked_factory:
  assumes "set fs \<subseteq> set (server_factories d)" and "getPluginFactory t n (linked fs w) = Some f"
  shows "f \<in> set (server_factories d) \<and> (f = transport_factory d \<longleftrightarrow> t = ''transport'' \<and> n = ''tcp'')"
proof -
  have f: "f \<in> set (server_factories d)" and k: "constructPluginKey t n = constructPluginKey (f_Type f) (f_Name f)"
    using fold_register [of "constructPluginKey t n" fs "no_plugins w" f] assms
    by (auto simp: linked_def getPluginFactory_def getPluginFactoryByKey_def no_plugins_def)
  have "f = transport_factory d \<longleftrightarrow> constructPluginKey t n = ''transport_tcp''"
    using f unfolding k by (auto simp: server_factories_def factory_defs constructPluginKey_def)
  with f key_transport_tcp show ?thesis by blast
qed

lemma setup_keeps_transport:
  assumes "f \<in> set (server_factories d)" and "f \<noteq> transport_factory d" and "f_Setup f v w = (r, w')"
  shows "transInst w' = transInst w"
  using assms
  by (auto simp: server_factories_def factory_defs kafka_Setup_def pulsar_Setup_def mysql_Setup_def
      redis_Setup_def trpc_Setup_def NewTrpcServer_def TrpcServer_Init_def split: option.splits res.splits)

text \<open>No factory touches the state of the modules.\<close>

lemma setup_keeps_more:
  assumes "f \<in> set (server_factories d)" and "f_Setup f v w = (r, w')"
  shows "world.more w' = world.more w"
  using assms
  by (auto simp: server_factories_def factory_defs tcp_Setup_def kafka_Setup_def pulsar_Setup_def mysql_Setup_def
      redis_Setup_def trpc_Setup_def NewTrpcServer_def TrpcServer_Init_def split: option.splits res.splits)

lemma setup_plan_keeps_more:
  assumes "set fs \<subseteq> set (server_factories d)" and "setup_plan plan m = Some m'"
    and "pluginFactoryMgr m = pluginFactoryMgr (linked fs w)"
  shows "world.more (plugin_world m') = world.more (plugin_world m)"
  using assms(2,3)
proof (induction plan m rule: setup_plan.induct)
  case (2 t n v plan m)
  from 2(2) obtain f p w1 where f: "getPluginFactory t n m = Some f"
    and st: "f_Setup f v (plugin_world m) = (Ok p, w1)"
    and rest: "setup_plan plan (registerPluginInst (constructPluginKey t n) p (m\<lparr>plugin_world := w1\<rparr>)) = Some m'"
    by (auto split: option.splits prod.splits res.splits)
  have "getPluginFactory t n (linked fs w) = Some f" using f 2(3) by (simp add: getPluginFactory_def)
  with linked_factory [OF assms(1) this] setup_keeps_more [OF _ st, of d]
  have "world.more w1 = world.more (plugin_world m)" by simp
  with 2(1) [OF f st [symmetric] refl rest] 2(3) show ?case by (simp add: registerPluginInst_def)
qed simp

lemma Plugin_Init_keeps_more:
  assumes "set fs \<subseteq> set (server_factories d)" and "Plugin_Init (Some pc) (linked fs w) = (Ok (), m)"
  shows "world.more (plugin_world m) = world.more w"
  using setup_plan_keeps_more [OF assms(1) _ refl, of _ w m] assms(2)
  by (simp add: Plugin_Init_plan linked_world)

text \<open>The configuration of the last setup of the transport in a plan.\<close>

fun last_tcp :: "(string \<times> string \<times> 'v) list \<Rightarrow> 'v option" where
  "last_tcp [] = None"
| "last_tcp ((t, n, v) # plan) =
     (case last_tcp plan of
        Some v' \<Rightarrow> Some v'
      | None \<Rightarrow> if t = ''transport'' \<and> n = ''tcp'' then Some v else None)"

lemma last_tcp_None: "last_tcp plan = None \<Longrightarrow> (''transport'', ''tcp'', v) \<notin> set plan"
  by (induction plan rule: last_tcp.induct) (auto split: option.splits if_splits)

lemma last_tcp_Some: "last_tcp plan = Some v \<Longrightarrow> (''transport'', ''tcp'', v) \<in> set plan"
  by (induction plan rule: last_tcp.induct) (auto split: option.splits if_splits)

lemma setup_plan_transport:
  assumes "set fs \<subseteq> set (server_factories d)" and "setup_plan plan m = Some m'"
    and "pluginFactoryMgr m = pluginFactoryMgr (linked fs w)"
  shows "case last_tcp plan of
      None \<Rightarrow> transInst (plugin_world m') = transInst (plugin_world m)
    | Some v \<Rightarrow> \<exists>tc. um_tcp d v = Some tc \<and> transInst (plugin_world m') = Some (NewTcpTransport tc)"
  using assms(2,3)
proof (induction plan m rule: setup_plan.induct)
  case (2 t n v plan m)
  from 2(2) obtain f p w1 where f: "getPluginFactory t n m = Some f"
    and st: "f_Setup f v (plugin_world m) = (Ok p, w1)"
    and rest: "setup_plan plan (registerPluginInst (constructPluginKey t n) p (m\<lparr>plugin_world := w1\<rparr>)) = Some m'"
    by (auto split: option.splits prod.splits res.splits)
  have "getPluginFactory t n (linked fs w) = Some f" using f 2(3) by (simp add: getPluginFactory_def)
  note lf = linked_factory [OF assms(1) this]
  have IH: "case last_tcp plan of None \<Rightarrow> transInst (plugin_world m') = transInst w1
    | Some v \<Rightarrow> \<exists>tc. um_tcp d v = Some tc \<and> transInst (plugin_world m') = Some (NewTcpTransport tc)"
    using 2(1) [OF f st [symmetric] refl rest] 2(3)
    by (auto simp: registerPluginInst_def split: option.splits)
  show ?case
  proof (cases "t = ''transport'' \<and> n = ''tcp''")
    case True
    with lf have "f = transport_factory d" by simp
    with st have "\<exists>tc. um_tcp d v = Some tc \<and> transInst w1 = Some (NewTcpTransport tc)"
      by (auto simp: transport_factory_def tcp_Setup_def split: option.splits)
    with IH True show ?thesis by (auto split: option.splits)
  next
    case False
    with lf setup_keeps_transport [OF _ _ st, of d] have "transInst w1 = transInst (plugin_world m)" by blast
    with IH False show ?thesis by (auto split: option.splits)
  qed
qed simp

lemma start_plan_tcp:
  assumes "distinct (map fst pc)" and "map_of pc ''transport'' = Some ps" and "distinct (map fst ps)"
    and "map_of ps ''tcp'' = Some v"
  shows "last_tcp (start_plan pc m) = Some v"
proof -
  have "(''transport'', ''tcp'', v) \<in> set (start_plan pc m)"
    using map_of_SomeD [OF assms(2)] map_of_SomeD [OF assms(4)]
    by (force simp: start_plan_def entries_def)
  moreover have "v' = v" if "(''transport'', ''tcp'', v') \<in> set (start_plan pc m)" for v'
  proof -
    from that obtain s where "(''transport'', s) \<in> set pc" "(''tcp'', v') \<in> set s"
      by (auto simp: start_plan_def entries_def)
    with assms show ?thesis by (metis map_of_eq_Some_iff option.inject)
  qed
  ultimately show ?thesis using last_tcp_None last_tcp_Some by (metis option.exhaust)
qed

section \<open>Properties\<close>

text \<open>
  C23.  A server that starts listens as it is configured: when the application's \<open>Init\<close> reports
  success, the transport has the configuration of the \<open>transport.tcp\<close> entry and the handler of
  the application, whatever else the configuration names, whichever factories of the repository
  were linked, and in whatever order the plugins were linked and set up; its accept loop runs exactly when the configured address could be
  resolved and listened on.
\<close>

theorem server_listens_as_configured:
  assumes "App_Init env s = (Returned None, s')"
    and "set fs \<subseteq> set (server_factories d)" and "app_plugins s = linked fs w"
    and "\<forall>i x. tcp_init env i x = start_transport resolve listen h x"
    and "\<forall>(k, md)\<in>set (moduleCont s). \<forall>look x. transInst (snd (m_Init md look x)) = transInst x"
    and "\<forall>c. sub_plugin env c = Some (Some pc)" and "distinct (map fst pc)"
    and "map_of pc ''transport'' = Some ps" and "distinct (map fst ps)" and "map_of ps ''tcp'' = Some v"
  shows "\<exists>tc t. um_tcp d v = Some tc \<and> transInst (app_world s') = Some t \<and> Tcp.cfg t = tc
    \<and> eventHandler t = Some h
    \<and> cancel t = (case resolve (Tcp.Addr tc) of
                     Some addr \<Rightarrow> if listen addr then Some False else None
                   | None \<Rightarrow> None)"
proof -
  from App_Init_success [OF assms(1)] assms(3,4,6) obtain m where
    m: "Plugin_Init (Some pc) (linked fs w) = (Ok (), m)"
    and "run_modules (\<lambda>md. m_Init md (lookup_of m)) (module_order (init_ranks env) (moduleCont s))
      (start_transport resolve listen h (plugin_world m)) = (Ok (), app_world s')"
    by auto
  from run_modules_ok [OF this(2)] have w': "app_world s' = fold (\<lambda>md x. snd (m_Init md (lookup_of m) x))
      (module_order (init_ranks env) (moduleCont s)) (start_transport resolve listen h (plugin_world m))" .
  from m have "setup_plan (start_plan pc (linked fs w)) (linked fs w) = Some m"
    by (simp add: Plugin_Init_plan)
  from setup_plan_transport [OF assms(2) this refl] start_plan_tcp [OF assms(7-10), of "linked fs w"]
  obtain tc where tc: "um_tcp d v = Some tc" "transInst (plugin_world m) = Some (NewTcpTransport tc)" by auto
  have mods: "\<forall>md\<in>set (module_order (init_ranks env) (moduleCont s)). \<forall>x. transInst (snd (m_Init md (lookup_of m) x)) = transInst x"
    using assms(5) by (force simp: module_order_def)
  have "transInst (fold (\<lambda>md x. snd (m_Init md (lookup_of m) x)) mds x) = transInst x"
    if "\<forall>md\<in>set mds. \<forall>x. transInst (snd (m_Init md (lookup_of m) x)) = transInst x" for mds x
    using that by (induction mds arbitrary: x) auto
  from this [OF mods] w' have "transInst (app_world s') = transInst (start_transport resolve listen h (plugin_world m))"
    by simp
  with tc show ?thesis
    by (auto simp: start_transport_def TcpTransport_Init_def NewTcpTransport_def Let_def split: option.split)
qed

text \<open>A server with the transport and the trpc plugin; a configuration subtree is a number.\<close>

definition demo_drivers :: "(nat, unit, unit) drivers" where
  "demo_drivers = \<lparr>um_tcp = (\<lambda>v. Some (TcpTransportCfg.make ''0.0.0.0:9000'' 30)), um_mq = (\<lambda>v. None),
     um_mysql = (\<lambda>v. None), um_redis = (\<lambda>v. None), um_trpc = (\<lambda>v. Some ''trpc.yaml''),
     log_setup = (\<lambda>v. Ok ()),
     kafka_consumer_ok = (\<lambda>c. True), kafka_producer_ok = (\<lambda>c. True), pulsar_create_log = (\<lambda>p. True),
     pulsar_connect = (\<lambda>u. True), sql_open = (\<lambda>s. Inl s), sql_ping = (\<lambda>u. True), redis_new = (\<lambda>opt. None),
     reader_memory = (\<lambda>n. demo_reader [] True),
     writer_memory = (\<lambda>n. WriterConfig.make [] [] None False 0 0 0 0 Map.empty)\<rparr>"

definition demo_handler :: "unit EventHandler" where
  "demo_handler = \<lparr>OnConnOpened = (\<lambda>c s. Ok (c, s)), OnConnClosed = (\<lambda>c a s. Ok (c, s)),
     OnData = (\<lambda>c pkg s. Ok (c, s))\<rparr>"

definition demo_server_env :: "(nat, (unit, unit, unit, unit) inst, unit world) app_env" where
  "demo_server_env = \<lparr>new_viper = 0, flag_conf = None, flag_command = None, flag_daemon = None,
     read_config = (\<lambda>_. Some 2), get_serverid = (\<lambda>_. ''1.1''),
     sub_plugin = (\<lambda>_. Some (Some [(''rpc'', [(''trpc'', 4)]), (''transport'', [(''tcp'', 5)])])),
     is_alive = (\<lambda>_. True), is_tcp = (\<lambda>p. p = TcpInst),
     tcp_init = (\<lambda>p. start_transport Some (\<lambda>a. True) demo_handler), init_ranks = (\<lambda>_. 0, \<lambda>_. 0)\<rparr>"

definition demo_world :: "unit world" where
  "demo_world = \<lparr>transInst = None, ServerConfigPath = [], trpc_servers = 0, trpc_serving = [], trpc_closed = []\<rparr>"

definition demo_server :: "(nat, (unit, unit, unit, unit) inst, unit world) serverApp" where
  "demo_server = NewServerApp ''demo'' [] (linked (server_factories demo_drivers) demo_world)
     \<lparr>files = Map.empty, writable_fs = True, signals_sent = [], self_pid = 7\<rparr>"

lemma demo_server_starts: "fst (App_Init demo_server_env demo_server) = Returned None"
proof -
  let ?c = "snd (Config_Init 0 None None None (\<lambda>_. Some (2::nat)))"
  let ?cfg = "[(''rpc'', [(''trpc'', 4)]), (''transport'', [(''tcp'', 5 :: nat)])]"
  have c: "Config_Init 0 None None None (\<lambda>_. Some (2::nat)) = (None, ?c)" "GetCommand ?c = ''start''"
    by (simp_all add: Config_Init_def loadConfig_def Config.assign_def getBakConfig_def GetCommand_def
        defaultConfPath_def)
  define m :: "(nat, (unit, unit, unit, unit) inst, unit world) plugins" where
    "m = snd (Plugin_Init (Some ?cfg) (linked (server_factories demo_drivers) demo_world))"
  have m: "Plugin_Init (Some ?cfg) (linked (server_factories demo_drivers) demo_world) = (Ok (), m)"
    and p: "GetPluginInst ''transport'' ''tcp'' m = Some TcpInst"
    by (simp_all add: m_def Plugin_Init_def linked_def server_factories_def factory_defs getPluginFactory_def
        RegisterPluginFactory_def registerPluginInst_def no_plugins_def constructPluginKey_def
        tcp_Setup_def trpc_Setup_def NewTrpcServer_def TrpcServer_Init_def demo_drivers_def GetPluginInst_def)
  show ?thesis
    using App_Init_starts_modules [of demo_server_env ?c _ demo_server m TcpInst "Ok ()"] c m p
    by (simp add: demo_server_env_def demo_server_def NewServerApp_def module_order_def)
qed

theorem server_listens_as_configured_witness:
  "\<exists>t. transInst (app_world (snd (App_Init demo_server_env demo_server))) = Some t
     \<and> Tcp.cfg t = TcpTransportCfg.make ''0.0.0.0:9000'' 30 \<and> eventHandler t = Some demo_handler
     \<and> cancel t = Some False"
proof -
  have "App_Init demo_server_env demo_server = (Returned None, snd (App_Init demo_server_env demo_server))"
    using demo_server_starts by (simp add: prod_eq_iff)
  from server_listens_as_configured [OF this, of "server_factories demo_drivers" demo_drivers demo_world Some
      "\<lambda>a. True" demo_handler "[(''rpc'', [(''trpc'', 4)]), (''transport'', [(''tcp'', 5)])]" "[(''tcp'', 5)]" 5]
  show ?thesis
    by (auto simp: demo_server_env_def demo_server_def NewServerApp_def demo_drivers_def)
qed

text \<open>
  The \<open>Reload\<close> methods of the queue plugins panic on every configuration they can decode: they
  assert the struct type of an instance that is a pointer.
\<close>

theorem mq_reload_panics:
  "fst (kafka_Reload i (Some mc) w) = Panic \<and> fst (pulsar_Reload i (Some mc) w) = Panic"
  by (simp add: kafka_Reload_def pulsar_Reload_def)

text \<open>The transport's \<open>Reload\<close> changes the configuration that the connections read, and nothing else.\<close>

lemma tcp_reload_sets_config:
  assumes "transInst w = Some t"
  shows "tcp_Reload TcpInst (Some tc) w = (Ok (), w\<lparr>transInst := Some (t\<lparr>Tcp.cfg := tc\<rparr>)\<rparr>)"
  using assms by (simp add: tcp_Reload_def SetConfig_def)

end
