(* ===== verification/Csproto.thy ===== *)
theory Csproto
  imports Msg
begin

text \<open>
  The messages of the client protocol, \<^verbatim>\<open>src/proto/csproto\<close> (\<^verbatim>\<open>cs_proto.pb.go\<close>, \<^verbatim>\<open>cs_login.pb.go\<close>):
  the generated structs, their getters and their descriptors, and the message layer of \<open>Msg\<close> at
  these types.  An \<open>int32\<close> is a word of 32 bits, read by \<open>sint\<close>; a pointer that may be nil is an
  option.  The protobuf runtime (\<open>google.golang.org/protobuf\<close>) is not part of the repository: it
  is the record \<open>proto_lib\<close> of the functions called, and \<open>protobuf_runtime\<close> is what its
  documentation says of them.
\<close>

section \<open>Messages\<close>

type_synonym i32 = "32 word"

record CSHead =
  Msgid :: i32
  Seqid :: i32

record SCHead =
  Msgid :: i32
  Seqid :: i32

record Account =
  Id :: i32
  Num :: i32

record CS_LOGIN =
  Name :: string
  Sex :: string
  Account :: "Account option"

record SC_LOGIN =
  Success :: i32

definition CSHead_GetMsgid :: "CSHead option \<Rightarrow> i32" where
  "CSHead_GetMsgid x = (case x of Some h \<Rightarrow> CSHead.Msgid h | None \<Rightarrow> 0)"

definition CSHead_GetSeqid :: "CSHead option \<Rightarrow> i32" where
  "CSHead_GetSeqid x = (case x of Some h \<Rightarrow> CSHead.Seqid h | None \<Rightarrow> 0)"

definition SCHead_GetMsgid :: "SCHead option \<Rightarrow> i32" where
  "SCHead_GetMsgid x = (case x of Some h \<Rightarrow> SCHead.Msgid h | None \<Rightarrow> 0)"

definition SCHead_GetSeqid :: "SCHead option \<Rightarrow> i32" where
  "SCHead_GetSeqid x = (case x of Some h \<Rightarrow> SCHead.Seqid h | None \<Rightarrow> 0)"

definition Account_GetId :: "Account option \<Rightarrow> i32" where
  "Account_GetId x = (case x of Some a \<Rightarrow> Id a | None \<Rightarrow> 0)"

definition Account_GetNum :: "Account option \<Rightarrow> i32" where
  "Account_GetNum x = (case x of Some a \<Rightarrow> Num a | None \<Rightarrow> 0)"

definition CS_LOGIN_GetName :: "CS_LOGIN option \<Rightarrow> string" where
  "CS_LOGIN_GetName x = (case x of Some l \<Rightarrow> Name l | None \<Rightarrow> [])"

definition CS_LOGIN_GetSex :: "CS_LOGIN option \<Rightarrow> string" where
  "CS_LOGIN_GetSex x = (case x of Some l \<Rightarrow> Sex l | None \<Rightarrow> [])"

definition CS_LOGIN_GetAccount :: "CS_LOGIN option \<Rightarrow> Account option" where
  "CS_LOGIN_GetAccount x = (case x of Some l \<Rightarrow> Account l | None \<Rightarrow> None)"

definition SC_LOGIN_GetSuccess :: "SC_LOGIN option \<Rightarrow> i32" where
  "SC_LOGIN_GetSuccess x = (case x of Some l \<Rightarrow> Success l | None \<Rightarrow> 0)"

text \<open>A \<open>proto.Message\<close> of this package, and its type with the name in the descriptor.\<close>

datatype csmsg =
    P_CSHead CSHead
  | P_SCHead SCHead
  | P_Account Account
  | P_CS_LOGIN CS_LOGIN
  | P_SC_LOGIN SC_LOGIN

datatype cstype = T_CSHead | T_SCHead | T_Account | T_CS_LOGIN | T_SC_LOGIN

fun ProtoReflect :: "csmsg \<Rightarrow> cstype" where
  "ProtoReflect (P_CSHead h) = T_CSHead"
| "ProtoReflect (P_SCHead h) = T_SCHead"
| "ProtoReflect (P_Account a) = T_Account"
| "ProtoReflect (P_CS_LOGIN l) = T_CS_LOGIN"
| "ProtoReflect (P_SC_LOGIN l) = T_SC_LOGIN"

fun cs_proto_FullName :: "cstype \<Rightarrow> string" where
  "cs_proto_FullName T_CSHead = ''proto.CSHead''"
| "cs_proto_FullName T_SCHead = ''proto.SCHead''"
| "cs_proto_FullName T_Account = ''proto.account''"
| "cs_proto_FullName T_CS_LOGIN = ''proto.CS_LOGIN''"
| "cs_proto_FullName T_SC_LOGIN = ''proto.SC_LOGIN''"

section \<open>The runtime\<close>

record proto_lib =
  proto_Marshal :: "csmsg \<Rightarrow> byte list option"
  proto_Unmarshal :: "cstype \<Rightarrow> byte list \<Rightarrow> csmsg option"
  registry_FindByName :: "string \<Rightarrow> cstype option"

text \<open>
  What the runtime documents: unmarshalling is inverse to marshalling, the generated types are
  registered under their full names, and messages without strings always marshal, an \<open>int32\<close>
  field taking a tag of one byte and a varint of at most ten.
\<close>

definition protobuf_runtime :: "proto_lib \<Rightarrow> bool" where
  "protobuf_runtime lib \<longleftrightarrow>
     (\<forall>m bs. proto_Marshal lib m = Some bs \<longrightarrow> proto_Unmarshal lib (ProtoReflect m) bs = Some m)
   \<and> (\<forall>t. registry_FindByName lib (cs_proto_FullName t) = Some t)
   \<and> (\<forall>h. \<exists>bs. proto_Marshal lib (P_CSHead h) = Some bs \<and> length bs \<le> 22)
   \<and> (\<forall>h. \<exists>bs. proto_Marshal lib (P_SCHead h) = Some bs \<and> length bs \<le> 22)
   \<and> (\<forall>l. \<exists>bs. proto_Marshal lib (P_SC_LOGIN l) = Some bs \<and> length bs \<le> 11)"

text \<open>The message layer at these types.\<close>

definition csproto_pb :: "proto_lib \<Rightarrow> (CSHead, SCHead, csmsg, cstype) protobuf" where
  "csproto_pb lib =
     \<lparr>Marshal_SCHead = (\<lambda>h. proto_Marshal lib (P_SCHead h)),
      Marshal_body = proto_Marshal lib,
      Unmarshal_CSHead = (\<lambda>bs. case proto_Unmarshal lib T_CSHead bs of
                                 Some (P_CSHead h) \<Rightarrow> Some h | _ \<Rightarrow> None),
      GetMsgid = (\<lambda>h. sint (CSHead_GetMsgid (Some h))),
      FindMessageByName = registry_FindByName lib,
      Unmarshal_body = proto_Unmarshal lib\<rparr>"

definition CSMessageID_cs_login :: int where "CSMessageID_cs_login = 1"

section \<open>Facts\<close>

lemma proto_roundtrip:
  assumes "protobuf_runtime lib" and "proto_Marshal lib m = Some bs"
  shows "proto_Unmarshal lib (ProtoReflect m) bs = Some m"
  using assms by (simp add: protobuf_runtime_def)

lemma proto_find:
  assumes "protobuf_runtime lib"
  shows "registry_FindByName lib ''proto.CS_LOGIN'' = Some T_CS_LOGIN"
  using assms unfolding protobuf_runtime_def by (metis cs_proto_FullName.simps(4))

lemma proto_SCHead:
  assumes "protobuf_runtime lib"
  obtains bs where "proto_Marshal lib (P_SCHead h) = Some bs" and "length bs \<le> 22"
  using assms unfolding protobuf_runtime_def by blast

lemma proto_SC_LOGIN:
  assumes "protobuf_runtime lib"
  obtains bs where "proto_Marshal lib (P_SC_LOGIN l) = Some bs" and "length bs \<le> 11"
  using assms unfolding protobuf_runtime_def by blast

lemma ToUpper_cs_login: "ToUpper ''cs_login'' = ''CS_LOGIN''"
  by code_simp

text \<open>A login that was marshalled comes out of the server's packet codec as it went in.\<close>

lemma login_decodes:
  assumes lib: "protobuf_runtime lib"
    and "proto_Marshal lib (P_CSHead ch) = Some hb" and "proto_Marshal lib (P_CS_LOGIN l) = Some mb"
    and "sint (CSHead.Msgid ch) = CSMessageID_cs_login"
  shows "decode_parts (csproto_pb lib) hb mb = Some (ch, P_CS_LOGIN l)"
  using proto_roundtrip [OF lib assms(2)] proto_roundtrip [OF lib assms(3)] proto_find [OF lib] assms(4)
    ToUpper_cs_login
  by (simp add: decode_parts_def csproto_pb_def CSHead_GetMsgid_def CSMessageID_name_def
      CSMessageID_cs_login_def)

lemma Encode_packet:
  assumes "length h + length b < 2 ^ 32 - 4"
  shows "Encode (packet h b) = Ok (frame (word_of_nat (length h)) (word_of_nat (length b)) (h @ b))"
proof -
  have "uint (word_of_nat (length h) :: u32) = int (length h)"
    using assms by (simp add: uint_nat unat_word_of_nat_u32)
  then show ?thesis
    using Encode_frame [of "packet h b" "word_of_nat (length h)"] by (simp add: packet_def)
qed

text \<open>
  A runtime on which the laws hold: words of 32 bits in little-endian order; it marshals one
  login, the one whose bytes are given.
\<close>

definition le_pair :: "i32 \<Rightarrow> i32 \<Rightarrow> byte list" where
  "le_pair a b = LE_bytes a @ LE_bytes b"

definition le_unpair :: "byte list \<Rightarrow> (i32 \<times> i32) option" where
  "le_unpair bs =
     (case (LE_Uint32 bs :: (unit, u32) res, LE_Uint32 (drop 4 bs) :: (unit, u32) res) of
        (Ok a, Ok b) \<Rightarrow> Some (a, b) | _ \<Rightarrow> None)"

definition le_lib :: "CS_LOGIN \<Rightarrow> byte list \<Rightarrow> proto_lib" where
  "le_lib l0 bs0 =
     \<lparr>proto_Marshal = (\<lambda>m. case m of
          P_CSHead h \<Rightarrow> Some (le_pair (CSHead.Msgid h) (CSHead.Seqid h))
        | P_SCHead h \<Rightarrow> Some (le_pair (SCHead.Msgid h) (SCHead.Seqid h))
        | P_Account a \<Rightarrow> Some (le_pair (Id a) (Num a))
        | P_CS_LOGIN l \<Rightarrow> if l = l0 then Some bs0 else None
        | P_SC_LOGIN l \<Rightarrow> Some (LE_bytes (Success l))),
      proto_Unmarshal = (\<lambda>t bs. case t of
          T_CSHead \<Rightarrow> map_option (\<lambda>(a, b). P_CSHead \<lparr>CSHead.Msgid = a, Seqid = b\<rparr>) (le_unpair bs)
        | T_SCHead \<Rightarrow> map_option (\<lambda>(a, b). P_SCHead \<lparr>SCHead.Msgid = a, Seqid = b\<rparr>) (le_unpair bs)
        | T_Account \<Rightarrow> map_option (\<lambda>(a, b). P_Account \<lparr>Id = a, Num = b\<rparr>) (le_unpair bs)
        | T_CS_LOGIN \<Rightarrow> if bs = bs0 then Some (P_CS_LOGIN l0) else None
        | T_SC_LOGIN \<Rightarrow> (case LE_Uint32 bs :: (unit, u32) res of
                           Ok a \<Rightarrow> Some (P_SC_LOGIN \<lparr>Success = a\<rparr>) | _ \<Rightarrow> None)),
      registry_FindByName = (\<lambda>n. map_of (map (\<lambda>t. (cs_proto_FullName t, t))
          [T_CSHead, T_SCHead, T_Account, T_CS_LOGIN, T_SC_LOGIN]) n)\<rparr>"

lemma le_unpair_pair [simp]: "le_unpair (le_pair a b) = Some (a, b)"
  by (simp add: le_unpair_def le_pair_def)

lemma le_pair_length [simp]: "length (le_pair a b) = 8"
  by (simp add: le_pair_def)

lemma le_lib_runtime: "protobuf_runtime (le_lib l0 bs0)"
  unfolding protobuf_runtime_def
proof (intro conjI allI impI)
  fix m bs assume "proto_Marshal (le_lib l0 bs0) m = Some bs"
  then show "proto_Unmarshal (le_lib l0 bs0) (ProtoReflect m) bs = Some m"
    by (cases m) (auto simp: le_lib_def split: if_splits)
next
  fix t show "registry_FindByName (le_lib l0 bs0) (cs_proto_FullName t) = Some t"
    by (cases t) (simp_all add: le_lib_def)
qed (simp_all add: le_lib_def)

end
