(* ===== verification/Echo.thy ===== *)
theory Echo
  imports Mango_Prelude
begin

text \<open>
  The echo service of the example server: the messages of
  \<^verbatim>\<open>src/example/statelesssvr/proto/echo/echo.pb.go\<close>, the service and client stubs of \<^verbatim>\<open>echo.trpc.go\<close>
  and the implementation in \<^verbatim>\<open>src/example/statelesssvr/module/echo.go\<close>.  The trpc library is not
  part of the repository: its filter chain, its \<open>Register\<close> and its \<open>Invoke\<close> are arguments.  An
  out parameter that a call fills is an argument and a part of the result.
\<close>

section \<open>Messages and service\<close>

record EchoReq =
  req_Message :: string

record EchoRsp =
  Response :: string

definition EchoReq_GetMessage :: "EchoReq option \<Rightarrow> string" where
  "EchoReq_GetMessage x = (case x of Some r \<Rightarrow> req_Message r | None \<Rightarrow> [])"

definition EchoRsp_GetResponse :: "EchoRsp option \<Rightarrow> string" where
  "EchoRsp_GetResponse x = (case x of Some r \<Rightarrow> Response r | None \<Rightarrow> [])"

type_synonym 'e EchoService = "EchoReq \<Rightarrow> EchoRsp \<Rightarrow> 'e option \<times> EchoRsp"

definition echoServiceImpl_Echo :: "'e EchoService" where
  "echoServiceImpl_Echo req rsp = (None, rsp\<lparr>Response := ''hi '' @ req_Message req\<rparr>)"

text \<open>
  The filter function fills the request it gets and returns the filter chain, whose \<open>Handle\<close>
  calls the handle function it is given or not, as the filters decide.
\<close>

type_synonym 'e handle = "EchoReq \<Rightarrow> EchoRsp \<Rightarrow> 'e option \<times> EchoRsp"
type_synonym 'e FilterFunc = "EchoReq \<Rightarrow> 'e + EchoReq \<times> (EchoReq \<Rightarrow> EchoRsp \<Rightarrow> 'e handle \<Rightarrow> 'e option \<times> EchoRsp)"

definition EchoService_Echo_Handler :: "'e EchoService \<Rightarrow> 'e FilterFunc \<Rightarrow> 'e + EchoRsp" where
  "EchoService_Echo_Handler svr f =
     (case f \<lparr>req_Message = []\<rparr> of
        Inl err \<Rightarrow> Inl err
      | Inr (req, filters_Handle) \<Rightarrow>
          (case filters_Handle req \<lparr>Response = []\<rparr> svr of
             (Some err, rsp) \<Rightarrow> Inl err
           | (None, rsp) \<Rightarrow> Inr rsp))"

record 'e ServiceDesc =
  ServiceName :: string
  Methods :: "(string \<times> ('e EchoService \<Rightarrow> 'e FilterFunc \<Rightarrow> 'e + EchoRsp)) list"

definition EchoServer_ServiceDesc :: "'e ServiceDesc" where
  "EchoServer_ServiceDesc = \<lparr>ServiceName = ''trpc.rstudio.echo.Echo'',
     Methods = [(''/trpc.rstudio.echo.Echo/Echo'', EchoService_Echo_Handler)]\<rparr>"

definition RegisterEchoService ::
  "('e ServiceDesc \<Rightarrow> 'e EchoService \<Rightarrow> 'srv \<Rightarrow> 'srv option) \<Rightarrow> 'e EchoService \<Rightarrow> 'srv \<Rightarrow> (unit, 'srv) res" where
  "RegisterEchoService register svr s =
     (case register EchoServer_ServiceDesc svr s of None \<Rightarrow> Panic | Some s \<Rightarrow> Ok s)"

section \<open>Client\<close>

record rpc_msg =
  ClientRPCName :: string
  CalleeServiceName :: string
  CalleeApp :: string
  CalleeServer :: string
  CalleeService :: string
  CalleeMethod :: string
  SerializationType :: string

record ('e, 'o) EchoClientProxyImpl =
  client_Invoke :: "rpc_msg \<Rightarrow> EchoReq \<Rightarrow> EchoRsp \<Rightarrow> 'o list \<Rightarrow> 'e option \<times> EchoRsp"
  client_opts :: "'o list"

definition NewEchoClientProxy ::
  "(rpc_msg \<Rightarrow> EchoReq \<Rightarrow> EchoRsp \<Rightarrow> 'o list \<Rightarrow> 'e option \<times> EchoRsp) \<Rightarrow> 'o list \<Rightarrow> ('e, 'o) EchoClientProxyImpl" where
  "NewEchoClientProxy DefaultClient opts = \<lparr>client_Invoke = DefaultClient, client_opts = opts\<rparr>"

text \<open>The message of the call is a clone of the one in the context.\<close>

definition EchoClientProxyImpl_Echo ::
  "rpc_msg \<Rightarrow> ('e, 'o) EchoClientProxyImpl \<Rightarrow> EchoReq \<Rightarrow> 'o list \<Rightarrow> 'e + EchoRsp" where
  "EchoClientProxyImpl_Echo ctx_msg c req opts =
     (let msg = ctx_msg\<lparr>ClientRPCName := ''/trpc.rstudio.echo.Echo/Echo'',
                  CalleeServiceName := ServiceName (EchoServer_ServiceDesc :: 'e ServiceDesc), CalleeApp := ''rstudio'',
                  CalleeServer := ''echo'', CalleeService := ''Echo'', CalleeMethod := ''Echo'',
                  SerializationType := ''PB''\<rparr>;
          callopts = client_opts c @ opts
      in case client_Invoke c msg req \<lparr>Response = []\<rparr> callopts of
           (Some err, rsp) \<Rightarrow> Inl err
         | (None, rsp) \<Rightarrow> Inr rsp)"

section \<open>The call as a whole\<close>

text \<open>
  A registry of services as the library keeps it: the descriptor and the implementation by
  service name.  An invocation reaches it when the library finds the method that the message of
  the call names and runs it with the request it has carried over.
\<close>

type_synonym 'e services = "string \<rightharpoonup> 'e ServiceDesc \<times> 'e EchoService"

definition invoke_reaches ::
  "'e services \<Rightarrow> (rpc_msg \<Rightarrow> EchoReq \<Rightarrow> EchoRsp \<Rightarrow> 'o list \<Rightarrow> 'e option \<times> EchoRsp) \<Rightarrow> bool" where
  "invoke_reaches svcs invoke \<longleftrightarrow>
     (\<forall>msg req rsp opts desc svr h. svcs (CalleeServiceName msg) = Some (desc, svr)
        \<longrightarrow> map_of (Methods desc) (ClientRPCName msg) = Some h
        \<longrightarrow> invoke msg req rsp opts =
              (case h svr (\<lambda>r. Inr (req, \<lambda>q p handle. handle q p)) of
                 Inl err \<Rightarrow> (Some err, rsp)
               | Inr rsp' \<Rightarrow> (None, rsp')))"

text \<open>
  The client stub of a registered echo service gets the greeting of its own message, whatever
  options are given and whatever the message in the context was: the names the two stubs use
  agree.  Of \<open>Register\<close> it relies on the service being found under its name afterwards.
\<close>

theorem echo_call_answered:
  assumes "RegisterEchoService register echoServiceImpl_Echo srv = Ok srv'"
    and "\<forall>d svr s s'. register d svr s = Some s' \<longrightarrow> find_service s' (ServiceName d) = Some (d, svr)"
    and "invoke_reaches (find_service srv') invoke"
  shows "EchoClientProxyImpl_Echo ctx_msg (NewEchoClientProxy invoke opts0) \<lparr>req_Message = m\<rparr> opts
    = Inr \<lparr>Response = ''hi '' @ m\<rparr>"
proof -
  from assms(1) have "register EchoServer_ServiceDesc echoServiceImpl_Echo srv = Some srv'"
    by (auto simp: RegisterEchoService_def split: option.splits)
  with assms(2) have "find_service srv' ''trpc.rstudio.echo.Echo''
      = Some (EchoServer_ServiceDesc, echoServiceImpl_Echo)"
    by (force simp: EchoServer_ServiceDesc_def)
  with assms(3) show ?thesis
    by (simp add: EchoClientProxyImpl_Echo_def NewEchoClientProxy_def invoke_reaches_def Let_def
        EchoServer_ServiceDesc_def EchoService_Echo_Handler_def echoServiceImpl_Echo_def)
qed

text \<open>A registry of one map, and an \<open>Invoke\<close> that calls it directly.\<close>

definition map_register :: "'e ServiceDesc \<Rightarrow> 'e EchoService \<Rightarrow> 'e services \<Rightarrow> 'e services option" where
  "map_register d svr s = (if s (ServiceName d) = None then Some (s(ServiceName d \<mapsto> (d, svr))) else None)"

definition direct_invoke ::
  "'e services \<Rightarrow> rpc_msg \<Rightarrow> EchoReq \<Rightarrow> EchoRsp \<Rightarrow> unit list \<Rightarrow> 'e option \<times> EchoRsp" where
  "direct_invoke svcs msg req rsp opts =
     (case svcs (CalleeServiceName msg) of
        None \<Rightarrow> (None, rsp)
      | Some (desc, svr) \<Rightarrow>
          (case map_of (Methods desc) (ClientRPCName msg) of
             None \<Rightarrow> (None, rsp)
           | Some h \<Rightarrow>
               (case h svr (\<lambda>r. Inr (req, \<lambda>q p handle. handle q p)) of
                  Inl err \<Rightarrow> (Some err, rsp)
                | Inr rsp' \<Rightarrow> (None, rsp'))))"

theorem echo_call_answered_witness:
  "EchoClientProxyImpl_Echo (rpc_msg.make [] [] [] [] [] [] [])
     (NewEchoClientProxy (direct_invoke
        [''trpc.rstudio.echo.Echo'' \<mapsto> (EchoServer_ServiceDesc :: unit ServiceDesc, echoServiceImpl_Echo)]) [])
     \<lparr>req_Message = ''you''\<rparr> [] = Inr \<lparr>Response = ''hi you''\<rparr>"
proof -
  let ?svcs = "[''trpc.rstudio.echo.Echo'' \<mapsto> (EchoServer_ServiceDesc :: unit ServiceDesc, echoServiceImpl_Echo)]"
  have "RegisterEchoService map_register echoServiceImpl_Echo Map.empty = Ok ?svcs"
    by (simp add: RegisterEchoService_def map_register_def EchoServer_ServiceDesc_def)
  moreover have "\<forall>d svr s s'. map_register d svr s = Some s' \<longrightarrow> s' (ServiceName d) = Some (d, svr)"
    by (auto simp: map_register_def split: if_splits)
  moreover have "invoke_reaches ?svcs (direct_invoke ?svcs)"
    by (simp add: invoke_reaches_def direct_invoke_def)
  ultimately show ?thesis
    using echo_call_answered [of map_register Map.empty ?svcs "\<lambda>s. s" "direct_invoke ?svcs"
        "rpc_msg.make [] [] [] [] [] [] []" "[]" "''you''" "[]"]
    by simp
qed

end
