(* ===== verification/Login.thy ===== *)
theory Login
  imports Csproto Echo Factories
begin

text \<open>
  The example server's module, \<^verbatim>\<open>src/example/statelesssvr/module/module.go\<close>, and the example client,
  \<^verbatim>\<open>src/example/tcp_client/client.go\<close>: the whole way of a login from the client through the
  transport, the message layer and the handler back to the client.  What the module keeps besides
  its own field is the calls of \<open>log.Info\<close> it made, with their arguments; \<open>time.Now\<close> is a function
  of what has happened, and the remote address one of the connection.
\<close>

section \<open>The module\<close>

datatype fmt_arg = FInt int | FStr string

type_synonym info_call = "string \<times> fmt_arg list"

record TestModule =
  testValue :: int

record 'srv example = "info_call list world" +
  tm :: TestModule
  services :: "nat \<Rightarrow> 'srv"
  msgmgr :: "(CSHead, csmsg, info_call list) MsgHandlerMgr"
  infos :: "info_call list"

definition OnStart ::
  "(u64 \<Rightarrow> string) \<Rightarrow> tcpConn \<Rightarrow> info_call list \<Rightarrow> (unit, tcpConn \<times> info_call list) res" where
  "OnStart remote conn s =
     Ok (conn, s @ [(''conn %d is start, remote %s'', [FInt (uint (connID conn)), FStr (remote (connID conn))])])"

definition OnStop ::
  "(u64 \<Rightarrow> string) \<Rightarrow> tcpConn \<Rightarrow> info_call list \<Rightarrow> (unit, tcpConn \<times> info_call list) res" where
  "OnStop remote conn s =
     Ok (conn, s @ [(''conn %d is stop active %d, remote %s'',
                     [FInt (uint (connID conn)), FStr (remote (connID conn))])])"

text \<open>The type assertion on the message panics on another type; the error of the answer is dropped.\<close>

definition OnLogin ::
  "(string \<rightharpoonup> (CSHead, SCHead, csmsg) CSCodec) \<Rightarrow> u32 \<Rightarrow> (info_call list \<Rightarrow> int) \<Rightarrow> tcpConn \<Rightarrow> CSHead \<Rightarrow> csmsg
    \<Rightarrow> info_call list \<Rightarrow> (unit, tcpConn \<times> info_call list) res" where
  "OnLogin codecs idle now conn header msg s =
     (let s = s @ [(''header msg_id %d seq_id %d'',
                    [FInt (sint (CSHead.Msgid header)), FInt (sint (CSHead.Seqid header))])]
      in case msg of
           P_CS_LOGIN loginMsg \<Rightarrow>
             let s = s @ [(''login msg is %s'', [FStr (Name loginMsg)])];
                 rspHeader = \<lparr>SCHead.Msgid = CSHead.Msgid header, Seqid = CSHead.Seqid header + 1\<rparr>;
                 rsp = \<lparr>Success = 1\<rparr>
             in (case SendToClient codecs idle (now s) conn rspHeader (P_SC_LOGIN rsp) of
                   (Panic, conn) \<Rightarrow> Panic
                 | (_, conn) \<Rightarrow> Ok (conn, s))
         | _ \<Rightarrow> Panic)"

definition TestModule_Init ::
  "('e ServiceDesc \<Rightarrow> 'e EchoService \<Rightarrow> 'srv \<Rightarrow> 'srv option) \<Rightarrow> (u64 \<Rightarrow> string)
    \<Rightarrow> (string \<rightharpoonup> (CSHead, SCHead, csmsg) CSCodec) \<Rightarrow> u32 \<Rightarrow> (info_call list \<Rightarrow> int)
    \<Rightarrow> ('h, 'c, 'q, 'r) inst plugin_lookup \<Rightarrow> 'srv example \<Rightarrow> (string, unit) res \<times> 'srv example" where
  "TestModule_Init register remote codecs idle now look w =
     (let w = w\<lparr>tm := (tm w)\<lparr>testValue := 1\<rparr>\<rparr>
      in case look ''rpc'' ''trpc'' of
           Some (TrpcInst r) \<Rightarrow>
             (case RegisterEchoService register echoServiceImpl_Echo (services w (GetServer r)) of
                Ok srv \<Rightarrow>
                  let w = w\<lparr>services := (services w)(GetServer r := srv)\<rparr>;
                      mgr = snd (RegisterClientMsgHandler CSMessageID_cs_login (OnLogin codecs idle now) (msgmgr w));
                      mgr = snd (RegisterConnMsgHandler CONN_EVENT_START (OnStart remote) mgr);
                      mgr = snd (RegisterConnMsgHandler CONN_EVENT_STOP (OnStop remote) mgr)
                  in (Ok (), w\<lparr>msgmgr := mgr, infos := infos w @ [(''test module init'', [])]\<rparr>)
              | _ \<Rightarrow> (Panic, w))
         | _ \<Rightarrow> (Panic, w))"

definition TestModule_UnInit :: "'p plugin_lookup \<Rightarrow> 'srv example \<Rightarrow> (string, unit) res \<times> 'srv example" where
  "TestModule_UnInit look w = (Ok (), w\<lparr>infos := infos w @ [(''test module uninit'', [])]\<rparr>)"

definition TestModule_Mainloop :: "'srv example \<Rightarrow> 'srv example" where
  "TestModule_Mainloop w = w"

definition TestModule_OnReload :: "'srv example \<Rightarrow> 'srv example" where
  "TestModule_OnReload w = w\<lparr>infos := infos w @ [(''test module reload'', [])]\<rparr>"

definition TestModule_IsPreInit :: bool where "TestModule_IsPreInit = True"

definition TestModule_GetName :: string where "TestModule_GetName = ''test_module''"

text \<open>The module as the application sees it; the \<open>init\<close> function of its package registers it.\<close>

definition test_module ::
  "('e ServiceDesc \<Rightarrow> 'e EchoService \<Rightarrow> 'srv \<Rightarrow> 'srv option) \<Rightarrow> (u64 \<Rightarrow> string)
    \<Rightarrow> (string \<rightharpoonup> (CSHead, SCHead, csmsg) CSCodec) \<Rightarrow> u32 \<Rightarrow> (info_call list \<Rightarrow> int)
    \<Rightarrow> (('h, 'c, 'q, 'r) inst, 'srv example) ServerModule" where
  "test_module register remote codecs idle now =
     \<lparr>m_Init = TestModule_Init register remote codecs idle now, m_UnInit = TestModule_UnInit,
      m_Mainloop = TestModule_Mainloop, m_IsPreInit = TestModule_IsPreInit, m_GetName = TestModule_GetName,
      m_OnReload = TestModule_OnReload\<rparr>"

section \<open>The client\<close>

text \<open>The request the client builds: two sizes, the header, the body.\<close>

definition client_request :: "proto_lib \<Rightarrow> CSHead \<Rightarrow> CS_LOGIN \<Rightarrow> (unit, byte list) res" where
  "client_request lib header msg =
     (case proto_Marshal lib (P_CSHead header) of
        None \<Rightarrow> Fail ()
      | Some sendHeaderData \<Rightarrow>
          (case proto_Marshal lib (P_CS_LOGIN msg) of
             None \<Rightarrow> Fail ()
           | Some sendData \<Rightarrow>
               res_bind (go_make (8 + int (length sendHeaderData) + int (length sendData))) (\<lambda>sendBuff.
               let sendHeaderSize = length sendHeaderData;
                   sendBodySize = length sendData
               in res_bind (LE_PutUint32 sendBuff 0 (word_of_nat sendHeaderSize)) (\<lambda>sendBuff.
                  res_bind (LE_PutUint32 sendBuff 4 (word_of_nat sendBodySize)) (\<lambda>sendBuff.
                  res_bind (go_copy sendBuff 8 sendHeaderData) (\<lambda>(n, sendBuff).
                  res_bind (go_copy sendBuff (8 + sendHeaderSize) sendData) (\<lambda>(n, sendBuff).
                    Ok sendBuff)))))))"

record client_out =
  out_HeaderSize :: u32
  out_BodySize :: u32
  read_len :: nat
  out_header :: SCHead
  out_msg :: SC_LOGIN

text \<open>
  What the client makes of the bytes that its one \<open>Read\<close> gets (none when it fails); the sums in
  the slice expressions are 32 bits wide.
\<close>

definition client_reply :: "proto_lib \<Rightarrow> byte list \<Rightarrow> (unit, client_out) res" where
  "client_reply lib got =
     (let n = min 512 (length got);
          recvBuff = take 512 got @ replicate (512 - length got) 0
      in res_bind (go_slice recvBuff 0 4) (\<lambda>b.
         res_bind (LE_Uint32 b) (\<lambda>recvHeaderSize.
         res_bind (go_slice recvBuff 4 8) (\<lambda>b.
         res_bind (LE_Uint32 b) (\<lambda>recvBodySize.
         res_bind (go_slice recvBuff 8 (unat (8 + recvHeaderSize))) (\<lambda>hb.
           case proto_Unmarshal lib T_SCHead hb of
             Some (P_SCHead recvHeader) \<Rightarrow>
               res_bind (go_slice recvBuff (unat (8 + recvHeaderSize)) (unat (8 + recvHeaderSize + recvBodySize))) (\<lambda>mb.
                 case proto_Unmarshal lib T_SC_LOGIN mb of
                   Some (P_SC_LOGIN recvMsg) \<Rightarrow>
                     Ok \<lparr>out_HeaderSize = recvHeaderSize, out_BodySize = recvBodySize, read_len = n,
                         out_header = recvHeader, out_msg = recvMsg\<rparr>
                 | _ \<Rightarrow> Fail ())
           | _ \<Rightarrow> Fail ()))))))"

definition client_header :: CSHead where
  "client_header = \<lparr>CSHead.Msgid = word_of_int CSMessageID_cs_login, Seqid = 1\<rparr>"

definition client_login :: CS_LOGIN where
  "client_login = \<lparr>Name = ''test client'', Sex = ''male'', Account = Some \<lparr>Id = 100, Num = 10\<rparr>\<rparr>"

text \<open>
  The client as a whole: what it wrote, and how it ends.  \<open>answer\<close> is what its \<open>Read\<close> gets after it
  has written the given bytes.
\<close>

definition client_main ::
  "proto_lib \<Rightarrow> bool \<Rightarrow> (byte list \<Rightarrow> byte list) \<Rightarrow> byte list \<times> (unit, client_out) res" where
  "client_main lib dial_ok answer =
     (if \<not> dial_ok then ([], Fail ())
      else case client_request lib client_header client_login of
             Fail err \<Rightarrow> ([], Fail err)
           | Panic \<Rightarrow> ([], Panic)
           | Ok sendBuff \<Rightarrow> (sendBuff, client_reply lib (answer sendBuff)))"

section \<open>Handlers that answer\<close>

text \<open>
  A connection after a handler has written \<open>bs\<close> to its peer.  A handler answers packets with a
  function when, on a connection whose peer takes everything, it returns and writes just that.
\<close>

definition answered :: "tcpConn \<Rightarrow> byte list \<Rightarrow> tcpConn \<Rightarrow> bool" where
  "answered c bs c' \<longleftrightarrow> same_stream c c' \<and> writable c' \<and> peer_got c' = peer_got c @ bs"

definition handler_answers ::
  "(byte list \<Rightarrow> bool) \<Rightarrow> 's EventHandler \<Rightarrow> (byte list \<Rightarrow> byte list) \<Rightarrow> (conn_event \<Rightarrow> 's \<Rightarrow> 's) \<Rightarrow> bool" where
  "handler_answers P h reply upd \<longleftrightarrow>
     (\<forall>c s. writable c \<longrightarrow> (\<exists>c'. OnConnOpened h c s = Ok (c', upd (Opened (connID c)) s) \<and> answered c [] c'))
   \<and> (\<forall>c s act. writable c \<longrightarrow>
        (\<exists>c'. OnConnClosed h c act s = Ok (c', upd (Closed (connID c) act) s) \<and> answered c [] c'))
   \<and> (\<forall>c s pkg. writable c \<longrightarrow> P pkg \<longrightarrow>
        (\<exists>c'. OnData h c pkg s = Ok (c', upd (Data (connID c) pkg) s) \<and> answered c (reply pkg) c'))"

lemma writable_fields [simp]:
  "writable (setReadTimeout idle now c) = writable c"
  "writable (c\<lparr>reader := segs\<rparr>) = writable c"
  "peer_got (setReadTimeout idle now c) = peer_got c"
  by (simp_all add: writable_def setReadTimeout_def)

lemma Send_answered:
  assumes "writable c" and "encode data = Ok f"
  shows "\<exists>c'. Send encode idle now data c = (Ok (), c') \<and> answered c f c'"
proof -
  let ?c = "setWriteTimeout idle now c"
  from assms(1) obtain c' where w: "bufio_Write f ?c = (False, c')"
    and fl: "bufio_Flush c' = ?c\<lparr>peer_got := peer_got ?c @ f\<rparr>"
    by (auto simp: writable_def intro: bufio_Write_open [of ?c f])
  have "answered c f (?c\<lparr>peer_got := peer_got ?c @ f\<rparr>)"
    using assms(1) by (simp add: answered_def writable_def same_stream_def) (simp add: setWriteTimeout_def)
  with assms(2) w fl show ?thesis by (simp add: Send_def)
qed

context frame_codec
begin

lemma Recv_loop_answers:
  assumes "handler_answers P h reply upd" and "list_all well_formed ps" and "list_all P ps"
    and "map encode ps = map Ok fs" and "avail (reader c) = concat fs"
    and "first_err (reader c) = Some e" and "\<not> cancelled c" and "writable c"
    and "list_all quiet ts" and "length ps < length ts"
  shows "\<exists>c'. Recv_loop decode h idle ts c s = Some (Ok (c', fold upd (map (Data (connID c)) ps) s))
    \<and> connID c' = connID c \<and> writable c' \<and> peer_got c' = peer_got c @ concat (map reply ps)"
  using assms
proof (induction ts arbitrary: ps fs c s)
  case (Cons t ts)
  let ?c = "setReadTimeout idle (clock t) c"
  from Cons.prems have q: "\<not> ctxDone t" "\<not> cancledElsewhere t" by (auto simp: quiet_def)
  show ?case
  proof (cases ps)
    case Nil
    with Cons.prems have "avail (reader c) = []" by simp
    from decode_end [OF this] Cons.prems(6) obtain e' segs where
      "decode (reader c) = Some (Fail e', segs)" by auto
    with Nil q Cons.prems(7,8) show ?thesis by simp
  next
    case (Cons p ps')
    note ps = this
    with Cons.prems(4) obtain f fs' where fs: "fs = f # fs'" "encode p = Ok f"
      "map encode ps' = map Ok fs'" by (cases fs) auto
    from Cons.prems(2,3) ps have wf: "well_formed p" "P p" "list_all well_formed ps'" "list_all P ps'"
      by simp_all
    from Cons.prems(5) fs(1) have "avail (reader c) = f @ concat fs'" by simp
    with decode_encode [OF wf(1) fs(2)] obtain segs where
      segs: "decode (reader c) = Some (Ok p, segs)" "avail segs = concat fs'"
        "first_err segs = first_err (reader c)" by blast
    have "writable (?c\<lparr>reader := segs\<rparr>)" using Cons.prems(8) by simp
    with Cons.prems(1) wf(2) obtain c1 where
      c1: "OnData h (?c\<lparr>reader := segs\<rparr>) p s = Ok (c1, upd (Data (connID (?c\<lparr>reader := segs\<rparr>)) p) s)"
        "answered (?c\<lparr>reader := segs\<rparr>) (reply p) c1"
      unfolding handler_answers_def by blast
    from c1(2) segs Cons.prems(6,7) have "avail (reader c1) = concat fs'"
      "first_err (reader c1) = Some e" "\<not> cancelled c1" "writable c1" "connID c1 = connID c"
      "peer_got c1 = peer_got c @ reply p"
      by (simp_all add: answered_def same_stream_def)
    moreover from Cons.prems(9,10) ps have "list_all quiet ts" "length ps' < length ts" by simp_all
    ultimately show ?thesis
      using Cons.IH [OF Cons.prems(1) wf(3,4) fs(3), of c1 "upd (Data (connID c) p) s"]
        q Cons.prems(7) segs(1) c1(1) ps by auto
  qed
qed simp

lemma Recv_answers:
  assumes "handler_answers P h reply upd" and "list_all well_formed ps" and "list_all P ps"
    and "map encode ps = map Ok fs" and "avail (reader c) = concat fs"
    and "first_err (reader c) = Some e" and "\<not> cancelled c" and "writable c"
    and "list_all quiet ts" and "length ps < length ts"
  shows "\<exists>c'. Recv decode h idle ts c s
      = Some (Ok (c', fold upd (Opened (connID c) # map (Data (connID c)) ps @ [Closed (connID c) False]) s))
    \<and> peer_got c' = peer_got c @ concat (map reply ps)"
proof -
  obtain c1 where c1: "OnConnOpened h c s = Ok (c1, upd (Opened (connID c)) s)" "answered c [] c1"
    using assms(1,8) unfolding handler_answers_def by blast
  from c1(2) assms(5-7) have "avail (reader c1) = concat fs" "first_err (reader c1) = Some e"
    "\<not> cancelled c1" "writable c1" "connID c1 = connID c" "peer_got c1 = peer_got c"
    by (simp_all add: answered_def same_stream_def)
  with Recv_loop_answers [OF assms(1-4), of c1 e ts idle "upd (Opened (connID c)) s"] assms(9,10)
  obtain c2 where c2: "Recv_loop decode h idle ts c1 (upd (Opened (connID c)) s)
      = Some (Ok (c2, fold upd (map (Data (connID c)) ps) (upd (Opened (connID c)) s)))"
    "connID c2 = connID c" "writable c2" "peer_got c2 = peer_got c @ concat (map reply ps)"
    by auto
  have flush: "bufio_Flush c2 = c2" using c2(3) by (simp add: bufio_Flush_def writable_def)
  obtain c3 where "OnConnClosed h c2 False (fold upd (map (Data (connID c)) ps) (upd (Opened (connID c)) s))
      = Ok (c3, upd (Closed (connID c2) False) (fold upd (map (Data (connID c)) ps) (upd (Opened (connID c)) s)))"
    "answered c2 [] c3"
    using assms(1) c2(3) unfolding handler_answers_def by blast
  with c1(1) c2 flush show ?thesis by (simp add: Recv_def Close_def answered_def)
qed

end

section \<open>The login handler\<close>

text \<open>The answer to a login with the given header, as one frame.\<close>

definition login_rsp_header :: "CSHead \<Rightarrow> SCHead" where
  "login_rsp_header h = \<lparr>SCHead.Msgid = CSHead.Msgid h, Seqid = CSHead.Seqid h + 1\<rparr>"

definition login_answer :: "proto_lib \<Rightarrow> CSHead \<Rightarrow> byte list" where
  "login_answer lib h =
     (case (proto_Marshal lib (P_SCHead (login_rsp_header h)), proto_Marshal lib (P_SC_LOGIN \<lparr>Success = 1\<rparr>)) of
        (Some hb, Some mb) \<Rightarrow> frame (word_of_nat (length hb)) (word_of_nat (length mb)) (hb @ mb)
      | _ \<Rightarrow> [])"

text \<open>The lines the handlers log.\<close>

definition conn_line :: "(u64 \<Rightarrow> string) \<Rightarrow> int \<Rightarrow> u64 \<Rightarrow> info_call" where
  "conn_line remote k i =
     (if k = CONN_EVENT_START then ''conn %d is start, remote %s'' else ''conn %d is stop active %d, remote %s'',
      [FInt (uint i), FStr (remote i)])"

definition login_lines :: "CSHead \<Rightarrow> csmsg \<Rightarrow> info_call list" where
  "login_lines h msg =
     (''header msg_id %d seq_id %d'', [FInt (sint (CSHead.Msgid h)), FInt (sint (CSHead.Seqid h))])
     # (case msg of P_CS_LOGIN l \<Rightarrow> [(''login msg is %s'', [FStr (Name l)])] | _ \<Rightarrow> [])"

lemma OnLogin_answers:
  assumes "protobuf_runtime lib" and "writable c"
  shows "\<exists>c'. OnLogin (codec_init (csproto_pb lib) codecs) idle now c h (P_CS_LOGIN l) s
      = Ok (c', s @ login_lines h (P_CS_LOGIN l)) \<and> answered c (login_answer lib h) c'"
proof -
  obtain hb where hb: "proto_Marshal lib (P_SCHead (login_rsp_header h)) = Some hb" "length hb \<le> 22"
    by (rule proto_SCHead [OF assms(1)])
  obtain mb where mb: "proto_Marshal lib (P_SC_LOGIN \<lparr>Success = 1\<rparr>) = Some mb" "length mb \<le> 11"
    by (rule proto_SC_LOGIN [OF assms(1)])
  have enc: "DefaultCSCodec_Encode (csproto_pb lib) (login_rsp_header h) (P_SC_LOGIN \<lparr>Success = 1\<rparr>)
      = Ok (packet hb mb)"
    using hb mb by (simp add: DefaultCSCodec_Encode_eq csproto_pb_def maxBuffSize_def)
  have "Encode (packet hb mb) = Ok (login_answer lib h)"
    using hb mb by (simp add: Encode_packet login_answer_def)
  from Send_answered [where encode = Encode, OF assms(2) this, of idle
      "now (s @ login_lines h (P_CS_LOGIN l))"] enc
  show ?thesis
    by (auto simp: OnLogin_def SendToClient_def login_lines_def login_rsp_header_def Let_def)
qed

text \<open>What a successful \<open>Init\<close> leaves in the tables of an application that had none.\<close>

lemma TestModule_Init_handlers:
  assumes "TestModule_Init register remote codecs idle now look w = (Ok (), w')" and "msgmgr w = msgHandlerMgr"
  shows "msgmgr w' = \<lparr>connEventHandler = [CONN_EVENT_START \<mapsto> OnStart remote, CONN_EVENT_STOP \<mapsto> OnStop remote],
    clientMsgHandler = [CSMessageID_cs_login \<mapsto> OnLogin codecs idle now], serverMsgHandler = Map.empty\<rparr>"
  using assms
  by (auto simp: TestModule_Init_def msgHandlerMgr_def RegisterClientMsgHandler_def RegisterConnMsgHandler_def
      CONN_EVENT_START_def CONN_EVENT_STOP_def Let_def
      split: option.splits inst.splits res.splits)

text \<open>The packets that carry a login.\<close>

definition login_packet :: "proto_lib \<Rightarrow> byte list \<Rightarrow> bool" where
  "login_packet lib pkg \<longleftrightarrow>
     (\<exists>h l. DefaultCSCodec_Decode (csproto_pb lib) pkg = Ok (Some (h, P_CS_LOGIN l))
        \<and> sint (CSHead.Msgid h) = CSMessageID_cs_login)"

definition packet_answer :: "proto_lib \<Rightarrow> byte list \<Rightarrow> byte list" where
  "packet_answer lib pkg =
     (case DefaultCSCodec_Decode (csproto_pb lib) pkg of
        Ok (Some (h, msg)) \<Rightarrow> login_answer lib h
      | _ \<Rightarrow> [])"

definition packet_lines :: "proto_lib \<Rightarrow> byte list \<Rightarrow> info_call list" where
  "packet_lines lib pkg =
     (case DefaultCSCodec_Decode (csproto_pb lib) pkg of
        Ok (Some (h, msg)) \<Rightarrow> login_lines h msg
      | _ \<Rightarrow> [])"

definition example_event :: "proto_lib \<Rightarrow> (u64 \<Rightarrow> string) \<Rightarrow> conn_event \<Rightarrow> info_call list \<Rightarrow> info_call list" where
  "example_event lib remote e s =
     s @ (case e of
            Opened i \<Rightarrow> [conn_line remote CONN_EVENT_START i]
          | Data i pkg \<Rightarrow> packet_lines lib pkg
          | Closed i act \<Rightarrow> [conn_line remote CONN_EVENT_STOP i])"

lemma fold_example_event:
  "fold (example_event lib remote) (map (Data i) ps) s = s @ concat (map (packet_lines lib) ps)"
  by (induction ps arbitrary: s) (simp_all add: example_event_def)

lemma example_answers:
  assumes lib: "protobuf_runtime lib"
    and init: "TestModule_Init register remote (codec_init (csproto_pb lib) codecs) idle now look w = (Ok (), w')"
    and "msgmgr w = msgHandlerMgr"
  shows "handler_answers (login_packet lib) (eventTcp (csproto_pb lib) (codec_init (csproto_pb lib) codecs) (msgmgr w'))
    (packet_answer lib) (example_event lib remote)"
proof -
  note mgr = TestModule_Init_handlers [OF init assms(3)]
  show ?thesis
    unfolding handler_answers_def
  proof (intro conjI allI impI)
    fix c s pkg assume c: "writable c" and pkg: "login_packet lib pkg"
    from pkg obtain h l where dec: "DefaultCSCodec_Decode (csproto_pb lib) pkg = Ok (Some (h, P_CS_LOGIN l))"
      and id: "sint (CSHead.Msgid h) = CSMessageID_cs_login"
      by (auto simp: login_packet_def)
    from id have "GetMsgid (csproto_pb lib) h = CSMessageID_cs_login"
      by (simp add: csproto_pb_def CSHead_GetMsgid_def)
    with OnLogin_answers [OF lib c, of codecs idle now h l s] dec
    show "\<exists>c'. OnData (eventTcp (csproto_pb lib) (codec_init (csproto_pb lib) codecs) (msgmgr w')) c pkg s
        = Ok (c', example_event lib remote (Data (connID c) pkg) s) \<and> answered c (packet_answer lib pkg) c'"
      by (simp add: eventTcp_def RecvClientMsg_def mgr example_event_def packet_lines_def packet_answer_def)
  qed (auto simp: eventTcp_def OnClientConnOpened_def OnClientConnClosed_def mgr OnStart_def OnStop_def
      example_event_def conn_line_def CONN_EVENT_START_def CONN_EVENT_STOP_def answered_def)
qed

section \<open>Requests and replies\<close>

lemma client_request_frame:
  assumes "proto_Marshal lib (P_CSHead h) = Some hb" and "proto_Marshal lib (P_CS_LOGIN l) = Some mb"
  shows "client_request lib h l = Ok (frame (word_of_nat (length hb)) (word_of_nat (length mb)) (hb @ mb))"
proof -
  let ?p = "LE_bytes (word_of_nat (length hb)) @ LE_bytes (word_of_nat (length mb))"
  have "nat (8 + int (length hb) + int (length mb)) = 8 + (length hb + length mb)" by simp
  moreover have "go_copy (?p @ replicate (length hb + length mb) 0) 8 hb
      = (Ok (length hb, (?p @ hb) @ replicate (length mb) 0) :: (unit, nat \<times> byte list) res)"
    by (subst go_copy_append) simp_all
  moreover have "go_copy ((?p @ hb) @ replicate (length mb) 0) (8 + length hb) mb
      = (Ok (length mb, ?p @ hb @ mb) :: (unit, nat \<times> byte list) res)"
    by (subst go_copy_append) simp_all
  ultimately show ?thesis
    using assms by (simp add: client_request_def go_make_def LE_PutUint32_def frame_def)
qed

text \<open>The request is the frame of a packet that the server decodes to the login.\<close>

lemma client_request_packet:
  assumes lib: "protobuf_runtime lib" and req: "client_request lib h l = Ok f" and "length f < 2 ^ 32"
    and id: "sint (CSHead.Msgid h) = CSMessageID_cs_login"
  obtains p where "packet_ok p" and "Encode p = Ok f"
    and "DefaultCSCodec_Decode (csproto_pb lib) p = Ok (Some (h, P_CS_LOGIN l))"
proof -
  from req obtain hb mb where hb: "proto_Marshal lib (P_CSHead h) = Some hb"
    and mb: "proto_Marshal lib (P_CS_LOGIN l) = Some mb"
    by (auto simp: client_request_def split: option.splits)
  with client_request_frame [OF hb mb] req
  have f: "f = frame (word_of_nat (length hb)) (word_of_nat (length mb)) (hb @ mb)" by simp
  with assms(3) have len: "length hb + length mb < 2 ^ 32 - 4" by simp
  show ?thesis
    by (rule that [OF packet_packet_ok [OF len]])
      (simp_all add: Encode_packet [OF len] f DefaultCSCodec_Decode_packet [OF len]
        login_decodes [OF lib hb mb id])
qed

lemma client_requests_packets:
  assumes lib: "protobuf_runtime lib"
    and "map (\<lambda>(h, l). client_request lib h l) reqs = map Ok fs" and "list_all (\<lambda>f. length f < 2 ^ 32) fs"
    and "list_all (\<lambda>(h, l). sint (CSHead.Msgid h) = CSMessageID_cs_login) reqs"
  shows "\<exists>ps. list_all packet_ok ps \<and> map Encode ps = map Ok fs \<and> length ps = length reqs
    \<and> map (DefaultCSCodec_Decode (csproto_pb lib)) ps = map (\<lambda>(h, l). Ok (Some (h, P_CS_LOGIN l))) reqs"
  using assms(2-4)
proof (induction reqs arbitrary: fs)
  case (Cons r reqs)
  obtain h l where r: "r = (h, l)" by (cases r)
  with Cons.prems obtain f fs' where fs: "fs = f # fs'" and f: "client_request lib h l = Ok f" "length f < 2 ^ 32"
    and rest: "map (\<lambda>(h, l). client_request lib h l) reqs = map Ok fs'" "list_all (\<lambda>f. length f < 2 ^ 32) fs'"
      "list_all (\<lambda>(h, l). sint (CSHead.Msgid h) = CSMessageID_cs_login) reqs"
    and id: "sint (CSHead.Msgid h) = CSMessageID_cs_login"
    by (cases fs) auto
  obtain p where p: "packet_ok p" "Encode p = Ok f"
    "DefaultCSCodec_Decode (csproto_pb lib) p = Ok (Some (h, P_CS_LOGIN l))"
    using client_request_packet [OF lib f id] .
  obtain ps where ps: "list_all packet_ok ps" "map Encode ps = map Ok fs'" "length ps = length reqs"
    "map (DefaultCSCodec_Decode (csproto_pb lib)) ps = map (\<lambda>(h, l). Ok (Some (h, P_CS_LOGIN l))) reqs"
    using Cons.IH [OF rest] by blast
  show ?case by (rule exI [of _ "p # ps"]) (use p ps r fs in simp)
qed simp

lemma packets_of_logins:
  assumes "map (DefaultCSCodec_Decode (csproto_pb lib)) ps = map (\<lambda>(h, l). Ok (Some (h, P_CS_LOGIN l))) reqs"
    and "list_all (\<lambda>(h, l). sint (CSHead.Msgid h) = CSMessageID_cs_login) reqs"
  shows "list_all (login_packet lib) ps"
    and "map (packet_answer lib) ps = map (\<lambda>(h, l). login_answer lib h) reqs"
    and "map (packet_lines lib) ps = map (\<lambda>(h, l). login_lines h (P_CS_LOGIN l)) reqs"
proof -
  have "list_all (login_packet lib) ps
    \<and> map (packet_answer lib) ps = map (\<lambda>(h, l). login_answer lib h) reqs
    \<and> map (packet_lines lib) ps = map (\<lambda>(h, l). login_lines h (P_CS_LOGIN l)) reqs"
    using assms
  proof (induction reqs arbitrary: ps)
    case (Cons r reqs)
    then obtain p ps' where "ps = p # ps'" by (cases ps) auto
    with Cons show ?case
      by (cases r) (simp add: login_packet_def packet_answer_def packet_lines_def)
  qed simp
  then show "list_all (login_packet lib) ps"
    and "map (packet_answer lib) ps = map (\<lambda>(h, l). login_answer lib h) reqs"
    and "map (packet_lines lib) ps = map (\<lambda>(h, l). login_lines h (P_CS_LOGIN l)) reqs"
    by blast+
qed

text \<open>The client's buffer of 512 bytes holds the whole answer.\<close>

lemma client_reply_answer:
  assumes lib: "protobuf_runtime lib"
  shows "\<exists>out. client_reply lib (login_answer lib h) = Ok out
    \<and> out_header out = login_rsp_header h \<and> out_msg out = \<lparr>Success = 1\<rparr>
    \<and> read_len out = length (login_answer lib h)"
proof -
  obtain hb where hb: "proto_Marshal lib (P_SCHead (login_rsp_header h)) = Some hb" "length hb \<le> 22"
    by (rule proto_SCHead [OF lib])
  obtain mb where mb: "proto_Marshal lib (P_SC_LOGIN \<lparr>Success = 1\<rparr>) = Some mb" "length mb \<le> 11"
    by (rule proto_SC_LOGIN [OF lib])
  let ?hs = "word_of_nat (length hb) :: u32" and ?bs = "word_of_nat (length mb) :: u32"
  have ans: "login_answer lib h = LE_bytes ?hs @ LE_bytes ?bs @ hb @ mb"
    using hb mb by (simp add: login_answer_def frame_def)
  have n1: "unat (8 + ?hs) = 8 + length hb"
    using hb(2) unat_word_of_nat_u32 [of "8 + length hb"] by simp
  have n2: "unat (8 + ?hs + ?bs) = 8 + length hb + length mb"
    using hb(2) mb(2) unat_word_of_nat_u32 [of "8 + length hb + length mb"] by simp
  have un: "proto_Unmarshal lib T_SCHead hb = Some (P_SCHead (login_rsp_header h))"
    "proto_Unmarshal lib T_SC_LOGIN mb = Some (P_SC_LOGIN \<lparr>Success = 1\<rparr>)"
    using proto_roundtrip [OF lib hb(1)] proto_roundtrip [OF lib mb(1)] by simp_all
  show ?thesis
    using hb(2) mb(2) n1 n2 un by (simp add: client_reply_def ans go_slice_def)
qed

lemma login_answer_short:
  assumes lib: "protobuf_runtime lib"
  shows "length (login_answer lib h) \<le> 41"
proof -
  obtain hb where "proto_Marshal lib (P_SCHead (login_rsp_header h)) = Some hb" "length hb \<le> 22"
    by (rule proto_SCHead [OF lib])
  moreover obtain mb where "proto_Marshal lib (P_SC_LOGIN \<lparr>Success = 1\<rparr>) = Some mb" "length mb \<le> 11"
    by (rule proto_SC_LOGIN [OF lib])
  ultimately show ?thesis by (simp add: login_answer_def)
qed

lemma logins_answered:
  assumes "protobuf_runtime lib"
    and "TestModule_Init register remote (codec_init (csproto_pb lib) codecs) idle now look w = (Ok (), w')"
    and "msgmgr w = msgHandlerMgr"
    and "map (\<lambda>(h, l). client_request lib h l) reqs = map Ok fs" and "list_all (\<lambda>f. length f < 2 ^ 32) fs"
    and "list_all (\<lambda>(h, l). sint (CSHead.Msgid h) = CSMessageID_cs_login) reqs"
    and "avail (reader c) = concat fs" and "first_err (reader c) = Some e" and "\<not> cancelled c"
    and "writable c" and "list_all quiet ts" and "length reqs < length ts"
  shows "\<exists>c'. Recv Decode (eventTcp (csproto_pb lib) (codec_init (csproto_pb lib) codecs) (msgmgr w')) idle' ts c s
      = Some (Ok (c', s @ conn_line remote CONN_EVENT_START (connID c)
          # concat (map (\<lambda>(h, l). login_lines h (P_CS_LOGIN l)) reqs)
          @ [conn_line remote CONN_EVENT_STOP (connID c)]))
    \<and> peer_got c' = peer_got c @ concat (map (\<lambda>(h, l). login_answer lib h) reqs)"
proof -
  obtain ps where ps: "list_all packet_ok ps" "map Encode ps = map Ok fs" "length ps = length reqs"
    "map (DefaultCSCodec_Decode (csproto_pb lib)) ps = map (\<lambda>(h, l). Ok (Some (h, P_CS_LOGIN l))) reqs"
    using client_requests_packets [OF assms(1,4,5,6)] by blast
  note of_logins = packets_of_logins [OF ps(4) assms(6)]
  have "length ps < length ts" using ps(3) assms(12) by simp
  from default_codec.Recv_answers [OF example_answers [OF assms(1-3)] ps(1) of_logins(1) ps(2)
      assms(7-11) this, of idle' s]
  show ?thesis
    by (simp add: fold_example_event of_logins(2,3))
      (simp add: example_event_def)
qed

section \<open>Properties\<close>

text \<open>
  The server's side of a connection as a function from what the client writes, cut into segments
  by \<open>seg\<close>, to what the client's one \<open>Read\<close> gets: the first \<open>k\<close> bytes of what the server writes on the
  connection.  The network may cut the answer anywhere, so \<open>k\<close> need not be all of it.  The server
  calls the handler for a packet before it decodes the next one, so that what it writes does not
  depend on when and how the stream ends later.
\<close>

definition served ::
  "proto_lib \<Rightarrow> (string \<rightharpoonup> (CSHead, SCHead, csmsg) CSCodec) \<Rightarrow> (CSHead, csmsg, info_call list) MsgHandlerMgr
    \<Rightarrow> u32 \<Rightarrow> tick list \<Rightarrow> (byte list \<Rightarrow> segment list) \<Rightarrow> tcpConn \<Rightarrow> info_call list \<Rightarrow> nat \<Rightarrow> byte list
    \<Rightarrow> byte list" where
  "served lib codecs mgr idle ts seg c s k sent =
     (case Recv Decode (eventTcp (csproto_pb lib) codecs mgr) idle ts (c\<lparr>reader := seg sent\<rparr>) s of
        Some (Ok (c', s')) \<Rightarrow> take k (peer_got c')
      | _ \<Rightarrow> [])"


text \<open>An application with the trpc plugin, and a connection of it.\<close>

definition demo_lib :: proto_lib where
  "demo_lib = le_lib client_login [7, 7]"

definition demo_lookup :: "(unit, unit, unit, unit) inst plugin_lookup" where
  "demo_lookup = lookup_of (registerPluginInst (constructPluginKey ''rpc'' ''trpc'') (TrpcInst \<lparr>ts_s = 0\<rparr>)
     (no_plugins () :: (nat, (unit, unit, unit, unit) inst, unit) plugins))"

definition demo_example :: "unit services example" where
  "demo_example = \<lparr>transInst = None, ServerConfigPath = [], trpc_servers = 0, trpc_serving = [], trpc_closed = [],
     tm = \<lparr>testValue = 0\<rparr>, services = (\<lambda>_. Map.empty), msgmgr = msgHandlerMgr, infos = []\<rparr>"

abbreviation demo_init :: "(string, unit) res \<times> unit services example" where
  "demo_init \<equiv> TestModule_Init map_register (\<lambda>i. ''peer'') (codec_init (csproto_pb demo_lib) Map.empty) 30
     (\<lambda>s. 9) demo_lookup demo_example"

abbreviation demo_tick :: tick where
  "demo_tick \<equiv> \<lparr>ctxDone = False, cancledElsewhere = False, clock = 9\<rparr>"

lemma demo_init_ok: "\<exists>w'. demo_init = (Ok (), w')"
  by (simp add: TestModule_Init_def demo_lookup_def lookup_of_def demo_example_def GetPluginInst_def registerPluginInst_def
      RegisterEchoService_def map_register_def no_plugins_def Let_def)

lemma demo_lib_runtime: "protobuf_runtime demo_lib"
  by (simp add: demo_lib_def le_lib_runtime)

lemma demo_lib_marshal: "proto_Marshal demo_lib (P_CS_LOGIN client_login) = Some [7, 7]"
  by (simp add: demo_lib_def le_lib_def)

lemma demo_request:
  obtains f where "client_request demo_lib client_header client_login = Ok f" and "length f < 2 ^ 32"
proof -
  define hb where "hb = le_pair 1 1"
  have hb: "proto_Marshal demo_lib (P_CSHead client_header) = Some hb"
    by (simp add: demo_lib_def le_lib_def client_header_def CSMessageID_cs_login_def hb_def)
  define f where "f = frame (word_of_nat (length hb)) (word_of_nat (length [7, 7 :: byte])) (hb @ [7, 7])"
  have "client_request demo_lib client_header client_login = Ok f"
    unfolding f_def by (rule client_request_frame [OF hb demo_lib_marshal])
  moreover have "length f < 2 ^ 32" by (simp add: f_def hb_def)
  ultimately show ?thesis by (rule that)
qed


section \<open>Where the example is fragile\<close>

text \<open>
  \<open>Init\<close> ends the process unless the \<open>rpc\<close> plugin \<open>trpc\<close> is configured and takes the service: the
  type assertion is on what may be nil.
\<close>

theorem test_module_needs_trpc:
  "fst (TestModule_Init register remote codecs idle now look w) = Panic \<longleftrightarrow>
     \<not> (\<exists>r srv. look ''rpc'' ''trpc'' = Some (TrpcInst r)
          \<and> register EchoServer_ServiceDesc echoServiceImpl_Echo (services w (GetServer r)) = Some srv)"
  by (auto simp: TestModule_Init_def RegisterEchoService_def Let_def split: option.splits inst.splits)

text \<open>The verbs of a format string.\<close>

fun verbs :: "string \<Rightarrow> nat" where
  "verbs (c # d # cs) =
     (if c = CHR ''%'' then (if d = CHR ''%'' then verbs cs else Suc (verbs cs)) else verbs (d # cs))"
| "verbs cs = 0"

text \<open>The closing line has a verb more than it has arguments; the opening line has not.\<close>

theorem stop_line_lacks_argument:
  "verbs (fst (conn_line remote CONN_EVENT_STOP i)) = length (snd (conn_line remote CONN_EVENT_STOP i)) + 1
   \<and> verbs (fst (conn_line remote CONN_EVENT_START i)) = length (snd (conn_line remote CONN_EVENT_START i))"
  by (simp add: conn_line_def CONN_EVENT_START_def CONN_EVENT_STOP_def)

text \<open>
  The client reads once: when the answer arrives in two pieces, cut after the sizes, it hands the
  zeros of its buffer to the runtime, which refuses them (zero is not a field number), and the
  client reports a failure for a login that the server has accepted.
\<close>

lemma short_read_fails:
  assumes lib: "protobuf_runtime lib"
    and "proto_Marshal lib (P_SCHead (login_rsp_header h)) = Some hb" and "hb \<noteq> []"
    and zeros: "\<And>n. 0 < n \<Longrightarrow> proto_Unmarshal lib T_SCHead (replicate n 0) = None"
  shows "client_reply lib (take 8 (login_answer lib h)) = Fail ()"
proof -
  obtain mb where mb: "proto_Marshal lib (P_SC_LOGIN \<lparr>Success = 1\<rparr>) = Some mb"
    by (rule proto_SC_LOGIN [OF lib])
  have hb: "length hb \<le> 22" using proto_SCHead [OF lib, of "login_rsp_header h"] assms(2) by (metis option.inject)
  let ?hs = "word_of_nat (length hb) :: u32" and ?bs = "word_of_nat (length mb) :: u32"
  have ans: "take 8 (login_answer lib h) = LE_bytes ?hs @ LE_bytes ?bs"
    using assms(2) mb by (simp add: login_answer_def frame_def)
  have n1: "unat (8 + ?hs) = 8 + length hb"
    using hb unat_word_of_nat_u32 [of "8 + length hb"] by simp
  have "take (length hb) (replicate 504 (0 :: byte)) = replicate (length hb) 0"
    using hb by (simp add: min_def)
  then show ?thesis
    using hb n1 zeros [of "length hb"] assms(3) by (simp add: client_reply_def ans go_slice_def)
qed

end
