(* ===== verification/Example_Server.thy ===== *)
theory Example_Server
  imports Login
begin

text \<open>
  The example server's \<open>main\<close>, \<^verbatim>\<open>src/example/statelesssvr/server.go\<close>: the life of a server from
  \<open>Init\<close> to \<open>Fini\<close>, composed of the operations of \<open>App\<close>, and the message type \<open>EventMessage\<close> of that
  file; and the queue example, \<^verbatim>\<open>src/example/mq/test.go\<close>.  The message's \<open>PayLoad\<close>, which is the JSON encoding of the struct, is left out.
\<close>

section \<open>main\<close>

text \<open>
  The orders of the loops over Go maps that \<open>main\<close> comes to after \<open>Init\<close>: of \<open>plugin.Mainloop\<close>, of the
  two loops of \<open>Fini\<close>, of \<open>plugin.Destroy\<close>.  Those of \<open>Init\<close> are in the environment, those of frames and
  reloads in the events.
\<close>

record main_ranks =
  loops_rank :: rank
  fini_ranks :: "rank \<times> rank"
  destroy_rank :: rank

text \<open>\<open>None\<close>: the main loop runs still.  An error of \<open>Init\<close> panics, an error of \<open>Fini\<close> is logged.\<close>

definition server_main ::
  "('v, 'p, 'w) app_env \<Rightarrow> main_ranks \<Rightarrow> 'v loop_event list \<Rightarrow> ('v, 'p, 'w) serverApp
    \<Rightarrow> (app_outcome \<times> ('v, 'p, 'w) serverApp) option" where
  "server_main env ranks es s =
     (case App_Init env s of
        (Returned (Some err), s) \<Rightarrow> Some (Panicked, s)
      | (Returned None, s) \<Rightarrow>
          (case Mainloop (loops_rank ranks) es s of
             None \<Rightarrow> None
           | Some (Ok s) \<Rightarrow>
               (case Fini (fini_ranks ranks) (destroy_rank ranks) s of
                  (Returned err, s) \<Rightarrow> Some (Returned None, s)
                | (out, s) \<Rightarrow> Some (out, s))
           | Some _ \<Rightarrow> Some (Panicked, s))
      | (out, s) \<Rightarrow> Some (out, s))"

record EventMessage =
  UserId :: int
  FightId :: int
  EventType :: string
  AttackSum :: int

definition EventMessage_Partition :: "EventMessage \<Rightarrow> (unit, int) res" where
  "EventMessage_Partition e = Panic"

definition EventMessage_Key :: "EventMessage \<Rightarrow> string" where
  "EventMessage_Key e = FormatInt (UserId e)"

definition EventMessage_MetaInfo :: "EventMessage \<Rightarrow> string \<rightharpoonup> string" where
  "EventMessage_MetaInfo e =
     [''user_id'' \<mapsto> FormatInt (UserId e), ''fight_id'' \<mapsto> FormatInt (FightId e), ''event_type'' \<mapsto> EventType e]"

definition EventMessage_SeqID :: "EventMessage \<Rightarrow> int" where
  "EventMessage_SeqID e = 0"

definition EventMessage_SetSeqID :: "int \<Rightarrow> EventMessage \<Rightarrow> (unit, EventMessage) res" where
  "EventMessage_SetSeqID seqID e = Panic"

definition EventMessage_Topic :: "EventMessage \<Rightarrow> string" where
  "EventMessage_Topic e = ''test_kafka''"

text \<open>The receiver can read the two identifiers back from the message's attributes.\<close>

lemma event_meta_round_trip:
  assumes "- (2 ^ 63) \<le> UserId e" and "UserId e < 2 ^ 63" and "- (2 ^ 63) \<le> FightId e" and "FightId e < 2 ^ 63"
  shows "Option.bind (EventMessage_MetaInfo e ''user_id'') (ParseInt 64) = Some (UserId e)
    \<and> Option.bind (EventMessage_MetaInfo e ''fight_id'') (ParseInt 64) = Some (FightId e)
    \<and> ParseInt 64 (EventMessage_Key e) = Some (UserId e)"
  using assms ParseInt_FormatInt [of 64 "UserId e"] ParseInt_FormatInt [of 64 "FightId e"]
  by (simp add: EventMessage_MetaInfo_def EventMessage_Key_def)

section \<open>The queue example\<close>

text \<open>
  \<^verbatim>\<open>src/example/mq/test.go\<close>: the calls it makes on the pulsar driver, given what the driver answers;
  a message is its id.  \<open>log.Fatal\<close> ends the process without the deferred close.  A \<open>Receive\<close> that
  never returns is \<open>None\<close>, an error of it \<open>Some None\<close>.
\<close>

datatype driver_call =
    CreateProducerCall string | SubscribeCall string string | SendCall string | ProducerClose
  | ReceiveCall | AckCall string | ConsumerClose | ClientClose

datatype main_end = Blocked | Fatal | MainReturned

definition mq_test_main ::
  "bool \<Rightarrow> bool \<Rightarrow> bool \<Rightarrow> string option option \<Rightarrow> string option option \<Rightarrow> driver_call list \<times> main_end" where
  "mq_test_main client_ok producer_ok consumer_ok recv1 recv2 =
     (if \<not> client_ok then ([], Fatal)
      else if \<not> producer_ok then ([CreateProducerCall ''my-topic''], Fatal)
      else if \<not> consumer_ok then ([CreateProducerCall ''my-topic'', SubscribeCall ''my-topic'' ''my-sub''], Fatal)
      else
        let calls = [CreateProducerCall ''my-topic'', SubscribeCall ''my-topic'' ''my-sub'', SendCall ''hello'',
                     ProducerClose, ReceiveCall]
        in case recv1 of
             None \<Rightarrow> (calls, Blocked)
           | Some None \<Rightarrow> (calls, Fatal)
           | Some (Some msg) \<Rightarrow>
               let calls = calls @ [AckCall msg, ReceiveCall]
               in case recv2 of
                    None \<Rightarrow> (calls, Blocked)
                  | Some None \<Rightarrow> (calls, Fatal)
                  | Some (Some m) \<Rightarrow> (calls @ [AckCall msg, ConsumerClose, ClientClose], MainReturned))"

text \<open>A run to the end acknowledges the first message twice and the second not at all.\<close>

lemma second_message_not_acked:
  assumes "m1 \<noteq> m2"
  shows "snd (mq_test_main True True True (Some (Some m1)) (Some (Some m2))) = MainReturned
    \<and> AckCall m2 \<notin> set (fst (mq_test_main True True True (Some (Some m1)) (Some (Some m2))))"
  using assms by (simp add: mq_test_main_def)

section \<open>What the phases keep\<close>

lemma main_loop_keeps:
  "main_loop es s = Some s' \<Longrightarrow> moduleCont s' = moduleCont s
     \<and> (\<exists>w. app_plugins s' = (app_plugins s)\<lparr>plugin_world := w\<rparr>)"
proof (induction es s rule: main_loop.induct)
  case (2 rank es s)
  then show ?case by (simp add: onFrame_def set_world_def)
next
  case (3 sig read rank es s)
  show ?case
  proof (cases "on_signal sig (app_signals s)")
    case None
    with 3 show ?thesis by simp
  next
    case (Some a)
    show ?thesis
    proof (cases a)
      case QuitAction
      with Some 3(3) have "s' = s" by simp
      then show ?thesis by (metis plugins.surjective plugins.update_convs(3))
    next
      case ReloadAction
      with Some 3(2) [OF _ _] 3(3) show ?thesis
        by (simp add: Reload_def set_world_def Plugin_Reload_def Let_def)
    qed
  qed
qed simp

lemma App_Init_keeps:
  assumes "App_Init env s = (Returned None, s')"
  shows "moduleCont s' = moduleCont s \<and> app_signals s' = app_signals s
    \<and> (\<exists>u r m w. Plugin_Init u (app_plugins s) = (r, m) \<and> app_plugins s' = m\<lparr>plugin_world := w\<rparr>)"
  using assms
  by (auto simp: App_Init_def initInputParam_def start_modules_def set_world_def Let_def
      split: prod.splits option.splits if_splits res.splits) blast

lemma run_modules_all_ok:
  assumes "\<forall>md\<in>set ms. \<forall>w. fst (act md w) = Ok ()"
  shows "run_modules act ms w = (Ok (), fold (\<lambda>md w. snd (act md w)) ms w)"
  using assms
proof (induction ms arbitrary: w)
  case (Cons md ms)
  then have "fst (act md w) = Ok ()" by simp
  with Cons show ?case by (cases "act md w") simp
qed simp

lemma no_plugins_inv: "plugins_inv (no_plugins w)"
  by (simp add: no_plugins_def plugins_inv_def)

section \<open>The example started\<close>

lemma more_msgmgr: "world.more w = world.more w' \<Longrightarrow> msgmgr w = msgmgr w' \<and> services w = services w'"
  by (cases w; cases w') simp

text \<open>What a start of the example has run, on the tables that the plugins left alone.\<close>

lemma example_start:
  assumes "App_Init env s = (Returned None, s1)"
    and "moduleCont s = snd (RegisterModule (test_module register remote codecs idle now) [])"
    and "set fs \<subseteq> set (server_factories d)" and "app_plugins s = linked fs w"
    and "\<forall>i x. world.more (tcp_init env i x) = world.more x" and "\<forall>c. sub_plugin env c = Some (Some pc)"
  obtains w1 where "TestModule_Init register remote codecs idle now (lookup_of (app_plugins s1)) w1 = (Ok (), app_world s1)"
    and "msgmgr w1 = msgmgr w"
proof -
  obtain m p where m: "Plugin_Init (Some pc) (linked fs w) = (Ok (), m)"
    and run: "run_modules (\<lambda>md. m_Init md (lookup_of m)) (module_order (init_ranks env) (moduleCont s)) (tcp_init env p (plugin_world m))
        = (Ok (), app_world s1)"
    and look: "app_plugins s1 = m\<lparr>plugin_world := app_world s1\<rparr>"
    using App_Init_success [OF assms(1)] assms(4,6) by auto
  from Plugin_Init_keeps_more [OF assms(3) m] have "msgmgr (tcp_init env p (plugin_world m)) = msgmgr w" using more_msgmgr assms(5) by metis
  moreover have "TestModule_Init register remote codecs idle now (lookup_of m) (tcp_init env p (plugin_world m)) = (Ok (), app_world s1)"
    using run unfolding assms(2)
    by (auto simp: RegisterModule_def registerModule_def module_order_def test_module_def TestModule_IsPreInit_def
        split: prod.splits res.splits)
  moreover have "lookup_of (app_plugins s1) = lookup_of m" by (subst look) simp
  ultimately show ?thesis by (intro that [of "tcp_init env p (plugin_world m)"]) simp_all
qed

section \<open>Properties\<close>

text \<open>
  C20.  The life of a server: once \<open>Init\<close> has succeeded, a quit signal ends \<open>main\<close> normally when no
  module's \<open>UnInit\<close> fails, and in between, in this order, the plugins' main loops are started, the
  modules get every tick and every reload, every module's \<open>UnInit\<close> runs exactly once, those with
  \<open>IsPreInit\<close> before the others, and the plugins are destroyed.  Every loop over the modules or the
  plugins has an order of its own, which need not be that of the start.  The events are taken one
  at a time here.
\<close>

theorem server_life_cycle:
  assumes init: "App_Init env s = (Returned None, s1)"
    and inv: "plugins_inv (app_plugins s)" and sig: "sigHandlers (app_signals s) = Map.empty"
    and "list_all (\<lambda>e. \<not> is_quit e) es" and "is_quit q"
    and uninit: "\<forall>(k, md)\<in>set (moduleCont s). \<forall>look w. fst (m_UnInit md look w) = Ok ()"
  shows "\<exists>m1 m2 s' us. server_main env ranks (es @ q # post) s = Some (Returned None, s')
    \<and> Plugin_Mainloop (loops_rank ranks) (app_plugins s1) = Ok m1
    \<and> mset us = mset (map snd (moduleCont s)) \<and> sorted_wrt (\<lambda>a b. m_IsPreInit b \<longrightarrow> m_IsPreInit a) us
    \<and> Plugin_Destroy (destroy_rank ranks) (m1\<lparr>plugin_world := fold (\<lambda>md w. snd (m_UnInit md (lookup_of m1) w)) us
        (fold (event_effect (moduleCont s)) es (plugin_world m1))\<rparr>) = Ok m2
    \<and> app_plugins s' = m2"
proof -
  from App_Init_keeps [OF init] obtain u r m w where mc: "moduleCont s1 = moduleCont s"
    and sg: "app_signals s1 = app_signals s"
    and m: "Plugin_Init u (app_plugins s) = (r, m)" and pl: "app_plugins s1 = m\<lparr>plugin_world := w\<rparr>" by blast
  have inv1: "plugins_inv (app_plugins s1)"
    using Plugin_Init_inv [OF inv, of u] m unfolding pl by (simp add: world_inv)
  obtain w1 where w1: "Plugin_Mainloop (loops_rank ranks) (app_plugins s1) = Ok ((app_plugins s1)\<lparr>plugin_world := w1\<rparr>)"
    using Plugin_Mainloop_returns [OF inv1] by blast
  let ?m1 = "(app_plugins s1)\<lparr>plugin_world := w1\<rparr>"
  let ?s1 = "s1\<lparr>app_plugins := ?m1, app_signals := register_signals (app_signals s1)\<rparr>"
  have "app_signals ?s1 = register_signals (app_signals s)" using sg by simp
  from main_loop_run [OF this sig assms(4,5), of post] obtain s2 where
    s2: "main_loop (es @ q # post) ?s1 = Some s2"
    and world: "app_world s2 = fold (event_effect (moduleCont s)) es w1"
    using mc by auto
  from main_loop_keeps [OF s2] mc world obtain w2 where keep: "moduleCont s2 = moduleCont s"
    "app_plugins s2 = ?m1\<lparr>plugin_world := w2\<rparr>" and w2: "w2 = fold (event_effect (moduleCont s)) es w1"
    by auto
  let ?us = "module_order (fini_ranks ranks) (moduleCont s)"
  let ?w3 = "fold (\<lambda>md w. snd (m_UnInit md (lookup_of ?m1) w)) ?us w2"
  have us: "mset ?us = mset (map snd (moduleCont s))" "sorted_wrt (\<lambda>a b. m_IsPreInit b \<longrightarrow> m_IsPreInit a) ?us"
    by (rule module_order_once module_order_sorted)+
  have "run_modules (\<lambda>md. m_UnInit md (lookup_of ?m1)) ?us w2 = (Ok (), ?w3)"
    by (rule run_modules_all_ok) (use uninit in force)
  moreover obtain w4 where w4: "Plugin_Destroy (destroy_rank ranks) (?m1\<lparr>plugin_world := ?w3\<rparr>) = Ok (?m1\<lparr>plugin_world := w4\<rparr>)"
    using Plugin_Destroy_returns [OF world_inv [OF inv1, of ?w3]] by auto
  ultimately have "Fini (fini_ranks ranks) (destroy_rank ranks) s2 = (Returned None, (set_world ?w3 s2)\<lparr>app_plugins := ?m1\<lparr>plugin_world := w4\<rparr>\<rparr>)"
    using keep by (simp add: Fini_def two_passes_run set_world_def)
  moreover have "Mainloop (loops_rank ranks) (es @ q # post) s1 = Some (Ok s2)" using w1 s2 by (simp add: Mainloop_def)
  ultimately show ?thesis
    using init w1 w4 w2 us
    by (intro exI [of _ ?m1] exI [of _ "?m1\<lparr>plugin_world := w4\<rparr>"]
        exI [of _ "(set_world ?w3 s2)\<lparr>app_plugins := ?m1\<lparr>plugin_world := w4\<rparr>\<rparr>"] exI [of _ ?us])
      (simp add: server_main_def)
qed

text \<open>
  C10.  The example server serves logins: once \<open>Init\<close> of an application with the example's module and
  the server's plugins has succeeded, logins over a connection, built by the client's code and cut
  by the network in any way, are answered each exactly once and in the order of arrival; the bytes
  that reach the client are the answers one after the other, each with the message id of its
  request and the sequence number after it, and the log has the opening of the connection, each
  login and the closing.
\<close>

theorem example_server_serves:
  assumes "App_Init env s = (Returned None, s1)"
    and "moduleCont s = snd (RegisterModule (test_module register remote (codec_init (csproto_pb lib) codecs) idle now) [])"
    and "set fs \<subseteq> set (server_factories d)" and "app_plugins s = linked fs w" and "msgmgr w = msgHandlerMgr"
    and "\<forall>i x. tcp_init env i x = start_transport resolve listen h x" and "\<forall>c. sub_plugin env c = Some (Some pc)"
    and "protobuf_runtime lib"
    and "map (\<lambda>(h, l). client_request lib h l) reqs = map Ok frames" and "list_all (\<lambda>f. length f < 2 ^ 32) frames"
    and "list_all (\<lambda>(h, l). sint (CSHead.Msgid h) = CSMessageID_cs_login) reqs"
    and "avail (reader c) = concat frames" and "first_err (reader c) = Some e" and "\<not> cancelled c"
    and "writable c" and "list_all quiet ts" and "length reqs < length ts"
  shows "\<exists>c'. Recv Decode (eventTcp (csproto_pb lib) (codec_init (csproto_pb lib) codecs) (msgmgr (app_world s1))) idle' ts c lines
      = Some (Ok (c', lines @ conn_line remote CONN_EVENT_START (connID c)
          # concat (map (\<lambda>(h, l). login_lines h (P_CS_LOGIN l)) reqs)
          @ [conn_line remote CONN_EVENT_STOP (connID c)]))
    \<and> peer_got c' = peer_got c @ concat (map (\<lambda>(h, l). login_answer lib h) reqs)"
proof -
  have "\<forall>i x. world.more (tcp_init env i x) = world.more x" by (simp add: assms(6) start_transport_def)
  from example_start [OF assms(1-4) this assms(7)] assms(5) obtain w1 where
    "TestModule_Init register remote (codec_init (csproto_pb lib) codecs) idle now (lookup_of (app_plugins s1)) w1
      = (Ok (), app_world s1)"
    and "msgmgr w1 = msgHandlerMgr"
    by metis
  from logins_answered [OF assms(8) this assms(9-17)] show ?thesis .
qed

text \<open>The example as an application.\<close>

definition example_env :: "(nat, (unit, unit, unit, unit) inst, unit services example) app_env" where
  "example_env = \<lparr>new_viper = 0, flag_conf = None, flag_command = None, flag_daemon = None,
     read_config = (\<lambda>_. Some 2), get_serverid = (\<lambda>_. ''1.1''),
     sub_plugin = (\<lambda>_. Some (Some [(''rpc'', [(''trpc'', 4)]), (''transport'', [(''tcp'', 5)])])),
     is_alive = (\<lambda>_. True), is_tcp = (\<lambda>p. p = TcpInst),
     tcp_init = (\<lambda>p. start_transport Some (\<lambda>a. True)
       (eventTcp (csproto_pb demo_lib) (codec_init (csproto_pb demo_lib) Map.empty) msgHandlerMgr)),
     init_ranks = (\<lambda>_. 0, \<lambda>_. 0)\<rparr>"

definition example_app :: "(nat, (unit, unit, unit, unit) inst, unit services example) serverApp" where
  "example_app = NewServerApp ''example''
     (snd (RegisterModule (test_module map_register (\<lambda>i. ''peer'') (codec_init (csproto_pb demo_lib) Map.empty) 30 (\<lambda>s. 9)) []))
     (linked (server_factories demo_drivers) demo_example)
     \<lparr>files = Map.empty, writable_fs = True, signals_sent = [], self_pid = 7\<rparr>"

lemma example_app_starts: "fst (App_Init example_env example_app) = Returned None"
proof -
  let ?c = "snd (Config_Init 0 None None None (\<lambda>_. Some (2::nat)))"
  let ?cfg = "[(''rpc'', [(''trpc'', 4)]), (''transport'', [(''tcp'', 5 :: nat)])]"
  have c: "Config_Init 0 None None None (\<lambda>_. Some (2::nat)) = (None, ?c)" "GetCommand ?c = ''start''"
    by (simp_all add: Config_Init_def loadConfig_def Config.assign_def getBakConfig_def GetCommand_def
        defaultConfPath_def)
  define m :: "(nat, (unit, unit, unit, unit) inst, unit services example) plugins" where
    "m = snd (Plugin_Init (Some ?cfg) (linked (server_factories demo_drivers) demo_example))"
  have m: "Plugin_Init (Some ?cfg) (linked (server_factories demo_drivers) demo_example) = (Ok (), m)"
    and p: "GetPluginInst ''transport'' ''tcp'' m = Some TcpInst"
    and look: "lookup_of m ''rpc'' ''trpc'' = Some (TrpcInst \<lparr>ts_s = 0\<rparr>)"
    by (simp_all add: m_def Plugin_Init_def linked_def server_factories_def factory_defs getPluginFactory_def
        RegisterPluginFactory_def registerPluginInst_def no_plugins_def constructPluginKey_def
        tcp_Setup_def trpc_Setup_def NewTrpcServer_def TrpcServer_Init_def demo_drivers_def GetPluginInst_def lookup_of_def demo_example_def)
  have mods: "module_order (init_ranks example_env) (moduleCont example_app)
      = [test_module map_register (\<lambda>i. ''peer'') (codec_init (csproto_pb demo_lib) Map.empty) 30 (\<lambda>s. 9)]"
    by (simp add: example_app_def NewServerApp_def RegisterModule_def registerModule_def module_order_def
        test_module_def TestModule_IsPreInit_def)
  have "world.more (tcp_init example_env TcpInst (plugin_world m)) = world.more demo_example"
    using Plugin_Init_keeps_more [OF subset_refl m] by (simp add: example_env_def start_transport_def)
  then have "services (tcp_init example_env TcpInst (plugin_world m)) = (\<lambda>_. Map.empty)"
    using more_msgmgr [of _ demo_example] by (simp add: demo_example_def)
  then obtain w' where "run_modules (\<lambda>md. m_Init md (lookup_of m)) (module_order (init_ranks example_env) (moduleCont example_app))
      (tcp_init example_env TcpInst (plugin_world m)) = (Ok (), w')"
    unfolding mods
    by (simp add: test_module_def TestModule_Init_def look RegisterEchoService_def map_register_def Let_def)
  from App_Init_starts_modules [OF _ _ _ _ _ p _ this, of ?c] c m show ?thesis
    by (simp add: example_env_def) (simp add: example_app_def NewServerApp_def)
qed

theorem server_life_cycle_witness:
  "\<exists>s'. server_main example_env \<lparr>loops_rank = up, fini_ranks = (up, down), destroy_rank = down\<rparr>
     [Frame up, Signal 2 (\<lambda>_. None) up] example_app = Some (Returned None, s')"
proof -
  have init: "App_Init example_env example_app = (Returned None, snd (App_Init example_env example_app))"
    using example_app_starts by (simp add: prod_eq_iff)
  have inv: "plugins_inv (app_plugins example_app)"
    by (simp add: example_app_def NewServerApp_def linked_def server_factories_def inv_rules no_plugins_inv)
  have sig: "sigHandlers (app_signals example_app) = Map.empty"
    and mods: "\<forall>(k, md)\<in>set (moduleCont example_app). \<forall>look w. fst (m_UnInit md look w) = Ok ()"
    by (simp_all add: example_app_def NewServerApp_def RegisterModule_def registerModule_def test_module_def
        TestModule_UnInit_def)
  from server_life_cycle [OF init inv sig _ _ mods, of "[Frame up]" "Signal 2 (\<lambda>_. None) up"
      "\<lparr>loops_rank = up, fini_ranks = (up, down), destroy_rank = down\<rparr>" "[]"]
  show ?thesis by (auto simp: is_quit_def SIGINT_def)
qed

theorem example_server_serves_witness:
  "\<exists>c' f. client_request demo_lib client_header client_login = Ok f
     \<and> Recv Decode (eventTcp (csproto_pb demo_lib) (codec_init (csproto_pb demo_lib) Map.empty)
           (msgmgr (app_world (snd (App_Init example_env example_app))))) 30
         [demo_tick, demo_tick] (fst (NewTcpConn 5 [Seg (take 3 f), Seg (drop 3 f), RErr NetOther] None None)) []
       = Some (Ok (c', conn_line (\<lambda>i. ''peer'') CONN_EVENT_START 0 # login_lines client_header (P_CS_LOGIN client_login)
           @ [conn_line (\<lambda>i. ''peer'') CONN_EVENT_STOP 0]))
     \<and> peer_got c' = login_answer demo_lib client_header"
proof -
  obtain f where f: "client_request demo_lib client_header client_login = Ok f" "length f < 2 ^ 32" by (rule demo_request)
  have init: "App_Init example_env example_app = (Returned None, snd (App_Init example_env example_app))"
    using example_app_starts by (simp add: prod_eq_iff)
  have app: "moduleCont example_app = snd (RegisterModule (test_module map_register (\<lambda>i. ''peer'')
      (codec_init (csproto_pb demo_lib) Map.empty) 30 (\<lambda>s. 9)) [])"
    "app_plugins example_app = linked (server_factories demo_drivers) demo_example"
    "msgmgr demo_example = msgHandlerMgr"
    by (simp_all add: example_app_def NewServerApp_def demo_example_def)
  have env: "\<forall>i x. tcp_init example_env i x = start_transport Some (\<lambda>a. True)
      (eventTcp (csproto_pb demo_lib) (codec_init (csproto_pb demo_lib) Map.empty) msgHandlerMgr) x"
    "\<forall>c. sub_plugin example_env c = Some (Some [(''rpc'', [(''trpc'', 4)]), (''transport'', [(''tcp'', 5)])])"
    by (simp_all add: example_env_def)
  have id: "sint (CSHead.Msgid client_header) = CSMessageID_cs_login"
    by (simp add: client_header_def CSMessageID_cs_login_def)
  show ?thesis
    using example_server_serves [OF init app(1) subset_refl app(2,3) env demo_lib_runtime,
        of "[(client_header, client_login)]" "[f]"
        "fst (NewTcpConn 5 [Seg (take 3 f), Seg (drop 3 f), RErr NetOther] None None)" NetOther
        "[demo_tick, demo_tick]" 30 "[]"] f id
    by (auto simp: NewTcpConn_def GenerateUID_def writable_def quiet_def simp del: take_append)
qed

text \<open>
  The transport is started before the modules: while it accepts connections already, the tables of
  handlers are those from before the start, and a connection that comes then ends the process.
\<close>

lemma early_connection_panics:
  assumes "Plugin_Init (Some pc) (linked fs w) = (Ok (), m)" and "set fs \<subseteq> set (server_factories d)"
    and "msgmgr w = msgHandlerMgr" and "transInst (plugin_world m) = Some t"
    and "resolve (Tcp.Addr (Tcp.cfg t)) = Some addr" and "listen addr"
    and "w1 = start_transport resolve listen h (plugin_world m)"
  shows "(\<exists>t'. transInst w1 = Some t' \<and> cancel t' = Some False)
    \<and> Recv decode (eventTcp pb codecs (msgmgr w1)) idle ts c s = Some Panic"
proof -
  have "world.more w1 = world.more w"
    using Plugin_Init_keeps_more [OF assms(2,1)] by (simp add: assms(7) start_transport_def)
  then have "connEventHandler (msgmgr w1) CONN_EVENT_START = None"
    using more_msgmgr [of w1 w] assms(3) by (simp add: msgHandlerMgr_def)
  moreover have "\<exists>t'. transInst w1 = Some t' \<and> cancel t' = Some False"
    using assms(4-6) by (simp add: assms(7) start_transport_def TcpTransport_Init_def Let_def)
  ultimately show ?thesis by (simp add: conn_without_handlers_panics)
qed

text \<open>Without the trpc plugin in its configuration the example does not start: it panics.\<close>

lemma example_needs_trpc:
  assumes "Config_Init (new_viper env) (flag_conf env) (flag_command env) (flag_daemon env)
        (read_config env) = (None, c)"
    and "GetCommand c \<noteq> ''stop''" and "GetCommand c \<noteq> ''reload''"
    and "sub_plugin env (active c) = Some u" and "Plugin_Init u (app_plugins s) = (Ok (), m)"
    and "GetPluginInst ''transport'' ''tcp'' m = Some p" and "is_tcp env p"
    and "GetPluginInst ''rpc'' ''trpc'' m = None"
    and "moduleCont s = snd (RegisterModule (test_module register remote codecs idle now) [])"
  shows "fst (App_Init env s) = Panicked"
proof -
  have "\<exists>w. run_modules (\<lambda>md. m_Init md (lookup_of m)) (module_order (init_ranks env) (moduleCont s)) (tcp_init env p (plugin_world m)) = (Panic, w)"
    unfolding assms(9) using assms(8)
    by (simp add: RegisterModule_def registerModule_def module_order_def test_module_def TestModule_IsPreInit_def
        TestModule_Init_def lookup_of_def Let_def)
  with App_Init_starts_modules [OF assms(1-7)] show ?thesis by fastforce
qed

text \<open>A server that does not start ends with a panic or an exit, before any plugin's main loop.\<close>

theorem failed_start_ends:
  assumes "App_Init env s = (out, s1)" and "out \<noteq> Returned None"
  shows "server_main env ranks es s = Some (if out = Exited then Exited else Panicked, s1)"
  using assms by (cases out) (auto simp: server_main_def split: option.splits)

end
