(* ===== verification/Mq_Close.thy ===== *)
theory Mq_Close
  imports Kafka
begin

text \<open>
  Closing the kafka client, \<^verbatim>\<open>src/plugin/mq/kafka/writer.go\<close> and \<^verbatim>\<open>reactor.go\<close>: the event loop of a
  writer and the poll loop of a reactor run in goroutines of their own and are told to end through
  a channel of capacity one, while \<open>Close\<close> may be called from any number of goroutines.  Both are
  step relations whose steps are the channel operations; the driver's part are steps of its own, and a
  poll that the driver does not answer does not return.
  What the two share is the locale \<open>stop_channel\<close>.  The accessors of the client that only read or
  replace a field are at the end.
\<close>

section \<open>Stopping through a channel of capacity one\<close>

text \<open>
  One receiver that takes a value and ends; senders that block while the channel is full.
  \<open>sends\<close> counts the values sent.
\<close>

locale stop_channel =
  fixes step :: "'s \<Rightarrow> 's \<Rightarrow> bool" and full :: "'s \<Rightarrow> bool" and ended :: "'s \<Rightarrow> bool" and sends :: "'s \<Rightarrow> nat"
  assumes step_cases: "step s s' \<Longrightarrow>
      full s' = full s \<and> ended s' = ended s \<and> sends s' = sends s
    \<or> \<not> full s \<and> full s' \<and> ended s' = ended s \<and> sends s' = Suc (sends s)
    \<or> full s \<and> \<not> full s' \<and> \<not> ended s \<and> ended s' \<and> sends s' = sends s"
begin

definition counted :: "'s \<Rightarrow> bool" where
  "counted s \<longleftrightarrow> sends s = of_bool (full s) + of_bool (ended s)"

lemma step_counted: "step s s' \<Longrightarrow> counted s \<Longrightarrow> counted s'"
  using step_cases [of s s'] by (auto simp: counted_def)

lemma reachable_counted: "step\<^sup>*\<^sup>* s s' \<Longrightarrow> counted s \<Longrightarrow> counted s'"
  by (induction rule: rtranclp_induct) (auto intro: step_counted)

lemma at_most_two_sends: "step\<^sup>*\<^sup>* s s' \<Longrightarrow> counted s \<Longrightarrow> sends s' \<le> 2"
  using reachable_counted [of s s'] by (simp add: counted_def)

lemma first_send_not_blocked: "step\<^sup>*\<^sup>* s s' \<Longrightarrow> counted s \<Longrightarrow> sends s' = 0 \<Longrightarrow> \<not> full s'"
  using reachable_counted [of s s'] by (cases "full s'") (simp_all add: counted_def)

lemma ended_was_sent: "step\<^sup>*\<^sup>* s s' \<Longrightarrow> counted s \<Longrightarrow> ended s' \<Longrightarrow> 0 < sends s'"
  using reachable_counted [of s s'] by (simp add: counted_def)

end

section \<open>The writer\<close>

text \<open>Where a goroutine that has called \<open>Close\<close> stands: \<open>Flush\<close>, the send, \<open>p.Close\<close>, or back.\<close>

datatype wclose_pc = Flushing | Sending | Closing | CloseReturned

record 'i writer_sys =
  ws_writer :: "'i kafkaWriter"
  ws_produced :: "kafkaMessage option list"
  ws_events :: "kafkaMessage option list"
  ws_full :: bool
  ws_ended :: bool
  ws_calls :: "('i \<times> kafkaMessage) list"
  ws_closers :: "wclose_pc list"

text \<open>\<open>NewWriter\<close> starts the event loop.\<close>

definition writer_started :: "'i kafkaWriter \<Rightarrow> 'i writer_sys" where
  "writer_started w = \<lparr>ws_writer = w, ws_produced = [], ws_events = [], ws_full = False, ws_ended = False,
     ws_calls = [], ws_closers = []\<rparr>"

text \<open>The calls of \<open>AfterWrite\<close> for an event of the driver; other events than messages are dropped.\<close>

definition after_calls :: "'i kafkaWriter \<Rightarrow> kafkaMessage option \<Rightarrow> ('i \<times> kafkaMessage) list" where
  "after_calls w e =
     (case e of None \<Rightarrow> [] | Some m \<Rightarrow> invokeInterceptors (writeInterceptors w) [m])"

text \<open>
  Steps of the driver, of the event loop (the first three of \<open>loop\<close>) and of the closers.  After
  \<open>p.Close\<close> the channel of events is closed and yields nil, which the loop drops.  The interceptors
  are those that the writer has from the start of the run on; adding one while the loop runs is no step.
\<close>

inductive writer_step :: "'i writer_sys \<Rightarrow> 'i writer_sys \<Rightarrow> bool" where
  report: "CloseReturned \<notin> set (ws_closers s) \<Longrightarrow>
     writer_step s (s\<lparr>ws_produced := ws_produced s @ [e], ws_events := ws_events s @ [e]\<rparr>)"
| loop_event: "\<not> ws_ended s \<Longrightarrow> ws_events s = e # es \<Longrightarrow>
     writer_step s (s\<lparr>ws_events := es, ws_calls := ws_calls s @ after_calls (ws_writer s) e\<rparr>)"
| loop_nil: "\<not> ws_ended s \<Longrightarrow> ws_events s = [] \<Longrightarrow> CloseReturned \<in> set (ws_closers s) \<Longrightarrow> writer_step s s"
| loop_close: "\<not> ws_ended s \<Longrightarrow> ws_full s \<Longrightarrow>
     writer_step s (s\<lparr>ws_full := False, ws_ended := True\<rparr>)"
| call_close: "writer_step s (s\<lparr>ws_closers := ws_closers s @ [Flushing]\<rparr>)"
| flush: "i < length (ws_closers s) \<Longrightarrow> ws_closers s ! i = Flushing \<Longrightarrow>
     writer_step s (s\<lparr>ws_closers := (ws_closers s)[i := Sending]\<rparr>)"
| send: "i < length (ws_closers s) \<Longrightarrow> ws_closers s ! i = Sending \<Longrightarrow> \<not> ws_full s \<Longrightarrow>
     writer_step s (s\<lparr>ws_full := True, ws_closers := (ws_closers s)[i := Closing]\<rparr>)"
| p_close: "i < length (ws_closers s) \<Longrightarrow> ws_closers s ! i = Closing \<Longrightarrow>
     writer_step s (s\<lparr>ws_closers := (ws_closers s)[i := CloseReturned]\<rparr>)"

text \<open>The closers that are past the send.\<close>

definition past_send :: "wclose_pc \<Rightarrow> bool" where
  "past_send pc \<longleftrightarrow> pc = Closing \<or> pc = CloseReturned"

definition ws_sends :: "'i writer_sys \<Rightarrow> nat" where
  "ws_sends s = length (filter past_send (ws_closers s))"

lemma past_send_simps [simp]:
  "past_send Closing" "past_send CloseReturned" "\<not> past_send Flushing" "\<not> past_send Sending"
  by (simp_all add: past_send_def)

interpretation kafka_writer: stop_channel writer_step ws_full ws_ended ws_sends
proof
  fix s s' :: "'i writer_sys"
  assume "writer_step s s'"
  then show "ws_full s' = ws_full s \<and> ws_ended s' = ws_ended s \<and> ws_sends s' = ws_sends s
    \<or> \<not> ws_full s \<and> ws_full s' \<and> ws_ended s' = ws_ended s \<and> ws_sends s' = Suc (ws_sends s)
    \<or> ws_full s \<and> \<not> ws_full s' \<and> \<not> ws_ended s \<and> ws_ended s' \<and> ws_sends s' = ws_sends s"
  proof cases
    case (flush i)
    then show ?thesis using count_update [of i "ws_closers s" past_send Sending] by (simp add: ws_sends_def)
  next
    case (send i)
    then show ?thesis using count_update [of i "ws_closers s" past_send Closing] by (simp add: ws_sends_def)
  next
    case (p_close i)
    then show ?thesis using count_update [of i "ws_closers s" past_send CloseReturned] by (simp add: ws_sends_def)
  qed (auto simp: ws_sends_def)
qed

lemma writer_started_counted: "kafka_writer.counted (writer_started w)"
  by (simp add: kafka_writer.counted_def writer_started_def ws_sends_def)

text \<open>Each event is handled at most once and in order: what is left is a suffix of what came.\<close>

definition writer_inv :: "'i writer_sys \<Rightarrow> bool" where
  "writer_inv s \<longleftrightarrow> (\<exists>seen. ws_produced s = seen @ ws_events s
     \<and> ws_calls s = concat (map (after_calls (ws_writer s)) seen))"

lemma writer_step_inv: "writer_step s s' \<Longrightarrow> writer_inv s \<Longrightarrow> writer_inv s'"
proof (induction rule: writer_step.induct)
  case (loop_event s e es)
  then obtain seen where "ws_produced s = (seen @ [e]) @ es"
    "ws_calls s = concat (map (after_calls (ws_writer s)) seen)"
    by (auto simp: writer_inv_def)
  then show ?case unfolding writer_inv_def by (intro exI [of _ "seen @ [e]"]) simp
qed (auto simp: writer_inv_def)

lemma writer_reachable_inv: "writer_step\<^sup>*\<^sup>* (writer_started w) s \<Longrightarrow> writer_inv s \<and> ws_writer s = w"
proof (induction rule: rtranclp_induct)
  case (step s s')
  from step(2) have "ws_writer s' = ws_writer s" by cases auto
  with step writer_step_inv show ?case by metis
qed (simp add: writer_inv_def writer_started_def)

lemma runAfterInterceptor_seen:
  "runAfterInterceptor w (map Event seen @ [CloseEvent]) = Some (concat (map (after_calls w) seen))"
  by (induction seen) (auto simp: after_calls_def split: option.split)

section \<open>The reactor\<close>

datatype run_pc = AtSelect | Polling "string list" | RunReturned

datatype rclose_pc = RSending | RClosing | RReturned

record ('h, 'c) reactor_sys =
  rx :: "('h, 'c) kafkaReactor"
  rx_pc :: run_pc
  rx_full :: bool
  rx_calls :: "('h option \<times> kafkaMessage) list"
  rx_queue :: "string \<Rightarrow> kafkaMessage option list"
  rx_closed :: "string set"
  rx_closers :: "rclose_pc list"

definition reactor_started :: "('h, 'c) kafkaReactor \<Rightarrow> ('h, 'c) reactor_sys" where
  "reactor_started k = \<lparr>rx = k, rx_pc = AtSelect, rx_full = False, rx_calls = [], rx_queue = (\<lambda>_. []),
     rx_closed = {}, rx_closers = []\<rparr>"

text \<open>
  The steps of \<open>Run\<close>: a round goes over the consumers in the order the map gives.  A poll is
  \<open>ReadMessage(-1)\<close>: it returns when the driver has a message (\<open>Some\<close>) or an error (\<open>None\<close>) for the
  consumer of the topic, and until then \<open>Run\<close> has no step to make.
\<close>

inductive run_step :: "('h, 'c) reactor_sys \<Rightarrow> ('h, 'c) reactor_sys \<Rightarrow> bool" where
  run_stop: "rx_pc s = AtSelect \<Longrightarrow> rx_full s \<Longrightarrow> run_step s (s\<lparr>rx_pc := RunReturned, rx_full := False\<rparr>)"
| run_round: "rx_pc s = AtSelect \<Longrightarrow> \<not> rx_full s \<Longrightarrow> distinct ts \<Longrightarrow> set ts = dom (consumer (rx s)) \<Longrightarrow>
     run_step s (s\<lparr>rx_pc := Polling ts\<rparr>)"
| run_message: "rx_pc s = Polling (t # ts) \<Longrightarrow> rx_queue s t = Some msg # q \<Longrightarrow>
     run_step s (s\<lparr>rx_pc := Polling ts, rx_queue := (rx_queue s)(t := q),
       rx_calls := rx_calls s @ [(handlers (rx s) t, msg)]\<rparr>)"
| run_error: "rx_pc s = Polling (t # ts) \<Longrightarrow> rx_queue s t = None # q \<Longrightarrow>
     run_step s (s\<lparr>rx_pc := Polling ts, rx_queue := (rx_queue s)(t := q)\<rparr>)"
| run_again: "rx_pc s = Polling [] \<Longrightarrow> run_step s (s\<lparr>rx_pc := AtSelect\<rparr>)"

inductive rclose_step :: "('h, 'c) reactor_sys \<Rightarrow> ('h, 'c) reactor_sys \<Rightarrow> bool" where
  rcall: "rclose_step s (s\<lparr>rx_closers := rx_closers s @ [RSending]\<rparr>)"
| rsend: "i < length (rx_closers s) \<Longrightarrow> rx_closers s ! i = RSending \<Longrightarrow> \<not> rx_full s \<Longrightarrow>
     rclose_step s (s\<lparr>rx_full := True, rx_closers := (rx_closers s)[i := RClosing]\<rparr>)"
| rclose: "i < length (rx_closers s) \<Longrightarrow> rx_closers s ! i = RClosing \<Longrightarrow>
     rclose_step s (s\<lparr>rx_closed := dom (consumer (rx s)), rx_closers := (rx_closers s)[i := RReturned]\<rparr>)"

text \<open>The driver: a message or an error becomes ready for the consumer of a topic, at any time or never.\<close>

inductive driver_step :: "('h, 'c) reactor_sys \<Rightarrow> ('h, 'c) reactor_sys \<Rightarrow> bool" where
  ready: "driver_step s (s\<lparr>rx_queue := (rx_queue s)(t := rx_queue s t @ [e])\<rparr>)"

definition reactor_step :: "('h, 'c) reactor_sys \<Rightarrow> ('h, 'c) reactor_sys \<Rightarrow> bool" where
  "reactor_step s s' \<longleftrightarrow> run_step s s' \<or> rclose_step s s' \<or> driver_step s s'"

definition rx_sends :: "('h, 'c) reactor_sys \<Rightarrow> nat" where
  "rx_sends s = length (filter (\<lambda>pc. pc \<noteq> RSending) (rx_closers s))"

interpretation kafka_reactor: stop_channel reactor_step rx_full "\<lambda>s. rx_pc s = RunReturned" rx_sends
proof
  fix s s' :: "('h, 'c) reactor_sys"
  assume "reactor_step s s'"
  then consider "run_step s s'" | "rclose_step s s'" | "driver_step s s'" by (auto simp: reactor_step_def)
  then show "rx_full s' = rx_full s \<and> (rx_pc s' = RunReturned) = (rx_pc s = RunReturned) \<and> rx_sends s' = rx_sends s
    \<or> \<not> rx_full s \<and> rx_full s' \<and> (rx_pc s' = RunReturned) = (rx_pc s = RunReturned) \<and> rx_sends s' = Suc (rx_sends s)
    \<or> rx_full s \<and> \<not> rx_full s' \<and> rx_pc s \<noteq> RunReturned \<and> rx_pc s' = RunReturned \<and> rx_sends s' = rx_sends s"
  proof cases
    case 1
    then show ?thesis by cases (auto simp: rx_sends_def)
  next
    case 2
    then show ?thesis
    proof cases
      case (rsend i)
      then show ?thesis using count_update [of i "rx_closers s" "\<lambda>pc. pc \<noteq> RSending" RClosing]
        by (simp add: rx_sends_def)
    next
      case (rclose i)
      then show ?thesis using count_update [of i "rx_closers s" "\<lambda>pc. pc \<noteq> RSending" RReturned]
        by (simp add: rx_sends_def)
    qed (auto simp: rx_sends_def)
  next
    case 3
    then show ?thesis by cases (auto simp: rx_sends_def)
  qed
qed

lemma reactor_started_counted: "kafka_reactor.counted (reactor_started k)"
  by (simp add: kafka_reactor.counted_def reactor_started_def rx_sends_def)

text \<open>What \<open>Run\<close> has still to do once a stop is in the channel.\<close>

definition run_left :: "('h, 'c) reactor_sys \<Rightarrow> nat" where
  "run_left s = (case rx_pc s of RunReturned \<Rightarrow> 0 | AtSelect \<Rightarrow> 1 | Polling ts \<Rightarrow> length ts + 2)"

definition stopping :: "('h, 'c) reactor_sys \<Rightarrow> bool" where
  "stopping s \<longleftrightarrow> rx_full s \<or> rx_pc s = RunReturned"

lemma run_step_left: "run_step s s' \<Longrightarrow> stopping s \<Longrightarrow> run_left s = Suc (run_left s') \<and> stopping s'"
  by (cases rule: run_step.cases) (auto simp: run_left_def stopping_def)

lemma rclose_step_left: "rclose_step s s' \<Longrightarrow> stopping s \<Longrightarrow> run_left s' = run_left s \<and> stopping s'"
  by (cases rule: rclose_step.cases) (auto simp: run_left_def stopping_def)

lemma driver_step_left: "driver_step s s' \<Longrightarrow> stopping s \<Longrightarrow> run_left s' = run_left s \<and> stopping s'"
  by (cases rule: driver_step.cases) (auto simp: run_left_def stopping_def)

text \<open>In a poll that the driver has not answered.\<close>

definition waiting :: "('h, 'c) reactor_sys \<Rightarrow> bool" where
  "waiting s \<longleftrightarrow> (\<exists>t ts. rx_pc s = Polling (t # ts) \<and> rx_queue s t = [])"

lemma waiting_stuck: "waiting s \<Longrightarrow> \<not> run_step s s'"
  by (auto simp: waiting_def elim: run_step.cases)

lemma run_stuck_iff:
  assumes "stopping s"
  shows "(\<exists>s'. run_step s s') \<longleftrightarrow> rx_pc s \<noteq> RunReturned \<and> \<not> waiting s"
proof (cases "rx_pc s")
  case AtSelect
  with assms show ?thesis by (auto simp: stopping_def waiting_def intro: run_stop)
next
  case (Polling ts)
  show ?thesis
  proof (cases "waiting s")
    case True
    then show ?thesis using waiting_stuck by blast
  next
    case False
    have "\<exists>s'. run_step s s'"
    proof (cases ts)
      case (Cons t us)
      with Polling False obtain e q where "rx_queue s t = e # q" by (cases "rx_queue s t") (auto simp: waiting_def)
      with Cons Polling show ?thesis by (cases e) (blast intro: run_message run_error)+
    qed (use Polling in \<open>auto intro: run_again\<close>)
    with False Polling show ?thesis by simp
  qed
qed (auto elim: run_step.cases)

text \<open>Runs of the whole system, with the number of steps that \<open>Run\<close> makes.\<close>

inductive reactor_run :: "nat \<Rightarrow> ('h, 'c) reactor_sys \<Rightarrow> ('h, 'c) reactor_sys \<Rightarrow> bool" where
  run_nil: "reactor_run 0 s s"
| run_own: "run_step s s' \<Longrightarrow> reactor_run n s' s'' \<Longrightarrow> reactor_run (Suc n) s s''"
| run_other: "rclose_step s s' \<or> driver_step s s' \<Longrightarrow> reactor_run n s' s'' \<Longrightarrow> reactor_run n s s''"

lemma reactor_run_left:
  "reactor_run n s s' \<Longrightarrow> stopping s \<Longrightarrow> run_left s = n + run_left s' \<and> stopping s'"
proof (induction rule: reactor_run.induct)
  case (run_own s s' n s'')
  with run_step_left [of s s'] show ?case by simp
next
  case (run_other s s' n s'')
  with rclose_step_left [of s s'] driver_step_left [of s s'] show ?case by auto
qed simp

section \<open>Properties\<close>

text \<open>
  C36.  The writer's event loop under any interleaving with the driver and with any number of
  callers of \<open>Close\<close>: \<open>AfterWrite\<close> is called for the reported messages in the order of the
  reports and once per message and interceptor, and when the loop has ended the calls are those
  of the sequential loop that ran over the reports seen before the stop.
\<close>

theorem writer_loop_refines:
  assumes "writer_step\<^sup>*\<^sup>* (writer_started w) s"
  shows "\<exists>seen. ws_produced s = seen @ ws_events s
    \<and> ws_calls s = concat (map (after_calls w) seen)
    \<and> runAfterInterceptor w (map Event seen @ [CloseEvent]) = Some (ws_calls s)"
  using writer_reachable_inv [OF assms] runAfterInterceptor_seen [of w]
  by (auto simp: writer_inv_def)

text \<open>A run: a report, \<open>Close\<close> up to its return, the loop ends without having seen the report.\<close>

definition demo_kwriter :: "nat kafkaWriter" where
  "demo_kwriter = \<lparr>kw_config = WriterConfig.make [] [] None False 0 0 0 0 Map.empty,
     writeInterceptors = add_interceptor 7 no_interceptors\<rparr>"

definition demo_kmsg :: kafkaMessage where
  "demo_kmsg = \<lparr>TopicPartition = \<lparr>tp_Topic = ''t'', tp_Partition = 0, tp_Offset = 0, tp_Error = None\<rparr>,
     km_Value = [1], km_Key = [], Headers = []\<rparr>"

definition demo_closed :: "nat writer_sys" where
  "demo_closed = \<lparr>ws_writer = demo_kwriter, ws_produced = [Some demo_kmsg], ws_events = [Some demo_kmsg],
     ws_full = False, ws_ended = True, ws_calls = [], ws_closers = [CloseReturned]\<rparr>"

lemma demo_close_run: "writer_step\<^sup>*\<^sup>* (writer_started demo_kwriter) demo_closed"
proof -
  let ?st = "\<lambda>ev f e cl. \<lparr>ws_writer = demo_kwriter, ws_produced = ev, ws_events = ev, ws_full = f, ws_ended = e,
    ws_calls = [], ws_closers = cl\<rparr>"
  let ?ev = "[Some demo_kmsg]"
  have "writer_step (?st [] False False []) (?st ?ev False False [])"
    using report [of "?st [] False False []" "Some demo_kmsg"] by simp
  moreover have "writer_step (?st ?ev False False []) (?st ?ev False False [Flushing])"
    using call_close [of "?st ?ev False False []"] by simp
  moreover have "writer_step (?st ?ev False False [Flushing]) (?st ?ev False False [Sending])"
    using flush [of 0 "?st ?ev False False [Flushing]"] by simp
  moreover have "writer_step (?st ?ev False False [Sending]) (?st ?ev True False [Closing])"
    using send [of 0 "?st ?ev False False [Sending]"] by simp
  moreover have "writer_step (?st ?ev True False [Closing]) (?st ?ev True False [CloseReturned])"
    using p_close [of 0 "?st ?ev True False [Closing]"] by simp
  moreover have "writer_step (?st ?ev True False [CloseReturned]) (?st ?ev False True [CloseReturned])"
    using loop_close [of "?st ?ev True False [CloseReturned]"] by simp
  ultimately show ?thesis
    unfolding writer_started_def demo_closed_def
    by (meson rtranclp.rtrancl_into_rtrancl rtranclp.rtrancl_refl)
qed

text \<open>Another: the loop handles the report and then ends.\<close>

definition demo_handled :: "nat writer_sys" where
  "demo_handled = \<lparr>ws_writer = demo_kwriter, ws_produced = [Some demo_kmsg], ws_events = [],
     ws_full = False, ws_ended = True, ws_calls = [(7, demo_kmsg)], ws_closers = [Closing]\<rparr>"

lemma demo_handled_run: "writer_step\<^sup>*\<^sup>* (writer_started demo_kwriter) demo_handled"
proof -
  let ?st = "\<lambda>pr ev f e calls cl. \<lparr>ws_writer = demo_kwriter, ws_produced = pr, ws_events = ev, ws_full = f, ws_ended = e,
    ws_calls = calls, ws_closers = cl\<rparr>"
  let ?ev = "[Some demo_kmsg]" and ?calls = "[(7, demo_kmsg)]"
  have calls: "after_calls demo_kwriter (Some demo_kmsg) = ?calls"
    by (simp add: after_calls_def demo_kwriter_def invokeInterceptors_def add_interceptor_def no_interceptors_def)
  have "writer_step (?st [] [] False False [] []) (?st ?ev ?ev False False [] [])"
    using report [of "?st [] [] False False [] []" "Some demo_kmsg"] by simp
  moreover have "writer_step (?st ?ev ?ev False False [] []) (?st ?ev [] False False ?calls [])"
    using loop_event [of "?st ?ev ?ev False False [] []" "Some demo_kmsg" "[]"] calls by simp
  moreover have "writer_step (?st ?ev [] False False ?calls []) (?st ?ev [] False False ?calls [Flushing])"
    using call_close [of "?st ?ev [] False False ?calls []"] by simp
  moreover have "writer_step (?st ?ev [] False False ?calls [Flushing]) (?st ?ev [] False False ?calls [Sending])"
    using flush [of 0 "?st ?ev [] False False ?calls [Flushing]"] by simp
  moreover have "writer_step (?st ?ev [] False False ?calls [Sending]) (?st ?ev [] True False ?calls [Closing])"
    using send [of 0 "?st ?ev [] False False ?calls [Sending]"] by simp
  moreover have "writer_step (?st ?ev [] True False ?calls [Closing]) (?st ?ev [] False True ?calls [Closing])"
    using loop_close [of "?st ?ev [] True False ?calls [Closing]"] by simp
  ultimately show ?thesis
    unfolding writer_started_def demo_handled_def
    by (meson rtranclp.rtrancl_into_rtrancl rtranclp.rtrancl_refl)
qed

theorem writer_loop_refines_witness:
  "ws_calls demo_handled = [(7, demo_kmsg)]
   \<and> runAfterInterceptor demo_kwriter (map Event [Some demo_kmsg] @ [CloseEvent]) = Some (ws_calls demo_handled)"
  using writer_loop_refines [OF demo_handled_run] by (auto simp: demo_handled_def)

text \<open>
  The stop and a report are both ready, and the loop may take the stop: then the interceptors
  never hear of a message that was delivered before \<open>Close\<close>.
\<close>

theorem close_may_drop_reports:
  "\<exists>s :: nat writer_sys. writer_step\<^sup>*\<^sup>* (writer_started demo_kwriter) s \<and> ws_ended s
     \<and> ws_closers s = [CloseReturned] \<and> ws_events s = [Some demo_kmsg] \<and> ws_calls s = []"
  using demo_close_run by (intro exI [of _ demo_closed] conjI) (auto simp: demo_closed_def)

text \<open>
  C37.  Closing from several goroutines: however often \<open>Close\<close> of a writer or of a reactor is
  called, at most two calls get past the send and return; the first one never blocks there.
\<close>

theorem close_returns_at_most_twice:
  assumes "writer_step\<^sup>*\<^sup>* (writer_started w) s" and "reactor_step\<^sup>*\<^sup>* (reactor_started k) r"
  shows "length (filter (\<lambda>pc. pc = CloseReturned) (ws_closers s)) \<le> 2
    \<and> length (filter (\<lambda>pc. pc = RReturned) (rx_closers r)) \<le> 2
    \<and> (ws_sends s = 0 \<longrightarrow> \<not> ws_full s) \<and> (rx_sends r = 0 \<longrightarrow> \<not> rx_full r)"
proof -
  have "length (filter (\<lambda>pc. pc = CloseReturned) (ws_closers s)) \<le> ws_sends s"
    unfolding ws_sends_def by (rule length_filter_mono) simp
  moreover have "length (filter (\<lambda>pc. pc = RReturned) (rx_closers r)) \<le> rx_sends r"
    unfolding rx_sends_def by (rule length_filter_mono) simp
  ultimately show ?thesis
    using kafka_writer.at_most_two_sends [OF assms(1) writer_started_counted]
      kafka_writer.first_send_not_blocked [OF assms(1) writer_started_counted]
      kafka_reactor.at_most_two_sends [OF assms(2) reactor_started_counted]
      kafka_reactor.first_send_not_blocked [OF assms(2) reactor_started_counted]
    by auto
qed

definition demo_reactor :: "(nat, nat) kafkaReactor" where
  "demo_reactor = Register (\<lambda>_ _. Some 1) [''t''] 5 (NewReactor \<lparr>re_Url = ''u'', ReactorName = ''r''\<rparr>)"

text \<open>Three callers of \<open>Close\<close> of a writer: two have returned, the third is blocked at the send.\<close>

definition demo_thrice :: "nat writer_sys" where
  "demo_thrice = \<lparr>ws_writer = demo_kwriter, ws_produced = [], ws_events = [], ws_full = True, ws_ended = True,
     ws_calls = [], ws_closers = [CloseReturned, CloseReturned, Sending]\<rparr>"

lemma demo_thrice_run: "writer_step\<^sup>*\<^sup>* (writer_started demo_kwriter) demo_thrice"
proof -
  let ?st = "\<lambda>f e cl. \<lparr>ws_writer = demo_kwriter, ws_produced = [], ws_events = [], ws_full = f, ws_ended = e,
    ws_calls = [], ws_closers = cl\<rparr>"
  have call: "writer_step\<^sup>*\<^sup>* (?st f e cl) (?st f e (cl @ [Sending]))" for f e cl
  proof -
    have "writer_step (?st f e cl) (?st f e (cl @ [Flushing]))"
      using call_close [of "?st f e cl"] by simp
    moreover have "writer_step (?st f e (cl @ [Flushing])) (?st f e (cl @ [Sending]))"
      using flush [of "length cl" "?st f e (cl @ [Flushing])"] by simp
    ultimately show ?thesis by (meson rtranclp.rtrancl_into_rtrancl rtranclp.rtrancl_refl)
  qed
  have "writer_step\<^sup>*\<^sup>* (?st False False []) (?st False False [Sending])" using call [of False False "[]"] by simp
  also have "writer_step (?st False False [Sending]) (?st True False [Closing])"
    using send [of 0 "?st False False [Sending]"] by simp
  also have "writer_step (?st True False [Closing]) (?st True False [CloseReturned])"
    using p_close [of 0 "?st True False [Closing]"] by simp
  also have "writer_step (?st True False [CloseReturned]) (?st False True [CloseReturned])"
    using loop_close [of "?st True False [CloseReturned]"] by simp
  also have "writer_step\<^sup>*\<^sup>* (?st False True [CloseReturned]) (?st False True [CloseReturned, Sending])"
    using call [of False True "[CloseReturned]"] by simp
  also have "writer_step (?st False True [CloseReturned, Sending]) (?st True True [CloseReturned, Closing])"
    using send [of 1 "?st False True [CloseReturned, Sending]"] by simp
  also have "writer_step (?st True True [CloseReturned, Closing]) (?st True True [CloseReturned, CloseReturned])"
    using p_close [of 1 "?st True True [CloseReturned, Closing]"] by simp
  also have "writer_step\<^sup>*\<^sup>* (?st True True [CloseReturned, CloseReturned])
      (?st True True [CloseReturned, CloseReturned, Sending])"
    using call [of True True "[CloseReturned, CloseReturned]"] by simp
  finally show ?thesis by (simp add: writer_started_def demo_thrice_def)
qed

theorem close_returns_at_most_twice_witness:
  "length (ws_closers demo_thrice) = 3 \<and> length (filter (\<lambda>pc. pc = CloseReturned) (ws_closers demo_thrice)) \<le> 2
   \<and> \<not> rx_full (reactor_started demo_reactor)"
  using close_returns_at_most_twice [OF demo_thrice_run, of demo_reactor "reactor_started demo_reactor"]
  by (simp add: rx_sends_def reactor_started_def demo_thrice_def)

text \<open>
  C38.  A stop ends the reactor as far as the driver lets it: once it is in the channel, \<open>Run\<close> makes at
  most the steps that are left of the round it is in, and has returned exactly when it has made
  them, whatever the callers of \<open>Close\<close> and the driver do meanwhile.  Until then only one thing keeps
  it from going on: it is in a poll, which waits without limit, and the driver has nothing for the
  topic of that poll.  On an idle topic that is for ever.
\<close>

theorem reactor_stop_ends_run:
  assumes "rx_full s" and "reactor_run n s s'"
  shows "n \<le> run_left s \<and> (n = run_left s \<longleftrightarrow> rx_pc s' = RunReturned)
    \<and> ((\<exists>s''. run_step s' s'') \<longleftrightarrow> rx_pc s' \<noteq> RunReturned
         \<and> \<not> (\<exists>t ts. rx_pc s' = Polling (t # ts) \<and> rx_queue s' t = []))"
proof -
  have "stopping s" using assms(1) by (simp add: stopping_def)
  from reactor_run_left [OF assms(2) this] have "run_left s = n + run_left s'" "stopping s'" by auto
  moreover have "run_left s' = 0 \<longleftrightarrow> rx_pc s' = RunReturned" by (simp add: run_left_def split: run_pc.split)
  ultimately show ?thesis using run_stuck_iff [of s'] by (auto simp: waiting_def)
qed

theorem reactor_stop_ends_run_witness:
  "(\<exists>s''. run_step ((reactor_started demo_reactor)\<lparr>rx_full := True\<rparr>) s'')
   \<and> \<not> (\<exists>s''. run_step ((reactor_started demo_reactor)\<lparr>rx_full := True, rx_pc := Polling [''t'']\<rparr>) s'')"
  using reactor_stop_ends_run [of "(reactor_started demo_reactor)\<lparr>rx_full := True\<rparr>" 0, OF _ run_nil]
    reactor_stop_ends_run [of "(reactor_started demo_reactor)\<lparr>rx_full := True, rx_pc := Polling [''t'']\<rparr>" 0, OF _ run_nil]
  by (simp add: reactor_started_def)

text \<open>A poll that the driver does not answer is not ended by the callers of \<open>Close\<close>.\<close>

lemma idle_poll_outlives_close:
  assumes "rclose_step\<^sup>*\<^sup>* s s'" and "waiting s"
  shows "waiting s' \<and> rx_pc s' = rx_pc s \<and> \<not> (\<exists>s''. run_step s' s'')"
proof -
  have "waiting s' \<and> rx_pc s' = rx_pc s"
    using assms
  proof (induction rule: rtranclp_induct)
    case (step s' s'')
    from step(2) have "rx_pc s'' = rx_pc s' \<and> rx_queue s'' = rx_queue s'" by cases auto
    with step show ?case unfolding waiting_def by metis
  qed simp
  with waiting_stuck show ?thesis by blast
qed

text \<open>
  \<open>Close\<close> does not wait for \<open>Run\<close>: it closes the consumers while \<open>Run\<close> waits in a poll of one of
  them, and with nothing for that topic \<open>Run\<close> does not go on after \<open>Close\<close> has returned.
\<close>

theorem close_under_poll:
  "\<exists>s :: (nat, nat) reactor_sys. reactor_step\<^sup>*\<^sup>* (reactor_started demo_reactor) s \<and> rx_closers s = [RReturned]
     \<and> rx_pc s = Polling [''t''] \<and> ''t'' \<in> rx_closed s \<and> \<not> (\<exists>s'. run_step s s')"
proof -
  have dom: "dom (consumer demo_reactor) = {''t''}"
    by (simp add: demo_reactor_def NewReactor_def)
  let ?st = "\<lambda>f cl cs. \<lparr>rx = demo_reactor, rx_pc = Polling [''t''], rx_full = f, rx_calls = [], rx_queue = (\<lambda>_. []), rx_closed = cl, rx_closers = cs\<rparr>"
  have "reactor_step (reactor_started demo_reactor) (?st False {} [])"
    using run_round [of "reactor_started demo_reactor" "[''t'']"] dom
    by (simp add: reactor_step_def reactor_started_def)
  moreover have "reactor_step (?st False {} []) (?st False {} [RSending])"
    using rcall [of "?st False {} []"] by (simp add: reactor_step_def)
  moreover have "reactor_step (?st False {} [RSending]) (?st True {} [RClosing])"
    using rsend [of 0 "?st False {} [RSending]"] by (simp add: reactor_step_def)
  moreover have "reactor_step (?st True {} [RClosing]) (?st True {''t''} [RReturned])"
    using rclose [of 0 "?st True {} [RClosing]"] dom by (simp add: reactor_step_def)
  ultimately have "reactor_step\<^sup>*\<^sup>* (reactor_started demo_reactor) (?st True {''t''} [RReturned])"
    by (meson rtranclp.rtrancl_into_rtrancl rtranclp.rtrancl_refl)
  moreover have "waiting (?st True {''t''} [RReturned])" by (simp add: waiting_def)
  ultimately show ?thesis using waiting_stuck
    by (intro exI [of _ "?st True {''t''} [RReturned]"] conjI) auto
qed

section \<open>Accessors of the kafka client\<close>

definition kafkaReader_GetConfig :: "'i kafkaReader \<Rightarrow> ReaderConfig" where
  "kafkaReader_GetConfig r = kr_config r"

definition kafkaReader_SetConfig :: "ReaderConfig \<Rightarrow> 'i kafkaReader \<Rightarrow> 'i kafkaReader" where
  "kafkaReader_SetConfig config r = r\<lparr>kr_config := config\<rparr>"

definition kafkaWriter_GetConfig :: "'i kafkaWriter \<Rightarrow> Message WriterConfig" where
  "kafkaWriter_GetConfig w = kw_config w"

definition kafkaWriter_SetConfig :: "Message WriterConfig \<Rightarrow> 'i kafkaWriter \<Rightarrow> 'i kafkaWriter" where
  "kafkaWriter_SetConfig config w = w\<lparr>kw_config := config\<rparr>"

definition kafkaReader_ReadMessageWithOption :: "'i kafkaReader \<Rightarrow> (unit, kafkaMessage) res" where
  "kafkaReader_ReadMessageWithOption r = Panic"

definition KafkaClient_SetConfig :: "Message MQConfig \<Rightarrow> ('h, 'c) KafkaClient \<Rightarrow> ('h, 'c) KafkaClient" where
  "KafkaClient_SetConfig conf p = p\<lparr>mqConfig := conf\<rparr>"

definition KafkaClient_GetReactor :: "('h, 'c) KafkaClient \<Rightarrow> ('h, 'c) kafkaReactor" where
  "KafkaClient_GetReactor p = mqReactor p"

definition KafkaClient_ResourceManager :: "('h, 'c) KafkaClient \<Rightarrow> (unit, unit) res" where
  "KafkaClient_ResourceManager p = Panic"

definition KafkaClient_TopicPartitions :: "('h, 'c) KafkaClient \<Rightarrow> string \<Rightarrow> (string, string list) res" where
  "KafkaClient_TopicPartitions p topic = Ok [[]]"

text \<open>\<open>Close\<close> of a reader closes its consumer, which is the driver's; \<open>'d\<close> is the driver's state.\<close>

definition kafkaReader_Close :: "('d \<Rightarrow> 'd) \<Rightarrow> 'i kafkaReader \<Rightarrow> 'd \<Rightarrow> 'd" where
  "kafkaReader_Close consumer_Close r d = consumer_Close d"

text \<open>\<open>KafkaClient.Close\<close> only logs: readers, writers and the reactor stay as they are.\<close>

definition KafkaClient_Close :: "('h, 'c) KafkaClient \<Rightarrow> ('h, 'c) KafkaClient" where
  "KafkaClient_Close p = p"

text \<open>The context given to a handler: deadline and end come from the context of \<open>Run\<close>.\<close>

record ('c, 'ctx) kafkaContext =
  kc_consumer :: 'c
  kc_c :: 'ctx

definition kafkaContext_Deadline :: "('ctx \<Rightarrow> int option) \<Rightarrow> ('c, 'ctx) kafkaContext \<Rightarrow> int option" where
  "kafkaContext_Deadline deadline ctx = deadline (kc_c ctx)"

definition kafkaContext_Done :: "('ctx \<Rightarrow> bool) \<Rightarrow> ('c, 'ctx) kafkaContext \<Rightarrow> bool" where
  "kafkaContext_Done done ctx = done (kc_c ctx)"

text \<open>\<open>Ack\<close> commits what the consumer has read so far, whatever messages it is given.\<close>

definition kafkaContext_Ack :: "('c \<Rightarrow> 's \<Rightarrow> 's) \<Rightarrow> Message list \<Rightarrow> ('c, 'ctx) kafkaContext \<Rightarrow> 's \<Rightarrow> 's" where
  "kafkaContext_Ack commit messages ctx s = commit (kc_consumer ctx) s"

text \<open>Changing the configuration of a reader changes what the next \<open>Ack\<close> commits.\<close>

lemma reader_config_decides_commit:
  assumes "messages \<noteq> []"
  shows "(\<exists>calls r'. Ack messages (kafkaReader_SetConfig config r) = Ok (calls, r')
      \<and> length (committed r') = length (committed r) + (if AutoCommit config then 0 else 1))"
  using assms by (simp add: Ack_def kafkaReader_SetConfig_def Let_def)

end
