(* ===== verification/Mq_Lazy.thy ===== *)
theory Mq_Lazy
  imports Pulsar
begin

text \<open>
  The lazily opened reader and writer of \<^verbatim>\<open>src/plugin/mq/pulsar\<close> under concurrent use: the first
  call that finds no consumer (\<open>ReadMessage\<close>) or producer (\<open>checkProducer\<close>) takes the mutex, looks
  again and opens one.  The steps are the single tests, lock operations and calls of the driver of
  any number of goroutines.  The first test reads an interface value without the mutex; that read is
  one step here, while Go promises nothing for it beside a write.  The rest is closing, and the accessors of messages and client.
\<close>

section \<open>Double-checked opening\<close>

text \<open>
  Where a goroutine stands: outside, at the first test, waiting for the mutex, at the second test,
  in the driver's open call, or past it, at its work.  \<open>ReadMessage\<close> defers the unlock to its own
  end, so that its work (\<open>Receive\<close>) is done with the mutex held by the goroutine that took it;
  \<open>checkProducer\<close> unlocks before the work starts.
\<close>

datatype lazy_pc = Outside | Test1 | WaitLock | Test2 | Opening | Working bool

record 'o lazy_sys =
  ls_obj :: "'o option"
  ls_lock :: "nat option"
  ls_pc :: "nat \<Rightarrow> lazy_pc"
  ls_opened :: "'o list"

definition lazy_start :: "'o lazy_sys" where
  "lazy_start = \<lparr>ls_obj = None, ls_lock = None, ls_pc = (\<lambda>_. Outside), ls_opened = []\<rparr>"

definition goto :: "nat \<Rightarrow> lazy_pc \<Rightarrow> 'o lazy_sys \<Rightarrow> 'o lazy_sys" where
  "goto i pc s = s\<lparr>ls_pc := (ls_pc s)(i := pc)\<rparr>"

text \<open>The way on of a goroutine that has the mutex and knows that there is an object.\<close>

definition proceed :: "bool \<Rightarrow> nat \<Rightarrow> 'o lazy_sys \<Rightarrow> 'o lazy_sys" where
  "proceed hold i s = (if hold then goto i (Working True) s else goto i (Working False) (s\<lparr>ls_lock := None\<rparr>))"

inductive lazy_step :: "bool \<Rightarrow> 'o lazy_sys \<Rightarrow> 'o lazy_sys \<Rightarrow> bool" for hold where
  enter: "ls_pc s i = Outside \<Longrightarrow> lazy_step hold s (goto i Test1 s)"
| found: "ls_pc s i = Test1 \<Longrightarrow> ls_obj s \<noteq> None \<Longrightarrow> lazy_step hold s (goto i (Working False) s)"
| missing: "ls_pc s i = Test1 \<Longrightarrow> ls_obj s = None \<Longrightarrow> lazy_step hold s (goto i WaitLock s)"
| lock: "ls_pc s i = WaitLock \<Longrightarrow> ls_lock s = None \<Longrightarrow> lazy_step hold s (goto i Test2 (s\<lparr>ls_lock := Some i\<rparr>))"
| found2: "ls_pc s i = Test2 \<Longrightarrow> ls_obj s \<noteq> None \<Longrightarrow> lazy_step hold s (proceed hold i s)"
| missing2: "ls_pc s i = Test2 \<Longrightarrow> ls_obj s = None \<Longrightarrow> lazy_step hold s (goto i Opening s)"
| opened: "ls_pc s i = Opening \<Longrightarrow>
     lazy_step hold s (proceed hold i (s\<lparr>ls_obj := Some x, ls_opened := ls_opened s @ [x]\<rparr>))"
| failed: "ls_pc s i = Opening \<Longrightarrow> lazy_step hold s (goto i Outside (s\<lparr>ls_lock := None\<rparr>))"
| leave: "ls_pc s i = Working h \<Longrightarrow>
     lazy_step hold s (goto i Outside (if h then s\<lparr>ls_lock := None\<rparr> else s))"

definition writer_open_step :: "'o lazy_sys \<Rightarrow> 'o lazy_sys \<Rightarrow> bool" where
  "writer_open_step = lazy_step False"

definition reader_open_step :: "'o lazy_sys \<Rightarrow> 'o lazy_sys \<Rightarrow> bool" where
  "reader_open_step = lazy_step True"

text \<open>
  The invariant: who is past the lock holds it, the object is the one that was opened, and a
  goroutine that opens or works has seen what it relies on.
\<close>

definition locked_pc :: "lazy_pc \<Rightarrow> bool" where
  "locked_pc pc \<longleftrightarrow> pc = Test2 \<or> pc = Opening \<or> pc = Working True"

definition lazy_inv :: "'o lazy_sys \<Rightarrow> bool" where
  "lazy_inv s \<longleftrightarrow>
     (\<forall>i. ls_lock s = Some i \<longleftrightarrow> locked_pc (ls_pc s i))
   \<and> (\<forall>i. ls_pc s i = Opening \<longrightarrow> ls_obj s = None)
   \<and> (\<forall>i h. ls_pc s i = Working h \<longrightarrow> ls_obj s \<noteq> None)
   \<and> ls_opened s = (case ls_obj s of None \<Rightarrow> [] | Some x \<Rightarrow> [x])"

lemma locked_pc_simps [simp]:
  "locked_pc Test2" "locked_pc Opening" "locked_pc (Working h) = h"
  "\<not> locked_pc Outside" "\<not> locked_pc Test1" "\<not> locked_pc WaitLock"
  by (auto simp: locked_pc_def)

lemma goto_simps [simp]:
  "ls_obj (goto i pc s) = ls_obj s" "ls_lock (goto i pc s) = ls_lock s"
  "ls_opened (goto i pc s) = ls_opened s" "ls_pc (goto i pc s) = (ls_pc s)(i := pc)"
  by (simp_all add: goto_def)

lemma lazy_invD:
  assumes "lazy_inv s"
  shows "locked_pc (ls_pc s i) \<Longrightarrow> ls_lock s = Some i"
    and "ls_pc s i = Opening \<Longrightarrow> ls_obj s = None"
    and "ls_pc s i = Working h \<Longrightarrow> ls_obj s \<noteq> None"
  using assms unfolding lazy_inv_def by blast+

text \<open>A step of one goroutine past the lock leaves no other goroutine there.\<close>

lemma only_holder:
  assumes "lazy_inv s" and "locked_pc (ls_pc s i)" and "j \<noteq> i"
  shows "\<not> locked_pc (ls_pc s j)"
  using assms lazy_invD(1) by (metis option.inject)

lemma proceed_inv:
  assumes "lazy_inv s" and "locked_pc (ls_pc s i)" and "ls_obj s' = Some x" and "ls_opened s' = [x]"
    and "ls_pc s' = ls_pc s" and "ls_lock s' = ls_lock s"
  shows "lazy_inv (proceed hold i s')"
proof -
  have 1: "ls_lock s = Some i" using lazy_invD(1) [OF assms(1,2)] .
  have 2: "\<not> locked_pc (ls_pc s j)" if "j \<noteq> i" for j using only_holder [OF assms(1,2) that] .
  show ?thesis
    unfolding lazy_inv_def proceed_def using assms(3-6) 1 2
    by (auto simp: locked_pc_def)
qed

lemma release_inv:
  assumes "lazy_inv s" and "locked_pc (ls_pc s i)"
  shows "lazy_inv (goto i Outside (s\<lparr>ls_lock := None\<rparr>))"
  using assms only_holder [OF assms] unfolding lazy_inv_def by auto

lemma lazy_step_inv: "lazy_step hold s s' \<Longrightarrow> lazy_inv s \<Longrightarrow> lazy_inv s'"
proof (induction rule: lazy_step.induct)
  case (lock s i)
  then have "\<not> locked_pc (ls_pc s j)" for j using lazy_invD(1) by fastforce
  with lock show ?case unfolding lazy_inv_def by auto
next
  case (found2 s i)
  then obtain x where "ls_obj s = Some x" by blast
  with found2 show ?case by (intro proceed_inv [of s i s x]) (auto simp: lazy_inv_def)
next
  case (opened s i x)
  then have "ls_opened s = []" using lazy_invD(2) by (fastforce simp: lazy_inv_def)
  with opened show ?case
    by (intro proceed_inv [of s i "s\<lparr>ls_obj := Some x, ls_opened := ls_opened s @ [x]\<rparr>" x]) simp_all
next
  case (failed s i)
  then show ?case by (intro release_inv) simp_all
next
  case (leave s i h)
  show ?case
  proof (cases h)
    case True
    with leave show ?thesis by (simp add: release_inv)
  next
    case False
    with leave show ?thesis unfolding lazy_inv_def by auto
  qed
next
  case (missing2 s i)
  then have "ls_lock s = Some i" using lazy_invD(1) by fastforce
  with missing2 show ?case unfolding lazy_inv_def by auto
qed (unfold lazy_inv_def, auto)

lemma lazy_start_inv: "lazy_inv lazy_start"
  by (simp add: lazy_inv_def lazy_start_def)

lemma lazy_reachable_inv: "(lazy_step hold)\<^sup>*\<^sup>* lazy_start s \<Longrightarrow> lazy_inv s"
  by (induction rule: rtranclp_induct) (auto intro: lazy_step_inv lazy_start_inv)

section \<open>Properties\<close>

text \<open>
  C39.  Under any interleaving of any number of goroutines a pulsar reader opens at most one
  consumer and a writer at most one producer; every goroutine that goes on to its work uses the
  one that was opened, and a goroutine that waits for the mutex waits for exactly one other, which
  is past it.
\<close>

theorem lazy_opened_once:
  assumes "(lazy_step hold)\<^sup>*\<^sup>* lazy_start s"
  shows "length (ls_opened s) \<le> 1
    \<and> (\<forall>i h. ls_pc s i = Working h \<longrightarrow> (\<exists>x. ls_obj s = Some x \<and> ls_opened s = [x]))
    \<and> (\<forall>i. ls_lock s = Some i \<longleftrightarrow> locked_pc (ls_pc s i))"
  using lazy_reachable_inv [OF assms] unfolding lazy_inv_def by (auto split: option.splits)

text \<open>Two goroutines of a reader: both find no consumer, the first opens it and waits for a message.\<close>

definition demo_lazy :: "string lazy_sys" where
  "demo_lazy = \<lparr>ls_obj = Some ''consumer'', ls_lock = Some 0,
     ls_pc = (\<lambda>_. Outside)(0 := Working True, 1 := WaitLock), ls_opened = [''consumer'']\<rparr>"

lemma demo_lazy_run: "(lazy_step True)\<^sup>*\<^sup>* lazy_start demo_lazy"
proof -
  let ?st = "\<lambda>obj lk p0 p1. \<lparr>ls_obj = obj, ls_lock = lk, ls_pc = (\<lambda>_. Outside)(0 := p0, Suc 0 := p1),
    ls_opened = (case obj of None \<Rightarrow> [] | Some x \<Rightarrow> [x])\<rparr>"
  have "lazy_step True lazy_start (?st None None Test1 Outside)"
    using enter [of lazy_start 0 True] by (simp add: lazy_start_def goto_def fun_upd_idem)
  moreover have "lazy_step True (?st None None Test1 Outside) (?st None None Test1 Test1)"
    using enter [of "?st None None Test1 Outside" 1 True] by (simp add: goto_def)
  moreover have "lazy_step True (?st None None Test1 Test1) (?st None None WaitLock Test1)"
    using missing [of "?st None None Test1 Test1" 0 True] by (simp add: goto_def fun_upd_twist)
  moreover have "lazy_step True (?st None None WaitLock Test1) (?st None None WaitLock WaitLock)"
    using missing [of "?st None None WaitLock Test1" 1 True] by (simp add: goto_def)
  moreover have "lazy_step True (?st None None WaitLock WaitLock) (?st None (Some 0) Test2 WaitLock)"
    using lock [of "?st None None WaitLock WaitLock" 0 True] by (simp add: goto_def fun_upd_twist)
  moreover have "lazy_step True (?st None (Some 0) Test2 WaitLock) (?st None (Some 0) Opening WaitLock)"
    using missing2 [of "?st None (Some 0) Test2 WaitLock" 0 True] by (simp add: goto_def fun_upd_twist)
  moreover have "lazy_step True (?st None (Some 0) Opening WaitLock)
      (?st (Some ''consumer'') (Some 0) (Working True) WaitLock)"
    using opened [of "?st None (Some 0) Opening WaitLock" 0 True "''consumer''"]
    by (simp add: goto_def proceed_def fun_upd_twist)
  ultimately show ?thesis
    by (simp add: demo_lazy_def) ((erule converse_rtranclp_into_rtranclp)+, rule rtranclp.rtrancl_refl)
qed

theorem lazy_opened_once_witness:
  "length (ls_opened demo_lazy) \<le> 1 \<and> (\<exists>x. ls_obj demo_lazy = Some x \<and> ls_opened demo_lazy = [x])"
proof -
  have "ls_pc demo_lazy 0 = Working True" by (simp add: demo_lazy_def)
  with lazy_opened_once [OF demo_lazy_run] show ?thesis by blast
qed

text \<open>
  The second of two \<open>ReadMessage\<close> calls that both found no consumer waits for the mutex until the
  first has got a message; its own context is not looked at meanwhile.
\<close>

theorem read_waits_for_first_message:
  "\<exists>s :: string lazy_sys. reader_open_step\<^sup>*\<^sup>* lazy_start s \<and> ls_pc s 0 = Working True \<and> ls_pc s 1 = WaitLock
     \<and> ls_lock s = Some 0"
  using demo_lazy_run unfolding reader_open_step_def
  by (intro exI [of _ demo_lazy] conjI) (auto simp: demo_lazy_def)

section \<open>Closing and accessors\<close>

text \<open>\<open>Close\<close> acts on the driver's object, if there is one; \<open>'d\<close> is the driver's state.\<close>

definition pulsarReader_Close :: "('d \<Rightarrow> 'd) \<Rightarrow> 'i pulsarReader \<Rightarrow> 'd \<Rightarrow> 'd" where
  "pulsarReader_Close consumer_Close p d = (if rd_consumer p \<noteq> None then consumer_Close d else d)"

definition pulsarWriter_Close :: "('d \<Rightarrow> 'd) \<Rightarrow> ('d \<Rightarrow> 'd) \<Rightarrow> 'i pulsarWriter \<Rightarrow> 'd \<Rightarrow> 'd" where
  "pulsarWriter_Close producer_Flush producer_Close w d =
     (if producer w \<noteq> None then producer_Close (producer_Flush d) else d)"

definition pulsarReader_GetConfig :: "'i pulsarReader \<Rightarrow> ReaderConfig" where
  "pulsarReader_GetConfig p = rd_config p"

definition pulsarReader_SetConfig :: "ReaderConfig \<Rightarrow> 'i pulsarReader \<Rightarrow> 'i pulsarReader" where
  "pulsarReader_SetConfig config p = p\<lparr>rd_config := config\<rparr>"

definition pulsarReader_ReadMessageWithOption :: "'i pulsarReader \<Rightarrow> (unit, pulsarMessage) res" where
  "pulsarReader_ReadMessageWithOption p = Panic"

definition pulsarWriter_GetConfig :: "'i pulsarWriter \<Rightarrow> Message WriterConfig" where
  "pulsarWriter_GetConfig w = wr_config w"

definition pulsarWriter_SetConfig :: "Message WriterConfig \<Rightarrow> 'i pulsarWriter \<Rightarrow> 'i pulsarWriter" where
  "pulsarWriter_SetConfig config w = w\<lparr>wr_config := config\<rparr>"

definition pulsarMessage_Partition :: "pulsarMessage \<Rightarrow> (unit, int) res" where
  "pulsarMessage_Partition p = Panic"

definition pulsarMessage_Key :: "pulsarMessage \<Rightarrow> string" where
  "pulsarMessage_Key p = pm_Key p"

definition pulsarMessage_MetaInfo :: "pulsarMessage \<Rightarrow> (string \<times> string) list" where
  "pulsarMessage_MetaInfo p = pm_Properties p"

definition pulsarMessage_PayLoad :: "pulsarMessage \<Rightarrow> byte list" where
  "pulsarMessage_PayLoad p = pm_Payload p"

definition pulsarMessage_Topic :: "pulsarMessage \<Rightarrow> string" where
  "pulsarMessage_Topic p = pm_Topic p"

definition pulsarMessage_String :: "pulsarMessage \<Rightarrow> string" where
  "pulsarMessage_String p = pm_Topic p @ ''['' @ pulsarMessage_Key p @ '']@'' @ pm_ID p"

definition producerMessage_Partition :: "ProducerMessage \<Rightarrow> (unit, int) res" where
  "producerMessage_Partition p = Panic"

definition producerMessage_Key :: "ProducerMessage \<Rightarrow> string" where
  "producerMessage_Key p = pr_Key p"

definition producerMessage_MetaInfo :: "ProducerMessage \<Rightarrow> (string \<times> string) list" where
  "producerMessage_MetaInfo p = pr_Properties p"

text \<open>The pointer to the sequence number is nil unless the message had a positive one.\<close>

definition producerMessage_SetSeqID :: "int \<Rightarrow> ProducerMessage \<Rightarrow> (unit, ProducerMessage) res" where
  "producerMessage_SetSeqID seqID p =
     (case SequenceID p of None \<Rightarrow> Panic | Some _ \<Rightarrow> Ok (p\<lparr>SequenceID := Some seqID\<rparr>))"

text \<open>The adapters to the driver's interceptors, as the call they make.\<close>

definition interceptor_BeforeConsume :: "'i \<Rightarrow> pulsarMessage \<Rightarrow> 'i \<times> pulsarMessage" where
  "interceptor_BeforeConsume i message = (i, message)"

definition writeInterceptor_BeforeSend :: "'i \<Rightarrow> ProducerMessage \<Rightarrow> 'i \<times> ProducerMessage" where
  "writeInterceptor_BeforeSend i message = (i, message)"

definition writeInterceptor_OnSendAcknowledgement :: "'i \<Rightarrow> ProducerMessage \<Rightarrow> 'i \<times> ProducerMessage" where
  "writeInterceptor_OnSendAcknowledgement i message = (i, message)"

definition PulsarClient_SetConfig :: "Message MQConfig \<Rightarrow> PulsarClient \<Rightarrow> PulsarClient" where
  "PulsarClient_SetConfig conf p = p\<lparr>pc_config := conf\<rparr>"

definition PulsarClient_ResourceManager :: "PulsarClient \<Rightarrow> (unit, unit) res" where
  "PulsarClient_ResourceManager p = Panic"

definition PulsarClient_TopicPartitions :: "PulsarClient \<Rightarrow> string \<Rightarrow> (string, string list) res" where
  "PulsarClient_TopicPartitions p topic = Panic"

definition PulsarClient_NewReader :: "ReaderConfig \<Rightarrow> 'i pulsarReader" where
  "PulsarClient_NewReader config =
     \<lparr>rd_consumer = None, rd_config = config, readInterceptor = no_interceptors, acked = [], after_reads = []\<rparr>"

definition PulsarClient_NewWriter :: "Message WriterConfig \<Rightarrow> 'i pulsarWriter" where
  "PulsarClient_NewWriter config = \<lparr>producer = None, wr_config = config, writeInterceptor = no_interceptors\<rparr>"

definition PulsarClient_Close :: "('d \<Rightarrow> 'd) \<Rightarrow> PulsarClient \<Rightarrow> 'd \<Rightarrow> 'd" where
  "PulsarClient_Close driver_Close p d = driver_Close d"

text \<open>
  A message that was written without a sequence number has none to read or to set: both panic.
\<close>

lemma unsequenced_message_panics:
  assumes "SeqID msg \<le> 0"
  shows "producerMessage_SeqID (constructMessage msg) = Panic
    \<and> producerMessage_SetSeqID q (constructMessage msg) = Panic"
  using assms by (simp add: producerMessage_SeqID_def producerMessage_SetSeqID_def constructMessage_def)

text \<open>Closing a reader or writer that was never used reaches the driver not at all.\<close>

lemma close_unused:
  "pulsarReader_Close cl (PulsarClient_NewReader rc) d = d"
  "pulsarWriter_Close fl cl (PulsarClient_NewWriter wc) d = d"
  by (simp_all add: pulsarReader_Close_def pulsarWriter_Close_def PulsarClient_NewReader_def
      PulsarClient_NewWriter_def)

end
