(* ===== verification/Mq_Write.thy ===== *)
theory Mq_Write
  imports Kafka
begin

text \<open>
  \<open>WriteMessage\<close> of \<^verbatim>\<open>src/plugin/mq/kafka/writer.go\<close> with the goroutine it starts, as interleaved steps: the
  goroutine calls \<open>Produce\<close>, sends its answer on \<open>errCh\<close> unless it chooses the end of the context, and
  closes the channel; the caller takes from the context, from \<open>errCh\<close> and from the delivery channel.
  \<open>write_wait\<close> of \<open>Kafka\<close>, a function of what the \<open>select\<close> gets, is what the caller does in every run.
\<close>

section \<open>Steps\<close>

datatype produce_pc = Producing | Choosing "string option" | Closing | ProduceDone

text \<open>
  \<open>answer\<close> is what \<open>Produce\<close> returned; the driver reports the delivery of a message that it accepted.
  \<open>taken\<close> lists what the caller's \<open>select\<close> got, \<open>outcome\<close> is what it returned.
\<close>

record write_sys =
  prod_at :: produce_pc
  answer :: "string option option"
  errCh_buf :: "string option option"
  errCh_closed :: bool
  deliveries :: "kafkaMessage list"
  ctx_done :: bool
  taken :: "write_event list"
  outcome :: "(write_err + int) option"

definition write_start :: write_sys where
  "write_start = \<lparr>prod_at = Producing, answer = None, errCh_buf = None, errCh_closed = False, deliveries = [],
     ctx_done = False, taken = [], outcome = None\<rparr>"

definition take_event :: "write_event \<Rightarrow> (write_err + int) option \<Rightarrow> write_sys \<Rightarrow> write_sys" where
  "take_event e r s = s\<lparr>taken := taken s @ [e], outcome := r\<rparr>"

text \<open>A receive from the closed and empty channel is ready at once and gives nil.\<close>

inductive write_step :: "write_sys \<Rightarrow> write_sys \<Rightarrow> bool" where
  produce: "prod_at s = Producing \<Longrightarrow> write_step s (s\<lparr>prod_at := Choosing r, answer := Some r\<rparr>)"
| send_err: "prod_at s = Choosing r \<Longrightarrow> write_step s (s\<lparr>prod_at := Closing, errCh_buf := Some r\<rparr>)"
| give_up: "prod_at s = Choosing r \<Longrightarrow> ctx_done s \<Longrightarrow> write_step s (s\<lparr>prod_at := Closing\<rparr>)"
| close_err: "prod_at s = Closing \<Longrightarrow> write_step s (s\<lparr>prod_at := ProduceDone, errCh_closed := True\<rparr>)"
| deliver: "answer s = Some None \<Longrightarrow> deliveries s = [] \<Longrightarrow> write_step s (s\<lparr>deliveries := [m]\<rparr>)"
| cancel: "write_step s (s\<lparr>ctx_done := True\<rparr>)"
| take_ctx: "outcome s = None \<Longrightarrow> ctx_done s \<Longrightarrow> write_step s (take_event CtxDone (Some (Inl OperateCancel)) s)"
| take_err: "outcome s = None \<Longrightarrow> errCh_buf s = Some r \<Longrightarrow>
    write_step s (take_event (ErrCh r) (map_option (\<lambda>e. Inl (ProduceErr e)) r) (s\<lparr>errCh_buf := None\<rparr>))"
| take_closed: "outcome s = None \<Longrightarrow> errCh_buf s = None \<Longrightarrow> errCh_closed s \<Longrightarrow> write_step s (take_event (ErrCh None) None s)"
| take_delivery: "outcome s = None \<Longrightarrow> deliveries s = m # ms \<Longrightarrow>
    write_step s (take_event (Delivered m) (Some (Inr (tp_Offset (TopicPartition m)))) s)"

definition write_reachable :: "write_sys \<Rightarrow> bool" where
  "write_reachable = write_step\<^sup>*\<^sup>* write_start"

inductive_cases write_stepE: "write_step s s'"

section \<open>What the caller returns\<close>

lemma write_wait_append:
  "write_wait es n = None \<Longrightarrow> \<exists>k. write_wait (es @ [e]) n = write_wait [e] k"
  by (induction es n rule: write_wait.induct) auto

definition write_ok :: "write_sys \<Rightarrow> bool" where
  "write_ok s = (map_option fst (write_wait (taken s) 0) = outcome s
     \<and> (case errCh_buf s of Some r \<Rightarrow> answer s = Some r | None \<Rightarrow> True)
     \<and> (case prod_at s of Choosing r \<Rightarrow> answer s = Some r | _ \<Rightarrow> True)
     \<and> (deliveries s \<noteq> [] \<longrightarrow> answer s = Some None)
     \<and> (prod_at s = Producing \<longrightarrow> answer s = None)
     \<and> (case outcome s of
          None \<Rightarrow> True
        | Some (Inl OperateCancel) \<Rightarrow> ctx_done s
        | Some (Inl (ProduceErr e)) \<Rightarrow> answer s = Some (Some e)
        | Some (Inr off) \<Rightarrow> answer s = Some None \<and> (\<exists>m\<in>set (deliveries s). tp_Offset (TopicPartition m) = off)))"

lemma taken_outcome:
  assumes "map_option fst (write_wait (taken s) 0) = None"
  shows "map_option fst (write_wait (taken s @ [e]) 0)
    = (case e of CtxDone \<Rightarrow> Some (Inl OperateCancel) | ErrCh r \<Rightarrow> map_option (\<lambda>e. Inl (ProduceErr e)) r
       | Delivered m \<Rightarrow> Some (Inr (tp_Offset (TopicPartition m))) | OtherEvent \<Rightarrow> None)"
proof (cases e)
  case (ErrCh r)
  with assms write_wait_append [of "taken s" 0 e] show ?thesis by (cases r) auto
qed (use assms write_wait_append [of "taken s" 0 e] in auto)

lemma write_step_ok: "write_step s s' \<Longrightarrow> write_ok s \<Longrightarrow> write_ok s'"
  by (elim write_stepE) (auto simp: write_ok_def take_event_def taken_outcome split: option.splits sum.splits write_err.splits produce_pc.splits)

lemma write_reachable_ok: "write_reachable s \<Longrightarrow> write_ok s"
  unfolding write_reachable_def
proof (induction rule: rtranclp_induct)
  case base
  show ?case by (simp add: write_ok_def write_start_def)
qed (rule write_step_ok)

text \<open>
  The sequential \<open>write_wait\<close> describes every run, and what it returns is true: an offset only for a
  message that \<open>Produce\<close> accepted and the driver delivered with that offset, an error of \<open>Produce\<close> only
  if that was its answer, a cancellation only if the context ended.
\<close>

theorem write_message_sound:
  assumes "write_reachable s"
  shows "map_option fst (write_wait (taken s) 0) = outcome s
    \<and> (outcome s = Some (Inr off) \<longrightarrow> answer s = Some None \<and> (\<exists>m\<in>set (deliveries s). tp_Offset (TopicPartition m) = off))
    \<and> (outcome s = Some (Inl (ProduceErr e)) \<longrightarrow> answer s = Some (Some e))
    \<and> (outcome s = Some (Inl OperateCancel) \<longrightarrow> ctx_done s)"
  using write_reachable_ok [OF assms] by (auto simp: write_ok_def)

text \<open>It can return as soon as the message is delivered or the context has ended.\<close>

lemma write_message_can_return:
  assumes "outcome s = None" and "ctx_done s \<or> deliveries s \<noteq> []"
  shows "\<exists>s'. write_step s s' \<and> outcome s' \<noteq> None"
proof (cases "ctx_done s")
  case True
  with take_ctx [OF assms(1)] show ?thesis by (fastforce simp: take_event_def)
next
  case False
  with assms(2) obtain m ms where "deliveries s = m # ms" by (cases "deliveries s") auto
  with take_delivery [OF assms(1)] show ?thesis by (fastforce simp: take_event_def)
qed

section \<open>The caller spins\<close>

text \<open>
  Once \<open>Produce\<close> has returned, the closed channel is always ready: while the message is on its way the
  caller does not wait but takes nil from it over and over.
\<close>

lemma write_message_spins:
  assumes "outcome s = None" and "errCh_buf s = None" and "errCh_closed s"
  shows "(write_step ^^ n) s (s\<lparr>taken := taken s @ replicate n (ErrCh None)\<rparr>)"
proof (induction n)
  case (Suc n)
  let ?s = "s\<lparr>taken := taken s @ replicate n (ErrCh None)\<rparr>"
  have "write_step ?s (take_event (ErrCh None) None ?s)"
    using assms by (intro take_closed) simp_all
  moreover have "take_event (ErrCh None) None ?s = s\<lparr>taken := taken s @ replicate (Suc n) (ErrCh None)\<rparr>"
    using assms(1) by (simp add: take_event_def replicate_append_same)
  ultimately show ?case using Suc by (simp only: relpowp.simps) (rule relcomppI)
qed simp

lemma write_message_busy:
  "\<exists>s. write_reachable s \<and> outcome s = None \<and> answer s = Some None \<and> deliveries s = [] \<and> n \<le> length (taken s)"
proof -
  let ?s = "write_start\<lparr>prod_at := ProduceDone, answer := Some None, errCh_closed := True, taken := [ErrCh None]\<rparr>"
  let ?a = "write_start\<lparr>prod_at := Choosing None, answer := Some None\<rparr>"
  let ?b = "?a\<lparr>prod_at := Closing, errCh_buf := Some None\<rparr>"
  let ?c = "?b\<lparr>prod_at := ProduceDone, errCh_closed := True\<rparr>"
  have "write_step\<^sup>*\<^sup>* write_start ?a" by (intro r_into_rtranclp produce) (simp add: write_start_def)
  also have "write_step ?a ?b" by (rule send_err) (simp add: write_start_def)
  also have "write_step ?b ?c" by (rule close_err) (simp add: write_start_def)
  also have "write_step ?c ?s" using take_err [of ?c None] by (simp add: take_event_def write_start_def)
  also have "write_step\<^sup>*\<^sup>* ?s (?s\<lparr>taken := taken ?s @ replicate n (ErrCh None)\<rparr>)"
    by (intro relpowp_imp_rtranclp [OF write_message_spins]) (simp_all add: write_start_def)
  finally show ?thesis unfolding write_reachable_def by (intro exI conjI) (assumption, simp_all add: write_start_def)
qed

end
