(* ===== verification/Db_Async.thy ===== *)
theory Db_Async
  imports Pbsupport
begin

text \<open>
  The asynchronous half of the database interface, \<open>IDBAsyncExecutor\<close> of \<^verbatim>\<open>src/plugin/db/db.go\<close>, and
  what the two plugins make of it: \<^verbatim>\<open>src/plugin/db/mysql/async.go\<close>, \<^verbatim>\<open>src/plugin/db/redis/async.go\<close> and
  the custom requests in \<^verbatim>\<open>mysql.go\<close> and \<^verbatim>\<open>redis.go\<close>.  A call is given the callback as a function on
  the caller's state \<open>'s\<close>; \<open>'d\<close> is the database.  Also here: the table of the tcaplus options in
  \<^verbatim>\<open>pbsupport.go\<close>, from which the primary key of a record is read.
\<close>

section \<open>Asynchronous operations\<close>

type_synonym ('r, 's) AsyncResult = "'r list \<Rightarrow> string option \<Rightarrow> 's \<Rightarrow> 's"

datatype 'r async_op =
    AsyncGet 'r "string list option"
  | AsyncBatchGet "'r list"
  | AsyncUpdate 'r "string list option"
  | AsyncInsert 'r
  | AsyncReplace 'r
  | AsyncDelete 'r int
  | AsyncIncrease 'r "string list"

text \<open>The error, the database and the caller's state after the call.\<close>

fun mysql_async :: "('r, 's) AsyncResult \<Rightarrow> 'r async_op \<Rightarrow> 'd \<Rightarrow> 's \<Rightarrow> string option \<times> 'd \<times> 's" where
  "mysql_async ret (AsyncGet record fs) d s = (None, d, s)"
| "mysql_async ret (AsyncBatchGet record) d s = (None, d, s)"
| "mysql_async ret (AsyncUpdate record fs) d s = (None, d, s)"
| "mysql_async ret (AsyncInsert record) d s = (None, d, s)"
| "mysql_async ret (AsyncReplace record) d s = (None, d, s)"
| "mysql_async ret (AsyncDelete record resultFlag) d s = (None, d, s)"
| "mysql_async ret (AsyncIncrease record fs) d s = (None, d, s)"

fun redis_async :: "('r, 's) AsyncResult \<Rightarrow> 'r async_op \<Rightarrow> 'd \<Rightarrow> 's \<Rightarrow> string option \<times> 'd \<times> 's" where
  "redis_async ret (AsyncBatchGet record) d s = (None, d, s)"
| "redis_async ret (AsyncGet record fs) d s = (None, d, s)"
| "redis_async ret (AsyncIncrease record fs) d s = (None, d, s)"
| "redis_async ret (AsyncUpdate record fs) d s = (None, d, s)"
| "redis_async ret (AsyncReplace record) d s = (None, d, s)"
| "redis_async ret (AsyncInsert record) d s = (None, d, s)"
| "redis_async ret (AsyncDelete record resultFlag) d s = (None, d, s)"

text \<open>\<open>OnTick\<close>, which the interface documents as the call that runs the callbacks.\<close>

definition mysql_OnTick :: "'d \<Rightarrow> 's \<Rightarrow> 'd \<times> 's" where
  "mysql_OnTick d s = (d, s)"

definition redis_OnTick :: "'d \<Rightarrow> 's \<Rightarrow> 'd \<times> 's" where
  "redis_OnTick d s = (d, s)"

section \<open>Custom requests\<close>

text \<open>A nil request; an error at once; an error given to the callback.\<close>

definition mysql_NewRequest :: "'d \<Rightarrow> 'req option" where
  "mysql_NewRequest d = None"

definition mysql_Exec :: "'a list \<Rightarrow> 'd \<Rightarrow> 'res option \<times> string option" where
  "mysql_Exec args d = (None, Some ''not support customize request'')"

definition mysql_ExecAsync :: "('res option \<Rightarrow> string option \<Rightarrow> 's \<Rightarrow> 's) \<Rightarrow> 'a list \<Rightarrow> 's \<Rightarrow> 's" where
  "mysql_ExecAsync ret args s = ret None (Some ''not support customize request'') s"

definition redis_NewRequest :: "'d \<Rightarrow> 'req option" where
  "redis_NewRequest d = None"

definition redis_Exec :: "'a list \<Rightarrow> 'd \<Rightarrow> 'res option \<times> string option" where
  "redis_Exec args d = (None, Some ''not support customize request'')"

definition redis_ExecAsync :: "('res option \<Rightarrow> string option \<Rightarrow> 's \<Rightarrow> 's) \<Rightarrow> 'a list \<Rightarrow> 's \<Rightarrow> 's" where
  "redis_ExecAsync ret args s = ret None (Some ''not support customize request'') s"

section \<open>The table of options\<close>

datatype ext_of = MessageOptions | FieldOptions
datatype ext_type = ExtString | ExtStrings | ExtUint32 | ExtBool

record ExtensionInfo =
  ExtendedType :: ext_of
  ExtensionType :: ext_type
  Field :: nat
  ext_Name :: string

definition extTypes :: "ExtensionInfo list" where
  "extTypes =
     [\<lparr>ExtendedType = MessageOptions, ExtensionType = ExtString, Field = 60000, ext_Name = ''tcaplusservice.tcaplus_primary_key''\<rparr>,
      \<lparr>ExtendedType = MessageOptions, ExtensionType = ExtStrings, Field = 60001, ext_Name = ''tcaplusservice.tcaplus_index''\<rparr>,
      \<lparr>ExtendedType = MessageOptions, ExtensionType = ExtString, Field = 60002, ext_Name = ''tcaplusservice.tcaplus_field_cipher_suite''\<rparr>,
      \<lparr>ExtendedType = MessageOptions, ExtensionType = ExtString, Field = 60003, ext_Name = ''tcaplusservice.tcaplus_record_cipher_suite''\<rparr>,
      \<lparr>ExtendedType = MessageOptions, ExtensionType = ExtString, Field = 60004, ext_Name = ''tcaplusservice.tcaplus_cipher_md5''\<rparr>,
      \<lparr>ExtendedType = MessageOptions, ExtensionType = ExtString, Field = 60005, ext_Name = ''tcaplusservice.tcaplus_sharding_key''\<rparr>,
      \<lparr>ExtendedType = MessageOptions, ExtensionType = ExtString, Field = 60006, ext_Name = ''tcaplusservice.tcaplus_customattr''\<rparr>,
      \<lparr>ExtendedType = FieldOptions, ExtensionType = ExtUint32, Field = 60000, ext_Name = ''tcaplusservice.tcaplus_size''\<rparr>,
      \<lparr>ExtendedType = FieldOptions, ExtensionType = ExtString, Field = 60001, ext_Name = ''tcaplusservice.tcaplus_desc''\<rparr>,
      \<lparr>ExtendedType = FieldOptions, ExtensionType = ExtBool, Field = 60002, ext_Name = ''tcaplusservice.tcaplus_crypto''\<rparr>]"

definition E_TcaplusPrimaryKey :: ExtensionInfo where
  "E_TcaplusPrimaryKey = hd extTypes"

text \<open>
  The options a message descriptor carries, by field number; \<open>proto.GetExtension\<close> on the primary
  key option gives its text, or the zero value.
\<close>

definition GetExtension :: "(nat \<rightharpoonup> string) \<Rightarrow> ExtensionInfo \<Rightarrow> string" where
  "GetExtension options ext = (case options (Field ext) of None \<Rightarrow> [] | Some v \<Rightarrow> v)"

definition primary_key_of_options :: "(nat \<rightharpoonup> string) \<Rightarrow> string list" where
  "primary_key_of_options options =
     (let primKey = GetExtension options E_TcaplusPrimaryKey
      in if length primKey = 0 then [] else split_at (CHR '','') [] primKey)"

section \<open>Facts\<close>

text \<open>No two options of the same target share a number, and no two share a name.\<close>

lemma extTypes_distinct:
  "distinct (map (\<lambda>e. (ExtendedType e, Field e)) extTypes)" "distinct (map ext_Name extTypes)"
  by (simp_all add: extTypes_def)

text \<open>The primary key that \<open>Pbsupport\<close> takes from the descriptor is the one read from the options.\<close>

lemma primary_key_from_options:
  "d_PrimaryKey desc = GetExtension options E_TcaplusPrimaryKey \<Longrightarrow>
     FindPrimaryKey desc = primary_key_of_options options"
  by (simp add: FindPrimaryKey_def primary_key_of_options_def Let_def)

text \<open>
  An asynchronous request is accepted and lost: whatever requests are made and however often
  \<open>OnTick\<close> runs, every call reports success, the database stays as it is and no callback is called.
\<close>

fun async_run ::
  "('r async_op \<Rightarrow> 'd \<Rightarrow> 's \<Rightarrow> string option \<times> 'd \<times> 's) \<Rightarrow> ('d \<Rightarrow> 's \<Rightarrow> 'd \<times> 's) \<Rightarrow> 'r async_op option list
    \<Rightarrow> 'd \<Rightarrow> 's \<Rightarrow> string option list \<times> 'd \<times> 's" where
  "async_run exec tick [] d s = ([], d, s)"
| "async_run exec tick (None # ops) d s = (let (d, s) = tick d s in async_run exec tick ops d s)"
| "async_run exec tick (Some op # ops) d s =
     (let (err, d, s) = exec op d s; (errs, d, s) = async_run exec tick ops d s in (err # errs, d, s))"

lemma async_exec_lost: "mysql_async ret op d s = (None, d, s)" "redis_async ret op d s = (None, d, s)"
  by (cases op; simp)+

theorem async_requests_lost:
  "async_run (mysql_async ret) mysql_OnTick ops d s = (replicate (length (filter (\<lambda>op. op \<noteq> None) ops)) None, d, s)
   \<and> async_run (redis_async ret) redis_OnTick ops d s = (replicate (length (filter (\<lambda>op. op \<noteq> None) ops)) None, d, s)"
proof (induction ops arbitrary: d s)
  case (Cons op ops)
  then show ?case by (cases op) (simp_all add: async_exec_lost mysql_OnTick_def redis_OnTick_def)
qed simp

text \<open>A custom request is answered, with the same error in both forms.\<close>

lemma exec_async_answers:
  "mysql_ExecAsync ret args s = ret (fst (mysql_Exec args d)) (snd (mysql_Exec args d)) s"
  "redis_ExecAsync ret args s = ret (fst (redis_Exec args d)) (snd (redis_Exec args d)) s"
  by (simp_all add: mysql_ExecAsync_def mysql_Exec_def redis_ExecAsync_def redis_Exec_def)

end
