(* ===== verification/Send_Race.thy ===== *)
theory Send_Race
  imports Tcp
begin

text \<open>
  \<open>(*tcpConn).Send\<close> of \<^verbatim>\<open>src/plugin/transport/tcp/tcp.go\<close> from several goroutines.  \<open>Send\<close> takes no lock
  around the calls of \<open>Write\<close> and \<open>Flush\<close> on the connection's \<open>bufio.Writer\<close>, and \<open>bufio.Writer\<close> has
  none of its own: its statements interleave.  Here a frame fits the buffer and the socket takes
  everything; the steps are the statements of \<open>Write\<close> and \<open>Flush\<close> that touch the writer.  With
  \<open>locked\<close> a goroutine starts only when no other is between its first and its last statement, as
  it would with a mutex around the two calls.
\<close>

section \<open>Statements of Write and Flush\<close>

text \<open>
  \<open>copy(b.buf[b.n:], p)\<close>; \<open>b.n += n\<close>; \<open>b.wr.Write(b.buf[0:b.n])\<close>, or the return when \<open>b.n\<close> is 0;
  \<open>b.n = 0\<close>.
\<close>

datatype send_pc = AtCopy | AtAdd | AtWrite | AtReset | Sent

record send_sys =
  sw_buf :: "byte list"
  sw_n :: nat
  sw_net :: "byte list"
  sw_pc :: "nat \<Rightarrow> send_pc"
  sw_order :: "nat list"

definition send_start :: "send_sys" where
  "send_start = \<lparr>sw_buf = replicate maxBufSize 0, sw_n = 0, sw_net = [], sw_pc = (\<lambda>_. AtCopy), sw_order = []\<rparr>"

definition busy :: "send_pc \<Rightarrow> bool" where
  "busy pc \<longleftrightarrow> pc = AtAdd \<or> pc = AtWrite \<or> pc = AtReset"

definition overwrite :: "byte list \<Rightarrow> nat \<Rightarrow> byte list \<Rightarrow> byte list" where
  "overwrite buf n p = take n buf @ p @ drop (n + length p) buf"

inductive send_step :: "bool \<Rightarrow> (nat \<Rightarrow> byte list) \<Rightarrow> send_sys \<Rightarrow> send_sys \<Rightarrow> bool" for locked f where
  copy: "sw_pc s i = AtCopy \<Longrightarrow> sw_n s + length (f i) \<le> maxBufSize \<Longrightarrow> (locked \<longrightarrow> (\<forall>j. \<not> busy (sw_pc s j))) \<Longrightarrow>
     send_step locked f s (s\<lparr>sw_buf := overwrite (sw_buf s) (sw_n s) (f i), sw_pc := (sw_pc s)(i := AtAdd),
       sw_order := sw_order s @ [i]\<rparr>)"
| add: "sw_pc s i = AtAdd \<Longrightarrow>
     send_step locked f s (s\<lparr>sw_n := sw_n s + length (f i), sw_pc := (sw_pc s)(i := AtWrite)\<rparr>)"
| flush_empty: "sw_pc s i = AtWrite \<Longrightarrow> sw_n s = 0 \<Longrightarrow>
     send_step locked f s (s\<lparr>sw_pc := (sw_pc s)(i := Sent)\<rparr>)"
| flush_write: "sw_pc s i = AtWrite \<Longrightarrow> sw_n s \<noteq> 0 \<Longrightarrow>
     send_step locked f s (s\<lparr>sw_net := sw_net s @ take (sw_n s) (sw_buf s), sw_pc := (sw_pc s)(i := AtReset)\<rparr>)"
| reset: "sw_pc s i = AtReset \<Longrightarrow>
     send_step locked f s (s\<lparr>sw_n := 0, sw_pc := (sw_pc s)(i := Sent)\<rparr>)"

lemma busy_simps [simp]: "busy AtAdd" "busy AtWrite" "busy AtReset" "\<not> busy AtCopy" "\<not> busy Sent"
  by (simp_all add: busy_def)

lemma length_overwrite [simp]: "n + length p \<le> length buf \<Longrightarrow> length (overwrite buf n p) = length buf"
  by (simp add: overwrite_def)

section \<open>With a lock\<close>

text \<open>
  The goroutine between its first and last statement, if any, has its frame at the start of the
  buffer; the socket has got whole frames, those of the goroutines that started before it.
\<close>

definition send_inv :: "(nat \<Rightarrow> byte list) \<Rightarrow> send_sys \<Rightarrow> bool" where
  "send_inv f s \<longleftrightarrow> length (sw_buf s) = maxBufSize \<and>
     ((\<forall>j. \<not> busy (sw_pc s j)) \<and> sw_n s = 0 \<and> sw_net s = concat (map f (sw_order s))
      \<or> (\<exists>i o'. (\<forall>j. busy (sw_pc s j) \<longleftrightarrow> j = i) \<and> sw_order s = o' @ [i] \<and> take (length (f i)) (sw_buf s) = f i
          \<and> (case sw_pc s i of
               AtAdd \<Rightarrow> sw_n s = 0 \<and> sw_net s = concat (map f o')
             | AtWrite \<Rightarrow> sw_n s = length (f i) \<and> sw_net s = concat (map f o')
             | AtReset \<Rightarrow> sw_net s = concat (map f (sw_order s))
             | _ \<Rightarrow> False)))"

lemma send_inv_idle:
  assumes "length (sw_buf s) = maxBufSize" and "\<And>j. \<not> busy (sw_pc s j)" and "sw_n s = 0"
    and "sw_net s = concat (map f (sw_order s))"
  shows "send_inv f s"
  using assms by (simp add: send_inv_def)

text \<open>Only the goroutine that is under way can make a step other than the first.\<close>

lemma send_inv_busy:
  assumes "send_inv f s" and "busy (sw_pc s i)"
  obtains o' where "length (sw_buf s) = maxBufSize" and "\<And>j. busy (sw_pc s j) \<longleftrightarrow> j = i"
    and "sw_order s = o' @ [i]" and "take (length (f i)) (sw_buf s) = f i"
    and "sw_pc s i = AtAdd \<Longrightarrow> sw_n s = 0 \<and> sw_net s = concat (map f o')"
    and "sw_pc s i = AtWrite \<Longrightarrow> sw_n s = length (f i) \<and> sw_net s = concat (map f o')"
    and "sw_pc s i = AtReset \<Longrightarrow> sw_net s = concat (map f (sw_order s))"
proof -
  from assms obtain i' o' where 1: "length (sw_buf s) = maxBufSize" "\<forall>j. busy (sw_pc s j) \<longleftrightarrow> j = i'"
    "sw_order s = o' @ [i']" "take (length (f i')) (sw_buf s) = f i'"
    and 2: "case sw_pc s i' of
               AtAdd \<Rightarrow> sw_n s = 0 \<and> sw_net s = concat (map f o')
             | AtWrite \<Rightarrow> sw_n s = length (f i') \<and> sw_net s = concat (map f o')
             | AtReset \<Rightarrow> sw_net s = concat (map f (sw_order s))
             | _ \<Rightarrow> False"
    unfolding send_inv_def by blast
  from 1(2) assms(2) have "i' = i" by simp
  with 1 2 show ?thesis by (intro that [of o']) auto
qed

lemma send_step_inv: "send_step True f s s' \<Longrightarrow> send_inv f s \<Longrightarrow> send_inv f s'"
proof (induction rule: send_step.induct)
  case (copy s i)
  then have idle: "\<And>j. \<not> busy (sw_pc s j)" by simp
  with copy have "length (sw_buf s) = maxBufSize" "sw_n s = 0" "sw_net s = concat (map f (sw_order s))"
    unfolding send_inv_def by blast+
  with idle copy.hyps(2) show ?case
    unfolding send_inv_def
    by (intro conjI disjI2 exI [of _ i] exI [of _ "sw_order s"]) (auto simp: overwrite_def)
next
  case (add s i)
  then have "busy (sw_pc s i)" by simp
  from send_inv_busy [OF add.prems this] obtain o' where o': "length (sw_buf s) = maxBufSize"
    "\<And>j. busy (sw_pc s j) \<longleftrightarrow> j = i" "sw_order s = o' @ [i]" "take (length (f i)) (sw_buf s) = f i"
    "sw_n s = 0" "sw_net s = concat (map f o')" using add.hyps by metis
  then show ?case unfolding send_inv_def by (intro conjI disjI2 exI [of _ i] exI [of _ o']) auto
next
  case (flush_empty s i)
  then have "busy (sw_pc s i)" by simp
  from send_inv_busy [OF flush_empty.prems this] obtain o' where o': "length (sw_buf s) = maxBufSize"
    "\<And>j. busy (sw_pc s j) \<longleftrightarrow> j = i" "sw_order s = o' @ [i]" "sw_n s = length (f i)"
    "sw_net s = concat (map f o')" using flush_empty.hyps by metis
  with flush_empty.hyps show ?case by (intro send_inv_idle) auto
next
  case (flush_write s i)
  then have "busy (sw_pc s i)" by simp
  from send_inv_busy [OF flush_write.prems this] obtain o' where o': "length (sw_buf s) = maxBufSize"
    "\<And>j. busy (sw_pc s j) \<longleftrightarrow> j = i" "sw_order s = o' @ [i]" "take (length (f i)) (sw_buf s) = f i"
    "sw_n s = length (f i)" "sw_net s = concat (map f o')" using flush_write.hyps by metis
  then show ?case unfolding send_inv_def by (intro conjI disjI2 exI [of _ i] exI [of _ o']) auto
next
  case (reset s i)
  then have "busy (sw_pc s i)" by simp
  from send_inv_busy [OF reset.prems this] obtain o' where o': "length (sw_buf s) = maxBufSize"
    "\<And>j. busy (sw_pc s j) \<longleftrightarrow> j = i" "sw_net s = concat (map f (sw_order s))" using reset.hyps by metis
  then show ?case by (intro send_inv_idle) auto
qed

lemma send_start_inv: "send_inv f send_start"
  by (rule send_inv_idle) (simp_all add: send_start_def)

lemma send_reachable_inv: "(send_step True f)\<^sup>*\<^sup>* send_start s \<Longrightarrow> send_inv f s"
  by (induction rule: rtranclp_induct) (auto intro: send_step_inv send_start_inv)

section \<open>Properties\<close>

text \<open>
  What a mutex in \<open>Send\<close> would give: whenever no goroutine is inside \<open>Send\<close>, the socket has got the
  frames of all that started, whole and in the order in which they started.
\<close>

theorem locked_sends_keep_frames:
  assumes "(send_step True f)\<^sup>*\<^sup>* send_start s" and "\<forall>j. \<not> busy (sw_pc s j)"
  shows "sw_net s = concat (map f (sw_order s)) \<and> sw_n s = 0"
  using send_reachable_inv [OF assms(1)] assms(2) unfolding send_inv_def by blast

text \<open>
  As the code is, without the lock: two goroutines that send at the same time can both return
  from \<open>Send\<close> with success although no byte of the first frame has reached the peer, which gets the
  second frame followed by as many zeros as the first is long.
\<close>

theorem concurrent_sends_lose_a_frame:
  assumes "length a \<noteq> 0" and "length b = length a" and "2 * length a \<le> maxBufSize"
  shows "\<exists>s. (send_step False (\<lambda>i. if i = 0 then a else b))\<^sup>*\<^sup>* send_start s
    \<and> sw_pc s 0 = Sent \<and> sw_pc s 1 = Sent \<and> sw_net s = b @ replicate (length a) 0"
proof -
  let ?f = "\<lambda>i :: nat. if i = 0 then a else b"
  let ?st = "\<lambda>buf n net p0 p1 ord. \<lparr>sw_buf = buf, sw_n = n, sw_net = net, sw_pc = (\<lambda>_. AtCopy)(0 := p0, 1 := p1), sw_order = ord\<rparr>"
  let ?z = "replicate maxBufSize 0 :: byte list"
  let ?b1 = "overwrite ?z 0 a" and ?b2 = "overwrite (overwrite ?z 0 a) 0 b"
  let ?net = "b @ replicate (length a) 0"
  have start: "send_start = ?st ?z 0 [] AtCopy AtCopy []" by (simp add: send_start_def fun_upd_idem)
  have net: "take (2 * length a) ?b2 = ?net"
    using assms by (simp add: overwrite_def take_replicate min_def)
  have 1: "send_step False ?f (?st ?z 0 [] AtCopy AtCopy []) (?st ?b1 0 [] AtAdd AtCopy [0])"
    using copy [of "?st ?z 0 [] AtCopy AtCopy []" 0 ?f False] assms by (simp add: fun_upd_twist)
  have 2: "send_step False ?f (?st ?b1 0 [] AtAdd AtCopy [0]) (?st ?b2 0 [] AtAdd AtAdd [0, 1])"
    using copy [of "?st ?b1 0 [] AtAdd AtCopy [0]" 1 ?f False] assms by simp
  have 3: "send_step False ?f (?st ?b2 0 [] AtAdd AtAdd [0, 1]) (?st ?b2 (length a) [] AtWrite AtAdd [0, 1])"
    using add [of "?st ?b2 0 [] AtAdd AtAdd [0, 1]" 0 False ?f] by (simp add: fun_upd_twist)
  have 4: "send_step False ?f (?st ?b2 (length a) [] AtWrite AtAdd [0, 1])
      (?st ?b2 (2 * length a) [] AtWrite AtWrite [0, 1])"
    using add [of "?st ?b2 (length a) [] AtWrite AtAdd [0, 1]" 1 False ?f] assms(2) by (simp add: mult_2)
  have 5: "send_step False ?f (?st ?b2 (2 * length a) [] AtWrite AtWrite [0, 1])
      (?st ?b2 (2 * length a) ?net AtReset AtWrite [0, 1])"
    using flush_write [of "?st ?b2 (2 * length a) [] AtWrite AtWrite [0, 1]" 0 False ?f] assms(1) net
    by (simp add: fun_upd_twist)
  have 6: "send_step False ?f (?st ?b2 (2 * length a) ?net AtReset AtWrite [0, 1])
      (?st ?b2 0 ?net Sent AtWrite [0, 1])"
    using reset [of "?st ?b2 (2 * length a) ?net AtReset AtWrite [0, 1]" 0 False ?f] by (simp add: fun_upd_twist)
  have 7: "send_step False ?f (?st ?b2 0 ?net Sent AtWrite [0, 1]) (?st ?b2 0 ?net Sent Sent [0, 1])"
    using flush_empty [of "?st ?b2 0 ?net Sent AtWrite [0, 1]" 1 False ?f] by simp
  have "(send_step False ?f)\<^sup>*\<^sup>* send_start (?st ?b2 0 ?net Sent Sent [0, 1])"
    unfolding start using 1 2 3 4 5 6 7
    by (meson rtranclp.rtrancl_into_rtrancl rtranclp.rtrancl_refl)
  then show ?thesis by (intro exI conjI) auto
qed

theorem concurrent_sends_lose_a_frame_witness:
  "\<exists>s. (send_step False (\<lambda>i. if i = 0 then [1, 2] else [3, 4]))\<^sup>*\<^sup>* send_start s
     \<and> sw_pc s 0 = Sent \<and> sw_pc s 1 = Sent \<and> sw_net s = [3, 4, 0, 0]"
  using concurrent_sends_lose_a_frame [of "[1, 2]" "[3, 4]"] by (simp add: maxBufSize_def numeral_2_eq_2)

end
