(* ===== verification/Spec2Isabelle.thy ===== *)
theory Spec2Isabelle
  imports Mango_Prelude Go_Strconv Uid Cache Transport_Codec Tcp Conn_Life Msg Event Config Plugin Process App App_Run Msg_Text
    Log Log_Async Protolog Loggers Res Mq Kafka Pulsar Pbsupport Mysql Redis Record_Store Redis_Store Mysql_Store
    Mysql_Read Redis_Count Redis_Read Factories Csproto Echo Login Example_Server Mq_Close Mq_Lazy Mq_Write Db_Async Send_Race
begin

text \<open>
  \<^bold>\<open>mango-go: a game server framework in Go.\<close>

  \<^bold>\<open>The program.\<close>  A server is an application (\<^verbatim>\<open>src/server_base/app\<close>) that reads its configuration
  (\<^verbatim>\<open>src/config\<close>), replaces an earlier process through a pid file (\<^verbatim>\<open>src/common/process\<close>), starts the
  plugins that the configuration names (\<^verbatim>\<open>src/plugin/plugin.go\<close>), starts the tcp transport
  (\<^verbatim>\<open>src/plugin/transport\<close>), starts its modules, and then runs a loop of frames and signals
  (\<^verbatim>\<open>src/common/signal\<close>) until it is told to quit.  A connection's receive loop cuts the byte stream
  into frames, whose packets the message layer (\<^verbatim>\<open>src/server_base/msg\<close>) decodes and dispatches to the
  handlers that the modules registered.  Modules use topics (\<^verbatim>\<open>src/server_base/event\<close>), resource
  tables (\<^verbatim>\<open>src/server_data/res\<close>), the cache and the id generator (\<^verbatim>\<open>src/common\<close>), and the plugins for
  logging (\<^verbatim>\<open>src/plugin/log\<close>), message queues (\<^verbatim>\<open>src/plugin/mq\<close>) and databases (\<^verbatim>\<open>src/plugin/db\<close>).

  \<^bold>\<open>Theories and sources.\<close>
  \<^item> \<open>Mango_Prelude\<close>: the outcome type \<open>res\<close> (value, error, panic) of a Go call, Go's builtins on
    slices and integers, association lists, and the interfaces \<open>first_wins_registry\<close>,
    \<open>last_wins_registry\<close> and \<open>invariant_system\<close>, which the components interpret.
  \<^item> \<open>Go_Strconv\<close>: the number texts of \<open>strconv\<close> and \<open>fmt\<close> that several components use.
  \<^item> \<open>Uid\<close>: \<^verbatim>\<open>common/uid/uid.go\<close>; 64-bit ids, increasing in a process, distinct across processes.
  \<^item> \<open>Cache\<close>: \<^verbatim>\<open>common/cache/cache.go\<close>; two linked lists over one map, all loops shown to end, capacity
    bound, least recently used eviction, exact results of \<open>Get\<close> and \<open>AddWithSize\<close>.
  \<^item> \<open>Transport_Codec\<close>: \<^verbatim>\<open>plugin/transport/codec.go\<close> and \<open>tcpConn.Read\<close>; the frame round trip over an
    arbitrarily segmented stream (locale \<open>frame_codec\<close>) and the sizes for which decoding panics.
  \<^item> \<open>Tcp\<close>: \<^verbatim>\<open>plugin/transport/tcp/tcp.go\<close>; buffered sending, deadlines, the receive loop, closing and
    accepting; end-to-end delivery from one connection's \<open>Send\<close> to the other's handler.
  \<^item> \<open>Conn_Life\<close>: the same connection as a system of interleaved steps: the peer's goroutines send
    (write and flush are steps of their own, and two of them inside the writer at once are a race) or the
    stream ends or breaks, the receive goroutine runs statement by statement, and other goroutines close
    the connection; the receive loop of \<open>Tcp\<close> refines it.  Delivery is shown for runs without a race.
  \<^item> \<open>Send_Race\<close>: \<open>Send\<close> of that connection from several goroutines, by the statements of the buffered
    writer: what a lock would keep, and the frame that is lost without one.
  \<^item> \<open>Msg\<close>: \<^verbatim>\<open>server_base/msg/msg.go\<close>, \<^verbatim>\<open>codec.go\<close> and \<^verbatim>\<open>server_base/app/tcp.go\<close>; handler tables, the
    message codec and the dispatch of every packet of a connection.  \<open>Msg_Text\<close>: the lines it logs.
  \<^item> \<open>Event\<close>: \<^verbatim>\<open>server_base/event/event.go\<close>; topics, timeouts, and when the process panics
    during or after publishing.
  \<^item> \<open>Config\<close>: \<^verbatim>\<open>config/config.go\<close>; the active configuration is the last one that loaded.
  \<^item> \<open>Plugin\<close>: \<^verbatim>\<open>plugin/plugin.go\<close>; starting refines a plan of set-ups, no instance without a factory.
  \<^item> \<open>Process\<close>: \<^verbatim>\<open>common/process/process.go\<close> (pid file, signals to the running server, \<open>Daemon\<close>) and
    \<^verbatim>\<open>common/signal/signal.go\<close>.
  \<^item> \<open>App\<close>: \<^verbatim>\<open>server_base/app/app.go\<close> and \<^verbatim>\<open>module.go\<close>; the order of starting and ending, and the main loop.
  \<^item> \<open>App_Run\<close>: the same main loop and the goroutine of \<^verbatim>\<open>common/signal/signal.go\<close> as interleaved steps, with the
    channel of signals and the finish channel: a quit ends the server, every tick and every reload
    calls every module, and the sequential loop of \<open>App\<close> is one of the runs.
  \<^item> \<open>Log\<close>: \<^verbatim>\<open>plugin/log/logger.go\<close>, \<^verbatim>\<open>log.go\<close> and \<^verbatim>\<open>bingologger/bingologger.go\<close>; level filter, rotation that
    loses no line, the batches of one run of the write loop.
  \<^item> \<open>Log_Async\<close>: the asynchronous mode of the same file, with callers and write loop as interleaved steps
    at their channel operations: which calls return, and what has been written when they do.
  \<^item> \<open>Protolog\<close>: \<^verbatim>\<open>plugin/log/protolog/encode.go\<close>; the text of a message is the list of its leaves with
    their paths.
  \<^item> \<open>Loggers\<close>: \<^verbatim>\<open>plugin/log/defaultlogger.go\<close>, \<^verbatim>\<open>logger_mock.go\<close> and the interface of \<^verbatim>\<open>log.go\<close>; the front end
    with each logger behind it (locale \<open>line_sink\<close>).
  \<^item> \<open>Res\<close>: \<^verbatim>\<open>server_data/res\<close>; a reload replaces all tables or none.
  \<^item> \<open>Mq\<close>, \<open>Kafka\<close>, \<open>Pulsar\<close>: \<^verbatim>\<open>plugin/mq\<close>; the event bus, interceptor lists, and the two clients.
  \<^item> \<open>Mq_Close\<close>: closing the kafka writer and reactor while their loops run (locale \<open>stop_channel\<close>), as
    interleaved steps; a poll returns when the driver has something for it, and not otherwise.  \<open>Mq_Lazy\<close>: the double-checked opening of the pulsar reader and writer by
    concurrent goroutines.  \<open>Mq_Write\<close>: \<open>WriteMessage\<close> of the kafka writer and its goroutine.
  \<^item> \<open>Pbsupport\<close>, \<open>Mysql\<close>, \<open>Redis\<close>: \<^verbatim>\<open>plugin/db\<close>; records as columns and back, the SQL statements, the
    Redis keys, scripts and record operations.
  \<^item> \<open>Record_Store\<close>, \<open>Redis_Store\<close>, \<open>Mysql_Store\<close>: the contract that the comments of \<open>IDBSimpleExecutor\<close>
    (\<^verbatim>\<open>plugin/db/db.go\<close>) state, as operations on a table (locales \<open>table_refinement\<close>, \<open>simple_executor\<close>), and the two plugins as implementations: Redis of
    the documented table, MySQL of a table of rows, with where the two differ.  \<open>Mysql_Read\<close>: reading
    and increasing rows, down to the defaults of the column types.  \<open>Redis_Count\<close>: increases in Redis.
    \<open>Redis_Read\<close>: reading whole records and listed fields of them after any run of operations.
  \<^item> \<open>Factories\<close>: the plugin factories of the transport, the queues, the databases, trpc and the file
    logger (\<^verbatim>\<open>plugin.go\<close> of each plugin), and the application started on them.
  \<^item> \<open>Db_Async\<close>: the asynchronous operations and custom requests of both database plugins, and the
    table of record options.
  \<^item> \<open>Csproto\<close>: the messages of \<^verbatim>\<open>proto/csproto\<close> and the message layer at these types, over a protobuf
    runtime that keeps its documented laws.
  \<^item> \<open>Echo\<close>, \<open>Login\<close>, \<open>Example_Server\<close>: \<^verbatim>\<open>example\<close>; the echo service, the example module and the example
    client with the whole way of a login, and the life of a server from \<open>Init\<close> to \<open>Fini\<close>, with the
    example's module in it.

  \<^bold>\<open>Conventions.\<close>  Structs are records with the fields of the source, global variables of a package
  are a record passed along, and a definition has the name of the function it models, with the
  package or type in front where two functions share a name.  A Go map whose order or size counts
  is an association list.  Where the code ranges over one again and again (modules and plugins), each
  pass takes an order of its own as an argument, a rank of the names; elsewhere the order of the list
  stands for the unspecified iteration order.
  Pointers matter in two places: list nodes of the cache and addresses of loop variables and
  parameters in the queue clients; there they are numbers.  Integers have Go's width where it can
  be left: ids, frame sizes and counters are words, \<open>int64\<close> is written out elsewhere.  An error is
  \<open>Fail\<close>, a panic is \<open>Panic\<close> (or the end of the process, in \<open>App\<close>), and \<open>None\<close> around an outcome is a
  call that does not return.  The clock is an argument of every operation that reads it.

  \<^bold>\<open>Code outside.\<close>  Protobuf, viper, the SQL driver, the Redis and queue drivers, the operating system
  and the sockets are arguments; what a theorem needs of them is an assumption of it (for example
  \<open>hash_server\<close>, \<open>writable\<close>, \<open>handler_obeys\<close>), and its witness gives a concrete instance.

  \<^bold>\<open>Loops.\<close>  No fuel is used.  The loops of the cache and the search for a free log file name are
  \<open>partial_function (option)\<close>, and theorems show that they return.  Loops that wait for events
  (receive, accept, main loop, write loop) are functions of the list of events they get and are
  \<open>None\<close> when the list ends before they return; theorems about them ask for a list that is long
  enough.  Goroutines are modelled where the result depends on them: those of a connection, of the
  queue clients, of the asynchronous logger and of concurrent senders as step relations with reachable states, the main and the signal goroutine of a server likewise, subscriber
  callbacks by the moment they signal, interceptors by the calls they make.

  \<^bold>\<open>What the theorems show.\<close>  Round trips (frames, records in the database, pid file), end-to-end
  delivery and dispatch under every interleaving, events of a connection in order, a receiver that
  ends after a close, a login answered from the client's first byte to its last, the life of a
  server and its end after a quit under every interleaving, loops of the queue clients that end once and in order, objects opened once, refinement of tables of records by the two database plugins and what is read from them, a server that listens as
  its configuration says, log lines that are complete and in order, exact results and eviction of the cache, uniqueness and order of ids,
  order and completeness of starting and ending, and a started server that serves, all-or-nothing reloads, bounds (deadlines,
  capacity, placeholders, publishing time), and, where the code does not do what it means to, the
  exact circumstances: panics on wrapped sizes, double close reports, shared loop variables, the
  blocking event bus, the asynchronous logger that never starts, cleared fields that keep their
  stored value, counters that can no longer be read, frames lost by concurrent sends, close calls that never return, a reload during a frame, a write that
  waits by spinning.

  \<^bold>\<open>Not modelled.\<close>  Vendored code, the trpc, protobuf and driver libraries, the reflection methods of the
  generated messages (calls of the protobuf runtime), interfaces without an implementation, logging
  calls inside other operations, accessors that return a field, and the JSON payload of the example's
  \<open>EventMessage\<close>.
\<close>

end
